(* ===== verification/Go_Prelude.thy ===== *)
theory Go_Prelude
  imports Main
begin

text \<open>
  The part of the Go language and of its standard library that the modelled code uses: fallible
  results, byte strings and the functions of package strings. A Go string is a sequence of bytes,
  here a \<^typ>\<open>string\<close> (a list of 8-bit characters), so \<open>length\<close> is Go's \<open>len\<close>. The
  generic lemmas on lists and strings that the component theories share are collected in
  \<open>go_strings\<close> (facts about the string functions) and \<open>go_results\<close> (facts about
  results).
\<close>

named_theorems go_strings \<open>facts about the functions of package strings\<close>
named_theorems go_results \<open>facts about Go's (value, error) results\<close>

section \<open>Results\<close>

text \<open>A function that returns \<open>(v, error)\<close>: \<open>Inl e\<close> when the error is not nil.\<close>

type_synonym ('e, 'a) result = "'e + 'a"

abbreviation Err :: "'e \<Rightarrow> ('e, 'a) result" where
  "Err \<equiv> Inl"

abbreviation Ok :: "'a \<Rightarrow> ('e, 'a) result" where
  "Ok \<equiv> Inr"

definition is_ok :: "('e, 'a) result \<Rightarrow> bool" where
  "is_ok r = (case r of Inl _ \<Rightarrow> False | Inr _ \<Rightarrow> True)"

lemma is_ok_simps [simp]: "is_ok (Inr v)" "\<not> is_ok (Inl e)"
  by (simp_all add: is_ok_def)

lemma is_ok_iff [go_results]: "is_ok r \<longleftrightarrow> (\<exists>v. r = Inr v)"
  by (cases r) simp_all

text \<open>\<open>if err := f(); err != nil { return err }\<close> followed by the rest.\<close>

definition andThen :: "('e, 'a) result \<Rightarrow> ('a \<Rightarrow> ('e, 'b) result) \<Rightarrow> ('e, 'b) result" where
  "andThen r k = (case r of Inl e \<Rightarrow> Inl e | Inr v \<Rightarrow> k v)"

lemma andThen_simps [simp]: "andThen (Inl e) k = Inl e" "andThen (Inr v) k = k v"
  by (simp_all add: andThen_def)

lemma andThen_Ok [go_results]: "andThen r k = Inr w \<longleftrightarrow> (\<exists>v. r = Inr v \<and> k v = Inr w)"
  by (cases r) simp_all

lemma andThen_Err [go_results]:
  "andThen r k = Inl e \<longleftrightarrow> r = Inl e \<or> (\<exists>v. r = Inr v \<and> k v = Inl e)"
  by (cases r) simp_all

text \<open>A guard: \<open>if bad { return e }\<close>.\<close>

definition guardE :: "bool \<Rightarrow> 'e \<Rightarrow> ('e, unit) result" where
  "guardE bad e = (if bad then Inl e else Inr ())"

lemma guardE_simps [simp]: "guardE False e = Inr ()" "guardE True e = Inl e"
  by (simp_all add: guardE_def)

lemma guardE_Ok [simp]: "guardE b e = Inr u \<longleftrightarrow> \<not> b"
  by (simp add: guardE_def)

lemma guardE_Err [simp]: "guardE b e = Inl e' \<longleftrightarrow> b \<and> e' = e"
  by (auto simp: guardE_def)

text \<open>A loop \<open>for _, x := range xs { if err := f(x); err != nil { return err } }\<close>.\<close>

fun forEach :: "('a \<Rightarrow> ('e, unit) result) \<Rightarrow> 'a list \<Rightarrow> ('e, unit) result" where
  "forEach f [] = Inr ()"
| "forEach f (x # xs) = andThen (f x) (\<lambda>_. forEach f xs)"

lemma forEach_Ok [simp]: "forEach f xs = Inr u \<longleftrightarrow> (\<forall>x \<in> set xs. f x = Inr ())"
  by (induction xs) (auto simp: andThen_Ok)

lemma is_ok_forEach [simp]: "is_ok (forEach f xs) \<longleftrightarrow> (\<forall>x \<in> set xs. is_ok (f x))"
  by (simp add: is_ok_iff)

section \<open>Stateful code that returns an error\<close>

text \<open>
  A function that reads and changes a state and returns \<open>(v, error)\<close>. The state is returned on
  the error path too: what was changed before the error stays changed.
\<close>

type_synonym ('s, 'e, 'a) action = "'s \<Rightarrow> ('e, 'a) result \<times> 's"

definition retS :: "'a \<Rightarrow> ('s, 'e, 'a) action" where
  "retS v s = (Inr v, s)"

definition failS :: "'e \<Rightarrow> ('s, 'e, 'a) action" where
  "failS e s = (Inl e, s)"

text \<open>\<open>v, err := m(); if err != nil { return err }\<close> followed by \<open>k v\<close>.\<close>

definition bindS :: "('s, 'e, 'a) action \<Rightarrow> ('a \<Rightarrow> ('s, 'e, 'b) action) \<Rightarrow> ('s, 'e, 'b) action" where
  "bindS m k s = (case m s of (Inl e, s') \<Rightarrow> (Inl e, s') | (Inr v, s') \<Rightarrow> k v s')"

text \<open>\<open>if bad { return e }\<close>.\<close>

definition guardS :: "bool \<Rightarrow> 'e \<Rightarrow> ('s, 'e, unit) action" where
  "guardS bad e = (if bad then failS e else retS ())"

text \<open>A call whose error is wrapped: \<open>fmt.Errorf("...: %w", err)\<close>.\<close>

definition wrapS :: "('e \<Rightarrow> 'f) \<Rightarrow> ('s, 'e, 'a) action \<Rightarrow> ('s, 'f, 'a) action" where
  "wrapS f m s = (case m s of (Inl e, s') \<Rightarrow> (Inl (f e), s') | (Inr v, s') \<Rightarrow> (Inr v, s'))"

text \<open>A pure result inside stateful code.\<close>

definition liftS :: "('e, 'a) result \<Rightarrow> ('s, 'e, 'a) action" where
  "liftS r s = (r, s)"

text \<open>\<open>defer f()\<close> around the rest of the function.\<close>

definition deferS :: "('s \<Rightarrow> 's) \<Rightarrow> ('s, 'e, 'a) action \<Rightarrow> ('s, 'e, 'a) action" where
  "deferS f m s = (case m s of (r, s') \<Rightarrow> (r, f s'))"

text \<open>\<open>errors.Join(m1(), m2())\<close>: both run, the first error is kept.\<close>

definition joinS :: "('s, 'e, unit) action \<Rightarrow> ('s, 'e, unit) action \<Rightarrow> ('s, 'e, unit) action" where
  "joinS m1 m2 s = (case m1 s of (r1, s1) \<Rightarrow> case m2 s1 of (r2, s2) \<Rightarrow> (if is_ok r1 then r2 else r1, s2))"

lemma action_simps [simp]:
  "retS v s = (Inr v, s)" "failS e s = (Inl e, s)" "liftS r s = (r, s)"
  "guardS True e s = (Inl e, s)" "guardS False e s = (Inr (), s)"
  by (simp_all add: retS_def failS_def liftS_def guardS_def)

lemma bindS_Ok [go_results]:
  "bindS m k s = (Inr w, s2) \<longleftrightarrow> (\<exists>v s1. m s = (Inr v, s1) \<and> k v s1 = (Inr w, s2))"
  by (auto simp: bindS_def split: prod.splits sum.splits)

lemma bindS_Err [go_results]:
  "bindS m k s = (Inl e, s2) \<longleftrightarrow>
     m s = (Inl e, s2) \<or> (\<exists>v s1. m s = (Inr v, s1) \<and> k v s1 = (Inl e, s2))"
  by (auto simp: bindS_def split: prod.splits sum.splits)

lemma bindS_cases:
  assumes "bindS m k s = (r, s')"
  obtains (err) e where "m s = (Inl e, s')" "r = Inl e"
  | (ok) v s1 where "m s = (Inr v, s1)" "k v s1 = (r, s')"
  using assms by (auto simp: bindS_def split: prod.splits sum.splits)

lemma joinS_Ok: "joinS m1 m2 s = (Inr u, s') \<longleftrightarrow> (\<exists>s1. m1 s = (Inr (), s1) \<and> m2 s1 = (Inr (), s'))"
  by (auto simp: joinS_def is_ok_def split: prod.splits sum.splits)

lemma wrap_bindS_cases:
  assumes "bindS (wrapS f m) k s = (r, s')"
  obtains (err) e where "m s = (Inl e, s')" "r = Inl (f e)"
  | (ok) v s1 where "m s = (Inr v, s1)" "k v s1 = (r, s')"
  using assms by (auto simp: bindS_def wrapS_def split: prod.splits sum.splits)

lemma wrapS_Ok [go_results]: "wrapS f m s = (Inr v, s') \<longleftrightarrow> m s = (Inr v, s')"
  by (auto simp: wrapS_def split: prod.splits sum.splits)

lemma wrapS_Err [go_results]: "wrapS f m s = (Inl e, s') \<longleftrightarrow> (\<exists>e'. m s = (Inl e', s') \<and> e = f e')"
  by (auto simp: wrapS_def split: prod.splits sum.splits)

lemma guardS_Ok [go_results]: "guardS b e s = (Inr u, s') \<longleftrightarrow> \<not> b \<and> s' = s"
  by (auto simp: guardS_def)

lemma guardS_Err [go_results]: "guardS b e s = (Inl e', s') \<longleftrightarrow> b \<and> e' = e \<and> s' = s"
  by (auto simp: guardS_def)

text \<open>A relation between the state before and after that holds whatever an action returns.\<close>

definition keeps :: "('s \<Rightarrow> 's \<Rightarrow> bool) \<Rightarrow> ('s, 'e, 'a) action \<Rightarrow> bool" where
  "keeps R m = (\<forall>s. R s (snd (m s)))"

named_theorems keeps_intro \<open>rules that build up keeps\<close>

lemma keeps_retS [keeps_intro]: "reflp R \<Longrightarrow> keeps R (retS v)"
  by (simp add: keeps_def reflp_def)

lemma keeps_failS [keeps_intro]: "reflp R \<Longrightarrow> keeps R (failS e)"
  by (simp add: keeps_def reflp_def)

lemma keeps_liftS [keeps_intro]: "reflp R \<Longrightarrow> keeps R (liftS r)"
  by (simp add: keeps_def reflp_def)

lemma keeps_guardS [keeps_intro]: "reflp R \<Longrightarrow> keeps R (guardS b e)"
  by (cases b) (simp_all add: keeps_def reflp_def)

lemma keeps_wrapS [keeps_intro]: "keeps R m \<Longrightarrow> keeps R (wrapS f m)"
  by (auto simp: keeps_def wrapS_def split: prod.splits sum.splits) (metis snd_conv)+

lemma keeps_bindS [keeps_intro]:
  assumes "transp R" "keeps R m" "\<And>v. keeps R (k v)"
  shows "keeps R (bindS m k)"
  unfolding keeps_def
proof
  fix s
  obtain r s1 where m: "m s = (r, s1)" by fastforce
  have "R s s1" using assms(2) m by (metis keeps_def snd_conv)
  moreover have "R s1 (snd (k v s1))" for v using assms(3) by (simp add: keeps_def)
  ultimately show "R s (snd (bindS m k s))"
    using assms(1) m by (cases r) (auto simp: bindS_def elim: transpE)
qed

lemma keeps_deferS [keeps_intro]:
  "transp R \<Longrightarrow> (\<And>s. R s (f s)) \<Longrightarrow> keeps R m \<Longrightarrow> keeps R (deferS f m)"
  by (auto simp: keeps_def deferS_def split: prod.splits elim: transpE) (metis snd_conv transpE)

lemma keeps_joinS [keeps_intro]: "transp R \<Longrightarrow> keeps R m1 \<Longrightarrow> keeps R m2 \<Longrightarrow> keeps R (joinS m1 m2)"
  unfolding keeps_def joinS_def by (auto split: prod.splits) (metis snd_conv transpE)

lemma keepsI: "(\<And>s. R s (snd (m s))) \<Longrightarrow> keeps R m"
  by (simp add: keeps_def)

lemma keeps_mono: "keeps Q m \<Longrightarrow> (\<And>s s'. Q s s' \<Longrightarrow> R s s') \<Longrightarrow> keeps R m"
  by (simp add: keeps_def)

lemma keepsD: "keeps R m \<Longrightarrow> m s = (r, s') \<Longrightarrow> R s s'"
  by (metis keeps_def snd_conv)

section \<open>Bytes\<close>

abbreviation byte :: "char \<Rightarrow> nat" where
  "byte c \<equiv> of_char c"

definition in_range :: "nat \<Rightarrow> nat \<Rightarrow> char \<Rightarrow> bool" where
  "in_range lo hi c = (lo \<le> byte c \<and> byte c \<le> hi)"

definition is_digit :: "char \<Rightarrow> bool" where
  "is_digit = in_range 48 57"

definition is_upper :: "char \<Rightarrow> bool" where
  "is_upper = in_range 65 90"

definition is_lower :: "char \<Rightarrow> bool" where
  "is_lower = in_range 97 122"

definition is_alnum :: "char \<Rightarrow> bool" where
  "is_alnum c = (is_digit c \<or> is_upper c \<or> is_lower c)"

definition is_ascii :: "char \<Rightarrow> bool" where
  "is_ascii c = (byte c < 128)"

lemmas byte_class_defs = in_range_def is_digit_def is_upper_def is_lower_def is_alnum_def is_ascii_def

abbreviation NL :: char where "NL \<equiv> CHR 0x0A"
abbreviation CR :: char where "CR \<equiv> CHR 0x0D"
abbreviation NUL :: char where "NUL \<equiv> CHR 0x00"
abbreviation TAB :: char where "TAB \<equiv> CHR 0x09"
abbreviation SPACE :: char where "SPACE \<equiv> CHR 0x20"
abbreviation BACKSLASH :: char where "BACKSLASH \<equiv> CHR 0x5C"
abbreviation SLASH :: char where "SLASH \<equiv> CHR 0x2F"

section \<open>Package strings\<close>

definition HasPrefix :: "string \<Rightarrow> string \<Rightarrow> bool" where
  "HasPrefix s p = (take (length p) s = p)"

definition HasSuffix :: "string \<Rightarrow> string \<Rightarrow> bool" where
  "HasSuffix s p = (length p \<le> length s \<and> drop (length s - length p) s = p)"

fun Contains :: "string \<Rightarrow> string \<Rightarrow> bool" where
  "Contains [] sub = (sub = [])"
| "Contains (c # s) sub = (HasPrefix (c # s) sub \<or> Contains s sub)"

definition ContainsAny :: "string \<Rightarrow> string \<Rightarrow> bool" where
  "ContainsAny s chars = list_ex (\<lambda>c. c \<in> set chars) s"

definition TrimPrefix :: "string \<Rightarrow> string \<Rightarrow> string" where
  "TrimPrefix s p = (if HasPrefix s p then drop (length p) s else s)"

definition TrimSuffix :: "string \<Rightarrow> string \<Rightarrow> string" where
  "TrimSuffix s p = (if HasSuffix s p then take (length s - length p) s else s)"

text \<open>\<open>strings.Index\<close> of a single byte.\<close>

fun IndexByte :: "char \<Rightarrow> string \<Rightarrow> nat option" where
  "IndexByte c [] = None"
| "IndexByte c (x # s) = (if x = c then Some 0 else map_option Suc (IndexByte c s))"

lemma IndexByte_None: "IndexByte c s = None \<longleftrightarrow> c \<notin> set s"
  by (induction s) auto

lemma IndexByte_Some: "IndexByte c s = Some i \<Longrightarrow> i < length s \<and> s ! i = c \<and> c \<notin> set (take i s)"
proof (induction s arbitrary: i)
  case (Cons x s)
  then show ?case by (cases i) (auto split: if_splits)
qed simp

text \<open>The lines that \<open>bufio.Scanner\<close> with its default buffer delivers: it stops before a line of
  64 KiB or more, and drops a final carriage return of each line.\<close>

fun rawLines :: "string \<Rightarrow> string \<Rightarrow> string list" where
  "rawLines cur [] = (if cur = [] then [] else [rev cur])"
| "rawLines cur (c # s) = (if c = NL then rev cur # rawLines [] s else rawLines (c # cur) s)"

definition dropCR :: "string \<Rightarrow> string" where
  "dropCR l = (if l \<noteq> [] \<and> last l = CR then butlast l else l)"

definition scanLines :: "string \<Rightarrow> string list" where
  "scanLines s = map dropCR (takeWhile (\<lambda>l. length l < 65536) (rawLines [] s))"

text \<open>\<open>strings.Split\<close> with a one-byte separator: always at least one element.\<close>

fun Split :: "char \<Rightarrow> string \<Rightarrow> string list" where
  "Split c [] = [[]]"
| "Split c (x # s) =
     (if x = c then [] # Split c s
      else (case Split c s of [] \<Rightarrow> [[x]] | p # ps \<Rightarrow> (x # p) # ps))"

text \<open>\<open>strings.SplitN(s, sep, 2)\<close>: the part before the first separator and the rest, if any.\<close>

definition SplitN2 :: "char \<Rightarrow> string \<Rightarrow> string list" where
  "SplitN2 c s = (let p = takeWhile (\<lambda>x. x \<noteq> c) s
                  in if length p = length s then [s] else [p, drop (Suc (length p)) s])"

fun Join :: "string \<Rightarrow> string list \<Rightarrow> string" where
  "Join sep [] = []"
| "Join sep [x] = x"
| "Join sep (x # y # ys) = x @ sep @ Join sep (y # ys)"

text \<open>
  \<open>unicode.IsSpace\<close> on the UTF-8 encoding: the number of bytes of the space character that
  starts (ends) a string, 0 when it starts (ends) with something else. ASCII spaces take one byte,
  U+0085 and U+00A0 two, and U+1680, U+2000 to U+200A, U+2028, U+2029, U+202F, U+205F and U+3000
  three. Lead bytes never occur inside another encoded character, so matching bytes at every
  position agrees with decoding characters from left to right.
\<close>

definition ascii_space :: "char \<Rightarrow> bool" where
  "ascii_space c = (byte c = 32 \<or> in_range 9 13 c)"

fun wide_space2 :: "string \<Rightarrow> bool" where
  "wide_space2 [a, b] = (byte a = 0xC2 \<and> (byte b = 0x85 \<or> byte b = 0xA0))"
| "wide_space2 _ = False"

fun wide_space3 :: "string \<Rightarrow> bool" where
  "wide_space3 [a, b, c] =
     ((byte a = 0xE1 \<and> byte b = 0x9A \<and> byte c = 0x80) \<or>
      (byte a = 0xE2 \<and> byte b = 0x80 \<and>
        (in_range 0x80 0x8A c \<or> byte c = 0xA8 \<or> byte c = 0xA9 \<or> byte c = 0xAF)) \<or>
      (byte a = 0xE2 \<and> byte b = 0x81 \<and> byte c = 0x9F) \<or>
      (byte a = 0xE3 \<and> byte b = 0x80 \<and> byte c = 0x80))"
| "wide_space3 _ = False"

definition space_width :: "string \<Rightarrow> nat" where
  "space_width s =
     (case s of [] \<Rightarrow> 0
      | c # _ \<Rightarrow> if ascii_space c then 1
                 else if wide_space2 (take 2 s) then 2
                 else if wide_space3 (take 3 s) then 3 else 0)"

lemma wide_space2_length: "wide_space2 s \<Longrightarrow> length s = 2"
  by (cases s rule: wide_space2.cases) auto

lemma wide_space3_length: "wide_space3 s \<Longrightarrow> length s = 3"
  by (cases s rule: wide_space3.cases) auto

lemma space_width_le: "space_width s \<le> length s"
  using wide_space2_length [of "take 2 s"] wide_space3_length [of "take 3 s"]
  by (auto simp: space_width_def split: list.splits if_splits)

lemma space_width_Nil [simp]: "space_width [] = 0"
  by (simp add: space_width_def)

definition space_suffix_width :: "string \<Rightarrow> nat" where
  "space_suffix_width s =
     (if s = [] then 0 else if ascii_space (last s) then 1
      else if wide_space2 (drop (length s - 2) s) then 2
      else if wide_space3 (drop (length s - 3) s) then 3 else 0)"

lemma space_suffix_width_Nil [simp]: "space_suffix_width [] = 0"
  by (simp add: space_suffix_width_def)

lemma space_width_pos: "0 < space_width s \<Longrightarrow> s \<noteq> []"
  by auto

lemma space_suffix_width_pos: "0 < space_suffix_width s \<Longrightarrow> s \<noteq> []"
  by auto

function TrimLeftSpace :: "string \<Rightarrow> string" where
  "TrimLeftSpace s = (if space_width s = 0 then s else TrimLeftSpace (drop (space_width s) s))"
  by pat_completeness auto
termination
  by (relation "measure length") (auto simp: space_width_pos)

function TrimRightSpace :: "string \<Rightarrow> string" where
  "TrimRightSpace s =
     (if space_suffix_width s = 0 then s
      else TrimRightSpace (take (length s - space_suffix_width s) s))"
  by pat_completeness auto
termination
  by (relation "measure length") (auto simp: space_suffix_width_pos)

declare TrimLeftSpace.simps [simp del] TrimRightSpace.simps [simp del]

definition TrimSpace :: "string \<Rightarrow> string" where
  "TrimSpace s = TrimRightSpace (TrimLeftSpace s)"

lemma set_TrimLeftSpace: "set (TrimLeftSpace s) \<subseteq> set s"
proof (induction s rule: TrimLeftSpace.induct)
  case (1 s)
  then show ?case
    using set_drop_subset [of "space_width s" s] by (auto simp: TrimLeftSpace.simps [of s])
qed

lemma set_TrimRightSpace: "set (TrimRightSpace s) \<subseteq> set s"
proof (induction s rule: TrimRightSpace.induct)
  case (1 s)
  then show ?case
    using set_take_subset [of "length s - space_suffix_width s" s]
    by (auto simp: TrimRightSpace.simps [of s])
qed

lemma set_TrimSpace [go_strings]: "set (TrimSpace s) \<subseteq> set s"
  unfolding TrimSpace_def using set_TrimLeftSpace set_TrimRightSpace by blast

lemma length_TrimLeftSpace: "length (TrimLeftSpace s) \<le> length s"
  by (induction s rule: TrimLeftSpace.induct) (subst TrimLeftSpace.simps, auto)

text \<open>\<open>strings.Fields\<close>: the maximal runs of bytes that are not part of a space.\<close>

fun takeField :: "string \<Rightarrow> string \<times> string" where
  "takeField [] = ([], [])"
| "takeField (c # s) =
     (if space_width (c # s) > 0 then ([], c # s)
      else let (f, r) = takeField s in (c # f, r))"

lemma takeField_length: "length (snd (takeField s)) \<le> length s"
  by (induction s) (auto simp: Let_def split: prod.splits)

lemma takeField_append: "fst (takeField s) @ snd (takeField s) = s"
  by (induction s) (auto simp: Let_def split: prod.splits)

function Fields :: "string \<Rightarrow> string list" where
  "Fields s =
     (case TrimLeftSpace s of [] \<Rightarrow> []
      | c # t \<Rightarrow> (c # fst (takeField t)) # Fields (snd (takeField t)))"
  by pat_completeness auto
termination
proof (relation "measure length", simp)
  fix s c t
  assume "TrimLeftSpace s = c # t"
  then have "length t < length s"
    using length_TrimLeftSpace [of s] by simp
  then show "(snd (takeField t), s) \<in> measure length"
    using takeField_length [of t] by simp
qed

declare Fields.simps [simp del]

text \<open>
  \<open>strings.ToLower\<close>. ASCII letters are mapped; the two other characters whose lower case is
  an ASCII letter (U+212A and U+0130) give that letter. The remaining bytes of non-ASCII characters
  are kept as they are: the modelled code only compares the result with ASCII literals.
\<close>

definition lower_byte :: "char \<Rightarrow> char" where
  "lower_byte c = (if is_upper c then char_of (byte c + 32) else c)"

definition kelvin_sign :: string where
  "kelvin_sign = [CHR 0xE2, CHR 0x84, CHR 0xAA]"

definition dotted_I :: string where
  "dotted_I = [CHR 0xC4, CHR 0xB0]"

function ToLower :: "string \<Rightarrow> string" where
  "ToLower s =
     (case s of [] \<Rightarrow> []
      | c # t \<Rightarrow> if HasPrefix s kelvin_sign then CHR ''k'' # ToLower (drop 3 s)
                 else if HasPrefix s dotted_I then CHR ''i'' # ToLower (drop 2 s)
                 else lower_byte c # ToLower t)"
  by pat_completeness auto
termination
  by (relation "measure length") auto

declare ToLower.simps [simp del]

text \<open>\<open>strings.EqualFold\<close> against an ASCII literal that contains neither k nor s.\<close>

definition EqualFold :: "string \<Rightarrow> string \<Rightarrow> bool" where
  "EqualFold s lit = (map lower_byte s = map lower_byte lit)"

text \<open>\<open>strconv.Atoi\<close> on a 64-bit platform: None is its error.\<close>

fun digits_value :: "int \<Rightarrow> string \<Rightarrow> int option" where
  "digits_value acc [] = Some acc"
| "digits_value acc (c # s) =
     (if is_digit c then digits_value (10 * acc + (int (byte c) - 48)) s else None)"

definition Atoi :: "string \<Rightarrow> int option" where
  "Atoi s =
     (let neg = HasPrefix s ''-'';
          ds = (if neg \<or> HasPrefix s ''+'' then drop 1 s else s)
      in if ds = [] then None
         else case digits_value 0 ds of None \<Rightarrow> None
              | Some n \<Rightarrow> let v = (if neg then - n else n)
                          in if - (2 ^ 63) \<le> v \<and> v < 2 ^ 63 then Some v else None)"

text \<open>\<open>strconv.Itoa\<close>.\<close>

fun nat_digits :: "nat \<Rightarrow> string" where
  "nat_digits n = (if n < 10 then [char_of (48 + n)] else nat_digits (n div 10) @ [char_of (48 + n mod 10)])"

declare nat_digits.simps [simp del]

definition Itoa :: "int \<Rightarrow> string" where
  "Itoa n = (if n < 0 then CHR ''-'' # nat_digits (nat (- n)) else nat_digits (nat n))"

subsection \<open>Facts about the string functions\<close>

lemma HasPrefix_iff [go_strings]: "HasPrefix s p \<longleftrightarrow> (\<exists>t. s = p @ t)"
  unfolding HasPrefix_def by (metis append_eq_conv_conj append_take_drop_id)

lemma HasPrefix_refl [simp]: "HasPrefix s s"
  by (simp add: HasPrefix_def)

lemma HasPrefix_Nil [simp]: "HasPrefix s []"
  by (simp add: HasPrefix_def)

lemma HasPrefix_append [simp]: "HasPrefix (p @ t) p"
  by (simp add: HasPrefix_def)

lemma HasPrefix_trans: "HasPrefix s p \<Longrightarrow> HasPrefix p q \<Longrightarrow> HasPrefix s q"
  by (auto simp: HasPrefix_iff)

lemma HasSuffix_iff [go_strings]: "HasSuffix s p \<longleftrightarrow> (\<exists>t. s = t @ p)"
  unfolding HasSuffix_def by (metis append_eq_conv_conj append_take_drop_id diff_add_inverse2
      le_add2 length_append)

lemma Contains_iff [go_strings]: "Contains s sub \<longleftrightarrow> (\<exists>a b. s = a @ sub @ b)"
proof (induction s)
  case (Cons c s)
  have "HasPrefix (c # s) sub \<or> (\<exists>a b. s = a @ sub @ b) \<longleftrightarrow> (\<exists>a b. c # s = a @ sub @ b)"
    by (auto simp: HasPrefix_iff Cons_eq_append_conv)
  with Cons show ?case by simp
qed simp

lemma Contains_singleton: "Contains s [c] \<longleftrightarrow> c \<in> set s"
  by (auto simp: Contains_iff in_set_conv_decomp)

lemma Contains_mono: "Contains s sub \<Longrightarrow> Contains (a @ s @ b) sub"
  unfolding Contains_iff by (metis append.assoc)

lemma Contains_append2:
  "Contains (a @ b) [x, y] \<longleftrightarrow>
     Contains a [x, y] \<or> Contains b [x, y] \<or> (a \<noteq> [] \<and> b \<noteq> [] \<and> last a = x \<and> hd b = y)"
proof (induction a)
  case (Cons c a)
  then show ?case
    by (cases a; cases b) (auto simp: HasPrefix_def)
qed simp

lemma ContainsAny_iff [go_strings]: "ContainsAny s chars \<longleftrightarrow> set s \<inter> set chars \<noteq> {}"
  by (auto simp: ContainsAny_def list_ex_iff)

lemma Split_not_Nil [simp]: "Split c s \<noteq> []"
  by (induction s) (auto split: list.splits)

lemma Split_no_sep: "p \<in> set (Split c s) \<Longrightarrow> c \<notin> set p"
  by (induction s arbitrary: p) (force split: if_splits list.splits)+

lemma Split_single: "c \<notin> set s \<Longrightarrow> Split c s = [s]"
  by (induction s) auto

lemma Split_append: "c \<notin> set p \<Longrightarrow> Split c (p @ c # s) = p # Split c s"
  by (induction p) (auto split: list.splits)

lemma Split_subset: "p \<in> set (Split c s) \<Longrightarrow> set p \<subseteq> set s"
  by (induction s arbitrary: p) (force split: if_splits list.splits)+

lemma Join_Split [simp]: "Join [c] (Split c s) = s"
proof (induction s)
  case (Cons x s)
  then show ?case by (cases "Split c s"; cases "tl (Split c s)") auto
qed simp

lemma Split_append_gen: "Split c (p @ c # s) = Split c p @ Split c s"
  by (induction p) (auto split: list.splits)

lemma Split_Contains: "p \<in> set (Split c s) \<Longrightarrow> Contains s p"
proof (induction s arbitrary: p)
  case (Cons x s)
  then show ?case
  proof (cases "x = c")
    case False
    obtain q qs where q: "Split c s = q # qs" by (cases "Split c s") auto
    have "HasPrefix s q"
      using q by (metis HasPrefix_append HasPrefix_refl Join.simps(2) Join.simps(3) Join_Split
          neq_Nil_conv)
    then show ?thesis
      using Cons False q by (auto simp: HasPrefix_def)
  qed auto
qed simp

lemma Split_Join:
  "xs \<noteq> [] \<Longrightarrow> \<forall>x \<in> set xs. c \<notin> set x \<Longrightarrow> Split c (Join [c] xs) = xs"
proof (induction xs)
  case (Cons x xs)
  then show ?case
    by (cases xs) (auto simp: Split_single Split_append)
qed simp

lemma Join_append: "xs \<noteq> [] \<Longrightarrow> ys \<noteq> [] \<Longrightarrow> Join sep (xs @ ys) = Join sep xs @ sep @ Join sep ys"
proof (induction xs)
  case (Cons x xs)
  then show ?case by (cases xs; cases ys) auto
qed simp

lemma Join_Nil_iff: "\<forall>x \<in> set xs. x \<noteq> [] \<Longrightarrow> Join sep xs = [] \<longleftrightarrow> xs = []"
  by (induction sep xs rule: Join.induct) auto

lemma set_Join: "set (Join sep xs) \<subseteq> set sep \<union> \<Union> (set ` set xs)"
  by (induction sep xs rule: Join.induct) auto

subsection \<open>Decimal numbers\<close>

lemma digits_value_append:
  "digits_value acc (s @ t) = (case digits_value acc s of None \<Rightarrow> None | Some v \<Rightarrow> digits_value v t)"
  by (induction s arbitrary: acc) auto

lemma digit_char: "d < 10 \<Longrightarrow> is_digit (char_of (48 + d)) \<and> int (byte (char_of (48 + d) :: char)) - 48 = int d"
  by (simp add: is_digit_def in_range_def)

lemma digits_value_nat_digits: "digits_value 0 (nat_digits n) = Some (int n)"
proof (induction n rule: nat_digits.induct)
  case (1 n)
  show ?case
  proof (cases "n < 10")
    case True
    then show ?thesis using digit_char [of n] by (simp add: nat_digits.simps [of n])
  next
    case False
    have "10 * int (n div 10) + int (n mod 10) = int n"
      by (metis mult_div_mod_eq of_nat_add of_nat_mult of_nat_numeral)
    then show ?thesis
      using 1 False digit_char [of "n mod 10"] by (simp add: nat_digits.simps [of n] digits_value_append)
  qed
qed

lemma nat_digits_chars: "c \<in> set (nat_digits n) \<Longrightarrow> is_digit c"
proof (induction n rule: nat_digits.induct)
  case (1 n)
  then show ?case
    using digit_char [of n] digit_char [of "n mod 10"] nat_digits.simps [of n] by (auto split: if_splits)
qed

lemma nat_digits_not_Nil [simp]: "nat_digits n \<noteq> []"
  by (subst nat_digits.simps) simp

lemma Atoi_Itoa: "- (2 ^ 63) \<le> n \<Longrightarrow> n < 2 ^ 63 \<Longrightarrow> Atoi (Itoa n) = Some n"
proof -
  assume b: "- (2 ^ 63) \<le> n" "n < 2 ^ 63"
  have "\<not> HasPrefix (nat_digits k) ''-''" "\<not> HasPrefix (nat_digits k) ''+''" for k
    using nat_digits_chars [of "hd (nat_digits k)" k] nat_digits_not_Nil [of k]
    by (cases "nat_digits k"; auto simp: HasPrefix_def byte_class_defs)+
  then show ?thesis
    using b by (auto simp: Atoi_def Itoa_def Let_def digits_value_nat_digits HasPrefix_def)
qed

section \<open>Layout\<close>

text \<open>Two texts that differ only in which ASCII space they use.\<close>

definition same_layout :: "string \<Rightarrow> string \<Rightarrow> bool" where
  "same_layout = list_all2 (\<lambda>x y. x = y \<or> ascii_space x \<and> ascii_space y)"

lemma byte_layout:
  assumes "x = y \<or> ascii_space x \<and> ascii_space y"
  shows "128 \<le> k \<Longrightarrow> (byte x = k) = (byte y = k)" "128 \<le> k \<Longrightarrow> in_range k n x = in_range k n y"
  using assms by (auto simp: ascii_space_def in_range_def)

lemma wide_layout:
  assumes "same_layout s t"
  shows "wide_space2 s = wide_space2 t" "wide_space3 s = wide_space3 t"
proof -
  have l: "length s = length t" "\<And>i. i < length s \<Longrightarrow> s ! i = t ! i \<or> ascii_space (s ! i) \<and> ascii_space (t ! i)"
    using assms by (auto simp: same_layout_def list_all2_conv_all_nth)
  show "wide_space2 s = wide_space2 t"
  proof (cases "length s = 2")
    case True
    obtain a b where "s = [a, b]" using True by (cases s rule: wide_space2.cases) auto
    moreover obtain x y where "t = [x, y]" using True l(1) by (cases t rule: wide_space2.cases) auto
    ultimately show ?thesis using byte_layout [OF l(2), of 0] byte_layout [OF l(2), of 1] by simp
  qed (use l(1) wide_space2_length [of s] wide_space2_length [of t] in auto)
  show "wide_space3 s = wide_space3 t"
  proof (cases "length s = 3")
    case True
    obtain a b c where "s = [a, b, c]" using True by (cases s rule: wide_space3.cases) auto
    moreover obtain x y z where "t = [x, y, z]" using True l(1) by (cases t rule: wide_space3.cases) auto
    ultimately show ?thesis
      using byte_layout [OF l(2), of 0] byte_layout [OF l(2), of 1] byte_layout [OF l(2), of 2] by simp
  qed (use l(1) wide_space3_length [of s] wide_space3_length [of t] in auto)
qed

lemma space_width_layout:
  assumes "same_layout s t" shows "space_width s = space_width t"
proof -
  have "same_layout (take n s) (take n t)" for n using assms by (simp add: same_layout_def list_all2_takeI)
  then have "wide_space2 (take 2 s) = wide_space2 (take 2 t)" "wide_space3 (take 3 s) = wide_space3 (take 3 t)"
    using wide_layout by blast+
  then show ?thesis using assms by (cases s; cases t) (auto simp: space_width_def same_layout_def)
qed

lemma drop_layout: "same_layout s t \<Longrightarrow> same_layout (drop n s) (drop n t)"
  by (simp add: same_layout_def list_all2_dropI)

lemma TrimLeft_layout: "same_layout s t \<Longrightarrow> same_layout (TrimLeftSpace s) (TrimLeftSpace t)"
proof (induction s arbitrary: t rule: TrimLeftSpace.induct)
  case (1 s)
  then show ?case
    using space_width_layout [OF "1.prems"] drop_layout [OF "1.prems"]
    by (simp add: TrimLeftSpace.simps [of s] TrimLeftSpace.simps [of t])
qed

lemma takeField_layout:
  "same_layout s t \<Longrightarrow> fst (takeField s) = fst (takeField t) \<and> same_layout (snd (takeField s)) (snd (takeField t))"
proof (induction s arbitrary: t)
  case (Cons a s)
  then obtain b t1 where t: "t = b # t1" "a = b \<or> ascii_space a \<and> ascii_space b" "same_layout s t1"
    by (auto simp: same_layout_def list_all2_Cons1)
  have w: "space_width (a # s) = space_width t" using Cons.prems by (rule space_width_layout)
  show ?case
  proof (cases "space_width (a # s) > 0")
    case True
    then show ?thesis using w t(1) Cons.prems by simp
  next
    case False
    then have "a = b" using t(2) by (auto simp: space_width_def split: if_splits)
    then show ?thesis using Cons.IH [OF t(3)] w t(1) False by (auto simp: Let_def split: prod.splits)
  qed
qed (simp add: same_layout_def)

lemma TrimLeftSpace_start: "space_width (TrimLeftSpace s) = 0"
  by (induction s rule: TrimLeftSpace.induct) (subst TrimLeftSpace.simps, simp)

lemma Fields_layout: "same_layout s t \<Longrightarrow> Fields s = Fields t"
proof (induction s arbitrary: t rule: Fields.induct)
  case (1 s)
  note tl = TrimLeft_layout [OF "1.prems"]
  show ?case
  proof (cases "TrimLeftSpace s")
    case Nil
    then show ?thesis using tl by (simp add: Fields.simps [of s] Fields.simps [of t] same_layout_def)
  next
    case (Cons c r)
    then obtain d q where t: "TrimLeftSpace t = d # q" "c = d \<or> ascii_space c \<and> ascii_space d" "same_layout r q"
      using tl by (auto simp: same_layout_def list_all2_Cons1)
    have "space_width (c # r) = 0"
      using Cons TrimLeftSpace_start [of s] by simp
    then have "c = d" using t(2) by (auto simp: space_width_def split: if_splits)
    then show ?thesis
      using takeField_layout [OF t(3)] "1.IH" [OF Cons] t(1) Cons
      by (simp add: Fields.simps [of s] Fields.simps [of t])
  qed
qed

end
