(* ===== verification/Go_Regexp.thy ===== *)
theory Go_Regexp
  imports Go_Prelude
begin

text \<open>
  The regular expressions of package regexp that the validators use, as data, so that a pattern of
  the source is transcribed operator by operator. \<open>in_lang\<close> is what a fully anchored pattern
  (\<open>^...$\<close>, without flags) denotes and \<open>MatchString\<close> an executable matcher by
  derivatives; \<open>MatchString_iff\<close> shows that they agree. Classes are predicates on bytes: every
  class of the modelled patterns is an ASCII class, so a byte outside ASCII matches none of them.
\<close>

datatype rexp =
    RZero
  | ROne
  | RCls "char \<Rightarrow> bool"
  | RSeq rexp rexp
  | RAlt rexp rexp
  | RStar rexp
  | RUpto nat rexp

inductive in_lang :: "rexp \<Rightarrow> string \<Rightarrow> bool" where
  one: "in_lang ROne []"
| cls: "p c \<Longrightarrow> in_lang (RCls p) [c]"
| seq: "in_lang r s \<Longrightarrow> in_lang q t \<Longrightarrow> in_lang (RSeq r q) (s @ t)"
| alt1: "in_lang r s \<Longrightarrow> in_lang (RAlt r q) s"
| alt2: "in_lang q s \<Longrightarrow> in_lang (RAlt r q) s"
| star0: "in_lang (RStar r) []"
| star: "in_lang r s \<Longrightarrow> in_lang (RStar r) t \<Longrightarrow> in_lang (RStar r) (s @ t)"
| upto0: "in_lang (RUpto n r) []"
| upto: "in_lang r s \<Longrightarrow> in_lang (RUpto n r) t \<Longrightarrow> in_lang (RUpto (Suc n) r) (s @ t)"

text \<open>\<open>r+\<close>, \<open>r?\<close> and a literal.\<close>

definition RPlus :: "rexp \<Rightarrow> rexp" where
  "RPlus r = RSeq r (RStar r)"

definition ROpt :: "rexp \<Rightarrow> rexp" where
  "ROpt r = RAlt ROne r"

fun RLit :: "string \<Rightarrow> rexp" where
  "RLit [] = ROne"
| "RLit (c # s) = RSeq (RCls (\<lambda>x. x = c)) (RLit s)"

text \<open>A class: ranges of bytes and single bytes, as in \<open>[A-Za-z0-9_.-]\<close>.\<close>

definition Class :: "(char \<Rightarrow> bool) list \<Rightarrow> string \<Rightarrow> char \<Rightarrow> bool" where
  "Class ranges single c = (list_ex (\<lambda>p. p c) ranges \<or> c \<in> set single)"

fun RRep :: "nat \<Rightarrow> rexp \<Rightarrow> rexp" where
  "RRep 0 r = ROne"
| "RRep (Suc n) r = RSeq r (RRep n r)"

section \<open>The matcher\<close>

fun nullable :: "rexp \<Rightarrow> bool" where
  "nullable RZero = False"
| "nullable ROne = True"
| "nullable (RCls p) = False"
| "nullable (RSeq r q) = (nullable r \<and> nullable q)"
| "nullable (RAlt r q) = (nullable r \<or> nullable q)"
| "nullable (RStar r) = True"
| "nullable (RUpto n r) = True"

fun mkSeq :: "rexp \<Rightarrow> rexp \<Rightarrow> rexp" where
  "mkSeq RZero q = RZero"
| "mkSeq ROne q = q"
| "mkSeq r q = RSeq r q"

fun mkAlt :: "rexp \<Rightarrow> rexp \<Rightarrow> rexp" where
  "mkAlt RZero q = q"
| "mkAlt r RZero = r"
| "mkAlt r q = RAlt r q"

fun deriv :: "char \<Rightarrow> rexp \<Rightarrow> rexp" where
  "deriv c RZero = RZero"
| "deriv c ROne = RZero"
| "deriv c (RCls p) = (if p c then ROne else RZero)"
| "deriv c (RSeq r q) =
     (if nullable r then mkAlt (mkSeq (deriv c r) q) (deriv c q) else mkSeq (deriv c r) q)"
| "deriv c (RAlt r q) = mkAlt (deriv c r) (deriv c q)"
| "deriv c (RStar r) = mkSeq (deriv c r) (RStar r)"
| "deriv c (RUpto 0 r) = RZero"
| "deriv c (RUpto (Suc n) r) = mkSeq (deriv c r) (RUpto n r)"

fun MatchString :: "rexp \<Rightarrow> string \<Rightarrow> bool" where
  "MatchString r [] = nullable r"
| "MatchString r (c # s) = MatchString (deriv c r) s"

section \<open>The matcher decides the language\<close>

inductive_cases in_lang_ZeroE [elim!]: "in_lang RZero s"
inductive_cases in_lang_OneE [elim!]: "in_lang ROne s"
inductive_cases in_lang_ClsE [elim!]: "in_lang (RCls p) s"
inductive_cases in_lang_SeqE [elim!]: "in_lang (RSeq r q) s"
inductive_cases in_lang_AltE [elim!]: "in_lang (RAlt r q) s"
inductive_cases in_lang_UptoE: "in_lang (RUpto n r) s"
inductive_cases in_lang_Upto0E [elim!]: "in_lang (RUpto 0 r) s"

declare in_lang.intros [intro]

lemma in_lang_Seq: "in_lang (RSeq r q) s \<longleftrightarrow> (\<exists>a b. s = a @ b \<and> in_lang r a \<and> in_lang q b)"
  by blast

lemma in_lang_One [simp]: "in_lang ROne s \<longleftrightarrow> s = []"
  by blast

lemma in_lang_Zero [simp]: "\<not> in_lang RZero s"
  by blast

lemma in_lang_Cls [simp]: "in_lang (RCls p) s \<longleftrightarrow> (\<exists>c. s = [c] \<and> p c)"
  by blast

lemma in_lang_Alt [simp]: "in_lang (RAlt r q) s \<longleftrightarrow> in_lang r s \<or> in_lang q s"
  by blast

lemma nullable_iff: "nullable r \<longleftrightarrow> in_lang r []"
  by (induction r) (auto simp: in_lang_Seq)

lemma in_lang_mkSeq [simp]: "in_lang (mkSeq r q) s \<longleftrightarrow> in_lang (RSeq r q) s"
  by (cases r) (auto simp: in_lang_Seq)

lemma in_lang_mkAlt [simp]: "in_lang (mkAlt r q) s \<longleftrightarrow> in_lang (RAlt r q) s"
  by (cases r; cases q) auto

lemma in_lang_Upto_mono: "in_lang (RUpto n r) s \<Longrightarrow> in_lang (RUpto (Suc n) r) s"
proof (induction "RUpto n r" s arbitrary: n rule: in_lang.induct)
  case (upto s n' t)
  then show ?case using in_lang.upto [of r s "Suc n'" t] by simp
qed auto

lemma in_lang_Star_ConsD:
  "in_lang q u \<Longrightarrow> q = RStar r \<Longrightarrow> u = c # s \<Longrightarrow>
     \<exists>a b. s = a @ b \<and> in_lang r (c # a) \<and> in_lang (RStar r) b"
proof (induction q u arbitrary: s rule: in_lang.induct)
  case (star q a b)
  then show ?case by (cases a) auto
qed auto

lemma in_lang_Star_Cons:
  "in_lang (RStar r) (c # s) \<longleftrightarrow>
     (\<exists>a b. s = a @ b \<and> in_lang r (c # a) \<and> in_lang (RStar r) b)"
  using in_lang_Star_ConsD in_lang.star [of r "c # _"] by force

lemma in_lang_Upto_ConsD:
  "in_lang q u \<Longrightarrow> q = RUpto n r \<Longrightarrow> u = c # s \<Longrightarrow>
     \<exists>m a b. n = Suc m \<and> s = a @ b \<and> in_lang r (c # a) \<and> in_lang (RUpto m r) b"
proof (induction q u arbitrary: s n rule: in_lang.induct)
  case (upto q a k b)
  show ?case
  proof (cases a)
    case Nil
    with upto obtain m a' b' where
      "k = Suc m" "s = a' @ b'" "in_lang r (c # a')" "in_lang (RUpto m r) b'" by auto
    with upto show ?thesis using in_lang_Upto_mono by blast
  qed (use upto in auto)
qed auto

lemma in_lang_Upto_Cons:
  "in_lang (RUpto n r) (c # s) \<longleftrightarrow>
     (\<exists>m a b. n = Suc m \<and> s = a @ b \<and> in_lang r (c # a) \<and> in_lang (RUpto m r) b)"
  using in_lang_Upto_ConsD in_lang.upto [of r "c # _"] by force

lemma in_lang_deriv: "in_lang (deriv c r) s \<longleftrightarrow> in_lang r (c # s)"
proof (induction c r arbitrary: s rule: deriv.induct)
  case (4 c r q)
  have "in_lang (RSeq r q) (c # s) \<longleftrightarrow>
      (nullable r \<and> in_lang q (c # s)) \<or> (\<exists>a b. s = a @ b \<and> in_lang r (c # a) \<and> in_lang q b)"
    by (auto simp: in_lang_Seq nullable_iff Cons_eq_append_conv)
  then show ?case using 4 by (auto simp: in_lang_Seq)
qed (auto simp: in_lang_Seq in_lang_Star_Cons in_lang_Upto_Cons)

theorem MatchString_iff: "MatchString r s \<longleftrightarrow> in_lang r s"
  by (induction r s rule: MatchString.induct) (simp_all add: nullable_iff in_lang_deriv)

section \<open>What a match says about the string\<close>

text \<open>The bytes a pattern can contain.\<close>

fun re_chars :: "rexp \<Rightarrow> char \<Rightarrow> bool" where
  "re_chars RZero c = False"
| "re_chars ROne c = False"
| "re_chars (RCls p) c = p c"
| "re_chars (RSeq r q) c = (re_chars r c \<or> re_chars q c)"
| "re_chars (RAlt r q) c = (re_chars r c \<or> re_chars q c)"
| "re_chars (RStar r) c = re_chars r c"
| "re_chars (RUpto n r) c = re_chars r c"

lemma in_lang_chars: "in_lang r s \<Longrightarrow> x \<in> set s \<Longrightarrow> re_chars r x"
  by (induction r s rule: in_lang.induct) auto

lemma MatchString_chars: "MatchString r s \<Longrightarrow> x \<in> set s \<Longrightarrow> re_chars r x"
  by (simp add: MatchString_iff in_lang_chars)

text \<open>The shortest match.\<close>

fun re_min :: "rexp \<Rightarrow> nat" where
  "re_min (RCls p) = 1"
| "re_min (RSeq r q) = re_min r + re_min q"
| "re_min (RAlt r q) = min (re_min r) (re_min q)"
| "re_min _ = 0"

lemma in_lang_min: "in_lang r s \<Longrightarrow> re_min r \<le> length s"
  by (induction r s rule: in_lang.induct) auto

lemma MatchString_not_Nil: "MatchString r s \<Longrightarrow> 0 < re_min r \<Longrightarrow> s \<noteq> []"
  using in_lang_min [of r s] by (auto simp: MatchString_iff)

text \<open>The first byte of a match of a sequence whose first part is a class.\<close>

lemma MatchString_hd: "MatchString (RSeq (RCls p) q) s \<Longrightarrow> s \<noteq> [] \<and> p (hd s)"
  by (auto simp: MatchString_iff in_lang_Seq)

lemma in_lang_Star_Cls: "in_lang (RStar (RCls p)) s \<longleftrightarrow> list_all p s"
  by (induction s) (auto simp: in_lang_Star_Cons)

lemma MatchString_plus: "MatchString (RPlus (RCls p)) s \<longleftrightarrow> s \<noteq> [] \<and> list_all p s"
proof (cases s)
  case (Cons c t)
  have "in_lang (RSeq (RCls p) (RStar (RCls p))) (c # t) \<longleftrightarrow>
      (\<exists>a b. c # t = a @ b \<and> (\<exists>x. a = [x] \<and> p x) \<and> list_all p b)"
    by (simp only: in_lang_Seq in_lang_Cls in_lang_Star_Cls)
  also have "\<dots> \<longleftrightarrow> p c \<and> list_all p t"
    by (auto intro: exI [of _ "[c]"])
  finally have "in_lang (RSeq (RCls p) (RStar (RCls p))) (c # t) \<longleftrightarrow> p c \<and> list_all p t" .
  then show ?thesis by (simp add: Cons RPlus_def MatchString_iff)
qed (simp add: RPlus_def)

end
