(* ===== verification/Go_Path.thy ===== *)
theory Go_Path
  imports Go_Prelude "HOL-Library.Sublist"
begin

text \<open>
  The lexical path functions of packages path and path/filepath on Unix: Clean, Join, IsAbs, Dir,
  Base and Rel. They work on the list of components of a path; \<open>path_comps\<close> is what Clean keeps
  of it. The facts at the end relate Rel, which the callers use as a containment test, to the prefix
  order on component lists.
\<close>

definition IsAbs :: "string \<Rightarrow> bool" where
  "IsAbs p = HasPrefix p ''/''"

text \<open>
  One component of Clean's loop, with the components kept so far in reverse. Empty components and
  \<open>.\<close> are dropped; \<open>..\<close> removes the last one, is dropped at the root, and is kept in
  front of a relative path.
\<close>

fun clean_step :: "bool \<Rightarrow> string \<Rightarrow> string list \<Rightarrow> string list" where
  "clean_step rooted x st =
     (if x = [] \<or> x = ''.'' then st
      else if x = ''..'' then
        (case st of [] \<Rightarrow> (if rooted then [] else [''..''])
         | y # ys \<Rightarrow> if y = ''..'' then ''..'' # st else ys)
      else x # st)"

definition path_comps :: "string \<Rightarrow> string list" where
  "path_comps p = rev (fold (clean_step (IsAbs p)) (Split SLASH p) [])"

definition Clean :: "string \<Rightarrow> string" where
  "Clean p =
     (let out = Join ''/'' (path_comps p)
      in if IsAbs p then SLASH # out else if out = [] then ''.'' else out)"

definition PathJoin :: "string list \<Rightarrow> string" where
  "PathJoin elems =
     (let es = filter (\<lambda>e. e \<noteq> []) elems
      in if es = [] then [] else Clean (Join ''/'' es))"

definition Dir :: "string \<Rightarrow> string" where
  "Dir p = Clean (rev (dropWhile (\<lambda>c. c \<noteq> SLASH) (rev p)))"

definition Base :: "string \<Rightarrow> string" where
  "Base p =
     (if p = [] then ''.''
      else let q = rev (dropWhile (\<lambda>c. c = SLASH) (rev p));
               b = rev (takeWhile (\<lambda>c. c \<noteq> SLASH) (rev q))
           in if b = [] then ''/'' else b)"

text \<open>\<open>filepath.Rel\<close>: None is its error.\<close>

fun drop_common :: "string list \<Rightarrow> string list \<Rightarrow> string list \<times> string list" where
  "drop_common (b # bs) (t # ts) = (if b = t then drop_common bs ts else (b # bs, t # ts))"
| "drop_common bs ts = (bs, ts)"

definition Rel :: "string \<Rightarrow> string \<Rightarrow> string option" where
  "Rel base targ =
     (if Clean targ = Clean base then Some ''.''
      else if IsAbs base \<noteq> IsAbs targ then None
      else let (bs, ts) = drop_common (path_comps base) (path_comps targ)
           in if bs \<noteq> [] \<and> hd bs = ''..'' then None
              else Some (Join ''/'' (replicate (length bs) ''..'' @ ts)))"

section \<open>Components of a cleaned absolute path\<close>

definition plain_comp :: "string \<Rightarrow> bool" where
  "plain_comp x = (x \<noteq> [] \<and> x \<noteq> ''.'' \<and> x \<noteq> ''..'' \<and> SLASH \<notin> set x)"

definition plain_comps :: "string list \<Rightarrow> bool" where
  "plain_comps xs = (\<forall>x \<in> set xs. plain_comp x)"

lemma plain_comps_simps [simp]:
  "plain_comps []" "plain_comps (x # xs) \<longleftrightarrow> plain_comp x \<and> plain_comps xs"
  "plain_comps (xs @ ys) \<longleftrightarrow> plain_comps xs \<and> plain_comps ys"
  "plain_comps (rev xs) \<longleftrightarrow> plain_comps xs"
  by (auto simp: plain_comps_def)

lemma clean_step_plain:
  "SLASH \<notin> set x \<Longrightarrow> plain_comps st \<Longrightarrow> plain_comps (clean_step True x st)"
  by (cases st) (auto simp: plain_comp_def)

lemma clean_fold_plain:
  "\<forall>x \<in> set xs. SLASH \<notin> set x \<Longrightarrow> plain_comps st \<Longrightarrow> plain_comps (fold (clean_step True) xs st)"
proof (induction xs arbitrary: st)
  case (Cons x xs)
  then show ?case using clean_step_plain [of x st] by (simp del: clean_step.simps)
qed simp

lemma path_comps_plain: "IsAbs p \<Longrightarrow> plain_comps (path_comps p)"
  unfolding path_comps_def
  by (simp add: clean_fold_plain Split_no_sep)

lemma clean_fold_id:
  "plain_comps xs \<Longrightarrow> fold (clean_step r) xs st = rev xs @ st"
  by (induction xs arbitrary: st) (auto simp: plain_comp_def)

lemma IsAbs_Cons [simp]: "IsAbs (c # s) \<longleftrightarrow> c = SLASH"
  by (simp add: IsAbs_def HasPrefix_def)

lemma IsAbs_Nil [simp]: "\<not> IsAbs []"
  by (simp add: IsAbs_def HasPrefix_def)

lemma plain_comps_no_slash: "plain_comps xs \<Longrightarrow> \<forall>x \<in> set xs. SLASH \<notin> set x"
  by (auto simp: plain_comps_def plain_comp_def)

lemma plain_comps_not_Nil: "plain_comps xs \<Longrightarrow> \<forall>x \<in> set xs. x \<noteq> []"
  by (auto simp: plain_comps_def plain_comp_def)

text \<open>Rendering a list of plain components under the root, and reading it back.\<close>

definition abs_path :: "string list \<Rightarrow> string" where
  "abs_path xs = SLASH # Join ''/'' xs"

lemma IsAbs_abs_path [simp]: "IsAbs (abs_path xs)"
  by (simp add: abs_path_def)

lemma path_comps_abs_path [simp]: "plain_comps xs \<Longrightarrow> path_comps (abs_path xs) = xs"
proof (cases "xs = []")
  case False
  assume p: "plain_comps xs"
  have "Split SLASH (Join ''/'' xs) = xs"
    using False plain_comps_no_slash [OF p] by (rule Split_Join)
  then show ?thesis
    using p by (simp add: path_comps_def abs_path_def clean_fold_id)
qed (simp add: path_comps_def abs_path_def)

lemma Clean_abs: "IsAbs p \<Longrightarrow> Clean p = abs_path (path_comps p)"
  by (simp add: Clean_def abs_path_def Let_def)

lemma Clean_abs_path: "plain_comps xs \<Longrightarrow> Clean (abs_path xs) = abs_path xs"
  by (simp add: Clean_abs)

lemma IsAbs_Clean [simp]: "IsAbs p \<Longrightarrow> IsAbs (Clean p)"
  by (simp add: Clean_abs)

lemma path_comps_Clean: "IsAbs p \<Longrightarrow> path_comps (Clean p) = path_comps p"
  by (simp add: Clean_abs path_comps_plain)

lemma Clean_idem: "IsAbs p \<Longrightarrow> Clean (Clean p) = Clean p"
  by (simp add: Clean_abs path_comps_plain)

lemma abs_path_inject:
  "plain_comps xs \<Longrightarrow> plain_comps ys \<Longrightarrow> abs_path xs = abs_path ys \<longleftrightarrow> xs = ys"
  by (metis path_comps_abs_path)

section \<open>Containment\<close>

text \<open>\<open>p\<close> is \<open>root\<close> or lies below it, component by component.\<close>

definition path_under :: "string \<Rightarrow> string \<Rightarrow> bool" where
  "path_under root p = prefix (path_comps root) (path_comps p)"

lemma path_under_refl [simp]: "path_under p p"
  by (simp add: path_under_def)

lemma path_under_trans: "path_under a b \<Longrightarrow> path_under b c \<Longrightarrow> path_under a c"
  unfolding path_under_def by (rule prefix_order.trans)

lemma drop_common_prefix: "fst (drop_common bs ts) = [] \<longleftrightarrow> prefix bs ts"
  by (induction bs ts rule: drop_common.induct) auto

lemma drop_common_split:
  "\<exists>c. bs = c @ fst (drop_common bs ts) \<and> ts = c @ snd (drop_common bs ts)"
  by (induction bs ts rule: drop_common.induct) (auto, metis append_Cons)

lemma drop_common_diff: "drop_common bs ts = (xs, xs) \<Longrightarrow> xs = []"
  by (induction bs ts rule: drop_common.induct) (auto split: if_splits)

text \<open>The containment test of the callers: Rel succeeds and its result does not climb.\<close>

definition rel_inside :: "string \<Rightarrow> string \<Rightarrow> bool" where
  "rel_inside base targ =
     (case Rel base targ of None \<Rightarrow> False
      | Some rel \<Rightarrow> rel \<noteq> ''..'' \<and> \<not> HasPrefix rel ''../'')"

lemma Join_dots_climbs:
  "HasPrefix (Join ''/'' (''..'' # ys)) ''../'' \<or> Join ''/'' (''..'' # ys) = ''..''"
  by (cases ys) (auto simp: HasPrefix_def)

lemma Join_plain_head:
  assumes "plain_comps ts" "ts \<noteq> []"
  shows "Join ''/'' ts \<noteq> ''..'' \<and> \<not> HasPrefix (Join ''/'' ts) ''../''"
proof -
  obtain t us where ts: "ts = t # us" using assms(2) by (cases ts) auto
  have t: "t \<noteq> ''..''" "SLASH \<notin> set t" "t \<noteq> []"
    using assms(1) by (auto simp: ts plain_comp_def)
  have split: "Split SLASH (Join ''/'' ts) = ts"
    using assms by (intro Split_Join plain_comps_no_slash)
  have "Join ''/'' ts \<noteq> ''..''"
    using split ts t(1) by auto
  moreover have "\<not> HasPrefix (Join ''/'' ts) ''../''"
  proof
    assume "HasPrefix (Join ''/'' ts) ''../''"
    then obtain r where "Join ''/'' ts = ''..'' @ SLASH # r" by (auto simp: HasPrefix_iff)
    then have "ts = ''..'' # Split SLASH r" using split Split_append [of SLASH "''..''" r] by simp
    then show False using ts t(1) by simp
  qed
  ultimately show ?thesis by blast
qed

lemma rel_inside_iff:
  assumes base: "IsAbs base" and targ: "IsAbs targ"
  shows "rel_inside base targ \<longleftrightarrow> path_under base targ"
proof -
  obtain bs ts where dc: "drop_common (path_comps base) (path_comps targ) = (bs, ts)"
    by fastforce
  from drop_common_split [of "path_comps base" "path_comps targ"] dc obtain c where
    c: "path_comps base = c @ bs" "path_comps targ = c @ ts" by auto
  have plain: "plain_comps bs" "plain_comps ts"
    using path_comps_plain [OF base] path_comps_plain [OF targ] c by auto
  have pre: "path_under base targ \<longleftrightarrow> bs = []"
    using drop_common_prefix [of "path_comps base" "path_comps targ"] dc
    by (simp add: path_under_def)
  have hd: "hd bs \<noteq> ''..''" if "bs \<noteq> []"
    using plain that by (cases bs) (auto simp: plain_comp_def)
  have eq: "Clean targ = Clean base \<longleftrightarrow> bs = ts"
    using c path_comps_plain [OF base] path_comps_plain [OF targ]
    by (simp add: Clean_abs base targ abs_path_inject) blast
  show ?thesis
  proof (cases bs)
    case Nil
    then show ?thesis
      using pre eq dc base targ Join_plain_head [OF plain(2)]
      by (auto simp: rel_inside_def Rel_def HasPrefix_def)
  next
    case (Cons b bs')
    have "hd bs \<noteq> ''..''" using hd Cons by blast
    moreover have "bs \<noteq> ts" using dc drop_common_diff Cons by blast
    ultimately show ?thesis
      using pre eq dc base targ Cons Join_dots_climbs [of "replicate (length bs') ''..'' @ ts"]
      by (auto simp: rel_inside_def Rel_def)
  qed
qed

section \<open>Paths without dot-dot\<close>

lemma clean_fold_no_dots:
  "''..'' \<notin> set xs \<Longrightarrow>
     fold (clean_step r) xs st = rev (filter (\<lambda>x. x \<noteq> [] \<and> x \<noteq> ''.'') xs) @ st"
  by (induction xs arbitrary: st) auto

lemma path_comps_no_dots:
  "\<not> Contains p ''..'' \<Longrightarrow> path_comps p = filter (\<lambda>x. x \<noteq> [] \<and> x \<noteq> ''.'') (Split SLASH p)"
  unfolding path_comps_def using Split_Contains by (subst clean_fold_no_dots) auto

text \<open>
  The string test \<open>path == root || HasPrefix(path, root + "/") && !Contains(path, "..")\<close> that
  several validators use is containment of components.
\<close>

lemma prefix_under:
  assumes "HasPrefix p (root @ ''/'')" "\<not> Contains p ''..''"
  shows "path_under root p"
proof -
  from assms(1) obtain t where p: "p = root @ SLASH # t" by (auto simp: HasPrefix_iff)
  then have "\<not> Contains root ''..''"
    using assms(2) Contains_mono [of root "''..''" "[]" "SLASH # t"] by auto
  then show ?thesis
    using assms(2) by (simp add: path_under_def path_comps_no_dots p Split_append_gen)
qed

lemma path_under_abs: "HasPrefix p (root @ ''/'') \<Longrightarrow> IsAbs root \<Longrightarrow> IsAbs p"
  by (cases root) (auto simp: HasPrefix_iff)

text \<open>Joining plain components to an absolute path appends them.\<close>

lemma path_comps_PathJoin:
  assumes "plain_comps r" "plain_comps ys" "ys \<noteq> []"
  shows "path_comps (PathJoin [abs_path r, Join ''/'' ys]) = r @ ys" "IsAbs (PathJoin [abs_path r, Join ''/'' ys])"
proof -
  have j: "Join ''/'' ys \<noteq> []" using assms plain_comps_not_Nil [of ys] Join_Nil_iff by blast
  then show "IsAbs (PathJoin [abs_path r, Join ''/'' ys])" by (simp add: PathJoin_def abs_path_def)
  have "Split SLASH (abs_path r @ SLASH # Join ''/'' ys) = Split SLASH (abs_path r) @ ys"
    using assms plain_comps_no_slash [of ys] by (simp add: Split_append_gen Split_Join)
  moreover have "fold (clean_step True) (Split SLASH (abs_path r)) [] = rev r"
    using path_comps_abs_path [OF assms(1)] by (metis IsAbs_abs_path path_comps_def rev_rev_ident)
  ultimately have "path_comps (abs_path r @ SLASH # Join ''/'' ys) = r @ ys"
    using assms by (simp add: path_comps_def abs_path_def clean_fold_id)
  then show "path_comps (PathJoin [abs_path r, Join ''/'' ys]) = r @ ys"
    using j by (simp add: PathJoin_def abs_path_def path_comps_Clean)
qed

end
