(* ===== verification/Agent_Executor.thy ===== *)
theory Agent_Executor
  imports Go_Regexp Go_Path
begin

text \<open>
  The Agent's process runner (\<open>internal/agent/executor/shell.go\<close>): the allowlist, the
  validator that every command passes, the bounded output buffers, the line streamer and
  \<open>Shell.Run\<close>. Starting a process is a parameter of \<open>Run\<close>; the commands it is asked to
  start are recorded in a log, so that the theorems can speak about what reaches the system.
  The pattern for UFW comments uses Unicode letter classes and is a parameter too.
\<close>

section \<open>The allowlist\<close>

definition maxCommandOutput :: nat where
  "maxCommandOutput = 1048576"

definition maxCommandArgument :: nat where
  "maxCommandArgument = 4096"

record AllowedCommand =
  Binary :: string
  AllowedArgs :: "string list"

definition allowed_command :: "string \<Rightarrow> string list \<Rightarrow> AllowedCommand" where
  "allowed_command b as = \<lparr>Binary = b, AllowedArgs = as\<rparr>"

definition allowlist :: "AllowedCommand list" where
  "allowlist =
    [allowed_command ''apt-get'' [''install'', ''remove'', ''update'', ''upgrade'', ''autoremove'', ''-y'', ''-q'', ''--no-install-recommends'', ''--upgrade'', ''--purge''],
     allowed_command ''apt'' [''install'', ''remove'', ''update'', ''upgrade'', ''list'', ''search'', ''show'', ''--installed'', ''-y'', ''-q''],
     allowed_command ''dnf'' [''install'', ''remove'', ''update'', ''upgrade'', ''list'', ''search'', ''info'', ''--installed'', ''-y'', ''-q''],
     allowed_command ''yum'' [''install'', ''remove'', ''update'', ''upgrade'', ''list'', ''search'', ''info'', ''--installed'', ''-y'', ''-q''],
     allowed_command ''systemctl''
       [''start'', ''stop'', ''restart'', ''reload'', ''enable'', ''disable'', ''status'',
        ''is-active'', ''is-enabled'', ''daemon-reload'', ''show'', ''-p'', ''--property'',
        ''SubState'', ''--value''],
     allowed_command ''journalctl'' [''-u'', ''-n'', ''-f'', ''--no-pager'', ''-o'', ''short'', ''short-precise''],
     allowed_command ''ufw'' [''allow'', ''deny'', ''reject'', ''delete'', ''status'', ''numbered'', ''enable'', ''disable'', ''reload'', ''reset'', ''--force''],
     allowed_command ''nginx'' [''-t'', ''-T'', ''-s'', ''reload'', ''stop'', ''quit'', ''-v'', ''-V''],
     allowed_command ''openssl'' [''x509'', ''-in'', ''-noout'', ''-issuer'', ''-subject'', ''-dates'', ''-ext'', ''subjectAltName''],
     allowed_command ''ss'' [''-tuln''],
     allowed_command ''curl'' [''-s'', ''--max-time''],
     allowed_command ''test'' [''-S''],
     allowed_command ''php'' [''-v'', ''-m''],
     allowed_command ''node'' [''--version''],
     allowed_command ''npm'' [''--version''],
     allowed_command ''git'' [''clone'', ''pull'', ''fetch'', ''checkout'', ''rev-parse'', ''--version''],
     allowed_command ''tail'' [''-n'', ''-f''],
     allowed_command ''fail2ban-client'' [''status'', ''set'', ''reload'', ''stop'', ''start'', ''banip'', ''unban'', ''unbanip'', ''-V''],
     allowed_command ''fail2ban-server'' [''-b'', ''-t''],
     allowed_command ''hostname'' [],
     allowed_command ''timedatectl'' [''set-timezone'', ''status''],
     allowed_command ''certbot'' [''certonly'', ''renew'', ''--webroot'', ''-w'', ''-d'', ''-n'', ''--agree-tos'', ''-m'', ''--expand'', ''--register-unsafely-without-email'', ''--cert-name'', ''--non-interactive'']]"

section \<open>Patterns\<close>

definition safeOperand :: rexp where
  "safeOperand = RPlus (RCls (Class [is_upper, is_lower, is_digit] ''_@%+.,:/=-''))"

definition safeService :: rexp where
  "safeService = RPlus (RCls (Class [is_upper, is_lower, is_digit] ''_.@-''))"

definition safePackage :: rexp where
  "safePackage = RSeq (RCls is_alnum) (RStar (RCls (Class [is_upper, is_lower, is_digit] ''+._:-'')))"

definition decimal :: rexp where
  "decimal = RPlus (RCls is_digit)"

definition safeHost :: rexp where
  "safeHost = RSeq (RCls is_alnum)
     (ROpt (RSeq (RUpto 251 (RCls (Class [is_upper, is_lower, is_digit] ''.-''))) (RCls is_alnum)))"

definition socketPattern :: rexp where
  "socketPattern = RSeq (RLit ''/run/php/php'') (RSeq (RPlus (RCls is_digit)) (RSeq (RLit ''.'')
     (RSeq (RPlus (RCls is_digit)) (RSeq (RLit ''-fpm-'') (RSeq (RCls is_alnum)
       (RSeq (RUpto 252 (RCls (Class [is_upper, is_lower, is_digit] ''.-''))) (RLit ''.sock'')))))))"

section \<open>The validator\<close>

datatype exec_error =
    InvalidBinaryName
  | NotOnAllowlist string
  | MalformedArgument string
  | ArgumentNotPermitted string string
  | InvalidPackageOperand
  | InvalidServiceOperand
  | InvalidJournalOperand
  | LogPathOutside
  | CertificatePathOutside
  | OnlySocketListing
  | GitMutation
  | OnlyLocalHealthEndpoints
  | OnlySocketChecks
  | DeadlineExceeded string
  | ProcessFailed string

definition pathWithin :: "string \<Rightarrow> string \<Rightarrow> bool" where
  "pathWithin path root =
     (path = root \<or> (HasPrefix path (root @ ''/'') \<and> \<not> Contains path ''..''))"

definition isPackageAction :: "string \<Rightarrow> bool" where
  "isPackageAction value =
     (value \<in> set [''install'', ''remove'', ''update'', ''upgrade'', ''autoremove'', ''list'',
                   ''search'', ''show'', ''info''])"

definition isSystemdAction :: "string \<Rightarrow> bool" where
  "isSystemdAction value =
     (value \<in> set [''start'', ''stop'', ''restart'', ''reload'', ''enable'', ''disable'', ''status'',
                   ''is-active'', ''is-enabled'', ''daemon-reload'', ''show''])"

definition isAllowedArg :: "string \<Rightarrow> string list \<Rightarrow> bool" where
  "isAllowedArg arg allowed =
     (if \<not> HasPrefix arg ''-'' then MatchString safeOperand arg \<and> \<not> Contains arg ''..''
      else list_ex (\<lambda>accepted. arg = accepted \<or> HasPrefix arg (accepted @ ''='')) allowed)"

text \<open>The loops over the operands; \<open>prev\<close> is \<open>args[index-1]\<close>, absent for the first one.\<close>

definition packageOperand :: "string \<Rightarrow> (exec_error, unit) result" where
  "packageOperand arg =
     (if HasPrefix arg ''-'' \<or> isPackageAction arg then Ok ()
      else guardE (\<not> MatchString safePackage arg) InvalidPackageOperand)"

definition serviceOperand :: "string \<Rightarrow> (exec_error, unit) result" where
  "serviceOperand arg =
     (if HasPrefix arg ''-'' \<or> isSystemdAction arg \<or> arg = ''SubState'' then Ok ()
      else guardE (\<not> MatchString safeService arg) InvalidServiceOperand)"

definition journalOperand :: "string \<Rightarrow> (exec_error, unit) result" where
  "journalOperand arg =
     (if HasPrefix arg ''-'' \<or> arg = ''short'' \<or> arg = ''short-precise'' \<or> MatchString decimal arg
      then Ok ()
      else guardE (\<not> MatchString safeService arg) InvalidJournalOperand)"

definition tailOperand :: "string \<Rightarrow> (exec_error, unit) result" where
  "tailOperand arg =
     (if HasPrefix arg ''-'' \<or> MatchString decimal arg then Ok ()
      else guardE (\<not> pathWithin arg ''/var/log'') LogPathOutside)"

fun opensslOperands :: "string option \<Rightarrow> string list \<Rightarrow> (exec_error, unit) result" where
  "opensslOperands prev [] = Ok ()"
| "opensslOperands prev (arg # args) =
     (if prev = Some ''-in'' \<and> \<not> pathWithin arg ''/etc/letsencrypt'' \<and>
         \<not> pathWithin arg ''/var/lib/opendeploy''
      then Err CertificatePathOutside
      else opensslOperands (Some arg) args)"

definition validateOperands :: "string \<Rightarrow> string list \<Rightarrow> (exec_error, unit) result" where
  "validateOperands binary args =
     (if binary \<in> set [''apt-get'', ''apt'', ''dnf'', ''yum''] then forEach packageOperand args
      else if binary = ''systemctl'' then forEach serviceOperand args
      else if binary = ''journalctl'' then forEach journalOperand args
      else if binary = ''tail'' then forEach tailOperand args
      else if binary = ''openssl'' then opensslOperands None args
      else if binary = ''ss'' then guardE (args \<noteq> [''-tuln'']) OnlySocketListing
      else if binary = ''git'' then
        forEach (\<lambda>arg. guardE (arg \<noteq> ''--version'' \<and> arg \<noteq> ''rev-parse'') GitMutation) args
      else Ok ())"

definition validateCurlArgs :: "string list \<Rightarrow> (exec_error, unit) result" where
  "validateCurlArgs args =
     (if args = [''-s'', ''--max-time'', ''1'', ''http://127.0.0.1/nginx_status''] then Ok ()
      else if length args = 8 \<and> args ! 0 = ''-s'' \<and> args ! 1 = ''-o'' \<and> args ! 2 = ''/dev/null'' \<and>
              args ! 3 = ''-w'' \<and> args ! 4 = ''%{http_code}'' \<and> args ! 5 = ''-H'' \<and>
              HasPrefix (args ! 6) ''Host: '' \<and> args ! 7 = ''http://127.0.0.1/'' \<and>
              (let host = TrimPrefix (args ! 6) ''Host: ''
               in MatchString safeHost host \<and> \<not> Contains host ''..'')
      then Ok ()
      else Err OnlyLocalHealthEndpoints)"

definition validateSocketTestArgs :: "string list \<Rightarrow> (exec_error, unit) result" where
  "validateSocketTestArgs args =
     (if length args \<noteq> 2 \<or> args ! 0 \<noteq> ''-S'' then Err OnlySocketChecks
      else guardE (\<not> MatchString socketPattern (args ! 1) \<or> Contains (args ! 1) ''..'') OnlySocketChecks)"

definition malformed :: "string \<Rightarrow> bool" where
  "malformed arg = (arg = [] \<or> length arg > maxCommandArgument \<or> ContainsAny arg [NUL, CR, NL])"

fun checkArgs ::
  "(string \<Rightarrow> bool) \<Rightarrow> string \<Rightarrow> string list \<Rightarrow> string option \<Rightarrow> string list \<Rightarrow> (exec_error, unit) result" where
  "checkArgs safeComment binary allowed prev [] = Ok ()"
| "checkArgs safeComment binary allowed prev (arg # args) =
     (if malformed arg then Err (MalformedArgument binary)
      else if binary = ''ufw'' \<and> prev = Some ''comment'' \<and> safeComment arg
      then checkArgs safeComment binary allowed (Some arg) args
      else if \<not> isAllowedArg arg allowed then Err (ArgumentNotPermitted arg binary)
      else checkArgs safeComment binary allowed (Some arg) args)"

definition Validate :: "(string \<Rightarrow> bool) \<Rightarrow> string \<Rightarrow> string list \<Rightarrow> (exec_error, unit) result" where
  "Validate safeComment binary args =
     (if binary = [] \<or> binary \<noteq> TrimSpace binary \<or> ContainsAny binary [SLASH, BACKSLASH]
      then Err InvalidBinaryName
      else case find (\<lambda>a. Binary a = binary) allowlist of
        None \<Rightarrow> Err (NotOnAllowlist binary)
      | Some allowed \<Rightarrow>
          if binary = ''curl'' then validateCurlArgs args
          else if binary = ''test'' then validateSocketTestArgs args
          else andThen (checkArgs safeComment binary (AllowedArgs allowed) None args)
                 (\<lambda>_. validateOperands binary args))"

section \<open>Bounded output\<close>

record limitedBuffer =
  lb_buffer :: string
  lb_truncated :: bool

definition emptyBuffer :: limitedBuffer where
  "emptyBuffer = \<lparr>lb_buffer = [], lb_truncated = False\<rparr>"

text \<open>\<open>limitedBuffer.Write\<close>: the new buffer and the number of bytes it reports as written.\<close>

definition lb_Write :: "limitedBuffer \<Rightarrow> string \<Rightarrow> limitedBuffer \<times> nat" where
  "lb_Write b p =
     (let remaining = int maxCommandOutput - int (length (lb_buffer b))
      in (if remaining > 0
          then if int (length p) > remaining
               then \<lparr>lb_buffer = lb_buffer b @ take (nat remaining) p, lb_truncated = True\<rparr>
               else b\<lparr>lb_buffer := lb_buffer b @ p\<rparr>
          else b\<lparr>lb_truncated := True\<rparr>,
          length p))"

definition lb_String :: "limitedBuffer \<Rightarrow> string" where
  "lb_String b =
     (if lb_truncated b then lb_buffer b @ NL # ''[output truncated]'' else lb_buffer b)"

definition writeAll :: "string list \<Rightarrow> limitedBuffer" where
  "writeAll chunks = fold (\<lambda>p b. fst (lb_Write b p)) chunks emptyBuffer"

text \<open>
  \<open>streamLines\<close> over the bytes a process writes. \<open>live\<close> is the number of sends the channel
  accepts before the context is done; the result is what was sent.
\<close>

fun streamLines :: "nat \<Rightarrow> string \<Rightarrow> string \<Rightarrow> nat \<Rightarrow> string \<Rightarrow> string list" where
  "streamLines live pre line emitted [] =
     (if line \<noteq> [] \<and> emitted + length line \<le> maxCommandOutput \<and> 0 < live then [pre @ line] else [])"
| "streamLines live pre line emitted (b # bs) =
     (if b = NL then
        let emitted' = emitted + length line
        in if emitted' > maxCommandOutput then (if 0 < live then [''[output truncated]''] else [])
           else (case live of 0 \<Rightarrow> []
                 | Suc l \<Rightarrow> (pre @ line) # streamLines l pre [] emitted' bs)
      else streamLines live pre (if length line < maxCommandOutput then line @ [b] else line) emitted bs)"

section \<open>Shell.Run\<close>

definition restrictedPath :: string where
  "restrictedPath = ''/usr/sbin:/usr/bin:/sbin:/bin''"

definition restrictedEnvironment :: "string \<Rightarrow> string list" where
  "restrictedEnvironment path =
     [''PATH='' @ path, ''HOME=/root'', ''LANG=C.UTF-8'', ''LC_ALL=C.UTF-8'',
      ''DEBIAN_FRONTEND=noninteractive'']"

text \<open>The time limit in seconds; None when the context already carries a deadline.\<close>

definition withCommandTimeout :: "bool \<Rightarrow> string \<Rightarrow> nat option" where
  "withCommandTimeout hasDeadline binary =
     (if hasDeadline then None
      else if binary \<in> set [''apt'', ''apt-get'', ''dnf'', ''yum'', ''certbot''] then Some 1800
      else Some 120)"

text \<open>What running a process gives: the chunks written to the two pipes, the exit code if there is
  a process state, whether Run returned an error, and whether the context's deadline had passed.\<close>

record outcome =
  oc_stdout :: "string list"
  oc_stderr :: "string list"
  oc_exit :: "int option"
  oc_failed :: bool
  oc_deadline :: bool

record Result =
  Stdout :: string
  Stderr :: string
  ExitCode :: int

record spawned =
  sp_binary :: string
  sp_args :: "string list"
  sp_env :: "string list"
  sp_timeout :: "nat option"

definition Run ::
  "(string \<Rightarrow> bool) \<Rightarrow> (spawned \<Rightarrow> outcome) \<Rightarrow> bool \<Rightarrow> string \<Rightarrow> string list \<Rightarrow> spawned list \<Rightarrow>
     (Result option \<times> exec_error option) \<times> spawned list" where
  "Run safeComment exec hasDeadline binary args log =
     (case Validate safeComment binary args of
        Inl e \<Rightarrow> ((None, Some e), log)
      | Inr _ \<Rightarrow>
          let cmd = \<lparr>sp_binary = binary, sp_args = args,
                     sp_env = restrictedEnvironment restrictedPath,
                     sp_timeout = withCommandTimeout hasDeadline binary\<rparr>;
              oc = exec cmd;
              result = \<lparr>Stdout = lb_String (writeAll (oc_stdout oc)),
                        Stderr = lb_String (writeAll (oc_stderr oc)),
                        ExitCode = (case oc_exit oc of None \<Rightarrow> 0 | Some c \<Rightarrow> c)\<rparr>
          in ((Some result,
               if oc_failed oc
               then Some (if oc_deadline oc then DeadlineExceeded binary else ProcessFailed binary)
               else None),
              log @ [cmd]))"

section \<open>What the validator accepts\<close>

lemma find_allowlist:
  "find (\<lambda>a. Binary a = b) allowlist = Some a \<Longrightarrow> a \<in> set allowlist \<and> Binary a = b"
  by (auto simp: find_Some_iff)

text \<open>The argument loop as a statement about positions.\<close>

definition arg_admitted ::
  "(string \<Rightarrow> bool) \<Rightarrow> string \<Rightarrow> string list \<Rightarrow> string option \<Rightarrow> string \<Rightarrow> bool" where
  "arg_admitted safeComment binary allowed prev arg =
     (\<not> malformed arg \<and>
      (isAllowedArg arg allowed \<or> (binary = ''ufw'' \<and> prev = Some ''comment'' \<and> safeComment arg)))"

definition prev_arg :: "string option \<Rightarrow> string list \<Rightarrow> nat \<Rightarrow> string option" where
  "prev_arg prev args i = (if i = 0 then prev else Some (args ! (i - 1)))"

lemma checkArgs_iff:
  "checkArgs sc binary allowed prev args = Ok () \<longleftrightarrow>
     (\<forall>i < length args. arg_admitted sc binary allowed (prev_arg prev args i) (args ! i))"
proof (induction args arbitrary: prev)
  case (Cons arg args)
  have step: "checkArgs sc binary allowed prev (arg # args) = Ok () \<longleftrightarrow>
      arg_admitted sc binary allowed prev arg \<and> checkArgs sc binary allowed (Some arg) args = Ok ()"
    by (auto simp: arg_admitted_def)
  have "prev_arg (Some arg) args i = prev_arg prev (arg # args) (Suc i)" for i
    by (cases i) (auto simp: prev_arg_def)
  then show ?case
    unfolding step Cons.IH by (auto simp: All_less_Suc2 prev_arg_def simp del: checkArgs.simps)
qed simp

lemma checkArgs_member:
  assumes "checkArgs sc binary allowed prev args = Ok ()" "arg \<in> set args"
  shows "\<not> malformed arg \<and> (binary \<noteq> ''ufw'' \<longrightarrow> isAllowedArg arg allowed)"
proof -
  from assms(2) obtain i where "i < length args" "args ! i = arg" by (auto simp: in_set_conv_nth)
  with assms(1) show ?thesis by (auto simp: checkArgs_iff arg_admitted_def)
qed

lemma Validate_generic:
  assumes "Validate sc binary args = Ok ()" "binary \<noteq> ''curl''" "binary \<noteq> ''test''"
  obtains a where "a \<in> set allowlist" "Binary a = binary"
    "checkArgs sc binary (AllowedArgs a) None args = Ok ()" "validateOperands binary args = Ok ()"
  using assms
  by (auto simp: Validate_def andThen_Ok dest: find_allowlist split: if_splits option.splits)

lemma Validate_binary:
  "Validate sc binary args = Ok () \<Longrightarrow> \<exists>a \<in> set allowlist. Binary a = binary"
  by (auto simp: Validate_def dest: find_allowlist split: if_splits option.splits)

subsection \<open>Single-line arguments\<close>

definition single_line :: "string \<Rightarrow> bool" where
  "single_line s = (s \<noteq> [] \<and> \<not> ContainsAny s [NUL, CR, NL])"

lemma pattern_single_line:
  assumes "MatchString r s" "0 < re_min r"
    and "\<not> re_chars r NUL" "\<not> re_chars r CR" "\<not> re_chars r NL"
  shows "single_line s"
  using assms MatchString_not_Nil [OF assms(1,2)] MatchString_chars [OF assms(1)]
  by (auto simp: single_line_def ContainsAny_iff)

lemma safeHost_single_line: "MatchString safeHost s \<Longrightarrow> single_line s"
  by (rule pattern_single_line)
    (auto simp: safeHost_def ROpt_def Class_def byte_class_defs)

lemma socketPattern_single_line: "MatchString socketPattern s \<Longrightarrow> single_line s"
  by (rule pattern_single_line)
    (auto simp: socketPattern_def RPlus_def Class_def byte_class_defs)

lemma single_line_append: "single_line a \<Longrightarrow> single_line b \<Longrightarrow> single_line (a @ b)"
  by (auto simp: single_line_def ContainsAny_iff)

lemma length8_set: "length xs = 8 \<Longrightarrow> set xs = {xs!0, xs!1, xs!2, xs!3, xs!4, xs!5, xs!6, xs!7}"
  by (auto simp: set_conv_nth less_Suc_eq numeral_eq_Suc)

lemma length2_set: "length xs = 2 \<Longrightarrow> set xs = {xs!0, xs!1}"
  by (auto simp: set_conv_nth less_Suc_eq numeral_eq_Suc)

lemma curl_single_line:
  assumes "validateCurlArgs args = Ok ()" "a \<in> set args"
  shows "single_line a"
proof (cases "args = [''-s'', ''--max-time'', ''1'', ''http://127.0.0.1/nginx_status'']")
  case True
  then show ?thesis using assms(2) by (auto simp: single_line_def ContainsAny_def)
next
  case False
  with assms(1) have l: "length args = 8"
    and e: "args ! 0 = ''-s''" "args ! 1 = ''-o''" "args ! 2 = ''/dev/null''" "args ! 3 = ''-w''"
      "args ! 4 = ''%{http_code}''" "args ! 5 = ''-H''" "args ! 7 = ''http://127.0.0.1/''"
    and h: "HasPrefix (args ! 6) ''Host: ''" "MatchString safeHost (TrimPrefix (args ! 6) ''Host: '')"
    by (auto simp: validateCurlArgs_def Let_def split: if_splits)
  from h(1) obtain host where host: "args ! 6 = ''Host: '' @ host"
    by (auto simp: HasPrefix_iff)
  then have "single_line (args ! 6)"
    using h(2) single_line_append [of "''Host: ''" host] safeHost_single_line [of host]
    by (auto simp: TrimPrefix_def HasPrefix_def single_line_def ContainsAny_def)
  then show ?thesis
    using assms(2) e unfolding length8_set [OF l] by (auto simp: single_line_def ContainsAny_def)
qed

lemma test_single_line:
  assumes "validateSocketTestArgs args = Ok ()" "a \<in> set args"
  shows "single_line a"
proof -
  from assms(1) have l: "length args = 2" and e: "args ! 0 = ''-S''"
    and s: "MatchString socketPattern (args ! 1)"
    by (auto simp: validateSocketTestArgs_def split: if_splits)
  show ?thesis
    using assms(2) socketPattern_single_line [OF s] unfolding length2_set [OF l]
    by (auto simp: e single_line_def ContainsAny_def)
qed

lemma Validate_single_line:
  assumes "Validate sc binary args = Ok ()" "a \<in> set args"
  shows "single_line a"
proof (cases "binary = ''curl'' \<or> binary = ''test''")
  case True
  with assms have "validateCurlArgs args = Ok () \<or> validateSocketTestArgs args = Ok ()"
    by (auto simp: Validate_def split: if_splits option.splits)
  then show ?thesis using assms(2) curl_single_line test_single_line by blast
next
  case False
  with assms(1) obtain al where "checkArgs sc binary al None args = Ok ()"
    by (auto elim: Validate_generic)
  from checkArgs_member [OF this assms(2)] show ?thesis
    by (simp add: single_line_def malformed_def)
qed

subsection \<open>Output bounds\<close>

lemma lb_Write_bound:
  "length (lb_buffer b) \<le> maxCommandOutput \<Longrightarrow> length (lb_buffer (fst (lb_Write b p))) \<le> maxCommandOutput"
  by (auto simp: lb_Write_def Let_def)

lemma writeAll_bound: "length (lb_buffer (writeAll chunks)) \<le> maxCommandOutput"
proof -
  have "length (lb_buffer b) \<le> maxCommandOutput \<Longrightarrow>
      length (lb_buffer (fold (\<lambda>p b. fst (lb_Write b p)) chunks b)) \<le> maxCommandOutput" for b
    by (induction chunks arbitrary: b) (auto simp: lb_Write_bound)
  then show ?thesis by (simp add: writeAll_def emptyBuffer_def)
qed

text \<open>The buffer holds the first bytes of what was written, and all of them unless it is marked
  truncated.\<close>

lemma lb_Write_take:
  "lb_buffer b = take maxCommandOutput w \<Longrightarrow>
     lb_buffer (fst (lb_Write b p)) = take maxCommandOutput (w @ p)"
  by (auto simp: lb_Write_def Let_def nat_diff_distrib)

lemma lb_Write_truncated:
  "lb_buffer b = take maxCommandOutput w \<Longrightarrow> \<not> lb_truncated b \<Longrightarrow> length w \<le> maxCommandOutput \<Longrightarrow>
     \<not> lb_truncated (fst (lb_Write b p)) \<Longrightarrow> length (w @ p) \<le> maxCommandOutput"
  by (auto simp: lb_Write_def Let_def split: if_splits)

lemma lb_Write_keeps_mark: "lb_truncated b \<Longrightarrow> lb_truncated (fst (lb_Write b p))"
  by (auto simp: lb_Write_def Let_def)

lemma writeAll_spec:
  "lb_buffer (writeAll chunks) = take maxCommandOutput (concat chunks) \<and>
   (\<not> lb_truncated (writeAll chunks) \<longrightarrow> length (concat chunks) \<le> maxCommandOutput)"
proof (induction chunks rule: rev_induct)
  case (snoc p chunks)
  have step: "writeAll (chunks @ [p]) = fst (lb_Write (writeAll chunks) p)"
    by (simp add: writeAll_def)
  show ?case
    unfolding step
    using snoc lb_Write_take [of "writeAll chunks" "concat chunks" p]
      lb_Write_truncated [of "writeAll chunks" "concat chunks" p] lb_Write_keeps_mark
    by auto
qed (simp add: writeAll_def emptyBuffer_def)

lemma lb_String_bound: "length (lb_String (writeAll chunks)) \<le> maxCommandOutput + 19"
  using writeAll_bound [of chunks] by (simp add: lb_String_def)

fun payload :: "nat \<Rightarrow> string list \<Rightarrow> nat" where
  "payload k [] = 0"
| "payload k (l # ls) = (length l - k) + payload k ls"

lemma streamLines_payload:
  assumes "emitted \<le> maxCommandOutput"
  shows "\<exists>sent rest. streamLines live pre line emitted bs = sent @ rest \<and>
    (rest = [] \<or> rest = [''[output truncated]'']) \<and>
    (\<forall>l \<in> set sent. HasPrefix l pre) \<and>
    emitted + payload (length pre) sent \<le> maxCommandOutput"
  using assms
proof (induction live pre line emitted bs rule: streamLines.induct)
  case (1 live pre line emitted)
  then show ?case
    by (cases "line \<noteq> [] \<and> emitted + length line \<le> maxCommandOutput \<and> 0 < live")
      (rule exI [of _ "[pre @ line]"], simp, rule exI [of _ "[]"], auto)
next
  case (2 live pre line emitted b bs)
  show ?case
  proof (cases "b = NL")
    case False
    with 2 show ?thesis by simp
  next
    case nl: True
    show ?thesis
    proof (cases "emitted + length line > maxCommandOutput")
      case True
      with nl 2 show ?thesis by (auto intro: exI [of _ "[]"])
    next
      case False
      show ?thesis
      proof (cases live)
        case 0
        with nl False 2 show ?thesis by (auto intro: exI [of _ "[]"])
      next
        case (Suc l)
        from "2.IH"(1) [OF nl refl False Suc] False obtain sent rest where
          s: "streamLines l pre [] (emitted + length line) bs = sent @ rest"
             "rest = [] \<or> rest = [''[output truncated]'']" "\<forall>l \<in> set sent. HasPrefix l pre"
             "emitted + length line + payload (length pre) sent \<le> maxCommandOutput" by auto
        show ?thesis
          by (rule exI [of _ "(pre @ line) # sent"], rule exI [of _ rest])
            (use s nl False Suc in auto)
      qed
    qed
  qed
qed

section \<open>Properties\<close>

text \<open>C1. Whatever a caller asks \<open>Shell.Run\<close> to do, at most one process is started; its binary
  is on the allowlist, each of its arguments is a non-empty single line without NUL, and it gets the
  fixed environment and not the caller's.\<close>

theorem Run_only_spawns_permitted:
  assumes "Run sc exec hasDeadline binary args log = (r, log')"
  shows "log' = log \<or>
    (\<exists>c. log' = log @ [c] \<and> (\<exists>a \<in> set allowlist. Binary a = sp_binary c) \<and>
      (\<forall>x \<in> set (sp_args c). single_line x) \<and>
      sp_env c = restrictedEnvironment restrictedPath)"
proof (cases "Validate sc binary args")
  case (Inl e)
  then show ?thesis using assms by (simp add: Run_def)
next
  case (Inr u)
  then have ok: "Validate sc binary args = Ok ()" by simp
  show ?thesis
    using assms Inr Validate_binary [OF ok] Validate_single_line [OF ok]
    by (auto simp: Run_def Let_def)
qed

theorem Run_only_spawns_permitted_witness:
  "(\<lambda>log'. log' = [] \<or>
    (\<exists>c. log' = [] @ [c] \<and> (\<exists>a \<in> set allowlist. Binary a = sp_binary c) \<and>
      (\<forall>x \<in> set (sp_args c). single_line x) \<and>
      sp_env c = restrictedEnvironment restrictedPath))
   (snd (Run (\<lambda>_. False) (\<lambda>_. \<lparr>oc_stdout = [], oc_stderr = [], oc_exit = Some 0, oc_failed = False,
      oc_deadline = False\<rparr>) False ''nginx'' [''-t''] []))"
  using Run_only_spawns_permitted [OF prod.collapse [symmetric]] by blast

text \<open>C2. Apart from curl and test, whose argument lists are matched as a whole, and ufw, whose comments have a
  pattern of their own, every accepted argument that starts with a dash is a flag listed for that binary (possibly
  followed by \<open>=value\<close>), and every other one consists of operand characters and has no dot-dot.\<close>

theorem Validate_arguments_confined:
  assumes "Validate sc binary args = Ok ()" "binary \<noteq> ''curl''" "binary \<noteq> ''test''"
    and "binary \<noteq> ''ufw''" "x \<in> set args"
  shows "\<exists>a \<in> set allowlist. Binary a = binary \<and>
    (if HasPrefix x ''-''
     then \<exists>f \<in> set (AllowedArgs a). x = f \<or> HasPrefix x (f @ ''='')
     else list_all (Class [is_upper, is_lower, is_digit] ''_@%+.,:/=-'') x \<and> \<not> Contains x ''..'')"
proof -
  from Validate_generic [OF assms(1-3)] obtain a where
    a: "a \<in> set allowlist" "Binary a = binary" "checkArgs sc binary (AllowedArgs a) None args = Ok ()"
    by blast
  from checkArgs_member [OF a(3) assms(5)] assms(4) have "isAllowedArg x (AllowedArgs a)" by simp
  then show ?thesis
    using a(1,2) by (auto simp: isAllowedArg_def safeOperand_def MatchString_plus list_ex_iff)
qed

theorem Validate_arguments_confined_witness:
  "\<exists>a \<in> set allowlist. Binary a = ''journalctl'' \<and>
    (if HasPrefix ''-u'' ''-''
     then \<exists>f \<in> set (AllowedArgs a). ''-u'' = f \<or> HasPrefix ''-u'' (f @ ''='')
     else list_all (Class [is_upper, is_lower, is_digit] ''_@%+.,:/=-'') ''-u'' \<and> \<not> Contains ''-u'' ''..'')"
  by (rule Validate_arguments_confined [where sc = "\<lambda>_. False" and args = "[''-u'', ''nginx'']"])
    (code_simp, simp_all)

lemma pathWithin_under: "pathWithin p root \<Longrightarrow> path_under root p"
  by (auto simp: pathWithin_def prefix_under)

lemma opensslOperands_in:
  "opensslOperands prev args = Ok () \<Longrightarrow> i < length args \<Longrightarrow> prev_arg prev args i = Some ''-in'' \<Longrightarrow>
     pathWithin (args ! i) ''/etc/letsencrypt'' \<or> pathWithin (args ! i) ''/var/lib/opendeploy''"
proof (induction prev args arbitrary: i rule: opensslOperands.induct)
  case (2 prev arg args)
  then show ?case
    by (cases i; cases "i - 1") (auto simp: prev_arg_def split: if_splits)
qed simp

text \<open>C3. A log file that \<open>tail\<close> is started on (an operand that is not a number) lies in /var/log, and a certificate that
  \<open>openssl -in\<close> reads lies in one of the two managed certificate directories, as component
  paths and not only as string prefixes.\<close>

theorem tail_and_openssl_confined:
  "(Validate sc ''tail'' args = Ok () \<and> x \<in> set args \<and> \<not> HasPrefix x ''-'' \<and> \<not> MatchString decimal x \<longrightarrow>
      path_under ''/var/log'' x) \<and>
   (Validate sc ''openssl'' args = Ok () \<and> Suc i < length args \<and> args ! i = ''-in'' \<longrightarrow>
      path_under ''/etc/letsencrypt'' (args ! Suc i) \<or> path_under ''/var/lib/opendeploy'' (args ! Suc i))"
proof (intro conjI impI)
  assume "Validate sc ''tail'' args = Ok () \<and> x \<in> set args \<and> \<not> HasPrefix x ''-'' \<and> \<not> MatchString decimal x"
  then have "tailOperand x = Ok ()" and x: "\<not> HasPrefix x ''-''" "\<not> MatchString decimal x"
    by (auto elim!: Validate_generic simp: validateOperands_def)
  then show "path_under ''/var/log'' x"
    by (simp add: tailOperand_def pathWithin_under)
next
  assume a: "Validate sc ''openssl'' args = Ok () \<and> Suc i < length args \<and> args ! i = ''-in''"
  then have "opensslOperands None args = Ok ()"
    by (auto elim!: Validate_generic simp: validateOperands_def)
  with a opensslOperands_in [of None args "Suc i"] show
    "path_under ''/etc/letsencrypt'' (args ! Suc i) \<or> path_under ''/var/lib/opendeploy'' (args ! Suc i)"
    by (auto simp: prev_arg_def pathWithin_under)
qed

theorem tail_and_openssl_confined_witness:
  "path_under ''/var/log'' ''/var/log/nginx/error.log''"
proof -
  have "Validate (\<lambda>_. False) ''tail'' [''-n'', ''10'', ''/var/log/nginx/error.log''] = Ok ()"
    by code_simp
  moreover have "\<not> MatchString decimal ''/var/log/nginx/error.log''" by code_simp
  ultimately show ?thesis
    using tail_and_openssl_confined [where sc = "\<lambda>_. False"
        and args = "[''-n'', ''10'', ''/var/log/nginx/error.log'']" and x = "''/var/log/nginx/error.log''"]
    by (simp add: HasPrefix_def)
qed

lemma Validate_one_operand:
  assumes "find (\<lambda>a. Binary a = binary) allowlist = Some a"
    and "binary \<noteq> []" "TrimSpace binary = binary" "\<not> ContainsAny binary [SLASH, BACKSLASH]"
    and "binary \<noteq> ''curl''" "binary \<noteq> ''test''"
    and "\<not> malformed x" "\<not> HasPrefix x ''-''" "MatchString safeOperand x" "\<not> Contains x ''..''"
    and "validateOperands binary [x] = Ok ()"
  shows "Validate sc binary [x] = Ok ()"
  using assms by (auto simp: Validate_def isAllowedArg_def)

lemma systemctl_trim: "TrimSpace ''systemctl'' = ''systemctl''"
  by code_simp

lemma node_trim: "TrimSpace ''node'' = ''node''"
  by code_simp

lemma service_chars:
  assumes "list_all (Class [is_upper, is_lower, is_digit] ''_.@-'') w"
  shows "list_all (Class [is_upper, is_lower, is_digit] ''_@%+.,:/=-'') w"
    and "\<not> ContainsAny w [NUL, CR, NL]"
  using assms
  by (auto simp: list_all_iff Class_def ContainsAny_iff byte_class_defs)

text \<open>The keywords of the allowlist do not restrict the operands: any word of service
  characters passes as the only argument of \<open>systemctl\<close>, so \<open>systemctl poweroff\<close> and
  \<open>systemctl mask\<close> are accepted although neither is a listed keyword, and any path without
  dot-dot passes as the only argument of \<open>node\<close> and \<open>php\<close>, which then run that file.\<close>

theorem Validate_ignores_keywords:
  assumes "list_all (Class [is_upper, is_lower, is_digit] ''_.@-'') w" "w \<noteq> []"
    and "length w < maxCommandArgument" "\<not> HasPrefix w ''-''" "\<not> Contains w ''..''"
  shows "Validate sc ''systemctl'' [w] = Ok () \<and> Validate sc ''node'' [''/'' @ w] = Ok ()"
proof
  have chars: "MatchString safeService w" "MatchString safeOperand w" "MatchString safeOperand (SLASH # w)"
    using assms(1,2) service_chars(1) [OF assms(1)]
    by (simp_all add: safeService_def safeOperand_def MatchString_plus Class_def
        del: MatchString.simps)
  have mal: "\<not> malformed w" "\<not> malformed (SLASH # w)"
    using assms(2,3) service_chars(2) [OF assms(1)] by (auto simp: malformed_def ContainsAny_iff)
  show "Validate sc ''systemctl'' [w] = Ok ()"
    by (rule Validate_one_operand)
      (use assms chars mal in \<open>auto simp: validateOperands_def serviceOperand_def allowlist_def
        allowed_command_def ContainsAny_def systemctl_trim\<close>)
  show "Validate sc ''node'' [''/'' @ w] = Ok ()"
    by (rule Validate_one_operand)
      (use assms chars mal in \<open>auto simp: validateOperands_def allowlist_def HasPrefix_def
        allowed_command_def ContainsAny_def node_trim\<close>)
qed

theorem Validate_ignores_keywords_witness:
  "Validate (\<lambda>_. False) ''systemctl'' [''poweroff''] = Ok () \<and>
   Validate (\<lambda>_. False) ''node'' [''/'' @ ''poweroff''] = Ok ()"
  by (rule Validate_ignores_keywords) code_simp+

text \<open>Output is bounded whatever the process writes: the two result strings hold the first
  megabyte of each pipe, unmarked only when nothing was cut, and the lines streamed from a pipe carry
  at most a megabyte of payload, followed by at most one truncation marker.\<close>

theorem output_is_bounded:
  "lb_buffer (writeAll chunks) = take maxCommandOutput (concat chunks) \<and>
   (length (concat chunks) \<le> maxCommandOutput \<or> lb_truncated (writeAll chunks)) \<and>
   length (lb_String (writeAll chunks)) \<le> maxCommandOutput + 19 \<and>
   (\<exists>sent rest. streamLines live pre [] 0 bs = sent @ rest \<and>
      (rest = [] \<or> rest = [''[output truncated]'']) \<and>
      payload (length pre) sent \<le> maxCommandOutput)"
  using writeAll_spec [of chunks] lb_String_bound [of chunks]
    streamLines_payload [of 0 live pre "[]" bs] by auto

end
