(* ===== verification/Agent_Services.thy ===== *)
theory Agent_Services
  imports Agent_Executor
begin

text \<open>
  The Agent's service and package managers (\<open>internal/agent/systemd/manager.go\<close>,
  \<open>internal/agent/packages/manager.go\<close>), which do their work through \<open>Shell.Run\<close> and
  \<open>Shell.Stream\<close>. The state is the log of the processes that were started. What a process
  gives may depend on what ran before it: the environment's \<open>se_exec\<close> takes the log.
\<close>

section \<open>The shell\<close>

text \<open>
  \<open>se_start\<close> says whether a streamed process can be started; \<open>se_merge\<close> is the order in
  which the lines of the two pipes reach the channel, \<open>se_room\<close> whether the channel accepts the
  final message.
\<close>

record shell_env =
  se_comment :: "string \<Rightarrow> bool"
  se_exec :: "spawned list \<Rightarrow> spawned \<Rightarrow> outcome"
  se_deadline :: bool
  se_start :: "spawned list \<Rightarrow> spawned \<Rightarrow> bool"
  se_merge :: "string list \<Rightarrow> string list \<Rightarrow> string list"
  se_room :: bool

type_synonym run_result = "Result option \<times> exec_error option"

definition shell_Run :: "shell_env \<Rightarrow> string \<Rightarrow> string list \<Rightarrow> spawned list \<Rightarrow> run_result \<times> spawned list" where
  "shell_Run env binary args log = Run (se_comment env) (se_exec env log) (se_deadline env) binary args log"

text \<open>\<open>Shell.Stream\<close>: all that the receiver of the channel sees, or the error.\<close>

definition shell_Stream ::
  "shell_env \<Rightarrow> string \<Rightarrow> string list \<Rightarrow> (spawned list, exec_error, string list) action" where
  "shell_Stream env binary args log =
     (case Validate (se_comment env) binary args of
        Inl e \<Rightarrow> (Err e, log)
      | Inr _ \<Rightarrow>
          let cmd = \<lparr>sp_binary = binary, sp_args = args, sp_env = restrictedEnvironment restrictedPath,
                     sp_timeout = withCommandTimeout (se_deadline env) binary\<rparr>;
              oc = se_exec env log cmd;
              out = concat (oc_stdout oc);
              err = concat (oc_stderr oc)
          in if \<not> se_start env log cmd then (Err (ProcessFailed binary), log)
             else (Ok (se_merge env (streamLines (Suc (length out)) [] [] 0 out)
                                    (streamLines (Suc (length err)) ''[stderr] '' [] 0 err)
                       @ (if oc_failed oc \<and> se_room env then [''[stderr] process exited unsuccessfully''] else [])),
                   log @ [cmd]))"

text \<open>A call of Run whose result is used only when there is no error.\<close>

definition shell_Ok :: "shell_env \<Rightarrow> string \<Rightarrow> string list \<Rightarrow> (spawned list, exec_error, string) action" where
  "shell_Ok env binary args log =
     (case shell_Run env binary args log of
        ((r, Some e), log') \<Rightarrow> (Err e, log')
      | ((r, None), log') \<Rightarrow> (Ok (case r of Some x \<Rightarrow> Stdout x | None \<Rightarrow> []), log'))"

section \<open>systemd\<close>

datatype host_error =
    SystemdFailed string string exec_error
  | PackageFailed string string exec_error
  | VersionNotFound string
  | NoPackageManager
  | ShellFailed exec_error

type_synonym 'a host = "(spawned list, host_error, 'a) action"

record 't ServiceStatus =
  st_Name :: string
  st_Active :: bool
  st_Enabled :: bool
  st_SubState :: string
  st_Since :: "'t option"
  st_MainPID :: int

definition systemctl :: "shell_env \<Rightarrow> string \<Rightarrow> string \<Rightarrow> unit host" where
  "systemctl env verb name =
     wrapS (SystemdFailed verb name) (bindS (shell_Ok env ''systemctl'' [verb, name]) (\<lambda>_. retS ()))"

text \<open>Start, Restart and Enable: on an error, reload the units and try once more.\<close>

definition systemctl_retry :: "shell_env \<Rightarrow> string \<Rightarrow> string \<Rightarrow> unit host" where
  "systemctl_retry env verb name log =
     (case shell_Ok env ''systemctl'' [verb, name] log of
        (Inr _, log1) \<Rightarrow> (Ok (), log1)
      | (Inl _, log1) \<Rightarrow>
          (case shell_Ok env ''systemctl'' [''daemon-reload''] log1 of
             (_, log2) \<Rightarrow> systemctl env verb name log2))"

definition systemd_Start :: "shell_env \<Rightarrow> string \<Rightarrow> unit host" where
  "systemd_Start env = systemctl_retry env ''start''"

definition systemd_Stop :: "shell_env \<Rightarrow> string \<Rightarrow> unit host" where
  "systemd_Stop env = systemctl env ''stop''"

definition systemd_Restart :: "shell_env \<Rightarrow> string \<Rightarrow> unit host" where
  "systemd_Restart env = systemctl_retry env ''restart''"

definition systemd_Reload :: "shell_env \<Rightarrow> string \<Rightarrow> unit host" where
  "systemd_Reload env = systemctl env ''reload''"

definition systemd_Enable :: "shell_env \<Rightarrow> string \<Rightarrow> unit host" where
  "systemd_Enable env = systemctl_retry env ''enable''"

definition systemd_Disable :: "shell_env \<Rightarrow> string \<Rightarrow> unit host" where
  "systemd_Disable env = systemctl env ''disable''"

definition systemd_Mask :: "shell_env \<Rightarrow> string \<Rightarrow> unit host" where
  "systemd_Mask env = systemctl env ''mask''"

definition systemd_Unmask :: "shell_env \<Rightarrow> string \<Rightarrow> unit host" where
  "systemd_Unmask env = systemctl env ''unmask''"

text \<open>Reading the output of \<open>systemctl show\<close>; \<open>parseTime\<close> stands for \<open>time.Parse\<close>.\<close>

definition showLine :: "(string \<Rightarrow> 't option) \<Rightarrow> string \<Rightarrow> 't ServiceStatus \<Rightarrow> 't ServiceStatus" where
  "showLine parseTime line st =
     (case SplitN2 (CHR ''='') line of
        [k, v] \<Rightarrow>
          (let key = TrimSpace k; val = TrimSpace v
           in if key = ''SubState'' then st\<lparr>st_SubState := val\<rparr>
              else if key = ''MainPID'' then
                (case Atoi val of Some pid \<Rightarrow> st\<lparr>st_MainPID := pid\<rparr> | None \<Rightarrow> st)
              else if key = ''ActiveEnterTimestamp'' then
                (case parseTime val of Some t \<Rightarrow> st\<lparr>st_Since := Some t\<rparr> | None \<Rightarrow> st)
              else st)
      | _ \<Rightarrow> st)"

definition showProperties :: string where
  "showProperties = ''SubState,MainPID,ActiveEnterTimestamp''"

definition systemd_Status ::
  "(string \<Rightarrow> 't option) \<Rightarrow> shell_env \<Rightarrow> string \<Rightarrow> spawned list \<Rightarrow> 't ServiceStatus \<times> spawned list" where
  "systemd_Status parseTime env name log =
     (let (activeResult, log1) = shell_Run env ''systemctl'' [''is-active'', name] log;
          (enabledResult, log2) = shell_Run env ''systemctl'' [''is-enabled'', name] log1;
          (showResult, log3) = shell_Run env ''systemctl'' [''show'', ''-p'', showProperties, name] log2;
          st = \<lparr>st_Name = name,
                st_Active = (case fst activeResult of None \<Rightarrow> False | Some r \<Rightarrow> TrimSpace (Stdout r) = ''active''),
                st_Enabled = (case fst enabledResult of None \<Rightarrow> False | Some r \<Rightarrow> TrimSpace (Stdout r) = ''enabled''),
                st_SubState = [], st_Since = None, st_MainPID = 0\<rparr>
      in (case fst showResult of None \<Rightarrow> st
          | Some r \<Rightarrow> fold (showLine parseTime) (Split NL (Stdout r)) st, log3))"

definition systemd_Logs :: "shell_env \<Rightarrow> string \<Rightarrow> int \<Rightarrow> string list host" where
  "systemd_Logs env name n =
     bindS (wrapS (SystemdFailed ''logs'' name)
       (shell_Ok env ''journalctl'' [''-u'', name, ''-n'', Itoa n, ''--no-pager'', ''-o'', ''short'']))
     (\<lambda>out. retS (Split NL (TrimSpace out)))"

section \<open>Packages\<close>

datatype pkg_manager = APT | DNF string

definition Detect :: "(string \<Rightarrow> bool) \<Rightarrow> (host_error, pkg_manager) result" where
  "Detect hasExecutable =
     (if hasExecutable ''apt-get'' then Ok APT
      else if hasExecutable ''dnf'' then Ok (DNF ''dnf'')
      else if hasExecutable ''yum'' then Ok (DNF ''yum'')
      else Err NoPackageManager)"

definition pkg_stream :: "shell_env \<Rightarrow> string \<Rightarrow> string \<Rightarrow> string \<Rightarrow> string list \<Rightarrow> string list host" where
  "pkg_stream env binary oper pkg args = wrapS (PackageFailed oper pkg) (shell_Stream env binary args)"

definition apt_Install :: "shell_env \<Rightarrow> string \<Rightarrow> string list host" where
  "apt_Install env pkg = pkg_stream env ''apt-get'' ''install'' pkg [''install'', ''-y'', ''-q'', pkg]"

definition apt_Remove :: "shell_env \<Rightarrow> string \<Rightarrow> string list host" where
  "apt_Remove env pkg = pkg_stream env ''apt-get'' ''remove'' pkg [''remove'', ''-y'', pkg]"

definition apt_Update :: "shell_env \<Rightarrow> string \<Rightarrow> string list host" where
  "apt_Update env pkg = pkg_stream env ''apt-get'' ''update'' pkg [''install'', ''-y'', ''--upgrade'', pkg]"

definition apt_Purge :: "shell_env \<Rightarrow> string \<Rightarrow> string list host" where
  "apt_Purge env pkg = pkg_stream env ''apt-get'' ''purge'' pkg [''remove'', ''--purge'', ''-y'', pkg]"

definition apt_Upgrade :: "shell_env \<Rightarrow> string list host" where
  "apt_Upgrade env = pkg_stream env ''apt-get'' ''upgrade'' [] [''upgrade'', ''-y'', ''-q'']"

definition apt_Search :: "shell_env \<Rightarrow> string \<Rightarrow> string host" where
  "apt_Search env pkg = wrapS (PackageFailed ''search'' pkg) (shell_Ok env ''apt'' [''search'', pkg])"

definition dnf_Install :: "string \<Rightarrow> shell_env \<Rightarrow> string \<Rightarrow> string list host" where
  "dnf_Install bin env pkg = pkg_stream env bin ''install'' pkg [''install'', ''-y'', pkg]"

definition dnf_Remove :: "string \<Rightarrow> shell_env \<Rightarrow> string \<Rightarrow> string list host" where
  "dnf_Remove bin env pkg = pkg_stream env bin ''remove'' pkg [''remove'', ''-y'', pkg]"

definition dnf_Update :: "string \<Rightarrow> shell_env \<Rightarrow> string \<Rightarrow> string list host" where
  "dnf_Update bin env pkg = pkg_stream env bin ''update'' pkg [''update'', ''-y'', pkg]"

definition dnf_Purge :: "string \<Rightarrow> shell_env \<Rightarrow> string \<Rightarrow> string list host" where
  "dnf_Purge bin env pkg = dnf_Remove bin env pkg"

definition dnf_Upgrade :: "string \<Rightarrow> shell_env \<Rightarrow> string list host" where
  "dnf_Upgrade bin env = pkg_stream env bin ''upgrade'' [] [''upgrade'', ''-y'']"

definition dnf_Search :: "string \<Rightarrow> shell_env \<Rightarrow> string \<Rightarrow> string host" where
  "dnf_Search bin env pkg = wrapS (PackageFailed ''search'' pkg) (shell_Ok env bin [''search'', pkg])"

text \<open>The methods of the interface, by the manager behind it.\<close>

definition pkg_Install :: "pkg_manager \<Rightarrow> shell_env \<Rightarrow> string \<Rightarrow> string list host" where
  "pkg_Install m = (case m of APT \<Rightarrow> apt_Install | DNF bin \<Rightarrow> dnf_Install bin)"

definition pkg_Remove :: "pkg_manager \<Rightarrow> shell_env \<Rightarrow> string \<Rightarrow> string list host" where
  "pkg_Remove m = (case m of APT \<Rightarrow> apt_Remove | DNF bin \<Rightarrow> dnf_Remove bin)"

definition pkg_Update :: "pkg_manager \<Rightarrow> shell_env \<Rightarrow> string \<Rightarrow> string list host" where
  "pkg_Update m = (case m of APT \<Rightarrow> apt_Update | DNF bin \<Rightarrow> dnf_Update bin)"

definition pkg_Purge :: "pkg_manager \<Rightarrow> shell_env \<Rightarrow> string \<Rightarrow> string list host" where
  "pkg_Purge m = (case m of APT \<Rightarrow> apt_Purge | DNF bin \<Rightarrow> dnf_Purge bin)"

definition pkg_Upgrade :: "pkg_manager \<Rightarrow> shell_env \<Rightarrow> string list host" where
  "pkg_Upgrade m = (case m of APT \<Rightarrow> apt_Upgrade | DNF bin \<Rightarrow> dnf_Upgrade bin)"

definition pkg_Search :: "pkg_manager \<Rightarrow> shell_env \<Rightarrow> string \<Rightarrow> string host" where
  "pkg_Search m = (case m of APT \<Rightarrow> apt_Search | DNF bin \<Rightarrow> dnf_Search bin)"

lemmas pkg_defs = pkg_Install_def pkg_Remove_def pkg_Update_def pkg_Purge_def pkg_Upgrade_def pkg_Search_def
  apt_Install_def apt_Remove_def apt_Update_def apt_Purge_def apt_Upgrade_def apt_Search_def
  dnf_Install_def dnf_Remove_def dnf_Update_def dnf_Purge_def dnf_Upgrade_def dnf_Search_def

fun aptVersion :: "string list \<Rightarrow> string option" where
  "aptVersion [] = None"
| "aptVersion (line # ls) =
     (if HasPrefix line ''Version: '' then Some (TrimPrefix line ''Version: '') else aptVersion ls)"

fun dnfVersion :: "string list \<Rightarrow> string option" where
  "dnfVersion [] = None"
| "dnfVersion (line # ls) =
     (if HasPrefix line ''Version''
      then (case Split (CHR '':'') line of [_, v] \<Rightarrow> Some (TrimSpace v) | _ \<Rightarrow> dnfVersion ls)
      else dnfVersion ls)"

definition foundVersion :: "string \<Rightarrow> string option \<Rightarrow> string host" where
  "foundVersion pkg v = (case v of Some x \<Rightarrow> retS x | None \<Rightarrow> failS (VersionNotFound pkg))"

definition apt_LatestVersion :: "shell_env \<Rightarrow> string \<Rightarrow> string host" where
  "apt_LatestVersion env pkg =
     bindS (wrapS (PackageFailed ''show'' pkg) (shell_Ok env ''apt'' [''show'', pkg]))
       (\<lambda>out. foundVersion pkg (aptVersion (Split NL out)))"

definition dnf_LatestVersion :: "string \<Rightarrow> shell_env \<Rightarrow> string \<Rightarrow> string host" where
  "dnf_LatestVersion bin env pkg =
     bindS (wrapS (PackageFailed ''info'' pkg) (shell_Ok env bin [''info'', pkg]))
       (\<lambda>out. foundVersion pkg (dnfVersion (Split NL out)))"

definition pkg_LatestVersion :: "pkg_manager \<Rightarrow> shell_env \<Rightarrow> string \<Rightarrow> string host" where
  "pkg_LatestVersion m = (case m of APT \<Rightarrow> apt_LatestVersion | DNF bin \<Rightarrow> dnf_LatestVersion bin)"

text \<open>The first line that lists the package, as the version it shows.\<close>

fun installedVersion :: "string list \<Rightarrow> string list \<Rightarrow> string option" where
  "installedVersion pres [] = None"
| "installedVersion pres (line # ls) =
     (if list_ex (HasPrefix line) pres
      then (case Fields line of _ # v # _ \<Rightarrow> Some v | _ \<Rightarrow> Some [])
      else installedVersion pres ls)"

definition nodeFallback :: "shell_env \<Rightarrow> string \<Rightarrow> (bool \<times> string) host" where
  "nodeFallback env pkg log =
     (if pkg \<noteq> ''nodejs'' then (Ok (False, []), log)
      else case shell_Ok env ''node'' [''--version''] log of
             (Inr out, log') \<Rightarrow> (Ok (True, TrimSpace (TrimPrefix out ''v'')), log')
           | (Inl _, log') \<Rightarrow> (Ok (False, []), log'))"

definition installedAnswer :: "shell_env \<Rightarrow> string \<Rightarrow> string option \<Rightarrow> (bool \<times> string) host" where
  "installedAnswer env pkg v = (case v of Some x \<Rightarrow> retS (True, x) | None \<Rightarrow> nodeFallback env pkg)"

definition apt_Installed :: "shell_env \<Rightarrow> string \<Rightarrow> (bool \<times> string) host" where
  "apt_Installed env pkg =
     bindS (wrapS ShellFailed (shell_Ok env ''apt'' [''list'', ''--installed'', pkg]))
       (\<lambda>out. installedAnswer env pkg (installedVersion [pkg @ ''/'', pkg @ '' ''] (Split NL out)))"

definition dnf_Installed :: "string \<Rightarrow> shell_env \<Rightarrow> string \<Rightarrow> (bool \<times> string) host" where
  "dnf_Installed bin env pkg =
     bindS (wrapS ShellFailed (shell_Ok env bin [''list'', ''--installed'']))
       (\<lambda>out. installedAnswer env pkg (installedVersion [pkg @ ''.'', pkg @ '' ''] (Split NL out)))"

definition pkg_Installed :: "pkg_manager \<Rightarrow> shell_env \<Rightarrow> string \<Rightarrow> (bool \<times> string) host" where
  "pkg_Installed m = (case m of APT \<Rightarrow> apt_Installed | DNF bin \<Rightarrow> dnf_Installed bin)"

section \<open>Only permitted processes are started\<close>

text \<open>A process whose command line the validator accepts, with the fixed environment.\<close>

definition permitted :: "shell_env \<Rightarrow> spawned \<Rightarrow> bool" where
  "permitted env cmd =
     (is_ok (Validate (se_comment env) (sp_binary cmd) (sp_args cmd)) \<and>
      sp_env cmd = restrictedEnvironment restrictedPath)"

definition grows :: "shell_env \<Rightarrow> spawned list \<Rightarrow> spawned list \<Rightarrow> bool" where
  "grows env log log' = (\<exists>cmds. log' = log @ cmds \<and> list_all (permitted env) cmds)"

lemma grows_refl [simp]: "grows env log log"
  by (simp add: grows_def)

lemma grows_order [intro, simp]: "reflp (grows env)" "transp (grows env)"
  by (force simp: reflp_def transp_def grows_def)+

lemma grows_trans: "grows env a b \<Longrightarrow> grows env b c \<Longrightarrow> grows env a c"
  using transpD [OF grows_order(2)] .

lemma shell_Run_log:
  "snd (shell_Run env b args log) =
     (if is_ok (Validate (se_comment env) b args)
      then log @ [\<lparr>sp_binary = b, sp_args = args, sp_env = restrictedEnvironment restrictedPath,
                   sp_timeout = withCommandTimeout (se_deadline env) b\<rparr>] else log)"
  by (simp add: shell_Run_def Run_def Let_def is_ok_def split: sum.split)

lemma shell_Run_grows: "shell_Run env b args log = (r, log') \<Longrightarrow> grows env log log'"
  using shell_Run_log [of env b args log] by (auto simp: grows_def permitted_def split: if_splits)

lemma shell_Run_rejected:
  "Validate (se_comment env) b args = Err e \<Longrightarrow> shell_Run env b args log = ((None, Some e), log)"
  by (simp add: shell_Run_def Run_def)

lemma shell_Stream_grows [keeps_intro]: "keeps (grows env) (shell_Stream env b args)"
  unfolding keeps_def
  by (auto simp: shell_Stream_def Let_def grows_def permitted_def split: sum.split)

lemma shell_Ok_grows [keeps_intro]: "keeps (grows env) (shell_Ok env b args)"
proof (rule keepsI)
  fix log
  obtain r x log' where "shell_Run env b args log = ((r, x), log')" by (metis surj_pair)
  then show "grows env log (snd (shell_Ok env b args log))"
    using shell_Run_grows by (cases x) (auto simp: shell_Ok_def)
qed

lemma systemctl_grows [keeps_intro]: "keeps (grows env) (systemctl env verb name)"
  unfolding systemctl_def by (intro keeps_intro grows_order)

lemma systemctl_retry_grows [keeps_intro]: "keeps (grows env) (systemctl_retry env verb name)"
proof (rule keepsI)
  fix log
  obtain r1 log1 where 1: "shell_Ok env ''systemctl'' [verb, name] log = (r1, log1)" by fastforce
  obtain r2 log2 where 2: "shell_Ok env ''systemctl'' [''daemon-reload''] log1 = (r2, log2)" by fastforce
  have g1: "grows env log log1" by (rule keepsD [OF shell_Ok_grows 1])
  have g2: "grows env log1 log2" by (rule keepsD [OF shell_Ok_grows 2])
  have g3: "grows env log2 (snd (systemctl env verb name log2))"
    using systemctl_grows by (simp add: keeps_def)
  show "grows env log (snd (systemctl_retry env verb name log))"
    using 1 2 g1 grows_trans [OF g1 grows_trans [OF g2 g3]] by (cases r1) (simp_all add: systemctl_retry_def)
qed

lemma systemd_grows [keeps_intro]:
  "keeps (grows env) (systemd_Start env name)" "keeps (grows env) (systemd_Stop env name)"
  "keeps (grows env) (systemd_Restart env name)" "keeps (grows env) (systemd_Reload env name)"
  "keeps (grows env) (systemd_Enable env name)" "keeps (grows env) (systemd_Disable env name)"
  "keeps (grows env) (systemd_Mask env name)" "keeps (grows env) (systemd_Unmask env name)"
  "keeps (grows env) (systemd_Logs env name n)"
  unfolding systemd_Start_def systemd_Stop_def systemd_Restart_def systemd_Reload_def systemd_Enable_def
    systemd_Disable_def systemd_Mask_def systemd_Unmask_def systemd_Logs_def
  by (intro keeps_intro grows_order)+

lemma systemd_Status_grows: "grows env log (snd (systemd_Status pt env name log))"
proof -
  obtain a log1 where 1: "shell_Run env ''systemctl'' [''is-active'', name] log = (a, log1)" by fastforce
  obtain b log2 where 2: "shell_Run env ''systemctl'' [''is-enabled'', name] log1 = (b, log2)" by fastforce
  obtain c log3 where 3: "shell_Run env ''systemctl'' [''show'', ''-p'', showProperties, name] log2 = (c, log3)"
    by fastforce
  have "grows env log log3"
    by (rule grows_trans [OF shell_Run_grows [OF 1] grows_trans [OF shell_Run_grows [OF 2] shell_Run_grows [OF 3]]])
  then show ?thesis by (simp add: systemd_Status_def 1 2 3 Let_def)
qed

lemma pkg_grows [keeps_intro]:
  "keeps (grows env) (pkg_Install m env pkg)" "keeps (grows env) (pkg_Remove m env pkg)"
  "keeps (grows env) (pkg_Update m env pkg)" "keeps (grows env) (pkg_Purge m env pkg)"
  "keeps (grows env) (pkg_Upgrade m env)" "keeps (grows env) (pkg_Search m env pkg)"
  unfolding pkg_defs pkg_stream_def by (cases m; simp; intro keeps_intro)+

lemma nodeFallback_grows [keeps_intro]: "keeps (grows env) (nodeFallback env pkg)"
proof (rule keepsI)
  fix log
  obtain r log' where n: "shell_Ok env ''node'' [''--version''] log = (r, log')" by fastforce
  then have "grows env log log'" using keepsD [OF shell_Ok_grows] by blast
  then show "grows env log (snd (nodeFallback env pkg log))"
    using n by (cases r) (auto simp: nodeFallback_def)
qed

lemma foundVersion_grows [keeps_intro]: "keeps (grows env) (foundVersion pkg v)"
  by (cases v) (auto simp: foundVersion_def intro: keeps_intro)

lemma installedAnswer_grows [keeps_intro]: "keeps (grows env) (installedAnswer env pkg v)"
  by (cases v) (auto simp: installedAnswer_def intro: keeps_intro)

lemma pkg_query_grows [keeps_intro]:
  "keeps (grows env) (pkg_LatestVersion m env pkg)" "keeps (grows env) (pkg_Installed m env pkg)"
  unfolding pkg_LatestVersion_def pkg_Installed_def apt_LatestVersion_def dnf_LatestVersion_def
    apt_Installed_def dnf_Installed_def
  by (cases m; simp; intro keeps_intro grows_order)+

section \<open>Properties\<close>

lemma show_rejected: "\<exists>e. Validate sc ''systemctl'' [''show'', ''-p'', showProperties, name] = Err e"
proof (cases "Validate sc ''systemctl'' [''show'', ''-p'', showProperties, name]")
  case (Inr u)
  then have "forEach serviceOperand [''show'', ''-p'', showProperties, name] = Ok ()"
    by (auto simp: Validate_def validateOperands_def andThen_Ok split: if_splits option.splits)
  then have "is_ok (serviceOperand showProperties)" by (auto simp: andThen_Ok is_ok_iff)
  moreover have "\<not> is_ok (serviceOperand showProperties)" by code_simp
  ultimately show ?thesis by blast
qed blast

text \<open>The status of a service never carries its sub-state, main process or start time: the
  validator refuses the property list that Status asks systemctl to show, whatever the service is
  called and whatever systemctl would answer, so these fields keep their zero values.\<close>

theorem status_details_never_read:
  "st_SubState (fst (systemd_Status parseTime env name log)) = [] \<and>
   st_MainPID (fst (systemd_Status parseTime env name log)) = 0 \<and>
   st_Since (fst (systemd_Status parseTime env name log)) = None"
proof -
  obtain a log1 where 1: "shell_Run env ''systemctl'' [''is-active'', name] log = (a, log1)" by fastforce
  obtain b log2 where 2: "shell_Run env ''systemctl'' [''is-enabled'', name] log1 = (b, log2)" by fastforce
  obtain e where "Validate (se_comment env) ''systemctl'' [''show'', ''-p'', showProperties, name] = Err e"
    using show_rejected by blast
  then show ?thesis by (simp add: systemd_Status_def 1 2 shell_Run_rejected Let_def)
qed

definition pkg_binaries :: "string list" where
  "pkg_binaries = [''apt-get'', ''apt'', ''dnf'', ''yum'']"

text \<open>A package name that the validator's pattern describes.\<close>

definition safe_package :: "string \<Rightarrow> bool" where
  "safe_package pkg = (MatchString safePackage pkg \<and> length pkg \<le> maxCommandArgument \<and> \<not> Contains pkg ''..'')"

lemma safePackage_operand:
  assumes "safe_package pkg"
  shows "isAllowedArg pkg allowed \<and> \<not> malformed pkg \<and> packageOperand pkg = Ok ()"
proof -
  have m: "MatchString safePackage pkg" using assms by (simp add: safe_package_def)
  have hd: "pkg \<noteq> []" "is_alnum (hd pkg)"
    using MatchString_hd [OF m [unfolded safePackage_def]] by auto
  have chars: "is_alnum c \<or> Class [is_upper, is_lower, is_digit] ''+._:-'' c" if "c \<in> set pkg" for c
    using MatchString_chars [OF m that] by (simp add: safePackage_def)
  have "Class [is_upper, is_lower, is_digit] ''_@%+.,:/=-'' c" if "c \<in> set pkg" for c
    using chars [OF that] by (auto simp: Class_def is_alnum_def)
  then have "list_all (Class [is_upper, is_lower, is_digit] ''_@%+.,:/=-'') pkg"
    by (simp add: list_all_iff)
  then have op: "MatchString safeOperand pkg" using hd(1)
    by (simp add: safeOperand_def MatchString_plus del: MatchString.simps)
  have nodash: "\<not> HasPrefix pkg ''-''"
    using hd by (cases pkg) (auto simp: HasPrefix_def byte_class_defs)
  have "c \<noteq> NUL \<and> c \<noteq> CR \<and> c \<noteq> NL" if "c \<in> set pkg" for c
    using chars [OF that] by (auto simp: Class_def byte_class_defs)
  then have "\<not> ContainsAny pkg [NUL, CR, NL]" by (auto simp: ContainsAny_iff)
  then show ?thesis
    using assms op nodash hd(1) m
    by (simp add: isAllowedArg_def malformed_def packageOperand_def safe_package_def)
qed

lemma Validate_package:
  assumes "binary \<in> set pkg_binaries" "Validate sc binary xs = Ok ()" "safe_package pkg"
  shows "Validate sc binary (xs @ [pkg]) = Ok ()"
proof -
  have b: "binary \<in> set [''apt-get'', ''apt'', ''dnf'', ''yum'']" "binary \<noteq> ''curl''" "binary \<noteq> ''test''" "binary \<noteq> ''ufw''"
    using assms(1) by (auto simp: pkg_binaries_def)
  have "checkArgs sc binary al prev (xs @ [pkg]) = checkArgs sc binary al prev xs" for al prev
    using safePackage_operand [OF assms(3), of al] b(4) by (induction xs arbitrary: prev) auto
  moreover have "forEach packageOperand (xs @ [pkg]) = forEach packageOperand xs"
    using safePackage_operand [OF assms(3)] by (induction xs) (auto split: sum.splits simp: andThen_def)
  ultimately show ?thesis
    using assms(2) b by (auto simp: Validate_def validateOperands_def andThen_Ok split: if_splits option.splits)
qed

lemma package_prefixes:
  "Validate sc ''apt-get'' [''install'', ''-y'', ''-q''] = Ok ()" "Validate sc ''apt-get'' [''remove'', ''-y''] = Ok ()"
  "Validate sc ''apt-get'' [''install'', ''-y'', ''--upgrade''] = Ok ()"
  "Validate sc ''apt-get'' [''remove'', ''--purge'', ''-y''] = Ok ()"
  "Validate sc ''dnf'' [''install'', ''-y''] = Ok ()" "Validate sc ''dnf'' [''remove'', ''-y''] = Ok ()"
  "Validate sc ''dnf'' [''update'', ''-y''] = Ok ()" "Validate sc ''yum'' [''install'', ''-y''] = Ok ()"
  "Validate sc ''yum'' [''remove'', ''-y''] = Ok ()" "Validate sc ''yum'' [''update'', ''-y''] = Ok ()"
  by code_simp+

text \<open>The command lines of the four package operations.\<close>

definition package_prefix :: "pkg_manager \<Rightarrow> string \<Rightarrow> string \<times> string list" where
  "package_prefix m oper =
     (case m of
        APT \<Rightarrow> (''apt-get'', if oper = ''install'' then [''install'', ''-y'', ''-q'']
                 else if oper = ''remove'' then [''remove'', ''-y'']
                 else if oper = ''update'' then [''install'', ''-y'', ''--upgrade'']
                 else [''remove'', ''--purge'', ''-y''])
      | DNF bin \<Rightarrow> (bin, if oper = ''install'' then [''install'', ''-y''] else if oper = ''update'' then [''update'', ''-y'']
                 else [''remove'', ''-y'']))"

definition package_command :: "pkg_manager \<Rightarrow> string \<Rightarrow> string \<Rightarrow> string \<times> string list" where
  "package_command m oper pkg = (fst (package_prefix m oper), snd (package_prefix m oper) @ [pkg])"

lemma package_command_valid:
  assumes "Detect hasExecutable = Ok m" "safe_package pkg" "package_command m oper pkg = (b, args)"
  shows "Validate sc b args = Ok ()"
proof -
  have m: "m = APT \<or> m = DNF ''dnf'' \<or> m = DNF ''yum''"
    using assms(1) by (auto simp: Detect_def split: if_splits)
  have "fst (package_prefix m oper) \<in> set pkg_binaries"
    using m by (elim disjE) (simp_all add: package_prefix_def pkg_binaries_def)
  moreover have "Validate sc (fst (package_prefix m oper)) (snd (package_prefix m oper)) = Ok ()"
    using m by (elim disjE) (simp_all add: package_prefix_def package_prefixes)
  ultimately show ?thesis
    using assms(3) Validate_package [OF _ _ assms(2)] by (auto simp: package_command_def)
qed

text \<open>C9. The package operations reach the package manager: for a manager that Detect returned and a
  package name of the validator's pattern, Install, Remove, Update and Purge are not refused by the
  validator; when the process can be started, each starts exactly one, with its own command line, and
  returns its output.\<close>

theorem package_operations_run:
  assumes "Detect hasExecutable = Ok m" "safe_package pkg"
    and "(f, oper) \<in> {(pkg_Install, ''install''), (pkg_Remove, ''remove''), (pkg_Update, ''update''), (pkg_Purge, ''purge'')}"
    and "\<And>cmd. se_start env log cmd"
  shows "\<exists>out cmd. f m env pkg log = (Ok out, log @ [cmd]) \<and>
           (sp_binary cmd, sp_args cmd) = package_command m oper pkg"
proof -
  obtain b args where c: "package_command m oper pkg = (b, args)" by fastforce
  have v: "Validate (se_comment env) b args = Ok ()" by (rule package_command_valid [OF assms(1,2) c])
  have "f m env pkg = pkg_stream env b oper pkg args \<or> f m env pkg = pkg_stream env b ''remove'' pkg args"
    using assms(3) c by (cases m) (auto simp: package_command_def package_prefix_def pkg_defs)
  then show ?thesis
    using v assms(4) c by (auto simp: pkg_stream_def shell_Stream_def wrapS_def Let_def)
qed

definition sampleShell :: shell_env where
  "sampleShell = \<lparr>se_comment = (\<lambda>_. False),
     se_exec = (\<lambda>_ _. \<lparr>oc_stdout = [''ok''], oc_stderr = [], oc_exit = Some 0, oc_failed = False, oc_deadline = False\<rparr>),
     se_deadline = False, se_start = (\<lambda>_ _. True), se_merge = (\<lambda>a b. a @ b), se_room = True\<rparr>"

theorem package_operations_run_witness:
  "\<exists>out cmd. pkg_Install APT sampleShell ''nginx'' [] = (Ok out, [] @ [cmd]) \<and>
     (sp_binary cmd, sp_args cmd) = package_command APT ''install'' ''nginx''"
proof (rule package_operations_run [of "\<lambda>b. b = ''apt-get''"])
  show "Detect (\<lambda>b. b = ''apt-get'') = Ok APT" "safe_package ''nginx''" by code_simp+
qed (auto simp: sampleShell_def)

end
