(* ===== verification/Go_OS.thy ===== *)
theory Go_OS
  imports Go_Path "HOL-Library.Word"
begin

unbundle bit_operations_syntax

text \<open>
  The file system that packages os and path/filepath act on. A path is its list of components below
  the root; \<open>nodes\<close> says what is there. Every system call that the code checks for an error can
  fail: it takes the next element of \<open>faults\<close> and fails when that is True, so a theorem about
  all states covers every combination of failures. A failing call leaves the nodes as they were,
  except that a failing write stores the first \<open>partial\<close> bytes.
  \<open>walk\<close> follows symbolic links as the kernel does; Lstat and EvalSymlinks use it. The other
  operations take the physical path: the modelled code resolves a path before it uses it, and the
  lemma \<open>walk_link_free\<close> says that following such a path leads to itself.
\<close>

named_theorems os_ops \<open>unfolding rules of the file-system operations\<close>

type_synonym path = "string list"

record meta =
  perm :: "32 word"
  uid :: int
  gid :: int

datatype node = FileN string meta | DirN meta | LinkN string

record os =
  tree :: "(path \<times> node) list"
  umask :: "32 word"
  faults :: "bool list"
  partial :: nat

datatype os_error = ENOENT | EIO | ENOTDIR | EISDIR | EEXIST | EINVAL | ELOOP

type_synonym 'a io = "(os, os_error, 'a) action"

definition nodes :: "os \<Rightarrow> path \<Rightarrow> node option" where
  "nodes s = map_of (tree s)"

definition set_node :: "path \<Rightarrow> node \<Rightarrow> os \<Rightarrow> os" where
  "set_node p n s = s\<lparr>tree := (p, n) # tree s\<rparr>"

definition drop_nodes :: "(path \<Rightarrow> bool) \<Rightarrow> os \<Rightarrow> os" where
  "drop_nodes P s = s\<lparr>tree := filter (\<lambda>(q, _). \<not> P q) (tree s)\<rparr>"

definition moved :: "path \<Rightarrow> path \<Rightarrow> path \<Rightarrow> path" where
  "moved old new q = (if prefix old q then new @ drop (length old) q else q)"

definition move_nodes :: "path \<Rightarrow> path \<Rightarrow> os \<Rightarrow> os" where
  "move_nodes old new s = s\<lparr>tree := map (\<lambda>(q, n). (moved old new q, n))
     (filter (\<lambda>(q, _). \<not> prefix new q) (tree s))\<rparr>"

definition is_dir_node :: "node \<Rightarrow> bool" where
  "is_dir_node n = (case n of DirN _ \<Rightarrow> True | _ \<Rightarrow> False)"

definition is_dir :: "os \<Rightarrow> path \<Rightarrow> bool" where
  "is_dir s p = (case nodes s p of Some n \<Rightarrow> is_dir_node n | None \<Rightarrow> False)"

definition is_link :: "os \<Rightarrow> path \<Rightarrow> bool" where
  "is_link s p = (case nodes s p of Some (LinkN _) \<Rightarrow> True | _ \<Rightarrow> False)"

definition children :: "os \<Rightarrow> path \<Rightarrow> path list" where
  "children s p = filter (\<lambda>q. q \<noteq> [] \<and> butlast q = p) (remdups (map fst (tree s)))"

text \<open>A call that may fail: takes the next fault, then does its work.\<close>

definition sys :: "'a io \<Rightarrow> 'a io" where
  "sys act s =
     (case faults s of [] \<Rightarrow> act s
      | f # fs \<Rightarrow> if f then (Err EIO, s\<lparr>faults := fs\<rparr>) else act (s\<lparr>faults := fs\<rparr>))"

definition newMeta :: "32 word \<Rightarrow> os \<Rightarrow> meta" where
  "newMeta mode s = \<lparr>perm = mode AND NOT (umask s), uid = 0, gid = 0\<rparr>"

section \<open>Symbolic links\<close>

text \<open>
  Path resolution: \<open>acc\<close> is the physical path reached, the list what remains. At most \<open>n\<close>
  links are followed. With \<open>follow\<close> False a link in the last place is the result.
\<close>

fun walk :: "nat \<Rightarrow> os \<Rightarrow> bool \<Rightarrow> path \<Rightarrow> string list \<Rightarrow> (os_error, path) result" where
  "walk n s follow acc [] = Ok acc"
| "walk n s follow acc (c # cs) =
     (if c = [] \<or> c = ''.'' then walk n s follow acc cs
      else if c = ''..'' then walk n s follow (butlast acc) cs
      else (case nodes s (acc @ [c]) of
              None \<Rightarrow> Err ENOENT
            | Some (FileN _ _) \<Rightarrow> if cs = [] then Ok (acc @ [c]) else Err ENOTDIR
            | Some (DirN _) \<Rightarrow> walk n s follow (acc @ [c]) cs
            | Some (LinkN t) \<Rightarrow>
                if cs = [] \<and> \<not> follow then Ok (acc @ [c])
                else (case n of 0 \<Rightarrow> Err ELOOP
                      | Suc k \<Rightarrow> walk k s follow (if IsAbs t then [] else acc) (Split SLASH t @ cs))))"

text \<open>The kernel follows 40 links, \<open>filepath.EvalSymlinks\<close> 255.\<close>

definition os_Lstat :: "path \<Rightarrow> unit io" where
  "os_Lstat p = sys (\<lambda>s. (case walk 40 s False [] p of Inl e \<Rightarrow> Err e | Inr _ \<Rightarrow> Ok (), s))"

definition EvalSymlinks :: "path \<Rightarrow> path io" where
  "EvalSymlinks p = sys (\<lambda>s. (walk 255 s True [] p, s))"

section \<open>System calls\<close>

definition os_ReadFile :: "path \<Rightarrow> string io" where
  "os_ReadFile p = sys (\<lambda>s.
     (case nodes s p of None \<Rightarrow> Err ENOENT | Some (FileN c _) \<Rightarrow> Ok c | Some _ \<Rightarrow> Err EISDIR, s))"

text \<open>MkdirAll, one missing directory at a time; \<open>acc\<close> is the part that exists.\<close>

fun mkdirs :: "32 word \<Rightarrow> path \<Rightarrow> path \<Rightarrow> unit io" where
  "mkdirs mode acc [] s = (Ok (), s)"
| "mkdirs mode acc (c # cs) s =
     (case nodes s (acc @ [c]) of
        Some n \<Rightarrow> if is_dir_node n then mkdirs mode (acc @ [c]) cs s else (Err ENOTDIR, s)
      | None \<Rightarrow>
          bindS (sys (\<lambda>s. (Ok (), set_node (acc @ [c]) (DirN (newMeta mode s)) s)))
            (\<lambda>_. mkdirs mode (acc @ [c]) cs) s)"

definition os_MkdirAll :: "path \<Rightarrow> 32 word \<Rightarrow> unit io" where
  "os_MkdirAll p mode = mkdirs mode [] p"

text \<open>CreateTemp in a directory: the pattern's prefix and the random text that replaced the star in
  the last attempt. The new file has mode 0600.\<close>

definition os_CreateTemp :: "path \<Rightarrow> string \<Rightarrow> string \<Rightarrow> path io" where
  "os_CreateTemp dir pre rnd = sys (\<lambda>s.
     let p = dir @ [pre @ rnd] in
     if SLASH \<in> set pre then (Err EINVAL, s)
     else if \<not> is_dir s dir then (Err ENOTDIR, s)
     else if nodes s p \<noteq> None then (Err EEXIST, s)
     else (Ok p, set_node p (FileN [] (newMeta 0x180 s)) s))"

text \<open>\<open>OpenFile\<close> with \<open>O_WRONLY|O_CREATE|O_TRUNC\<close>.\<close>

definition os_OpenTrunc :: "path \<Rightarrow> 32 word \<Rightarrow> unit io" where
  "os_OpenTrunc p mode = sys (\<lambda>s.
     case nodes s p of
       Some (FileN _ m) \<Rightarrow> (Ok (), set_node p (FileN [] m) s)
     | Some _ \<Rightarrow> (Err EISDIR, s)
     | None \<Rightarrow> if p \<noteq> [] \<and> is_dir s (butlast p) then (Ok (), set_node p (FileN [] (newMeta mode s)) s)
               else (Err ENOENT, s))"

definition os_WriteData :: "path \<Rightarrow> string \<Rightarrow> unit io" where
  "os_WriteData p c s =
     (case nodes s p of
        Some (FileN _ m) \<Rightarrow>
          (case sys (retS ()) s of
             (Inl e, s') \<Rightarrow> (Err e, set_node p (FileN (take (partial s) c) m) s')
           | (Inr _, s') \<Rightarrow> (Ok (), set_node p (FileN c m) s'))
      | _ \<Rightarrow> (Err EINVAL, s))"

text \<open>Sync, Close and an Open whose result is only read or synced change nothing.\<close>

definition os_Sync :: "unit io" where
  "os_Sync = sys (\<lambda>s. (Ok (), s))"

definition os_Open :: "path \<Rightarrow> node io" where
  "os_Open p = sys (\<lambda>s. (case nodes s p of None \<Rightarrow> Err ENOENT | Some n \<Rightarrow> Ok n, s))"

definition os_Chmod :: "path \<Rightarrow> 32 word \<Rightarrow> unit io" where
  "os_Chmod p mode = sys (\<lambda>s.
     case nodes s p of
       Some (FileN c m) \<Rightarrow> (Ok (), set_node p (FileN c (m\<lparr>perm := mode\<rparr>)) s)
     | Some (DirN m) \<Rightarrow> (Ok (), set_node p (DirN (m\<lparr>perm := mode\<rparr>)) s)
     | _ \<Rightarrow> (Err ENOENT, s))"

definition os_Chown :: "path \<Rightarrow> int \<Rightarrow> int \<Rightarrow> unit io" where
  "os_Chown p u g = sys (\<lambda>s.
     case nodes s p of
       Some (FileN c m) \<Rightarrow> (Ok (), set_node p (FileN c (m\<lparr>uid := u, gid := g\<rparr>)) s)
     | Some (DirN m) \<Rightarrow> (Ok (), set_node p (DirN (m\<lparr>uid := u, gid := g\<rparr>)) s)
     | _ \<Rightarrow> (Err ENOENT, s))"

text \<open>RemoveAll removes the whole subtree and succeeds when there is nothing.\<close>

definition os_RemoveAll :: "path \<Rightarrow> unit io" where
  "os_RemoveAll p = sys (\<lambda>s. if p = [] then (Err EINVAL, s) else (Ok (), drop_nodes (prefix p) s))"

text \<open>\<open>os.Remove\<close> of a file. \<open>os_RemoveFile\<close> is the deferred call that ignores the
  error.\<close>

definition os_Remove :: "path \<Rightarrow> unit io" where
  "os_Remove p = sys (\<lambda>s.
     case nodes s p of
       Some (DirN _) \<Rightarrow> if p \<noteq> [] \<and> children s p = [] then (Ok (), drop_nodes (\<lambda>q. q = p) s) else (Err EEXIST, s)
     | Some _ \<Rightarrow> (Ok (), drop_nodes (\<lambda>q. q = p) s)
     | None \<Rightarrow> (Err ENOENT, s))"

definition os_RemoveFile :: "path \<Rightarrow> os \<Rightarrow> os" where
  "os_RemoveFile p s = snd (os_Remove p s)"

text \<open>Rename moves a subtree. A directory cannot move into itself or replace a file, a file cannot
  replace a directory, and a directory replaces only an empty one.\<close>

definition os_Rename :: "path \<Rightarrow> path \<Rightarrow> unit io" where
  "os_Rename old new = sys (\<lambda>s.
     if nodes s old = None then (Err ENOENT, s)
     else if old = new then (Ok (), s)
     else if prefix old new \<or> prefix new old then (Err EINVAL, s)
     else if \<not> is_dir s (butlast new) then (Err ENOENT, s)
     else if is_dir s new \<and> \<not> (is_dir s old \<and> children s new = []) then (Err EEXIST, s)
     else if is_dir s old \<and> nodes s new \<noteq> None \<and> \<not> is_dir s new then (Err ENOTDIR, s)
     else (Ok (), move_nodes old new s))"

text \<open>Mkdir of one directory, MkdirTemp, opening with \<open>O_CREATE\<close> and with \<open>O_CREATE|O_EXCL\<close>, and a
  write at the end of a file (\<open>O_APPEND\<close>), which like every write may stop in the middle.\<close>

definition os_Mkdir :: "path \<Rightarrow> 32 word \<Rightarrow> unit io" where
  "os_Mkdir p mode = sys (\<lambda>s.
     if nodes s p \<noteq> None then (Err EEXIST, s)
     else if p = [] \<or> \<not> is_dir s (butlast p) then (Err ENOENT, s)
     else (Ok (), set_node p (DirN (newMeta mode s)) s))"

definition os_MkdirTemp :: "path \<Rightarrow> string \<Rightarrow> string \<Rightarrow> path io" where
  "os_MkdirTemp dir pre rnd = bindS (os_Mkdir (dir @ [pre @ rnd]) 0x1C0) (\<lambda>_. retS (dir @ [pre @ rnd]))"

definition os_OpenCreate :: "path \<Rightarrow> 32 word \<Rightarrow> unit io" where
  "os_OpenCreate p mode = sys (\<lambda>s.
     case nodes s p of
       Some (FileN _ _) \<Rightarrow> (Ok (), s)
     | Some _ \<Rightarrow> (Err EISDIR, s)
     | None \<Rightarrow> if p \<noteq> [] \<and> is_dir s (butlast p) then (Ok (), set_node p (FileN [] (newMeta mode s)) s)
               else (Err ENOENT, s))"

definition os_OpenExcl :: "path \<Rightarrow> 32 word \<Rightarrow> unit io" where
  "os_OpenExcl p mode = sys (\<lambda>s.
     if nodes s p \<noteq> None then (Err EEXIST, s)
     else if p = [] \<or> \<not> is_dir s (butlast p) then (Err ENOENT, s)
     else (Ok (), set_node p (FileN [] (newMeta mode s)) s))"

definition os_AppendData :: "path \<Rightarrow> string \<Rightarrow> unit io" where
  "os_AppendData p c s =
     (case nodes s p of
        Some (FileN d m) \<Rightarrow>
          (case sys (retS ()) s of
             (Inl e, s') \<Rightarrow> (Err e, set_node p (FileN (d @ take (partial s) c) m) s')
           | (Inr _, s') \<Rightarrow> (Ok (), set_node p (FileN (d @ c) m) s'))
      | _ \<Rightarrow> (Err EINVAL, s))"

section \<open>Lookup after an update\<close>

lemma nodes_faults [simp]: "nodes (s\<lparr>faults := fs\<rparr>) = nodes s"
  by (simp add: nodes_def)

lemma nodes_set_node [simp]: "nodes (set_node p n s) = (nodes s)(p \<mapsto> n)"
  by (simp add: nodes_def set_node_def)

lemma map_of_filter_key: "map_of (filter (\<lambda>(q, _). P q) ps) x = (if P x then map_of ps x else None)"
  by (induction ps) auto

lemma nodes_drop_nodes [simp]: "nodes (drop_nodes P s) x = (if P x then None else nodes s x)"
  using map_of_filter_key [of "\<lambda>q. \<not> P q" "tree s" x] by (simp add: nodes_def drop_nodes_def)

lemma moved_under: "prefix new (moved old new q) \<longleftrightarrow> prefix old q \<or> prefix new q"
  by (auto simp: moved_def)

lemma moved_eq:
  assumes "\<not> prefix new q"
  shows "moved old new q = x \<longleftrightarrow>
    (if prefix new x then q = old @ drop (length new) x else q = x \<and> \<not> prefix old x)"
  using assms by (auto simp: moved_def prefix_def)

lemma map_of_moved:
  assumes "\<forall>(q, n) \<in> set ps. \<not> prefix new q"
  shows "map_of (map (\<lambda>(q, n). (moved old new q, n)) ps) x =
    (if prefix new x then map_of ps (old @ drop (length new) x)
     else if prefix old x then None else map_of ps x)"
  using assms
proof (induction ps)
  case (Cons a ps)
  obtain q n where a: "a = (q, n)" by fastforce
  have "\<not> prefix new q" using Cons.prems a by simp
  then show ?case using Cons a moved_eq [of new q old x] by (auto simp: moved_def)
qed simp

lemma nodes_move_nodes:
  assumes "\<not> prefix new old"  "\<not> prefix old new"
  shows "nodes (move_nodes old new s) x =
    (if prefix new x then nodes s (old @ drop (length new) x)
     else if prefix old x then None else nodes s x)"
proof -
  have "\<not> prefix new (old @ r)" for r
    using assms prefix_same_cases [of new "old @ r" old] by auto
  moreover have "nodes (move_nodes old new s) x =
    (if prefix new x then map_of (filter (\<lambda>(q, _). \<not> prefix new q) (tree s)) (old @ drop (length new) x)
     else if prefix old x then None else map_of (filter (\<lambda>(q, _). \<not> prefix new q) (tree s)) x)"
    using map_of_moved [of "filter (\<lambda>(q, _). \<not> prefix new q) (tree s)" new old x]
    by (auto simp: nodes_def move_nodes_def)
  ultimately show ?thesis
    by (simp add: map_of_filter_key nodes_def)
qed

lemma children_iff: "q \<in> set (children s p) \<longleftrightarrow> q \<noteq> [] \<and> butlast q = p \<and> nodes s q \<noteq> None"
  by (force simp: children_def nodes_def map_of_eq_None_iff)

lemma sys_cases:
  assumes "sys act s = (r, s')"
  obtains (fault) fs where "r = Err EIO" "s' = s\<lparr>faults := fs\<rparr>"
  | (work) fs where "act (s\<lparr>faults := fs\<rparr>) = (r, s')"
proof (cases "faults s")
  case Nil
  have "s = s\<lparr>faults := []\<rparr>" using Nil by (cases s) simp
  moreover have "act s = (r, s')" using assms Nil by (simp add: sys_def)
  ultimately show thesis using work by metis
next
  case (Cons f fs)
  then show thesis
    using assms fault work by (auto simp: sys_def split: if_splits)
qed

lemma is_dir_simps [simp]:
  "is_dir (s\<lparr>faults := fs\<rparr>) p = is_dir s p" "is_link (s\<lparr>faults := fs\<rparr>) p = is_link s p"
  by (simp_all add: is_dir_def is_link_def)

section \<open>Frames: which nodes a call may change\<close>

definition only :: "(path \<Rightarrow> bool) \<Rightarrow> os \<Rightarrow> os \<Rightarrow> bool" where
  "only P s s' = (\<forall>x. nodes s' x \<noteq> nodes s x \<longrightarrow> P x)"

lemma only_refl [intro, simp]: "reflp (only P)" "only P s s"
  by (simp_all add: only_def reflp_def)

lemma only_trans [intro, simp]: "transp (only P)"
  unfolding transp_def only_def by metis

lemma only_mono: "only P s s' \<Longrightarrow> (\<And>x. P x \<Longrightarrow> Q x) \<Longrightarrow> only Q s s'"
  by (auto simp: only_def)

lemma only_set_node: "P p \<Longrightarrow> only P s (set_node p n s)"
  by (simp add: only_def)

lemma only_faults [simp]: "only P s (s'\<lparr>faults := fs\<rparr>) = only P s s'"
  "only P (s\<lparr>faults := fs\<rparr>) s' = only P s s'"
  by (simp_all add: only_def)

lemma keeps_sys:
  assumes "\<And>s fs. R s (s\<lparr>faults := fs\<rparr>)" "\<And>s fs s'. R (s\<lparr>faults := fs\<rparr>) s' \<Longrightarrow> R s s'" "keeps R act"
  shows "keeps R (sys act)"
  unfolding keeps_def
proof
  fix s
  obtain r s' where sys: "sys act s = (r, s')" by fastforce
  then have "R s s'"
  proof (cases rule: sys_cases)
    case (work fs)
    then show ?thesis using assms(2) keepsD [OF assms(3)] by blast
  qed (simp add: assms(1))
  then show "R s (snd (sys act s))" by (simp add: sys)
qed

lemma only_sys: "keeps (only P) act \<Longrightarrow> keeps (only P) (sys act)"
  by (rule keeps_sys) auto

lemma only_reads [keeps_intro]:
  "keeps (only P) (os_Lstat p)" "keeps (only P) (EvalSymlinks p)" "keeps (only P) (os_ReadFile p)"
  "keeps (only P) os_Sync" "keeps (only P) (os_Open p)"
  unfolding os_Lstat_def EvalSymlinks_def os_ReadFile_def os_Sync_def os_Open_def
  by (intro only_sys keepsI, simp)+

lemma only_writes [keeps_intro]:
  "P (d @ [pre @ rnd]) \<Longrightarrow> keeps (only P) (os_CreateTemp d pre rnd)"
  "P p \<Longrightarrow> keeps (only P) (os_OpenTrunc p mode)"
  "P p \<Longrightarrow> keeps (only P) (os_Chmod p mode)"
  "P p \<Longrightarrow> keeps (only P) (os_Chown p u g)"
  unfolding os_CreateTemp_def os_OpenTrunc_def os_Chmod_def os_Chown_def
  by (intro only_sys keepsI, auto intro!: only_set_node simp: Let_def split: option.split node.split)+

lemma WriteData_cases:
  assumes "os_WriteData p c s = (r, s')"
  obtains (none) "s' = s" "r = Err EINVAL"
  | (written) c' d m fs where "nodes s p = Some (FileN d m)" "s' = set_node p (FileN c' m) (s\<lparr>faults := fs\<rparr>)"
      "r = Ok () \<Longrightarrow> c' = c"
proof -
  obtain q s1 where q: "sys (retS ()) s = (q, s1)" (is "?m = _") by (cases ?m)
  then obtain fs where "s1 = s\<lparr>faults := fs\<rparr>" by (auto elim!: sys_cases)
  then show thesis
    using assms q none written [of _ _ _ fs]
    by (auto simp: os_WriteData_def split: option.splits node.splits sum.splits)
qed

lemma only_WriteData [keeps_intro]: "P p \<Longrightarrow> keeps (only P) (os_WriteData p c)"
proof (rule keepsI)
  fix s assume "P p"
  then show "only P s (snd (os_WriteData p c s))"
    by (cases "os_WriteData p c s") (auto elim!: WriteData_cases simp: only_def split: if_splits)
qed

lemma only_RemoveAll [keeps_intro]: "(\<And>x. prefix p x \<Longrightarrow> P x) \<Longrightarrow> keeps (only P) (os_RemoveAll p)"
  unfolding os_RemoveAll_def by (rule only_sys, rule keepsI) (auto simp: only_def)

lemma only_Rename [keeps_intro]:
  "(\<And>x. prefix old x \<or> prefix new x \<Longrightarrow> P x) \<Longrightarrow> keeps (only P) (os_Rename old new)"
  unfolding os_Rename_def
  by (rule only_sys, rule keepsI) (auto simp: only_def nodes_move_nodes)

lemma only_Remove [keeps_intro]: "P p \<Longrightarrow> keeps (only P) (os_Remove p)"
  unfolding os_Remove_def
  by (rule only_sys, rule keepsI) (auto simp: only_def split: option.split node.split)

lemma only_RemoveFile: "P p \<Longrightarrow> only P s (os_RemoveFile p s)"
  using only_Remove by (simp add: os_RemoveFile_def keeps_def)

lemma only_mkdirs:
  "only (\<lambda>x. prefix x (acc @ p) \<and> strict_prefix acc x \<and> nodes s x = None) s (snd (mkdirs mode acc p s))"
proof (induction p arbitrary: acc s)
  case (Cons c cs)
  have pre: "strict_prefix acc (acc @ [c])" by (simp add: strict_prefix_def)
  show ?case
  proof (cases "nodes s (acc @ [c])")
    case None
    obtain r s1 where m: "sys (\<lambda>s. (Ok (), set_node (acc @ [c]) (DirN (newMeta mode s)) s)) s = (r, s1)"
      (is "?m = _") by (cases ?m)
    have 1: "only (\<lambda>x. x = acc @ [c]) s s1"
      using m only_sys [of "\<lambda>x. x = acc @ [c]"] by (fastforce elim!: sys_cases simp: only_def)
    have 2: "only (\<lambda>x. prefix x (acc @ c # cs) \<and> strict_prefix (acc @ [c]) x \<and> nodes s1 x = None) s1
        (snd (mkdirs mode (acc @ [c]) cs s1))"
      using Cons [of "acc @ [c]" s1] by simp
    have "prefix x (acc @ c # cs) \<and> strict_prefix acc x \<and> nodes s x = None"
      if ch: "nodes (snd (mkdirs mode (acc @ [c]) cs s1)) x \<noteq> nodes s x \<or> nodes s1 x \<noteq> nodes s x" for x
    proof (cases "nodes s1 x = nodes s x")
      case True
      with ch 2 have "prefix x (acc @ c # cs) \<and> strict_prefix (acc @ [c]) x \<and> nodes s1 x = None"
        unfolding only_def by metis
      with True have "prefix x (acc @ c # cs)" "strict_prefix (acc @ [c]) x" "nodes s x = None"
        by auto
      then show ?thesis using pre prefix_order.less_trans by blast
    next
      case False
      with 1 have "x = acc @ [c]" by (auto simp: only_def)
      then show ?thesis using None pre by simp
    qed
    then show ?thesis
      using None by (cases r) (auto simp: bindS_def m only_def)
  next
    case (Some n)
    show ?thesis
    proof (cases "is_dir_node n")
      case True
      then show ?thesis
        using Some Cons [of "acc @ [c]" s] prefix_order.less_trans [OF pre]
        by (auto simp: only_def)
    qed (simp add: Some)
  qed
qed simp

section \<open>Well-formed trees\<close>

text \<open>The root is a directory and so is the parent of everything that exists.\<close>

definition os_wf :: "os \<Rightarrow> bool" where
  "os_wf s = (is_dir s [] \<and> (\<forall>p n. nodes s p = Some n \<longrightarrow> p \<noteq> [] \<longrightarrow> is_dir s (butlast p)))"

definition wf_step :: "os \<Rightarrow> os \<Rightarrow> bool" where
  "wf_step s s' = (os_wf s \<longrightarrow> os_wf s')"

lemma wf_step_order [intro, simp]: "reflp wf_step" "transp wf_step"
  by (auto simp: wf_step_def reflp_def transp_def)

lemma os_wf_faults [simp]: "os_wf (s\<lparr>faults := fs\<rparr>) = os_wf s"
  by (simp add: os_wf_def)

lemma wf_sys: "keeps wf_step act \<Longrightarrow> keeps wf_step (sys act)"
  by (rule keeps_sys) (auto simp: wf_step_def)

lemma is_dir_set_node: "is_dir (set_node p n s) q = (if q = p then is_dir_node n else is_dir s q)"
  by (simp add: is_dir_def)

lemma butlast_neq: "p \<noteq> [] \<Longrightarrow> butlast p \<noteq> p"
  by (metis append_butlast_last_id append_self_conv not_Cons_self2)

lemma os_wf_root: "os_wf s \<Longrightarrow> is_dir s []"
  by (simp add: os_wf_def)

lemma os_wf_parent: "os_wf s \<Longrightarrow> nodes s p = Some n \<Longrightarrow> p \<noteq> [] \<Longrightarrow> is_dir s (butlast p)"
  unfolding os_wf_def by blast

lemma os_wf_set_new:
  "os_wf s \<Longrightarrow> p \<noteq> [] \<Longrightarrow> is_dir s (butlast p) \<Longrightarrow> \<not> is_dir s p \<Longrightarrow> os_wf (set_node p n s)"
  unfolding os_wf_def by (auto simp: is_dir_set_node butlast_neq split: if_splits)

lemma os_wf_set_same:
  "os_wf s \<Longrightarrow> nodes s p = Some n \<Longrightarrow> is_dir_node n' = is_dir_node n \<Longrightarrow> os_wf (set_node p n' s)"
  unfolding os_wf_def by (auto simp: is_dir_set_node) (auto simp: is_dir_def)

lemma wf_reads [keeps_intro]:
  "keeps wf_step (os_Lstat p)" "keeps wf_step (EvalSymlinks p)" "keeps wf_step (os_ReadFile p)"
  "keeps wf_step os_Sync" "keeps wf_step (os_Open p)"
  unfolding os_Lstat_def EvalSymlinks_def os_ReadFile_def os_Sync_def os_Open_def
  by (intro wf_sys keepsI, simp add: wf_step_def)+

lemma wf_CreateTemp [keeps_intro]: "keeps wf_step (os_CreateTemp d pre rnd)"
  unfolding os_CreateTemp_def
  by (intro wf_sys keepsI) (auto simp: Let_def wf_step_def is_dir_def intro!: os_wf_set_new)

lemma wf_writes [keeps_intro]:
  "keeps wf_step (os_OpenTrunc p mode)"
  "keeps wf_step (os_Chmod p mode)" "keeps wf_step (os_Chown p u g)"
  unfolding os_OpenTrunc_def os_Chmod_def os_Chown_def
  by (intro wf_sys keepsI, auto simp: wf_step_def is_dir_node_def is_dir_def
      split: option.split node.split option.splits intro: os_wf_set_same os_wf_set_new)+

lemma wf_WriteData [keeps_intro]: "keeps wf_step (os_WriteData p c)"
proof (rule keepsI)
  fix s
  show "wf_step s (snd (os_WriteData p c s))"
    by (cases "os_WriteData p c s")
      (auto elim!: WriteData_cases simp: wf_step_def is_dir_node_def intro!: os_wf_set_same)
qed

lemma os_wf_drop_tree:
  assumes "os_wf s" "p \<noteq> []" shows "os_wf (drop_nodes (prefix p) s)"
proof -
  have "\<not> prefix p (butlast q)" if "\<not> prefix p q" for q :: path
    using that prefix_order.trans [OF _ prefixeq_butlast] by blast
  then show ?thesis using assms by (auto simp: os_wf_def is_dir_def)
qed

lemma wf_RemoveAll [keeps_intro]: "keeps wf_step (os_RemoveAll p)"
  unfolding os_RemoveAll_def
  by (intro wf_sys keepsI) (auto simp: wf_step_def os_wf_drop_tree)

lemma os_wf_drop_leaf:
  assumes wf: "os_wf s" and leaf: "children s p = []" and p: "p \<noteq> []"
  shows "os_wf (drop_nodes (\<lambda>q. q = p) s)"
proof -
  have "butlast q \<noteq> p" if "nodes s q = Some n" "q \<noteq> []" for q n
    using that leaf children_iff [of q s p] by auto
  then show ?thesis
    using wf p by (auto simp: os_wf_def is_dir_def split: if_splits)
qed

lemma leaf_if_not_dir: "os_wf s \<Longrightarrow> \<not> is_dir s p \<Longrightarrow> children s p = []"
  using children_iff [of _ s p] os_wf_parent [of s] by (metis list.set_intros(1) neq_Nil_conv not_None_eq)

lemma wf_Remove [keeps_intro]: "keeps wf_step (os_Remove p)"
proof -
  have "os_wf (drop_nodes (\<lambda>q. q = p) s)"
    if "os_wf s" "nodes s p = Some n" "\<not> is_dir_node n" for s n
    using that os_wf_drop_leaf [of s p] leaf_if_not_dir [of s p] os_wf_root [of s]
    by (cases "p = []") (auto simp: is_dir_def)
  then show ?thesis
    unfolding os_Remove_def
    by (intro wf_sys keepsI)
      (auto simp: wf_step_def is_dir_node_def os_wf_drop_leaf split: option.split node.split)
qed

lemma wf_RemoveFile: "os_wf s \<Longrightarrow> os_wf (os_RemoveFile p s)"
  using wf_Remove [of p] by (simp add: os_RemoveFile_def keeps_def wf_step_def)

lemma wf_mkdirs: "os_wf s \<Longrightarrow> is_dir s acc \<Longrightarrow> os_wf (snd (mkdirs mode acc p s))"
proof (induction p arbitrary: acc s)
  case (Cons c cs)
  obtain r s1 where m: "sys (\<lambda>s. (Ok (), set_node (acc @ [c]) (DirN (newMeta mode s)) s)) s = (r, s1)"
    (is "?m = _") by (cases ?m)
  show ?case
  proof (cases "nodes s (acc @ [c])")
    case None
    have "os_wf s1 \<and> (r = Ok () \<longrightarrow> is_dir s1 (acc @ [c]))"
      using m Cons.prems None os_wf_set_new [of "s\<lparr>faults := fs\<rparr>" "acc @ [c]" for fs]
      by (auto elim!: sys_cases simp: is_dir_def is_dir_node_def)
    then show ?thesis using None Cons.IH by (cases r) (auto simp: bindS_def m)
  next
    case (Some n)
    then show ?thesis using Cons by (auto simp: is_dir_def)
  qed
qed simp

lemma wf_MkdirAll [keeps_intro]: "keeps wf_step (os_MkdirAll p mode)"
  unfolding os_MkdirAll_def
  by (rule keepsI) (auto simp: wf_step_def intro: wf_mkdirs os_wf_root)

lemma wf_Rename [keeps_intro]: "keeps wf_step (os_Rename old new)"
proof -
  have "os_wf (move_nodes old new s)"
    if wf: "os_wf s" and np: "\<not> prefix old new" "\<not> prefix new old" and par: "is_dir s (butlast new)" for s
  proof -
    note mv = nodes_move_nodes [OF np(2,1)]
    have nonempty: "old \<noteq> []" "new \<noteq> []" using np by auto
    have dir: "is_dir (move_nodes old new s) q =
      (if prefix new q then is_dir s (old @ drop (length new) q)
       else \<not> prefix old q \<and> is_dir s q)" for q
      by (simp add: is_dir_def mv)
    have "is_dir (move_nodes old new s) (butlast q)"
      if ex: "nodes (move_nodes old new s) q = Some n" and q: "q \<noteq> []" for q n
    proof (cases "prefix new q")
      case True
      then obtain r where r: "q = new @ r" by (auto simp: prefix_def)
      have "nodes s (old @ r) = Some n" using ex True by (simp add: mv r)
      then have "r \<noteq> [] \<Longrightarrow> is_dir s (old @ butlast r)"
        using os_wf_parent [OF wf] nonempty by (fastforce simp: butlast_append)
      moreover have "r = [] \<Longrightarrow> \<not> prefix new (butlast q) \<and> \<not> prefix old (butlast q)"
        using np r nonempty prefixeq_butlast [of new] prefix_order.trans [of old "butlast new" new]
          prefix_order.antisym [of new "butlast new"] butlast_neq [of new] by auto
      ultimately show ?thesis using par r by (auto simp: dir butlast_append split: if_splits)
    next
      case False
      with ex have n: "nodes s q = Some n" "\<not> prefix old q" by (auto simp: mv split: if_splits)
      have "\<not> prefix new (butlast q)" "\<not> prefix old (butlast q)"
        using False n(2) prefixeq_butlast [of q] prefix_order.trans by blast+
      then show ?thesis using os_wf_parent [OF wf n(1) q] by (simp add: dir)
    qed
    moreover have "is_dir (move_nodes old new s) []"
      using os_wf_root [OF wf] nonempty by (simp add: dir)
    ultimately show ?thesis by (simp add: os_wf_def)
  qed
  then show ?thesis
    unfolding os_Rename_def by (intro wf_sys keepsI) (auto simp: wf_step_def)
qed

section \<open>Physical paths\<close>

text \<open>A path whose proper ancestors are directories and that exists and is not a link.\<close>

definition physical :: "os \<Rightarrow> path \<Rightarrow> bool" where
  "physical s p = ((\<forall>q. strict_prefix q p \<longrightarrow> is_dir s q) \<and> nodes s p \<noteq> None \<and> \<not> is_link s p)"

definition link_free :: "os \<Rightarrow> path \<Rightarrow> bool" where
  "link_free s p = (\<forall>q. prefix q p \<longrightarrow> \<not> is_link s q)"

lemma is_dir_not_link: "is_dir s p \<Longrightarrow> \<not> is_link s p \<and> nodes s p \<noteq> None"
  by (auto simp: is_dir_def is_link_def is_dir_node_def split: option.splits node.splits)

lemma physical_link_free: "physical s p \<Longrightarrow> link_free s p"
  unfolding physical_def link_free_def using is_dir_not_link prefix_order.le_less by blast

lemma dirs_snoc:
  "(\<forall>q. prefix q acc \<longrightarrow> is_dir s q) \<Longrightarrow> is_dir s (acc @ [c]) \<Longrightarrow> \<forall>q. prefix q (acc @ [c]) \<longrightarrow> is_dir s q"
  by (simp add: prefix_snoc)

text \<open>What \<open>walk\<close> returns when it follows the last link too is a physical path.\<close>

lemma walk_physical:
  assumes "walk n s True acc cs = Ok r" "\<forall>q. prefix q acc \<longrightarrow> is_dir s q" "is_dir s []"
  shows "physical s r"
  using assms
proof (induction n s True acc cs rule: walk.induct)
  case (1 n s acc)
  then show ?case
    using is_dir_not_link by (auto simp: physical_def)
next
  case (2 n s acc c cs)
  consider (skip) "c = [] \<or> c = ''.''" | (up) "c = ''..''" "c \<noteq> []" "c \<noteq> ''.''"
    | (name) "c \<noteq> []" "c \<noteq> ''.''" "c \<noteq> ''..''" by blast
  then show ?case
  proof cases
    case skip
    then show ?thesis using 2 by auto
  next
    case up
    have "\<forall>q. prefix q (butlast acc) \<longrightarrow> is_dir s q"
      using 2(6) prefix_order.trans [OF _ prefixeq_butlast] by blast
    then show ?thesis using 2 up by simp
  next
    case name
    obtain nd where nd: "nodes s (acc @ [c]) = Some nd"
      using 2(5) name by (cases "nodes s (acc @ [c])") auto
    show ?thesis
    proof (cases nd)
      case (FileN x m)
      then have "r = acc @ [c]" using 2(5) name nd by (auto split: if_splits)
      then show ?thesis
        using 2(6) nd FileN by (auto simp: physical_def is_link_def strict_prefix_def prefix_snoc)
    next
      case (DirN m)
      then show ?thesis
        using 2 name nd dirs_snoc [of acc s c] by (simp add: is_dir_def is_dir_node_def)
    next
      case (LinkN t)
      then obtain k where k: "n = Suc k" using 2(5) name nd by (cases n) auto
      show ?thesis
      proof (rule 2(4) [OF _ _ nd LinkN _ k])
        show "walk k s True (if IsAbs t then [] else acc) (Split SLASH t @ cs) = Ok r"
          using 2(5) name nd LinkN k by simp
      qed (use 2(6,7) name in auto)
    qed
  qed
qed

text \<open>Following a physical path leads to itself.\<close>

lemma walk_link_free:
  assumes "plain_comps p" "\<forall>q. strict_prefix acc q \<and> strict_prefix q (acc @ p) \<longrightarrow> is_dir s q"
    "p \<noteq> [] \<Longrightarrow> nodes s (acc @ p) \<noteq> None \<and> \<not> is_link s (acc @ p)"
  shows "walk n s follow acc p = Ok (acc @ p)"
  using assms
proof (induction p arbitrary: acc)
  case (Cons c cs)
  have c: "c \<noteq> []" "c \<noteq> ''.''" "c \<noteq> ''..''" using Cons.prems(1) by (auto simp: plain_comp_def)
  have IH: "walk n s follow (acc @ [c]) cs = Ok ((acc @ [c]) @ cs)"
  proof (rule Cons.IH)
    show "\<forall>q. strict_prefix (acc @ [c]) q \<and> strict_prefix q ((acc @ [c]) @ cs) \<longrightarrow> is_dir s q"
    proof (intro allI impI)
      fix q assume q: "strict_prefix (acc @ [c]) q \<and> strict_prefix q ((acc @ [c]) @ cs)"
      have "strict_prefix acc (acc @ [c])" by (simp add: strict_prefix_def)
      then have "strict_prefix acc q" using q prefix_order.less_trans by blast
      then show "is_dir s q" using Cons.prems(2) q by simp
    qed
  qed (use Cons.prems in simp_all)
  show ?case
  proof (cases "cs = []")
    case True
    then obtain nd where "nodes s (acc @ [c]) = Some nd" "\<not> is_link s (acc @ [c])"
      using Cons.prems(3) by auto
    then show ?thesis using c True by (cases nd) (auto simp: is_link_def)
  next
    case False
    then have "is_dir s (acc @ [c])"
      using Cons.prems(2) by (auto simp: strict_prefix_def)
    then show ?thesis
      using c IH by (auto simp: is_dir_def is_dir_node_def split: option.splits node.splits)
  qed
qed simp

text \<open>A name that Lstat does not find below a path that resolves is absent there.\<close>

lemma walk_missing:
  assumes "walk n s True acc xs = Ok r" "walk m s False acc (xs @ [c]) = Err ENOENT" "plain_comp c"
  shows "nodes s (r @ [c]) = None"
  using assms
proof (induction n s True acc xs arbitrary: m rule: walk.induct)
  case (1 n s acc)
  then show ?case
    by (auto simp: plain_comp_def split: option.splits node.splits)
next
  case (2 n s acc x xs)
  consider (skip) "x = [] \<or> x = ''.''" | (up) "x = ''..''" "x \<noteq> []" "x \<noteq> ''.''"
    | (name) "x \<noteq> []" "x \<noteq> ''.''" "x \<noteq> ''..''" by blast
  then show ?case
  proof cases
    case name
    obtain nd where nd: "nodes s (acc @ [x]) = Some nd"
      using 2(5) name by (cases "nodes s (acc @ [x])") auto
    show ?thesis
    proof (cases nd)
      case (LinkN t)
      then obtain k where k: "n = Suc k" using 2(5) name nd by (cases n) auto
      obtain j where j: "m = Suc j" using 2(6) name nd LinkN by (cases m) auto
      show ?thesis
      proof (rule 2(4) [OF _ _ nd LinkN _ k])
        show "walk k s True (if IsAbs t then [] else acc) (Split SLASH t @ xs) = Ok r"
          using 2(5) name nd LinkN k by simp
        show "walk j s False (if IsAbs t then [] else acc) ((Split SLASH t @ xs) @ [c]) = Err ENOENT"
          using 2(6) name nd LinkN j by simp
      qed (use 2(7) name in auto)
    qed (use 2 name nd in \<open>auto split: if_splits\<close>)
  qed (use 2 in auto)
qed

text \<open>States that keep what exists, up to file contents and metadata, resolve paths alike.\<close>

definition same_kind :: "node \<Rightarrow> node \<Rightarrow> bool" where
  "same_kind n n' =
     (case (n, n') of (FileN _ _, FileN _ _) \<Rightarrow> True | (DirN _, DirN _) \<Rightarrow> True
      | (LinkN t, LinkN t') \<Rightarrow> t = t' | _ \<Rightarrow> False)"

definition extends :: "os \<Rightarrow> os \<Rightarrow> bool" where
  "extends s s' = (\<forall>x n. nodes s x = Some n \<longrightarrow> (\<exists>n'. nodes s' x = Some n' \<and> same_kind n n'))"

lemma same_kind_refl [simp]: "same_kind n n"
  by (simp add: same_kind_def split: node.split)

lemma same_kind_iff:
  "same_kind (FileN c m) n \<longleftrightarrow> (\<exists>c' m'. n = FileN c' m')"
  "same_kind (DirN m) n \<longleftrightarrow> (\<exists>m'. n = DirN m')"
  "same_kind (LinkN t) n \<longleftrightarrow> n = LinkN t"
  by (cases n; auto simp: same_kind_def)+

lemma extends_lookup:
  assumes "extends s s'"
  shows "nodes s x = Some (FileN c m) \<Longrightarrow> \<exists>c' m'. nodes s' x = Some (FileN c' m')"
    and "nodes s x = Some (DirN m) \<Longrightarrow> \<exists>m'. nodes s' x = Some (DirN m')"
    and "nodes s x = Some (LinkN t) \<Longrightarrow> nodes s' x = Some (LinkN t)"
  using assms unfolding extends_def by (metis same_kind_iff)+

lemma walk_extends:
  assumes "extends s s'" "walk n s f acc cs = Ok r"
  shows "walk n s' f acc cs = Ok r"
  using assms
proof (induction n s f acc cs rule: walk.induct)
  case (2 n s f acc c cs)
  consider (skip) "c = [] \<or> c = ''.''" | (up) "c = ''..''" "c \<noteq> []" "c \<noteq> ''.''"
    | (name) "c \<noteq> []" "c \<noteq> ''.''" "c \<noteq> ''..''" by blast
  then show ?case
  proof cases
    case name
    obtain nd where nd: "nodes s (acc @ [c]) = Some nd"
      using 2(6) name by (cases "nodes s (acc @ [c])") auto
    show ?thesis
    proof (cases nd)
      case (FileN x m)
      then show ?thesis using extends_lookup(1) [OF 2(5)] nd name 2(6) by fastforce
    next
      case (DirN m)
      then show ?thesis using extends_lookup(2) [OF 2(5)] nd name 2 by fastforce
    next
      case (LinkN t)
      then have "nodes s' (acc @ [c]) = Some (LinkN t)" using extends_lookup(3) [OF 2(5)] nd by simp
      note link = this
      show ?thesis
      proof (cases "cs = [] \<and> \<not> f")
        case True
        then show ?thesis using LinkN nd name link 2(6) by simp
      next
        case False
        then obtain k where k: "n = Suc k" using 2(6) name nd LinkN by (cases n) auto
        have w: "walk k s f (if IsAbs t then [] else acc) (Split SLASH t @ cs) = Ok r"
          using 2(6) name nd LinkN k False by (simp split: if_splits)
        have "walk k s' f (if IsAbs t then [] else acc) (Split SLASH t @ cs) = Ok r"
          using 2(4) [OF _ _ nd LinkN False k 2(5) w] name by blast
        then show ?thesis using link name k False by auto
      qed
    qed
  qed (use 2 in auto)
qed simp

lemma walk_append:
  assumes "walk n s True acc xs = Ok r" "ys = [] \<or> is_dir s r" "\<And>m. walk m s True r ys = Ok z"
  shows "walk n s True acc (xs @ ys) = Ok z"
  using assms
proof (induction n s True acc xs rule: walk.induct)
  case (2 n s acc c cs)
  consider (skip) "c = [] \<or> c = ''.''" | (up) "c = ''..''" "c \<noteq> []" "c \<noteq> ''.''"
    | (name) "c \<noteq> []" "c \<noteq> ''.''" "c \<noteq> ''..''" by blast
  then show ?case
  proof cases
    case name
    obtain nd where nd: "nodes s (acc @ [c]) = Some nd"
      using 2(5) name by (cases "nodes s (acc @ [c])") auto
    show ?thesis
    proof (cases nd)
      case (FileN x m)
      then have "cs = []" "r = acc @ [c]" using 2(5) nd name by (auto split: if_splits)
      moreover have "ys = []" using 2(6) calculation FileN nd by (auto simp: is_dir_def is_dir_node_def)
      ultimately show ?thesis using FileN nd name 2(7) [of 0] by simp
    next
      case (LinkN t)
      then obtain k where k: "n = Suc k" using 2(5) name nd by (cases n) auto
      have "walk k s True (if IsAbs t then [] else acc) ((Split SLASH t @ cs) @ ys) = Ok z"
        by (rule 2(4) [OF _ _ nd LinkN _ k]) (use 2 name nd LinkN k in auto)
      then show ?thesis using k LinkN nd name by simp
    qed (use 2 name nd in auto)
  qed (use 2 in auto)
qed simp

section \<open>Calls that only use up faults\<close>

definition same_fs :: "os \<Rightarrow> os \<Rightarrow> bool" where
  "same_fs s s' = (\<exists>fs. s' = s\<lparr>faults := fs\<rparr>)"

lemma same_fs_order [intro, simp]: "reflp same_fs" "transp same_fs" "same_fs s s"
proof -
  show refl: "same_fs s s" for s unfolding same_fs_def by (rule exI [of _ "faults s"]) simp
  show "reflp same_fs" using refl by (simp add: reflp_def)
  show "transp same_fs" by (auto simp: transp_def same_fs_def)
qed

lemma same_fs_nodes: "same_fs s s' \<Longrightarrow> nodes s' = nodes s"
  by (auto simp: same_fs_def)

lemma same_fs_reads [keeps_intro]:
  "keeps same_fs (os_Lstat p)" "keeps same_fs (EvalSymlinks p)" "keeps same_fs (os_ReadFile p)"
  "keeps same_fs os_Sync" "keeps same_fs (os_Open p)"
  unfolding os_Lstat_def EvalSymlinks_def os_ReadFile_def os_Sync_def os_Open_def
  by (intro keeps_sys keepsI; auto simp: same_fs_def; metis same_fs_order(3) same_fs_def)+

lemma walk_faults [simp]: "walk n (s\<lparr>faults := fs\<rparr>) f acc cs = walk n s f acc cs"
proof (induction n arbitrary: f acc cs)
  case 0
  show ?case by (induction cs arbitrary: acc) (auto split: option.split node.split)
next
  case (Suc n)
  show ?case by (induction cs arbitrary: acc) (auto simp: Suc split: option.split node.split)
qed

lemma physical_faults [simp]:
  "physical (s\<lparr>faults := fs\<rparr>) p = physical s p" "link_free (s\<lparr>faults := fs\<rparr>) p = link_free s p"
  by (simp_all add: physical_def link_free_def)

lemma EvalSymlinks_Ok: "EvalSymlinks p s = (Ok r, s') \<Longrightarrow> walk 255 s True [] p = Ok r"
  unfolding EvalSymlinks_def by (auto elim!: sys_cases)

lemma Lstat_ENOENT: "os_Lstat p s = (Err ENOENT, s') \<Longrightarrow> walk 40 s False [] p = Err ENOENT"
  unfolding os_Lstat_def by (auto elim!: sys_cases split: sum.splits)

lemma walk_plain:
  assumes "walk n s f acc cs = Ok r" "plain_comps acc" "\<forall>c \<in> set cs. SLASH \<notin> set c"
  shows "plain_comps r"
proof -
  have step: "plain_comps r"
    if link: "\<And>t acc cs. n \<noteq> 0 \<Longrightarrow> walk (n - 1) s f acc (Split SLASH t @ cs) = Ok r \<Longrightarrow>
         plain_comps acc \<Longrightarrow> \<forall>c \<in> set cs. SLASH \<notin> set c \<Longrightarrow> plain_comps r"
      and "walk n s f acc cs = Ok r" "plain_comps acc" "\<forall>c \<in> set cs. SLASH \<notin> set c" for n acc cs
    using that(2-)
  proof (induction cs arbitrary: acc)
    case (Cons c cs)
    consider (skip) "c = [] \<or> c = ''.''" | (up) "c = ''..''" "c \<noteq> []" "c \<noteq> ''.''"
      | (name) "c \<noteq> []" "c \<noteq> ''.''" "c \<noteq> ''..''" by blast
    then show ?case
    proof cases
      case up
      then show ?thesis using Cons by (auto simp: plain_comps_def dest: in_set_butlastD)
    next
      case name
      have c: "plain_comps (acc @ [c])" using Cons.prems name by (simp add: plain_comp_def)
      obtain nd where nd: "nodes s (acc @ [c]) = Some nd"
        using Cons.prems(1) name by (cases "nodes s (acc @ [c])") auto
      show ?thesis
      proof (cases nd)
        case (FileN x m)
        then show ?thesis using Cons.prems(1) name nd c by (auto split: if_splits)
      next
        case (DirN m)
        then show ?thesis using Cons.IH [OF _ c] Cons.prems name nd by simp
      next
        case (LinkN t)
        show ?thesis
        proof (cases "cs = [] \<and> \<not> f")
          case True
          then show ?thesis using Cons.prems(1) name nd LinkN c by simp
        next
          case False
          then obtain k where k: "n = Suc k" using Cons.prems(1) name nd LinkN by (cases n) auto
          have "walk k s f (if IsAbs t then [] else acc) (Split SLASH t @ cs) = Ok r"
            using Cons.prems(1) name nd LinkN k False by (simp split: if_splits)
          then show ?thesis
            using link [of "if IsAbs t then [] else acc" t cs] Cons.prems(2,3) k by simp
        qed
      qed
    qed (use Cons in auto)
  qed simp
  from assms show ?thesis
  proof (induction n arbitrary: acc cs)
    case 0
    show ?case by (rule step [OF _ 0]) simp
  next
    case (Suc n)
    show ?case
    proof (rule step [OF _ Suc.prems])
      fix t acc cs
      assume "walk (Suc n - 1) s f acc (Split SLASH t @ cs) = Ok r" "plain_comps acc"
        "\<forall>c \<in> set cs. SLASH \<notin> set c"
      then show "plain_comps r"
        using Suc.IH [of acc "Split SLASH t @ cs"] Split_no_sep [of _ SLASH t] by auto
    qed
  qed
qed

lemma os_wf_missing: "os_wf s \<Longrightarrow> nodes s p = None \<Longrightarrow> prefix p x \<Longrightarrow> nodes s x = None"
proof (induction x rule: rev_induct)
  case (snoc c x)
  show ?case
  proof (cases "p = x @ [c]")
    case False
    then have "nodes s x = None" using snoc by (simp add: prefix_snoc)
    then show ?thesis
      using os_wf_parent [OF snoc.prems(1), of "x @ [c]"] is_dir_not_link [of s x]
      by (cases "nodes s (x @ [c])") auto
  qed (use snoc in simp)
qed simp

lemma same_fs_mono: "same_fs s s' \<Longrightarrow> wf_step s s'" "same_fs s s' \<Longrightarrow> only P s s'"
  by (auto simp: same_fs_def wf_step_def)

lemma Chmod_result:
  assumes "os_Chmod p mode t = (r, t')" "nodes t p = Some (FileN c mt)"
  shows "only (\<lambda>x. x = p) t t' \<and> (\<forall>u. r = Ok u \<longrightarrow> nodes t' p = Some (FileN c (mt\<lparr>perm := mode\<rparr>))) \<and>
    (\<exists>mt'. nodes t' p = Some (FileN c mt'))"
  using assms(1) unfolding os_Chmod_def
  by (cases rule: sys_cases) (use assms(2) in \<open>auto simp: only_def split: if_splits\<close>)

lemma WriteData_result:
  assumes "os_WriteData p d t = (r, t')" "nodes t p = Some (FileN c mt)"
  shows "only (\<lambda>x. x = p) t t' \<and> (\<forall>u. r = Ok u \<longrightarrow> nodes t' p = Some (FileN d mt))"
  using assms by (auto elim!: WriteData_cases simp: only_def split: if_splits)

lemma only_chain: "only P s s1 \<Longrightarrow> only P s1 s2 \<Longrightarrow> only P s s2"
  using transpD [OF only_trans] .

lemma only_bindS:
  assumes "only P s (snd (m s))" "\<And>v s1. m s = (Ok v, s1) \<Longrightarrow> only P s1 (snd (k v s1))"
  shows "only P s (snd (bindS m k s))"
proof -
  obtain r s1 where m: "m s = (r, s1)" by fastforce
  show ?thesis
  proof (cases r)
    case (Inr v)
    then have "only P s1 (snd (k v s1))" using assms(2) m by blast
    then show ?thesis using assms(1) m Inr transpD [OF only_trans] by (simp add: bindS_def)
  qed (use assms m in \<open>simp add: bindS_def\<close>)
qed

lemma CreateTemp_Ok: "os_CreateTemp d pre rnd s = (Ok t, s') \<Longrightarrow> t = d @ [pre @ rnd]"
  by (auto simp: os_CreateTemp_def Let_def elim!: sys_cases split: if_splits)

lemma only_wrapS: "only P s (snd (m s)) \<Longrightarrow> only P s (snd (wrapS f m s))"
  by (auto simp: wrapS_def split: prod.split sum.split)

lemma only_wrap_bindS:
  assumes "only P s (snd (m s))" "\<And>v s1. m s = (Ok v, s1) \<Longrightarrow> only P s1 (snd (k v s1))"
  shows "only P s (snd (bindS (wrapS f m) k s))"
  by (rule only_bindS) (use assms in \<open>simp_all add: only_wrapS wrapS_Ok\<close>)

lemma only_MkdirAll:
  "(\<And>x. prefix x p \<Longrightarrow> nodes s x = None \<Longrightarrow> P x) \<Longrightarrow> only P s (snd (os_MkdirAll p mode s))"
  unfolding os_MkdirAll_def using only_mkdirs [of "[]" p s mode] by (auto elim: only_mono)

lemma os_wf_check:
  "is_dir s [] \<Longrightarrow> list_all (\<lambda>(p, _). p = [] \<or> is_dir s (butlast p)) (tree s) \<Longrightarrow> os_wf s"
  unfolding os_wf_def nodes_def list_all_iff by (auto dest: map_of_SomeD)

section \<open>World-writable files\<close>

definition node_perm :: "node \<Rightarrow> 32 word" where
  "node_perm n = (case n of FileN _ mt \<Rightarrow> perm mt | DirN mt \<Rightarrow> perm mt | LinkN _ \<Rightarrow> 0)"

definition others_cannot_write :: "os \<Rightarrow> bool" where
  "others_cannot_write s = (\<forall>p n. nodes s p = Some n \<longrightarrow> node_perm n AND 2 = 0)"

definition ocw_step :: "os \<Rightarrow> os \<Rightarrow> bool" where
  "ocw_step s s' = (others_cannot_write s \<longrightarrow> others_cannot_write s')"

lemma ocw_order [intro, simp]: "reflp ocw_step" "transp ocw_step"
  by (auto simp: ocw_step_def reflp_def transp_def)

lemma ocw_faults [simp]: "others_cannot_write (s\<lparr>faults := fs\<rparr>) = others_cannot_write s"
  by (simp add: others_cannot_write_def)

lemma ocw_sys: "keeps ocw_step act \<Longrightarrow> keeps ocw_step (sys act)"
  by (rule keeps_sys) (auto simp: ocw_step_def)

lemma ocw_set: "others_cannot_write s \<Longrightarrow> node_perm n AND 2 = 0 \<Longrightarrow> others_cannot_write (set_node p n s)"
  by (auto simp: others_cannot_write_def split: if_splits)

lemma ocw_set_known:
  "others_cannot_write s \<Longrightarrow> perm mt AND 2 = 0 \<Longrightarrow> others_cannot_write (set_node p (FileN c mt) s)"
  "others_cannot_write s \<Longrightarrow> perm mt AND 2 = 0 \<Longrightarrow> others_cannot_write (set_node p (DirN mt) s)"
  by (simp_all add: ocw_set node_perm_def)

lemma ocw_lookup:
  "others_cannot_write s \<Longrightarrow> nodes s p = Some (FileN c mt) \<Longrightarrow> perm mt AND 2 = 0"
  "others_cannot_write s \<Longrightarrow> nodes s p = Some (DirN mt) \<Longrightarrow> perm mt AND 2 = 0"
  unfolding others_cannot_write_def node_perm_def by fastforce+

lemma ocw_reset:
  "others_cannot_write s \<Longrightarrow> nodes s p = Some (FileN c mt) \<Longrightarrow> others_cannot_write (set_node p (FileN d mt) s)"
  "others_cannot_write s \<Longrightarrow> nodes s p = Some (FileN c mt) \<Longrightarrow>
    others_cannot_write (set_node p (FileN c (mt\<lparr>uid := u, gid := g\<rparr>)) s)"
  "others_cannot_write s \<Longrightarrow> nodes s p = Some (DirN mt) \<Longrightarrow>
    others_cannot_write (set_node p (DirN (mt\<lparr>uid := u, gid := g\<rparr>)) s)"
  using ocw_lookup [of s p] by (simp_all add: ocw_set_known)

lemma and_mask_clear: "(a :: 32 word) AND b = 0 \<Longrightarrow> (a AND c) AND b = 0"
proof -
  have "(a AND c) AND b = (a AND b) AND c" by (simp add: ac_simps)
  then show "a AND b = 0 \<Longrightarrow> (a AND c) AND b = 0" by simp
qed

lemma newMeta_perm: "mode AND 2 = 0 \<Longrightarrow> perm (newMeta mode s) AND 2 = 0"
  by (simp add: newMeta_def and_mask_clear)

lemma ocw_same: "same_fs s s' \<Longrightarrow> ocw_step s s'"
  by (auto simp: same_fs_def ocw_step_def)

lemma ocw_writes [keeps_intro]:
  "keeps ocw_step (os_CreateTemp d pre rnd)"
  "mode AND 2 = 0 \<Longrightarrow> keeps ocw_step (os_OpenTrunc p mode)"
  "mode AND 2 = 0 \<Longrightarrow> keeps ocw_step (os_Chmod p mode)"
  "keeps ocw_step (os_Chown p u g)"
  unfolding os_CreateTemp_def os_OpenTrunc_def os_Chmod_def os_Chown_def
  by (intro ocw_sys keepsI, auto simp: ocw_step_def Let_def newMeta_perm ocw_set_known ocw_reset
      split: option.split node.split)+

lemma ocw_WriteData [keeps_intro]: "keeps ocw_step (os_WriteData p c)"
proof (rule keepsI)
  fix s
  show "ocw_step s (snd (os_WriteData p c s))"
    by (cases "os_WriteData p c s")
      (auto elim!: WriteData_cases simp: ocw_step_def ocw_set_known ocw_lookup)
qed

lemma ocw_moves [keeps_intro]:
  "keeps ocw_step (os_RemoveAll p)" "keeps ocw_step (os_Remove p)" "keeps ocw_step (os_Rename p q)"
proof -
  show "keeps ocw_step (os_RemoveAll p)" "keeps ocw_step (os_Remove p)"
    unfolding os_RemoveAll_def os_Remove_def
    by (intro ocw_sys keepsI,
        auto simp: ocw_step_def others_cannot_write_def split: option.split node.split if_splits)+
  have "others_cannot_write (move_nodes p q s)" if "others_cannot_write s" "\<not> prefix p q" "\<not> prefix q p" for s
    using that by (auto simp: others_cannot_write_def nodes_move_nodes split: if_splits)
  then show "keeps ocw_step (os_Rename p q)"
    unfolding os_Rename_def by (intro ocw_sys keepsI) (auto simp: ocw_step_def)
qed

lemma ocw_RemoveFile: "ocw_step s (os_RemoveFile p s)"
  using ocw_moves(2) [of p] by (simp add: os_RemoveFile_def keeps_def)

lemma ocw_mkdirs: "mode AND 2 = 0 \<Longrightarrow> others_cannot_write s \<Longrightarrow> others_cannot_write (snd (mkdirs mode acc p s))"
proof (induction p arbitrary: acc s)
  case (Cons c cs)
  obtain r s1 where m: "sys (\<lambda>s. (Ok (), set_node (acc @ [c]) (DirN (newMeta mode s)) s)) s = (r, s1)"
    (is "?m = _") by (cases ?m)
  have "others_cannot_write s1"
    using m Cons.prems ocw_set [of "s\<lparr>faults := fs\<rparr>" for fs]
    by (auto elim!: sys_cases simp: node_perm_def newMeta_perm)
  then show ?case
    using Cons m by (cases r) (auto simp: bindS_def split: option.split)
qed simp

lemma ocw_MkdirAll [keeps_intro]: "mode AND 2 = 0 \<Longrightarrow> keeps ocw_step (os_MkdirAll p mode)"
  unfolding os_MkdirAll_def by (rule keepsI) (simp add: ocw_step_def ocw_mkdirs)

lemma ocw_check: "list_all (\<lambda>(_, n). node_perm n AND 2 = 0) (tree s) \<Longrightarrow> others_cannot_write s"
  unfolding others_cannot_write_def nodes_def list_all_iff by (auto dest: map_of_SomeD)

section \<open>What stays outside some directories\<close>

text \<open>Whatever existed outside the places \<open>D\<close> is as it was.\<close>

definition outside_kept :: "(path \<Rightarrow> bool) \<Rightarrow> os \<Rightarrow> os \<Rightarrow> bool" where
  "outside_kept D s s' = (\<forall>x. nodes s x \<noteq> None \<longrightarrow> \<not> D x \<longrightarrow> nodes s' x = nodes s x)"

lemma outside_kept_order [intro, simp]: "reflp (outside_kept D)" "transp (outside_kept D)"
  unfolding outside_kept_def reflp_def transp_def by simp_all

lemma outside_only: "only P s s' \<Longrightarrow> (\<And>x. P x \<Longrightarrow> D x \<or> nodes s x = None) \<Longrightarrow> outside_kept D s s'"
  unfolding only_def outside_kept_def by metis

lemma keeps_outside: "keeps (only D) act \<Longrightarrow> keeps (outside_kept D) act"
  unfolding keeps_def using outside_only by blast

lemma outside_MkdirAll [keeps_intro]: "keeps (outside_kept D) (os_MkdirAll p mode)"
proof (rule keepsI)
  fix s
  have "only (\<lambda>x. prefix x p \<and> nodes s x = None) s (snd (os_MkdirAll p mode s))" by (rule only_MkdirAll) simp
  then show "outside_kept D s (snd (os_MkdirAll p mode s))" by (rule outside_only) simp
qed

lemma only_creations [keeps_intro]:
  "P p \<Longrightarrow> keeps (only P) (os_Mkdir p mode)"
  "P p \<Longrightarrow> keeps (only P) (os_OpenCreate p mode)"
  "P p \<Longrightarrow> keeps (only P) (os_OpenExcl p mode)"
  unfolding os_Mkdir_def os_OpenCreate_def os_OpenExcl_def
  by (intro only_sys keepsI, auto intro!: only_set_node split: option.split node.split)+

lemma only_MkdirTemp [keeps_intro]: "P (d @ [pre @ rnd]) \<Longrightarrow> keeps (only P) (os_MkdirTemp d pre rnd)"
  unfolding os_MkdirTemp_def by (intro keeps_intro only_refl only_trans)

lemma AppendData_cases:
  assumes "os_AppendData p c s = (r, s')"
  obtains (none) "s' = s" "r = Err EINVAL"
  | (written) c' d m fs where "nodes s p = Some (FileN d m)" "s' = set_node p (FileN (d @ c') m) (s\<lparr>faults := fs\<rparr>)"
      "r = Ok () \<Longrightarrow> c' = c"
proof -
  obtain q s1 where q: "sys (retS ()) s = (q, s1)" (is "?m = _") by (cases ?m)
  then obtain fs where "s1 = s\<lparr>faults := fs\<rparr>" by (auto elim!: sys_cases)
  then show thesis
    using assms q none written [of _ _ _ fs]
    by (auto simp: os_AppendData_def split: option.splits node.splits sum.splits)
qed

lemma only_AppendData [keeps_intro]: "P p \<Longrightarrow> keeps (only P) (os_AppendData p c)"
proof (rule keepsI)
  fix s assume "P p"
  then show "only P s (snd (os_AppendData p c s))"
    by (cases "os_AppendData p c s") (auto elim!: AppendData_cases simp: only_def split: if_splits)
qed

lemma wf_creations [keeps_intro]:
  "keeps wf_step (os_Mkdir p mode)" "keeps wf_step (os_OpenCreate p mode)" "keeps wf_step (os_OpenExcl p mode)"
  unfolding os_Mkdir_def os_OpenCreate_def os_OpenExcl_def
  by (intro wf_sys keepsI, auto simp: wf_step_def is_dir_def split: option.split node.split option.splits
      intro: os_wf_set_new)+

lemma wf_MkdirTemp [keeps_intro]: "keeps wf_step (os_MkdirTemp d pre rnd)"
  unfolding os_MkdirTemp_def by (intro keeps_intro wf_step_order)

lemma wf_AppendData [keeps_intro]: "keeps wf_step (os_AppendData p c)"
proof (rule keepsI)
  fix s
  show "wf_step s (snd (os_AppendData p c s))"
    by (cases "os_AppendData p c s")
      (auto elim!: AppendData_cases simp: wf_step_def is_dir_node_def intro!: os_wf_set_same)
qed

end
