(* ===== verification/Go_Replace.thy ===== *)
theory Go_Replace
  imports Go_OS
begin

text \<open>
  Replacing a file through a temporary sibling: create it, fill it, rename it over the target, and
  remove it if it is still there. The file manager, the cron manager and the updater all do this with
  their own way of filling; \<open>tempWrite_result\<close> is what they share.
\<close>

lemma Rename_over_file:
  assumes wf: "os_wf t" and tmp: "nodes t tmp = Some (FileN c mt)" and ne: "tmp \<noteq> q"
    and r: "os_Rename tmp q t = (Ok (), t')"
  shows "nodes t' q = Some (FileN c mt) \<and> \<not> is_dir t q \<and> only (\<lambda>x. x = tmp \<or> x = q) t t'"
  using r unfolding os_Rename_def
proof (cases rule: sys_cases)
  case (work fs)
  have np: "\<not> prefix tmp q" "\<not> prefix q tmp" and nd: "\<not> is_dir t q"
    and t': "t' = move_nodes tmp q (t\<lparr>faults := fs\<rparr>)"
    using work tmp ne by (auto simp: is_dir_def is_dir_node_def split: if_splits)
  have below: "nodes t x = None" if "strict_prefix y x" "\<not> is_dir t y" for x y
  proof -
    from that(1) obtain d z where x: "x = y @ d # z" by (auto elim: strict_prefixE')
    have "nodes t (y @ [d]) = None"
      using os_wf_parent [OF wf, of "y @ [d]"] that(2) by (cases "nodes t (y @ [d])") auto
    then show ?thesis using os_wf_missing [OF wf, of "y @ [d]" x] x by simp
  qed
  have ft: "\<not> is_dir t tmp" using tmp by (simp add: is_dir_def is_dir_node_def)
  have "nodes t' x = nodes t x" if neq: "x \<noteq> tmp" "x \<noteq> q" for x
  proof -
    consider (q) "strict_prefix q x" | (tmp) "strict_prefix tmp x" "\<not> prefix q x"
      | (out) "\<not> prefix q x" "\<not> prefix tmp x"
      using neq unfolding strict_prefix_def by blast
    then show ?thesis
    proof cases
      case q
      then obtain d z where x: "x = q @ d # z" by (auto elim: strict_prefixE')
      have "nodes t (tmp @ d # z) = None" using below [OF _ ft] by (simp add: strict_prefix_def)
      then show ?thesis using below [OF q nd] x np by (simp add: t' nodes_move_nodes)
    next
      case tmp
      then show ?thesis using below [OF tmp(1) ft] np by (simp add: t' nodes_move_nodes strict_prefix_def)
    next
      case out
      then show ?thesis using np by (simp add: t' nodes_move_nodes)
    qed
  qed
  then have "only (\<lambda>x. x = tmp \<or> x = q) t t'" unfolding only_def by blast
  then show ?thesis using np tmp nd by (simp add: t' nodes_move_nodes)
qed simp

lemma Rename_fails: "os_Rename old new t = (Inl e, t') \<Longrightarrow> nodes t' = nodes t"
  unfolding os_Rename_def by (auto elim!: sys_cases split: if_splits)

lemma wrapS_id [simp]: "wrapS id m = m"
  by (simp add: wrapS_def fun_eq_iff split: prod.splits sum.splits)

lemma Base_abs_path: "plain_comps q \<Longrightarrow> Base (abs_path q) = (if q = [] then ''/'' else last q)"
proof (cases q rule: rev_cases)
  case (snoc ys y)
  assume pl: "plain_comps q"
  have y: "y \<noteq> []" "SLASH \<notin> set y" using pl snoc by (auto simp: plain_comp_def)
  obtain z where z: "abs_path q = z @ SLASH # y"
  proof (cases "ys = []")
    case True
    then show thesis using that [of "[]"] snoc by (simp add: abs_path_def)
  next
    case False
    then show thesis
      using that [of "SLASH # Join ''/'' ys"] snoc Join_append [of ys "[y]" "''/''"] by (simp add: abs_path_def)
  qed
  have "takeWhile (\<lambda>c. c \<noteq> SLASH) (rev y @ SLASH # rev z) = rev y"
    using y(2) by (subst takeWhile_append2) auto
  moreover have "dropWhile (\<lambda>c. c = SLASH) (rev y @ SLASH # rev z) = rev y @ SLASH # rev z"
    using y by (cases y rule: rev_cases) auto
  ultimately show ?thesis using y z snoc by (simp add: Base_def Let_def)
qed (simp add: Base_def abs_path_def)

lemma CreateTemp_result:
  assumes "os_CreateTemp d pre rnd t = (r, t')"
  shows "(\<exists>e. r = Err e) \<and> nodes t' = nodes t \<or>
    r = Ok (d @ [pre @ rnd]) \<and> nodes t (d @ [pre @ rnd]) = None \<and> SLASH \<notin> set pre \<and>
    (\<exists>pm. nodes t' = (nodes t)(d @ [pre @ rnd] \<mapsto> FileN [] \<lparr>perm = pm, uid = 0, gid = 0\<rparr>))"
  using assms unfolding os_CreateTemp_def Let_def
  by (cases rule: sys_cases) (auto simp: newMeta_def split: if_splits)

text \<open>What Write leaves at its target \<open>q\<close> and elsewhere.\<close>

definition write_outcome :: "path \<Rightarrow> node \<Rightarrow> bool \<Rightarrow> os \<Rightarrow> os \<Rightarrow> bool" where
  "write_outcome q n ok s s' =
     ((nodes s' q = Some n \<and> \<not> is_dir s q \<or> \<not> ok \<and> nodes s' q = nodes s q) \<and>
      (\<forall>x. x \<noteq> q \<longrightarrow> nodes s x \<noteq> None \<longrightarrow> nodes s' x = nodes s x))"

lemma tempWrite_result:
  fixes body :: "path \<Rightarrow> (os, 'e, unit) action"
  assumes wf: "os_wf s" and pl: "plain_comps q"
    and r: "bindS (wrapS w1 (os_MkdirAll (butlast q) dm)) (\<lambda>_.
      bindS (wrapS w2 (os_CreateTemp (butlast q) (''.'' @ Base (abs_path q) @ sfx) rnd)) (\<lambda>tmp.
      deferS (os_RemoveFile tmp) (body tmp))) s = (r, s')"
    and body: "\<And>tmp pm t r t'. os_wf t \<Longrightarrow> nodes t tmp = Some (FileN [] \<lparr>perm = pm, uid = 0, gid = 0\<rparr>) \<Longrightarrow> tmp \<noteq> q \<Longrightarrow>
      (\<And>x. nodes s x \<noteq> None \<Longrightarrow> x \<noteq> tmp \<and> nodes t x = nodes s x) \<Longrightarrow> body tmp t = (r, t') \<Longrightarrow>
        only (\<lambda>x. x = tmp) t t' \<and> \<not> is_ok r \<or>
        (late \<or> is_ok r) \<and> nodes t' q = Some n \<and> \<not> is_dir t q \<and> only (\<lambda>x. x = tmp \<or> x = q) t t'"
  shows "write_outcome q n (is_ok r) s s' \<and> (late \<or> is_ok r \<or> nodes s' q = nodes s q)"
proof -
  define pre where "pre = ''.'' @ Base (abs_path q) @ sfx"
  define tmp where "tmp = butlast q @ [pre @ rnd]"
  obtain r1 s1 where mk: "os_MkdirAll (butlast q) dm s = (r1, s1)" by fastforce
  have o1: "only (\<lambda>x. prefix x (butlast q) \<and> nodes s x = None) s s1"
    using only_MkdirAll [of "butlast q" s "\<lambda>x. prefix x (butlast q) \<and> nodes s x = None"] mk
    by (metis (mono_tags, lifting) snd_conv)
  have wf1: "os_wf s1" using keepsD [OF wf_MkdirAll mk] wf by (simp add: wf_step_def)
  have fixed: "q = [] \<or> nodes s1 q = nodes s q"
    using o1 butlast_neq [of q] prefix_order.antisym [OF prefixeq_butlast [of q]]
    unfolding only_def by blast
  have kept: "nodes s x \<noteq> None \<Longrightarrow> nodes s1 x = nodes s x" for x using o1 unfolding only_def by metis
  from r show ?thesis
  proof (cases rule: wrap_bindS_cases)
    case (err e)
    then show ?thesis using mk kept fixed os_wf_root [OF wf] is_dir_not_link [of s "[]"]
      by (auto simp: write_outcome_def)
  next
    case (ok u s1')
    then have "s1' = s1" using mk by simp
    from ok(2) [unfolded this] show ?thesis
    proof (cases rule: wrap_bindS_cases)
      case (err e)
      then show ?thesis
        using CreateTemp_result [OF err(1)] kept fixed os_wf_root [OF wf] is_dir_not_link [of s "[]"]
        by (auto simp: write_outcome_def)
    next
      case (ok t s2)
      from CreateTemp_result [OF ok(1), folded pre_def, folded tmp_def] obtain pm where t: "t = tmp" "nodes s1 tmp = None"
        "SLASH \<notin> set pre" "nodes s2 = (nodes s1)(tmp \<mapsto> FileN [] \<lparr>perm = pm, uid = 0, gid = 0\<rparr>)"
        by auto
      have q: "q \<noteq> []" using t(3) Base_abs_path [OF pl] unfolding pre_def by (auto split: if_splits)
      then have ne: "tmp \<noteq> q"
        using Base_abs_path [OF pl] unfolding tmp_def pre_def by (auto dest!: arg_cong [of _ _ "length \<circ> last"])
      have wf2: "os_wf s2" using keepsD [OF wf_CreateTemp ok(1)] wf1 by (simp add: wf_step_def)
      obtain s3 where s3: "body tmp s2 = (r, s3)" "s' = os_RemoveFile tmp s3"
        using ok(2) t(1) by (auto simp: deferS_def split: prod.splits)
      have o3: "only (\<lambda>x. x = tmp) s3 s'" unfolding s3(2) by (rule only_RemoveFile) simp
      have f2: "nodes s2 tmp = Some (FileN [] \<lparr>perm = pm, uid = 0, gid = 0\<rparr>)" using t(4) by simp
      have old: "x \<noteq> tmp \<and> nodes s2 x = nodes s x" if "nodes s x \<noteq> None" for x
        using kept [OF that] that t(2,4) by (metis fun_upd_other)
      from body [OF wf2 f2 ne old s3(1)] have res: "only (\<lambda>x. x = tmp) s2 s3 \<and> \<not> is_ok r \<or>
         (late \<or> is_ok r) \<and> nodes s3 q = Some n \<and> \<not> is_dir s2 q \<and> only (\<lambda>x. x = tmp \<or> x = q) s2 s3" .
      have "nodes s' x = nodes s x" if "x \<noteq> q" "nodes s x \<noteq> None" for x
      proof -
        have "x \<noteq> tmp" using that(2) kept [of x] t(2) by metis
        then have "nodes s2 x = nodes s x" "nodes s' x = nodes s3 x"
          using kept [OF that(2)] t(4) o3 by (auto simp: only_def)
        moreover have "nodes s3 x = nodes s2 x"
          using res \<open>x \<noteq> tmp\<close> that(1) unfolding only_def by blast
        ultimately show ?thesis by simp
      qed
      moreover have n2: "nodes s2 q = nodes s q" using ne t(4) fixed q by auto
      then have "is_dir s2 q = is_dir s q" by (simp add: is_dir_def)
      moreover have "nodes s' q = nodes s3 q" using o3 ne unfolding only_def by blast
      moreover have "only (\<lambda>x. x = tmp) s2 s3 \<Longrightarrow> nodes s3 q = nodes s2 q" using ne unfolding only_def by blast
      ultimately have "nodes s' q = Some n \<and> \<not> is_dir s q \<or> \<not> is_ok r \<and> nodes s' q = nodes s q"
        "late \<or> is_ok r \<or> nodes s' q = nodes s q"
        "\<forall>x. x \<noteq> q \<longrightarrow> nodes s x \<noteq> None \<longrightarrow> nodes s' x = nodes s x"
        using res n2 by auto
      then show ?thesis by (simp add: write_outcome_def)
    qed
  qed
qed

end
