(* ===== verification/File_Store.thy ===== *)
theory File_Store
  imports Go_Prelude
begin

text \<open>
  The contract between the Agent's file manager and its clients. A client sees a set \<open>dom\<close> of
  managed paths and, as long as the invariant holds, a map from them to file contents: Read returns
  what the map has, Write and Delete update it and keep the invariant. \<open>Agent_Filesystem\<close>
  shows that its operations meet this contract when no system call fails; \<open>Nginx_Site\<close> is
  proved against it.
\<close>

locale file_store =
  fixes fread :: "string \<Rightarrow> ('s, 'e, string) action"
    and fwrite :: "string \<Rightarrow> string \<Rightarrow> ('s, 'e, unit) action"
    and fdelete :: "string \<Rightarrow> ('s, 'e, unit) action"
    and dom :: "string \<Rightarrow> bool"
    and inv :: "'s \<Rightarrow> bool"
    and content :: "'s \<Rightarrow> string \<Rightarrow> string option"
  assumes read_Some: "inv s \<Longrightarrow> dom p \<Longrightarrow> content s p = Some c \<Longrightarrow> fread p s = (Ok c, s)"
    and read_None: "inv s \<Longrightarrow> dom p \<Longrightarrow> content s p = None \<Longrightarrow> \<exists>e. fread p s = (Err e, s)"
    and write_law: "inv s \<Longrightarrow> dom p \<Longrightarrow> \<exists>s'. fwrite p c s = (Ok (), s') \<and> inv s' \<and> content s' p = Some c \<and>
      (\<forall>p'. dom p' \<longrightarrow> p' \<noteq> p \<longrightarrow> content s' p' = content s p')"
    and delete_law: "inv s \<Longrightarrow> dom p \<Longrightarrow> \<exists>s'. fdelete p s = (Ok (), s') \<and> inv s' \<and> content s' p = None \<and>
      (\<forall>p'. dom p' \<longrightarrow> p' \<noteq> p \<longrightarrow> content s' p' = content s p')"
begin

definition same_content :: "'s \<Rightarrow> 's \<Rightarrow> bool" where
  "same_content s s' = (\<forall>p. dom p \<longrightarrow> content s' p = content s p)"

lemma writeE:
  assumes "inv s" "dom p"
  obtains s' where "fwrite p c s = (Ok (), s')" "inv s'" "content s' p = Some c"
    "\<And>p'. dom p' \<Longrightarrow> p' \<noteq> p \<Longrightarrow> content s' p' = content s p'"
  using write_law [OF assms] by blast

lemma deleteE:
  assumes "inv s" "dom p"
  obtains s' where "fdelete p s = (Ok (), s')" "inv s'" "content s' p = None"
    "\<And>p'. dom p' \<Longrightarrow> p' \<noteq> p \<Longrightarrow> content s' p' = content s p'"
  using delete_law [OF assms] by blast

lemma read_snapshot:
  assumes "inv s" "dom p"
  shows "fread p s = (case content s p of Some c \<Rightarrow> Ok c | None \<Rightarrow> fst (fread p s), s) \<and>
    is_ok (fst (fread p s)) = (content s p \<noteq> None)"
  using read_Some [OF assms] read_None [OF assms] by (cases "content s p") fastforce+

end

end
