(* ===== verification/Agent_Filesystem.thy ===== *)
theory Agent_Filesystem
  imports Go_Replace File_Store "HOL-Library.List_Lexorder" "HOL-Library.Char_ord"
begin

text \<open>
  The Agent's file manager (\<open>internal/agent/filesystem\<close>): \<open>securePath\<close> and the operations
  that remote callers reach. A resolved path is the list of its components; \<open>abs_path\<close> gives the
  string. The operations run on the file system of \<open>Go_OS\<close>, where each system call may fail.
\<close>

section \<open>Path validation\<close>

definition DefaultRoots :: "string list" where
  "DefaultRoots =
    [''/etc/nginx/nginx.conf'', ''/etc/nginx/conf.d'', ''/etc/nginx/snippets'', ''/etc/nginx/mime.types'',
     ''/etc/nginx/sites-available'', ''/etc/nginx/sites-enabled'', ''/etc/apache2/sites-available'',
     ''/etc/apache2/sites-enabled'', ''/etc/php'', ''/etc/fail2ban/jail.d'', ''/etc/fail2ban/filter.d'',
     ''/var/www'', ''/var/lib/opendeploy'', ''/var/log/nginx'', ''/var/log/fail2ban.log'', ''/srv'']"

record Manager =
  allowedRoots :: "string list"

definition NewManager :: Manager where
  "NewManager = \<lparr>allowedRoots = DefaultRoots\<rparr>"

text \<open>The system call that an error message names.\<close>

datatype fs_call =
    Inspect | ResolveLinks | ReadCall | MkdirParent | CreateTempCall | ChmodTemp | WriteTemp
  | SyncTemp | CloseTemp | ReplaceCall | SyncParent | DeleteCall | MkdirCall | ListCall | RenameCall
  | OpenSrc | StatSrc | MkdirDst | OpenDst | CopyCall | SyncDst | ChmodCall | ChownCall

datatype fs_error =
    PathNotAbsolute
  | PathTraversal string
  | OutsideAllowed string
  | NoExistingParent
  | SymlinkEscape
  | InvalidSuffix
  | RefuseRoot
  | UnsafeMode
  | ForbiddenOwner
  | FsOS fs_call os_error

definition validatePathWithin :: "string \<Rightarrow> string list \<Rightarrow> (fs_error, string) result" where
  "validatePathWithin path roots =
     (if \<not> IsAbs path \<and> \<not> HasPrefix path ''/'' then Err PathNotAbsolute
      else let clean = Clean path in
        if Contains path ''..'' then Err (PathTraversal path)
        else if list_ex (\<lambda>root. rel_inside (Clean root) clean) roots then Ok clean
        else Err (OutsideAllowed clean))"

definition validatePath :: "Manager \<Rightarrow> string \<Rightarrow> (fs_error, string) result" where
  "validatePath m path = validatePathWithin path (allowedRoots m)"

section \<open>Symlink-checked paths\<close>

type_synonym 'a fs = "(os, fs_error, 'a) action"

text \<open>The loop that climbs to the nearest path that exists.\<close>

function nearestExisting :: "path \<Rightarrow> path fs" where
  "nearestExisting existing s =
     (case os_Lstat existing s of
        (Inr _, s') \<Rightarrow> (Ok existing, s')
      | (Inl e, s') \<Rightarrow>
          if e \<noteq> ENOENT then (Err (FsOS Inspect e), s')
          else if existing = [] then (Err NoExistingParent, s')
          else nearestExisting (butlast existing) s')"
  by pat_completeness auto
termination
  by (relation "measure (length \<circ> fst)") auto

declare nearestExisting.simps [simp del]

fun resolveRoots :: "string list \<Rightarrow> string list fs" where
  "resolveRoots [] s = (Ok [], s)"
| "resolveRoots (root # roots) s =
     (case EvalSymlinks (Split SLASH root) s of
        (r, s') \<Rightarrow>
          bindS (resolveRoots roots) (\<lambda>rest. retS ((case r of Inr p \<Rightarrow> abs_path p | Inl _ \<Rightarrow> Clean root) # rest)) s')"

definition resolvedRoots :: "Manager \<Rightarrow> string list fs" where
  "resolvedRoots m = resolveRoots (allowedRoots m)"

definition joinSuffix :: "path \<Rightarrow> path \<Rightarrow> path \<Rightarrow> (fs_error, path) result" where
  "joinSuffix resolved existing clean =
     (if existing = clean then Ok resolved
      else case Rel (abs_path existing) (abs_path clean) of
             None \<Rightarrow> Err InvalidSuffix
           | Some suff \<Rightarrow>
               if HasPrefix suff ''..'' then Err InvalidSuffix
               else Ok (path_comps (PathJoin [abs_path resolved, suff])))"

definition securePath :: "Manager \<Rightarrow> string \<Rightarrow> path fs" where
  "securePath m path =
     bindS (liftS (validatePath m path)) (\<lambda>cleanStr.
     let clean = path_comps cleanStr in
     bindS (nearestExisting clean) (\<lambda>existing.
     bindS (wrapS (FsOS ResolveLinks) (EvalSymlinks existing)) (\<lambda>resolved.
     bindS (resolvedRoots m) (\<lambda>roots.
     bindS (wrapS (\<lambda>_. SymlinkEscape) (liftS (validatePathWithin (abs_path resolved) roots))) (\<lambda>_.
     liftS (joinSuffix resolved existing clean))))))"

definition Resolve :: "Manager \<Rightarrow> string \<Rightarrow> string fs" where
  "Resolve m path = bindS (securePath m path) (\<lambda>p. retS (abs_path p))"

section \<open>Operations\<close>

definition Perm :: "32 word \<Rightarrow> 32 word" where
  "Perm mode = mode AND 0x1FF"

definition validateMode :: "32 word \<Rightarrow> (fs_error, unit) result" where
  "validateMode mode =
     (if Perm mode = 0 \<or> mode AND NOT 0x1FF \<noteq> 0 \<or> Perm mode AND 2 \<noteq> 0 then Err UnsafeMode else Ok ())"

definition fs_Read :: "Manager \<Rightarrow> string \<Rightarrow> string fs" where
  "fs_Read m path = bindS (securePath m path) (\<lambda>clean. wrapS (FsOS ReadCall) (os_ReadFile clean))"

definition syncDirectory :: "path \<Rightarrow> unit io" where
  "syncDirectory p = bindS (os_Open p) (\<lambda>_. os_Sync)"

text \<open>The body of Write once the temporary file exists; the deferred Remove runs on every path.\<close>

definition fillTemp :: "path \<Rightarrow> string \<Rightarrow> 32 word \<Rightarrow> unit fs" where
  "fillTemp tmp content mode =
     bindS (wrapS (FsOS ChmodTemp) (os_Chmod tmp (Perm mode))) (\<lambda>_.
     bindS (wrapS (FsOS WriteTemp) (os_WriteData tmp content)) (\<lambda>_.
     bindS (wrapS (FsOS SyncTemp) os_Sync) (\<lambda>_.
     wrapS (FsOS CloseTemp) os_Sync)))"

definition replaceFile :: "path \<Rightarrow> path \<Rightarrow> string \<Rightarrow> 32 word \<Rightarrow> unit fs" where
  "replaceFile tmp clean content mode =
     bindS (fillTemp tmp content mode) (\<lambda>_.
     bindS (wrapS (FsOS ReplaceCall) (os_Rename tmp clean)) (\<lambda>_.
     wrapS (FsOS SyncParent) (syncDirectory (butlast clean))))"

definition writeAt :: "string \<Rightarrow> string \<Rightarrow> 32 word \<Rightarrow> path \<Rightarrow> unit fs" where
  "writeAt rnd content mode clean =
     bindS (wrapS (FsOS MkdirParent) (os_MkdirAll (butlast clean) 0x1ED)) (\<lambda>_.
     bindS (wrapS (FsOS CreateTempCall)
              (os_CreateTemp (butlast clean) (''.'' @ Base (abs_path clean) @ ''.tmp-'') rnd)) (\<lambda>tmp.
     deferS (os_RemoveFile tmp) (replaceFile tmp clean content mode)))"

definition fs_Write :: "Manager \<Rightarrow> string \<Rightarrow> string \<Rightarrow> string \<Rightarrow> 32 word \<Rightarrow> unit fs" where
  "fs_Write m rnd path content mode =
     bindS (liftS (validateMode mode)) (\<lambda>_.
     bindS (securePath m path) (writeAt rnd content mode))"

definition fs_Delete :: "Manager \<Rightarrow> string \<Rightarrow> unit fs" where
  "fs_Delete m path =
     bindS (securePath m path) (\<lambda>clean.
     bindS (resolvedRoots m) (\<lambda>roots.
     bindS (guardS (list_ex (\<lambda>root. abs_path clean = root) roots) RefuseRoot) (\<lambda>_.
     wrapS (FsOS DeleteCall) (os_RemoveAll clean))))"

definition fs_MkdirAll :: "Manager \<Rightarrow> string \<Rightarrow> 32 word \<Rightarrow> unit fs" where
  "fs_MkdirAll m path mode =
     bindS (liftS (validateMode mode)) (\<lambda>_.
     bindS (securePath m path) (\<lambda>clean. wrapS (FsOS MkdirCall) (os_MkdirAll clean mode)))"

record FileEntry =
  fe_Name :: string
  fe_Path :: string
  fe_IsDir :: bool
  fe_Size :: int
  fe_Mode :: "32 word"
  fe_Owner :: string
  fe_Group :: string

text \<open>
  Directory entries are sorted by name. \<open>ownership\<close> maps the numeric ids to names and
  \<open>dirSize\<close> is the size the file system reports for a directory. Modification times are not
  part of the model.
\<close>

definition fileEntry :: "(int \<Rightarrow> int \<Rightarrow> string \<times> string) \<Rightarrow> int \<Rightarrow> path \<Rightarrow> node \<Rightarrow> FileEntry" where
  "fileEntry ownership dirSize p n =
     (case n of
        FileN c mt \<Rightarrow> \<lparr>fe_Name = last p, fe_Path = abs_path p, fe_IsDir = False, fe_Size = int (length c),
          fe_Mode = perm mt, fe_Owner = fst (ownership (uid mt) (gid mt)), fe_Group = snd (ownership (uid mt) (gid mt))\<rparr>
      | DirN mt \<Rightarrow> \<lparr>fe_Name = last p, fe_Path = abs_path p, fe_IsDir = True, fe_Size = dirSize,
          fe_Mode = perm mt OR 0x80000000, fe_Owner = fst (ownership (uid mt) (gid mt)), fe_Group = snd (ownership (uid mt) (gid mt))\<rparr>
      | LinkN t \<Rightarrow> \<lparr>fe_Name = last p, fe_Path = abs_path p, fe_IsDir = False, fe_Size = int (length t),
          fe_Mode = 0x80001FF, fe_Owner = fst (ownership 0 0), fe_Group = snd (ownership 0 0)\<rparr>)"

text \<open>An entry whose \<open>Info\<close> fails is skipped.\<close>

fun listEntries :: "(int \<Rightarrow> int \<Rightarrow> string \<times> string) \<Rightarrow> int \<Rightarrow> path list \<Rightarrow> FileEntry list fs" where
  "listEntries ow ds [] s = (Ok [], s)"
| "listEntries ow ds (p # ps) s =
     (case os_Open p s of
        (Inl _, s') \<Rightarrow> listEntries ow ds ps s'
      | (Inr n, s') \<Rightarrow> bindS (listEntries ow ds ps) (\<lambda>es. retS (fileEntry ow ds p n # es)) s')"

definition os_ReadDir :: "path \<Rightarrow> path list io" where
  "os_ReadDir p = sys (\<lambda>s. if is_dir s p then (Ok (sort_key last (children s p)), s) else (Err ENOTDIR, s))"

definition fs_List :: "(int \<Rightarrow> int \<Rightarrow> string \<times> string) \<Rightarrow> int \<Rightarrow> Manager \<Rightarrow> string \<Rightarrow> FileEntry list fs" where
  "fs_List ow ds m path =
     bindS (securePath m path) (\<lambda>clean.
     bindS (wrapS (FsOS ListCall) (os_ReadDir clean)) (listEntries ow ds))"

definition fs_Rename :: "Manager \<Rightarrow> string \<Rightarrow> string \<Rightarrow> unit fs" where
  "fs_Rename m oldPath newPath =
     bindS (securePath m oldPath) (\<lambda>cleanOld.
     bindS (securePath m newPath) (\<lambda>cleanNew.
     wrapS (FsOS RenameCall) (os_Rename cleanOld cleanNew)))"

definition nodePerm :: "node \<Rightarrow> 32 word" where
  "nodePerm n = (case n of FileN _ mt \<Rightarrow> perm mt | DirN mt \<Rightarrow> perm mt | LinkN _ \<Rightarrow> 0x1FF)"

text \<open>The part of Copy after the destination directory exists. The source is read after the
  destination has been truncated.\<close>

definition copyInto :: "path \<Rightarrow> path \<Rightarrow> 32 word \<Rightarrow> unit fs" where
  "copyInto cleanSrc cleanDst dstMode =
     bindS (wrapS (FsOS OpenDst) (os_OpenTrunc cleanDst dstMode)) (\<lambda>_.
     bindS (wrapS (FsOS CopyCall) (os_ReadFile cleanSrc)) (\<lambda>content.
     bindS (wrapS (FsOS CopyCall) (os_WriteData cleanDst content)) (\<lambda>_.
     wrapS (FsOS SyncDst) os_Sync)))"

definition copyAt :: "path \<Rightarrow> path \<Rightarrow> unit fs" where
  "copyAt cleanSrc cleanDst =
     bindS (wrapS (FsOS OpenSrc) (os_Open cleanSrc)) (\<lambda>info.
     bindS (wrapS (FsOS StatSrc) os_Sync) (\<lambda>_.
     bindS (wrapS (FsOS MkdirDst) (os_MkdirAll (butlast cleanDst) 0x1ED)) (\<lambda>_.
     copyInto cleanSrc cleanDst (Perm (nodePerm info) AND NOT 0x12))))"

definition fs_Copy :: "Manager \<Rightarrow> string \<Rightarrow> string \<Rightarrow> unit fs" where
  "fs_Copy m srcPath dstPath =
     bindS (securePath m srcPath) (\<lambda>cleanSrc.
     bindS (securePath m dstPath) (copyAt cleanSrc))"

definition fs_Chmod :: "Manager \<Rightarrow> string \<Rightarrow> 32 word \<Rightarrow> unit fs" where
  "fs_Chmod m path mode =
     bindS (securePath m path) (\<lambda>clean.
     bindS (liftS (validateMode mode)) (\<lambda>_.
     wrapS (FsOS ChmodCall) (os_Chmod clean (Perm mode))))"

definition fs_Chown :: "Manager \<Rightarrow> string \<Rightarrow> int \<Rightarrow> int \<Rightarrow> unit fs" where
  "fs_Chown m path u g =
     bindS (securePath m path) (\<lambda>clean.
     bindS (guardS (u \<le> 0 \<or> g \<le> 0) ForbiddenOwner) (\<lambda>_.
     wrapS (FsOS ChownCall) (os_Chown clean u g)))"

section \<open>The Agent's file requests\<close>

text \<open>The handlers of \<open>internal/agent/server/server.go\<close> that reach the file manager.\<close>

datatype file_request =
    FileRead string
  | FileWrite string string "32 word"
  | FileDelete string
  | DirCreate string "32 word"
  | DirList string
  | FileRename string string
  | FileCopy string string
  | FileChmod string "32 word"
  | FileChown string int int

datatype file_response = Done | Content string | Entries "FileEntry list"

definition handle_file ::
  "(int \<Rightarrow> int \<Rightarrow> string \<times> string) \<Rightarrow> int \<Rightarrow> Manager \<Rightarrow> string \<Rightarrow> file_request \<Rightarrow> file_response fs" where
  "handle_file ow ds m rnd req =
     (case req of
        FileRead p \<Rightarrow> bindS (fs_Read m p) (\<lambda>c. retS (Content c))
      | FileWrite p c mode \<Rightarrow> bindS (fs_Write m rnd p c mode) (\<lambda>_. retS Done)
      | FileDelete p \<Rightarrow> bindS (fs_Delete m p) (\<lambda>_. retS Done)
      | DirCreate p mode \<Rightarrow> bindS (fs_MkdirAll m p mode) (\<lambda>_. retS Done)
      | DirList p \<Rightarrow> bindS (fs_List ow ds m p) (\<lambda>es. retS (Entries es))
      | FileRename p q \<Rightarrow> bindS (fs_Rename m p q) (\<lambda>_. retS Done)
      | FileCopy p q \<Rightarrow> bindS (fs_Copy m p q) (\<lambda>_. retS Done)
      | FileChmod p mode \<Rightarrow> bindS (fs_Chmod m p mode) (\<lambda>_. retS Done)
      | FileChown p u g \<Rightarrow> bindS (fs_Chown m p u g) (\<lambda>_. retS Done))"

section \<open>What securePath returns\<close>

definition abs_roots :: "Manager \<Rightarrow> bool" where
  "abs_roots m = list_all IsAbs (allowedRoots m)"

text \<open>\<open>x\<close> lies below an allowed root or below what such a root resolves to.\<close>

definition in_roots :: "Manager \<Rightarrow> os \<Rightarrow> path \<Rightarrow> bool" where
  "in_roots m s x = list_ex (\<lambda>root. prefix (path_comps root) x \<or>
     (case walk 255 s True [] (Split SLASH root) of Inr r \<Rightarrow> prefix r x | Inl _ \<Rightarrow> False)) (allowedRoots m)"

lemma in_roots_below: "in_roots m s x \<Longrightarrow> prefix x y \<Longrightarrow> in_roots m s y"
  unfolding in_roots_def list_ex_iff
  by (auto split: sum.splits dest: prefix_order.trans)

lemma in_roots_faults [simp]: "in_roots m (s\<lparr>faults := fs\<rparr>) x = in_roots m s x"
  by (simp add: in_roots_def)

lemma validatePathWithin_Ok:
  assumes "validatePathWithin p roots = Ok c" "list_all IsAbs roots"
  shows "IsAbs p \<and> c = Clean p \<and> \<not> Contains p ''..'' \<and> (\<exists>root \<in> set roots. path_under root p)"
proof -
  have p: "IsAbs p" "c = Clean p" "\<not> Contains p ''..''"
    and r: "list_ex (\<lambda>root. rel_inside (Clean root) c) roots"
    using assms(1) by (auto simp: validatePathWithin_def IsAbs_def Let_def split: if_splits)
  from r obtain root where root: "root \<in> set roots" "rel_inside (Clean root) (Clean p)"
    by (auto simp: list_ex_iff p)
  then have "IsAbs root" using assms(2) by (simp add: list_all_iff)
  then have "path_under root p"
    using root(2) rel_inside_iff [of "Clean root" "Clean p"] p(1)
    by (simp add: path_under_def path_comps_Clean)
  then show ?thesis using p root(1) by blast
qed

lemma nearestExisting_same [keeps_intro]: "keeps same_fs (nearestExisting p)"
proof (rule keepsI)
  fix s
  show "same_fs s (snd (nearestExisting p s))"
  proof (induction p s rule: nearestExisting.induct)
    case (1 p s)
    obtain r s1 where l: "os_Lstat p s = (r, s1)" by fastforce
    have "same_fs s s1" using l keepsD [OF same_fs_reads(1)] by blast
    then show ?case
      using 1 l by (subst nearestExisting.simps) (auto split: sum.splits intro: transpD [OF same_fs_order(2)])
  qed
qed

lemma nearestExisting_Ok:
  "nearestExisting p s = (Ok ex, s') \<Longrightarrow>
     prefix ex p \<and> (ex = p \<or> walk 40 s False [] (take (Suc (length ex)) p) = Err ENOENT)"
proof (induction p s rule: nearestExisting.induct)
  case (1 p s)
  obtain r s1 where l: "os_Lstat p s = (r, s1)" by fastforce
  have "same_fs s s1" using l keepsD [OF same_fs_reads(1)] by blast
  then obtain fs where fs: "s1 = s\<lparr>faults := fs\<rparr>" by (auto simp: same_fs_def)
  show ?case
  proof (cases "\<exists>u. r = Ok u")
    case True
    then show ?thesis using 1(2) l by (auto simp: nearestExisting.simps [of p s])
  next
    case False
    then obtain e where e: "r = Err e" by (cases r) auto
    then have step: "e = ENOENT" "p \<noteq> []" "nearestExisting (butlast p) s1 = (Ok ex, s')"
      using 1(2) l by (auto simp: nearestExisting.simps [of p s] split: if_splits)
    from 1(1) [OF l [symmetric] e] step have IH: "prefix ex (butlast p)"
      "ex = butlast p \<or> walk 40 s False [] (take (Suc (length ex)) (butlast p)) = Err ENOENT"
      by (auto simp: fs)
    have missing: "walk 40 s False [] p = Err ENOENT"
      using l e step(1) by (intro Lstat_ENOENT) auto
    have "prefix ex p" using IH(1) prefixeq_butlast prefix_order.trans by blast
    moreover have "walk 40 s False [] (take (Suc (length ex)) p) = Err ENOENT"
    proof (cases "ex = butlast p")
      case True
      then show ?thesis using missing step(2) by simp
    next
      case False
      then have "length ex < length (butlast p)"
        using IH(1) by (intro prefix_length_less) (simp add: strict_prefix_def)
      then have "take (Suc (length ex)) (butlast p) = take (Suc (length ex)) p"
        by (simp add: take_butlast)
      then show ?thesis using IH(2) False by simp
    qed
    ultimately show ?thesis by blast
  qed
qed

lemma resolveRoots_same [keeps_intro]: "keeps same_fs (resolveRoots roots)"
proof (rule keepsI)
  fix s
  show "same_fs s (snd (resolveRoots roots s))"
  proof (induction roots arbitrary: s)
    case (Cons root roots)
    obtain r s1 where e: "EvalSymlinks (Split SLASH root) s = (r, s1)" by fastforce
    have "same_fs s s1" using e keepsD [OF same_fs_reads(2)] by blast
    moreover obtain q s2 where "resolveRoots roots s1 = (q, s2)" by fastforce
    ultimately show ?case
      using e Cons [of s1] by (cases q) (auto simp: bindS_def intro: transpD [OF same_fs_order(2)])
  qed simp
qed

definition root_of :: "os \<Rightarrow> string \<Rightarrow> string \<Rightarrow> bool" where
  "root_of s root str \<longleftrightarrow> str = Clean root \<or> (\<exists>r. walk 255 s True [] (Split SLASH root) = Ok r \<and> str = abs_path r)"

lemma resolveRoots_Ok:
  "resolveRoots roots s = (q, s') \<Longrightarrow> \<exists>rs. q = Ok rs \<and> list_all2 (root_of s) roots rs"
proof (induction roots arbitrary: s q s')
  case (Cons root roots)
  obtain r s1 where e: "EvalSymlinks (Split SLASH root) s = (r, s1)" by fastforce
  have "same_fs s s1" using e keepsD [OF same_fs_reads(2)] by blast
  then obtain fs where fs: "s1 = s\<lparr>faults := fs\<rparr>" by (auto simp: same_fs_def)
  obtain q1 s2 where r: "resolveRoots roots s1 = (q1, s2)" by fastforce
  from Cons.IH [OF r] obtain rs where rs: "q1 = Ok rs" "list_all2 (root_of s1) roots rs" by blast
  have "root_of s1 = root_of s" by (simp add: fun_eq_iff root_of_def fs)
  moreover have "root_of s root (case r of Inr p \<Rightarrow> abs_path p | Inl _ \<Rightarrow> Clean root)"
    using e EvalSymlinks_Ok [of "Split SLASH root" s] by (cases r) (auto simp: root_of_def)
  ultimately show ?case
    using Cons.prems e r rs by (auto simp: bindS_def)
qed simp

lemma joinSuffix_eq:
  assumes "prefix ex cl" "plain_comps cl" "plain_comps r"
  shows "joinSuffix r ex cl =
    (if ex \<noteq> cl \<and> HasPrefix (Join ''/'' (drop (length ex) cl)) ''..'' then Err InvalidSuffix
     else Ok (r @ drop (length ex) cl))"
proof (cases "ex = cl")
  case True
  then show ?thesis by (simp add: joinSuffix_def)
next
  case False
  from assms(1) obtain ys where ys: "cl = ex @ ys" by (auto simp: prefix_def)
  have pl: "plain_comps ex" "plain_comps ys" "ys \<noteq> []" using assms(2) ys False by auto
  have dc: "drop_common ex (ex @ ys) = ([], ys)" by (induction ex) (cases ys, auto)
  have rel: "Rel (abs_path ex) (abs_path cl) = Some (Join ''/'' ys)"
    using pl ys dc by (auto simp: Rel_def Clean_abs_path abs_path_inject)
  have "path_comps (PathJoin [abs_path r, Join ''/'' ys]) = r @ ys"
    using path_comps_PathJoin(1) [OF assms(3) pl(2,3)] .
  then show ?thesis
    using False rel ys by (simp add: joinSuffix_def)
qed

lemma joinSuffix_Ok:
  assumes "joinSuffix r ex cl = Ok q" "prefix ex cl" "plain_comps cl" "plain_comps r"
  shows "q = r @ drop (length ex) cl"
  using assms(1) joinSuffix_eq [OF assms(2-4)] by (simp split: if_splits)

text \<open>
  A call of securePath that succeeds: \<open>ex\<close> is the part of the cleaned path that exists and
  \<open>r\<close> what it resolves to.
\<close>

lemma securePath_steps:
  assumes "securePath m p s = (Ok q, s')" "abs_roots m"
  obtains ex r where "same_fs s s'" "IsAbs p" "plain_comps (path_comps p)"
    "prefix ex (path_comps p)" "walk 255 s True [] ex = Ok r" "plain_comps r"
    "ex = path_comps p \<or> walk 40 s False [] (take (Suc (length ex)) (path_comps p)) = Err ENOENT"
    "in_roots m s r" "q = r @ drop (length ex) (path_comps p)"
proof -
  from assms(1) obtain c ex s1 r s2 roots s3 cl where
    val: "validatePath m p = Ok c" and near: "nearestExisting (path_comps c) s = (Ok ex, s1)"
    and ev: "EvalSymlinks ex s1 = (Ok r, s2)" and rr: "resolvedRoots m s2 = (Ok roots, s3)"
    and val2: "validatePathWithin (abs_path r) roots = Ok cl"
    and join: "joinSuffix r ex (path_comps c) = Ok q" and s': "s' = s3"
    by (auto simp: securePath_def bindS_Ok wrapS_Ok Let_def)
  have c: "IsAbs p" "c = Clean p"
    using validatePathWithin_Ok [OF val [unfolded validatePath_def]] assms(2) by (auto simp: abs_roots_def)
  have cp: "path_comps c = path_comps p" using c by (simp add: path_comps_Clean)
  have same: "same_fs s s1" "same_fs s1 s2" "same_fs s2 s3"
    using near ev rr keepsD [OF nearestExisting_same] keepsD [OF same_fs_reads(2)]
      keepsD [OF resolveRoots_same] by (auto simp: resolvedRoots_def)
  then have s13: "same_fs s s3" by (meson same_fs_order(2) transpD)
  from same obtain f1 f2 where f: "s1 = s\<lparr>faults := f1\<rparr>" "s2 = s\<lparr>faults := f2\<rparr>"
    by (auto simp: same_fs_def)
  have w: "walk 255 s True [] ex = Ok r" using EvalSymlinks_Ok [OF ev] by (simp add: f)
  have near': "prefix ex (path_comps p)"
    "ex = path_comps p \<or> walk 40 s False [] (take (Suc (length ex)) (path_comps p)) = Err ENOENT"
    using nearestExisting_Ok [OF near] cp by auto
  have pl: "plain_comps (path_comps p)" using c path_comps_plain by blast
  then have plex: "plain_comps ex" using near'(1) by (auto simp: prefix_def)
  have plr: "plain_comps r" using walk_plain [OF w] plain_comps_no_slash [OF plex] by simp
  from resolveRoots_Ok [OF rr [unfolded resolvedRoots_def]]
  have rs: "list_all2 (root_of s) (allowedRoots m) roots"
    by (simp add: root_of_def f list_all2_conv_all_nth)
  have rootspl: "\<exists>root \<in> set (allowedRoots m). root_of s root str \<and> IsAbs str" if "str \<in> set roots" for str
  proof -
    from rs that obtain root where "root \<in> set (allowedRoots m)" "root_of s root str"
      by (metis in_set_conv_nth list_all2_conv_all_nth)
    then show ?thesis using assms(2) by (auto simp: root_of_def abs_roots_def list_all_iff)
  qed
  then have "list_all IsAbs roots" by (auto simp: list_all_iff)
  from validatePathWithin_Ok [OF val2 this] obtain str where
    str: "str \<in> set roots" "path_under str (abs_path r)" by blast
  obtain root where root: "root \<in> set (allowedRoots m)" "root_of s root str" using rootspl str(1) by blast
  have "IsAbs root" using root(1) assms(2) by (simp add: abs_roots_def list_all_iff)
  then have "in_roots m s r"
    using root str(2) plr walk_plain [of 255 s True "[]" "Split SLASH root"] Split_no_sep
    by (auto simp: root_of_def in_roots_def list_ex_iff path_under_def path_comps_Clean
        intro!: bexI [of _ root])
  then show thesis
    using that [OF _ c(1) pl near'(1) w plr near'(2)] s13 s' joinSuffix_Ok [OF join] near'(1) pl plr cp
    by simp
qed

section \<open>Confinement\<close>

text \<open>
  A path that an operation may act on: inside the roots, free of links, and everything missing on
  the way to it is inside the roots too.
\<close>

definition safe_target :: "Manager \<Rightarrow> os \<Rightarrow> path \<Rightarrow> bool" where
  "safe_target m s q =
     (in_roots m s q \<and> link_free s q \<and> plain_comps q \<and>
      (\<forall>x. prefix x q \<longrightarrow> nodes s x = None \<longrightarrow> in_roots m s x))"

lemma securePath_safe:
  assumes sp: "securePath m p s = (Ok q, s')" and wf: "os_wf s" and roots: "abs_roots m"
  shows "same_fs s s' \<and> safe_target m s q"
  using sp roots
proof (cases rule: securePath_steps)
  case (1 ex r)
  let ?y = "drop (length ex) (path_comps p)"
  from 1(4) have cp: "path_comps p = ex @ ?y" by (auto simp: prefix_def)
  have phys: "physical s r"
    using walk_physical [OF 1(5)] os_wf_root [OF wf] by simp
  have missing: "nodes s (r @ take 1 ?y) = None" if "?y \<noteq> []"
  proof -
    from that obtain c y where y: "?y = c # y" by (cases ?y) auto
    then have "take (Suc (length ex)) (path_comps p) = ex @ [c]" using cp
      by (metis append_eq_conv_conj length_append_singleton append.assoc append_Cons append_Nil)
    moreover have "ex \<noteq> path_comps p" using cp y by auto
    moreover have "plain_comp c" using 1(3) cp y by (metis plain_comps_simps(2,3))
    ultimately show ?thesis using walk_missing [OF 1(5)] 1(7) y by auto
  qed
  have split: "prefix x r \<or> (?y \<noteq> [] \<and> prefix (r @ take 1 ?y) x)" if x: "prefix x q" for x
  proof (cases "prefix x r")
    case False
    then obtain z where z: "x = r @ z" "prefix z ?y" "z \<noteq> []"
      using x 1(9) by (auto simp: prefix_append)
    then show ?thesis by (cases ?y; cases z) auto
  qed simp
  have exists: "nodes s x \<noteq> None \<and> \<not> is_link s x" if "prefix x r" for x
    using phys that is_dir_not_link by (auto simp: physical_def prefix_order.le_less)
  have "\<not> is_link s x \<and> (nodes s x = None \<longrightarrow> in_roots m s x)" if "prefix x q" for x
    using split [OF that] exists [of x] missing os_wf_missing [OF wf, of "r @ take 1 ?y" x]
      in_roots_below [OF 1(8), of x] by (auto simp: is_link_def dest: append_prefixD)
  then have "link_free s q" "\<forall>x. prefix x q \<longrightarrow> nodes s x = None \<longrightarrow> in_roots m s x"
    by (auto simp: link_free_def)
  moreover have "in_roots m s q" using in_roots_below [OF 1(8)] 1(9) by simp
  moreover have "plain_comps q" using 1(3,6,9) cp by (metis plain_comps_simps(3))
  ultimately show ?thesis using 1(1) by (simp add: safe_target_def)
qed

text \<open>C4. A path that securePath returns lies, component by component, below an allowed root or below
  the place an allowed root resolves to; no component of it is a symbolic link; where the path exists,
  resolving it again leads to the path itself; and the file system is unchanged.\<close>

theorem securePath_confined:
  assumes "securePath m p s = (Ok q, s')" "os_wf s" "abs_roots m"
  shows "in_roots m s q \<and> link_free s q \<and> nodes s' = nodes s \<and>
         (nodes s q \<noteq> None \<longrightarrow> walk n s follow [] q = Ok q)"
proof -
  have q: "same_fs s s'" "safe_target m s q" using securePath_safe [OF assms] by auto
  have "is_dir s x" if "nodes s q \<noteq> None" "strict_prefix x q" for x
  proof -
    from that(2) obtain c y where y: "q = x @ c # y" by (auto elim: strict_prefixE')
    have "nodes s (x @ [c]) \<noteq> None"
      using that(1) y os_wf_missing [OF assms(2), of "x @ [c]" q] by force
    then show ?thesis using os_wf_parent [OF assms(2), of "x @ [c]"] by (cases "nodes s (x @ [c])") auto
  qed
  then have "nodes s q \<noteq> None \<longrightarrow> walk n s follow [] q = Ok q"
    using walk_link_free [of q "[]" s n follow] q(2) by (auto simp: safe_target_def link_free_def)
  then show ?thesis using q same_fs_nodes by (auto simp: safe_target_def)
qed

text \<open>The temporary file that a Write of \<open>q\<close> makes beside it.\<close>

definition temp_of :: "path \<Rightarrow> path \<Rightarrow> bool" where
  "temp_of q t = (\<exists>rnd. t = butlast q @ [(''.'' @ Base (abs_path q) @ ''.tmp-'') @ rnd])"

definition may_change :: "Manager \<Rightarrow> os \<Rightarrow> path \<Rightarrow> bool" where
  "may_change m s x = (in_roots m s x \<or> (\<exists>q t. in_roots m s q \<and> temp_of q t \<and> prefix t x))"

lemma securePath_same [keeps_intro]: "keeps same_fs (securePath m p)"
  unfolding securePath_def Let_def resolvedRoots_def
  by (intro keeps_intro same_fs_order)

lemma resolvedRoots_same: "keeps same_fs (resolvedRoots m)"
  by (simp add: resolvedRoots_def resolveRoots_same)

lemma same_keeps [keeps_intro]:
  "keeps wf_step (securePath m p)" "keeps (only P) (securePath m p)"
  "keeps wf_step (resolvedRoots m)" "keeps (only P) (resolvedRoots m)"
  by (rule keeps_mono, rule securePath_same resolvedRoots_same, erule same_fs_mono)+

text \<open>An operation that starts with securePath is confined when the rest is.\<close>

lemma confined_bind:
  assumes "os_wf s" "abs_roots m"
    "\<And>q s1. safe_target m s q \<Longrightarrow> same_fs s s1 \<Longrightarrow> only P s1 (snd (k q s1))"
  shows "only P s (snd (bindS (securePath m p) k s))"
proof (rule only_bindS)
  show "only P s (snd (securePath m p s))"
    using same_keeps(2) by (simp add: keeps_def)
  fix q s1
  assume "securePath m p s = (Ok q, s1)"
  then show "only P s1 (snd (k q s1))" using securePath_safe assms by blast
qed

lemma keeps_at: "keeps R m \<Longrightarrow> R s (snd (m s))"
  by (simp add: keeps_def)

lemma safe_in: "safe_target m s q \<Longrightarrow> prefix q x \<Longrightarrow> may_change m s x"
  by (auto simp: safe_target_def may_change_def intro: in_roots_below)

lemma safe_missing: "safe_target m s q \<Longrightarrow> prefix x q \<Longrightarrow> nodes s x = None \<Longrightarrow> may_change m s x"
  by (auto simp: safe_target_def may_change_def)

lemma only_MkdirAll_safe:
  assumes "safe_target m s q" "same_fs s s1" "prefix p q"
  shows "only (may_change m s) s1 (snd (os_MkdirAll p mode s1))"
  using assms safe_missing prefix_order.trans [of _ p q]
  by (intro only_MkdirAll) (auto simp: same_fs_nodes)

lemma writeAt_confined:
  assumes q: "safe_target m s q" "same_fs s s1"
  shows "only (may_change m s) s1 (snd (writeAt rnd c mode q s1))"
proof -
  let ?pre = "''.'' @ Base (abs_path q) @ ''.tmp-''"
  let ?tmp = "butlast q @ [?pre @ rnd]"
  have "temp_of q ?tmp" unfolding temp_of_def by blast
  then have tmp: "may_change m s x" if "prefix ?tmp x" for x
    using q(1) that by (auto simp: may_change_def safe_target_def)
  have "keeps (only (may_change m s)) (deferS (os_RemoveFile ?tmp) (replaceFile ?tmp q c mode))"
    unfolding replaceFile_def fillTemp_def syncDirectory_def
    by (intro keeps_intro only_RemoveFile only_trans) (use tmp safe_in [OF q(1)] in auto)
  note rest = keeps_at [OF this]
  have "only (may_change m s) s2 (snd (bindS (wrapS (FsOS CreateTempCall)
          (os_CreateTemp (butlast q) ?pre rnd)) (\<lambda>tmp.
     deferS (os_RemoveFile tmp) (replaceFile tmp q c mode)) s2))" for s2
  proof (rule only_wrap_bindS)
    show "only (may_change m s) s2 (snd (os_CreateTemp (butlast q) ?pre rnd s2))"
      by (rule keeps_at, rule only_writes(1)) (rule tmp, simp)
    fix v s3
    assume "os_CreateTemp (butlast q) ?pre rnd s2 = (Ok v, s3)"
    then have "v = ?tmp" by (rule CreateTemp_Ok)
    then show "only (may_change m s) s3 (snd (deferS (os_RemoveFile v) (replaceFile v q c mode) s3))"
      using rest by blast
  qed
  note cont = this
  show ?thesis
    unfolding writeAt_def
    by (rule only_wrap_bindS, rule only_MkdirAll_safe [OF q prefixeq_butlast]) (rule cont)
qed

lemma Write_confined:
  assumes "os_wf s" "abs_roots m"
  shows "only (may_change m s) s (snd (fs_Write m rnd p c mode s))"
proof (cases "validateMode mode")
  case (Inr u)
  show ?thesis
    using confined_bind [OF assms, of "may_change m s" "writeAt rnd c mode" p] writeAt_confined
    by (simp add: fs_Write_def Inr bindS_def [of "liftS _"])
qed (simp add: fs_Write_def bindS_def)

lemma Delete_confined:
  assumes "os_wf s" "abs_roots m"
  shows "only (may_change m s) s (snd (fs_Delete m p s))"
  unfolding fs_Delete_def
  by (rule confined_bind [OF assms], rule keeps_at, intro keeps_intro only_trans only_refl)
    (rule safe_in)

lemma MkdirAll_confined:
  assumes "os_wf s" "abs_roots m"
  shows "only (may_change m s) s (snd (fs_MkdirAll m p mode s))"
proof (cases "validateMode mode")
  case (Inr u)
  show ?thesis
    using confined_bind [OF assms, of "may_change m s" "\<lambda>q. wrapS (FsOS MkdirCall) (os_MkdirAll q mode)" p]
      only_MkdirAll_safe [of m s]
    by (simp add: fs_MkdirAll_def Inr bindS_def [of "liftS _"] only_wrapS)
qed (simp add: fs_MkdirAll_def bindS_def)

lemma safe_same: "same_fs s s1 \<Longrightarrow> safe_target m s1 q = safe_target m s q"
  "same_fs s s1 \<Longrightarrow> may_change m s1 = may_change m s" "same_fs s s1 \<Longrightarrow> os_wf s1 = os_wf s"
  by (auto simp: same_fs_def safe_target_def may_change_def fun_eq_iff)

lemma same_fs_trans: "same_fs s s1 \<Longrightarrow> same_fs s1 s2 \<Longrightarrow> same_fs s s2"
  using transpD [OF same_fs_order(2)] .

lemma Rename_confined:
  assumes "os_wf s" "abs_roots m"
  shows "only (may_change m s) s (snd (fs_Rename m p p' s))"
  unfolding fs_Rename_def
proof (rule confined_bind [OF assms], rule confined_bind)
  fix q s1 q' s2
  assume q: "safe_target m s q" and s1: "same_fs s s1" and q': "safe_target m s1 q'"
  have "keeps (only (may_change m s)) (wrapS (FsOS RenameCall) (os_Rename q q'))"
    using safe_in [OF q] safe_in [OF q'] s1 by (intro keeps_intro) (auto simp: safe_same)
  then show "only (may_change m s) s2 (snd (wrapS (FsOS RenameCall) (os_Rename q q') s2))"
    by (rule keeps_at)
qed (use assms in \<open>auto simp: safe_same\<close>)

lemma copyAt_confined:
  assumes q: "safe_target m s q'" "same_fs s s1"
  shows "only (may_change m s) s1 (snd (copyAt q q' s1))"
proof -
  have tail: "keeps (only (may_change m s)) (copyInto q q' md)" for md
    unfolding copyInto_def
    using safe_in [OF q(1) prefix_order.refl] by (intro keeps_intro only_trans)
  have mk: "only (may_change m s) s2
      (snd (bindS (wrapS (FsOS MkdirDst) (os_MkdirAll (butlast q') 0x1ED)) (\<lambda>_. copyInto q q' md) s2))"
    if "same_fs s s2" for s2 md
    by (rule only_wrap_bindS, rule only_MkdirAll_safe [OF q(1) that prefixeq_butlast])
      (rule keeps_at [OF tail])
  show ?thesis
    unfolding copyAt_def
  proof (rule only_wrap_bindS [OF keeps_at [OF only_reads(5)]],
      rule only_wrap_bindS [OF keeps_at [OF only_reads(4)]])
    fix n s3 u s4
    assume "os_Open q s1 = (Ok n, s3)" "os_Sync s3 = (Ok u, s4)"
    then have "same_fs s1 s3" "same_fs s3 s4"
      using keepsD [OF same_fs_reads(4)] keepsD [OF same_fs_reads(5)] by blast+
    then have "same_fs s s4" using q(2) same_fs_trans by blast
    then show "only (may_change m s) s4 (snd (bindS (wrapS (FsOS MkdirDst) (os_MkdirAll (butlast q') 0x1ED))
        (\<lambda>_. copyInto q q' (Perm (nodePerm n) AND NOT 0x12)) s4))" by (rule mk)
  qed
qed

lemma Copy_confined:
  assumes "os_wf s" "abs_roots m"
  shows "only (may_change m s) s (snd (fs_Copy m p p' s))"
  unfolding fs_Copy_def
proof (rule confined_bind [OF assms], rule confined_bind)
  fix q s1 q' s2
  assume s1: "same_fs s s1" and q': "safe_target m s1 q'" and s2: "same_fs s1 s2"
  then show "only (may_change m s) s2 (snd (copyAt q q' s2))"
    using copyAt_confined [OF q' s2] by (simp add: safe_same)
qed (use assms in \<open>auto simp: safe_same\<close>)

lemma Chmod_confined:
  assumes "os_wf s" "abs_roots m"
  shows "only (may_change m s) s (snd (fs_Chmod m p mode s))"
  unfolding fs_Chmod_def
  by (rule confined_bind [OF assms], rule keeps_at, intro keeps_intro only_trans only_refl)
    (erule safe_in, simp)

lemma Chown_confined:
  assumes "os_wf s" "abs_roots m"
  shows "only (may_change m s) s (snd (fs_Chown m p u g s))"
  unfolding fs_Chown_def
  by (rule confined_bind [OF assms], rule keeps_at, intro keeps_intro only_trans only_refl)
    (erule safe_in, simp)

lemma listEntries_same [keeps_intro]: "keeps same_fs (listEntries ow ds ps)"
proof (rule keepsI)
  fix s show "same_fs s (snd (listEntries ow ds ps s))"
  proof (induction ps arbitrary: s)
    case (Cons p ps)
    obtain r s1 where o1: "os_Open p s = (r, s1)" by fastforce
    obtain q s2 where l: "listEntries ow ds ps s1 = (q, s2)" by fastforce
    have "same_fs s s1" using o1 keepsD [OF same_fs_reads(5)] by blast
    moreover have "same_fs s1 s2" using Cons [of s1] l by simp
    ultimately have "same_fs s s2" by (rule same_fs_trans)
    then show ?case using o1 l by (cases r; cases q) (auto simp: bindS_def)
  qed simp
qed

lemma ReadDir_same [keeps_intro]: "keeps same_fs (os_ReadDir p)"
  unfolding os_ReadDir_def
  by (intro keeps_sys keepsI) (auto simp: same_fs_def, metis same_fs_def same_fs_order(3))

lemma reads_same: "keeps same_fs (fs_Read m p)" "keeps same_fs (fs_List ow ds m p)"
  unfolding fs_Read_def fs_List_def by (intro keeps_intro same_fs_order)+

text \<open>Every operation keeps the tree well formed.\<close>

lemma ops_wf:
  "keeps wf_step (fs_Write m rnd p c mode)" "keeps wf_step (fs_Delete m p)"
  "keeps wf_step (fs_MkdirAll m p mode)" "keeps wf_step (fs_Rename m p p')"
  "keeps wf_step (fs_Copy m p p')" "keeps wf_step (fs_Chmod m p mode)" "keeps wf_step (fs_Chown m p u g)"
  unfolding fs_Write_def writeAt_def replaceFile_def fillTemp_def syncDirectory_def fs_Delete_def fs_MkdirAll_def
    fs_Rename_def fs_Copy_def copyAt_def copyInto_def fs_Chmod_def fs_Chown_def
  by (intro keeps_intro wf_step_order; simp add: wf_step_def wf_RemoveFile)+

lemma reads_wf: "keeps wf_step (fs_Read m p)" "keeps wf_step (fs_List ow ds m p)"
  by (rule keeps_mono, rule reads_same, erule same_fs_mono)+

lemma bindS_ret_snd: "snd (bindS m (\<lambda>v. retS (f v)) s) = snd (m s)"
  by (auto simp: bindS_def split: prod.split sum.split)

lemmas confined_ops = Write_confined Delete_confined MkdirAll_confined Rename_confined Copy_confined
  Chmod_confined Chown_confined

lemma handle_file_wf: "keeps wf_step (handle_file ow ds m rnd req)"
proof (rule keepsI)
  fix s
  show "wf_step s (snd (handle_file ow ds m rnd req s))"
    using keeps_at [OF ops_wf(1)] keeps_at [OF ops_wf(2)] keeps_at [OF ops_wf(3)]
      keeps_at [OF ops_wf(4)] keeps_at [OF ops_wf(5)] keeps_at [OF ops_wf(6)] keeps_at [OF ops_wf(7)]
      keeps_at [OF reads_wf(1)] keeps_at [OF reads_wf(2)]
    by (cases req) (simp_all add: handle_file_def bindS_ret_snd)
qed

text \<open>C5. A file request changes nothing outside the allowed roots and the places they resolve to,
  apart from a temporary file that a failed removal may leave beside a root (a file or a directory), and it keeps the
  tree well formed, whatever system calls fail.\<close>

theorem file_requests_confined:
  assumes "os_wf s" "abs_roots m"
  shows "only (may_change m s) s (snd (handle_file ow ds m rnd req s)) \<and>
         os_wf (snd (handle_file ow ds m rnd req s))"
proof
  show "only (may_change m s) s (snd (handle_file ow ds m rnd req s))"
    using confined_ops [OF assms] keeps_at [OF reads_same(1)] keeps_at [OF reads_same(2)] same_fs_mono(2)
    by (cases req) (simp_all add: handle_file_def bindS_ret_snd)
  show "os_wf (snd (handle_file ow ds m rnd req s))"
    using keeps_at [OF handle_file_wf] assms(1) by (simp add: wf_step_def)
qed

section \<open>Write replaces a file completely or not at all\<close>

definition written :: "string \<Rightarrow> 32 word \<Rightarrow> node" where
  "written c mode = FileN c \<lparr>perm = Perm mode, uid = 0, gid = 0\<rparr>"

lemma syncDirectory_same: "keeps same_fs (syncDirectory p)"
  unfolding syncDirectory_def by (intro keeps_intro same_fs_order)

lemma fillTemp_result:
  assumes tmp: "nodes t tmp = Some (FileN c0 mt)" and r: "fillTemp tmp c mode t = (r, t')"
  shows "only (\<lambda>x. x = tmp) t t' \<and>
    (\<forall>u. r = Ok u \<longrightarrow> nodes t' tmp = Some (FileN c (mt\<lparr>perm := Perm mode\<rparr>)))"
  using r unfolding fillTemp_def
proof (cases rule: wrap_bindS_cases)
  case (ok v t1)
  note c1 = Chmod_result [OF ok(1) tmp]
  then have f1: "nodes t1 tmp = Some (FileN c0 (mt\<lparr>perm := Perm mode\<rparr>))" by blast
  from ok(2) show ?thesis
  proof (cases rule: wrap_bindS_cases)
    case (err e)
    then show ?thesis using c1 WriteData_result [OF err(1) f1] only_chain by blast
  next
    case (ok v t2)
    note c2 = WriteData_result [OF ok(1) f1]
    have "keeps same_fs (bindS (wrapS (FsOS SyncTemp) os_Sync) (\<lambda>_. wrapS (FsOS CloseTemp) os_Sync))"
      by (intro keeps_intro same_fs_order)
    from keepsD [OF this ok(2)] have "nodes t' = nodes t2" by (rule same_fs_nodes)
    moreover have "only (\<lambda>x. x = tmp) t t2" using c1 c2 only_chain by blast
    ultimately show ?thesis using c2 by (simp add: only_def)
  qed
qed (use Chmod_result [OF _ tmp] in auto)

lemma fillTemp_wf: "keeps wf_step (fillTemp tmp c mode)"
  unfolding fillTemp_def by (intro keeps_intro wf_step_order)

lemma replaceFile_result:
  assumes wf: "os_wf t" and tmp: "nodes t tmp = Some (FileN c0 \<lparr>perm = pm, uid = 0, gid = 0\<rparr>)"
    and ne: "tmp \<noteq> q" and r: "replaceFile tmp q c mode t = (r, t')"
  shows "only (\<lambda>x. x = tmp) t t' \<and> \<not> is_ok r \<or>
         nodes t' q = Some (written c mode) \<and> \<not> is_dir t q \<and> only (\<lambda>x. x = tmp \<or> x = q) t t'"
  using r unfolding replaceFile_def
proof (cases rule: bindS_cases)
  case (err e)
  then show ?thesis using fillTemp_result [OF tmp err(1)] by simp
next
  case (ok u t1)
  have f1: "only (\<lambda>x. x = tmp) t t1" "nodes t1 tmp = Some (written c mode)"
    using fillTemp_result [OF tmp ok(1)] by (auto simp: written_def)
  have wf1: "os_wf t1" using keepsD [OF fillTemp_wf ok(1)] wf by (simp add: wf_step_def)
  from ok(2) show ?thesis
  proof (cases rule: wrap_bindS_cases)
    case (err e)
    then have "nodes t' = nodes t1"
      unfolding os_Rename_def by (auto elim!: sys_cases split: if_splits)
    then show ?thesis using f1(1) err(2) by (simp add: only_def)
  next
    case (ok v t2)
    have f2: "nodes t2 q = Some (written c mode)" "\<not> is_dir t1 q" "only (\<lambda>x. x = tmp \<or> x = q) t1 t2"
      using Rename_over_file [OF wf1 _ ne] ok(1) f1(2) by (simp_all add: written_def)
    have "nodes t' = nodes t2"
      using ok(2) keepsD [OF keeps_wrapS [OF syncDirectory_same]] same_fs_nodes by blast
    then show ?thesis using f1(1) f2 ne unfolding only_def is_dir_def by metis
  qed
qed

lemma writeAt_result:
  assumes wf: "os_wf s" and pl: "plain_comps q" and r: "writeAt rnd c mode q s = (r, s')"
  shows "write_outcome q (written c mode) (is_ok r) s s'"
  using tempWrite_result [OF wf pl r [unfolded writeAt_def], of True "written c mode"] replaceFile_result by blast

lemma Write_outcome:
  assumes "os_wf s" "abs_roots m" "securePath m p s = (Ok q, s1)" "fs_Write m rnd p c mode s = (r, s')"
  shows "write_outcome q (written c mode) (is_ok r) s s'"
proof (cases "validateMode mode")
  case (Inr u)
  have q: "same_fs s s1" "safe_target m s q" using securePath_safe [OF assms(3,1,2)] by auto
  have w: "writeAt rnd c mode q s1 = (r, s')"
    using assms(3,4) Inr by (simp add: fs_Write_def bindS_def)
  have "write_outcome q (written c mode) (is_ok r) s1 s'"
    using writeAt_result [OF _ _ w] q assms(1) by (simp add: safe_same safe_target_def)
  then show ?thesis using same_fs_nodes [OF q(1)] by (simp add: write_outcome_def is_dir_def)
next
  case (Inl e)
  then have "r = Err e" "s' = s" using assms(4) by (auto simp: fs_Write_def bindS_def)
  then show ?thesis by (simp add: write_outcome_def)
qed

text \<open>C6. Write is atomic: whatever system calls fail, its target afterwards is either as it was before
  or a file with exactly the new content and mode, it is the latter whenever Write returns no error,
  and nothing else that existed has changed.\<close>

theorem Write_atomic:
  assumes "os_wf s" "abs_roots m" "securePath m p s = (Ok q, s1)" "fs_Write m rnd p c mode s = (r, s')"
  shows "write_outcome q (written c mode) (is_ok r) s s'"
  using assms by (rule Write_outcome)

section \<open>What was written is read back\<close>

lemma write_extends:
  assumes "write_outcome q (written c mode) True s s'" "link_free s q"
  shows "extends s s'"
  unfolding extends_def
proof (intro allI impI)
  fix x n assume n: "nodes s x = Some n"
  show "\<exists>n'. nodes s' x = Some n' \<and> same_kind n n'"
  proof (cases "x = q")
    case True
    have "\<exists>c mt. n = FileN c mt"
      using assms n True
      by (cases n) (auto simp: link_free_def is_link_def is_dir_def is_dir_node_def write_outcome_def)
    then show ?thesis using assms(1) n True by (auto simp: write_outcome_def written_def same_kind_iff)
  next
    case False
    then show ?thesis using assms(1) n by (auto simp: write_outcome_def)
  qed
qed

text \<open>Once the path exists, securePath finds it, and resolves it to where it was written.\<close>

lemma exists_physical:
  assumes "os_wf s" "nodes s q \<noteq> None" "strict_prefix x q" shows "is_dir s x"
proof -
  from assms(3) obtain c y where y: "q = x @ c # y" by (auto elim: strict_prefixE')
  then have "nodes s (x @ [c]) \<noteq> None"
    using assms(2) os_wf_missing [OF assms(1), of "x @ [c]" q] by force
  then show ?thesis using os_wf_parent [OF assms(1), of "x @ [c]"] by (cases "nodes s (x @ [c])") auto
qed

lemma walk_after_write:
  assumes w: "walk 255 s True [] ex = Ok r" and e: "extends s s'" and wf: "os_wf s'"
    and q: "nodes s' (r @ y) \<noteq> None" "\<not> is_link s' (r @ y)" and y: "plain_comps y"
  shows "walk 255 s' True [] (ex @ y) = Ok (r @ y)"
proof (rule walk_append [OF walk_extends [OF e w]])
  show "y = [] \<or> is_dir s' r"
    using exists_physical [OF wf q(1), of r] by (cases y) (auto simp: strict_prefix_def)
  show "walk k s' True r y = Ok (r @ y)" for k
    using exists_physical [OF wf q(1)] q y by (intro walk_link_free) auto
qed

lemma walk_found:
  assumes "walk n s True acc (xs @ ys) = Ok r"
  shows "walk k s False acc xs \<noteq> Err ENOENT"
  using assms
proof (induction n s True acc "xs @ ys" arbitrary: k xs rule: walk.induct)
  case (2 n s acc c cs)
  show ?case
  proof (cases xs)
    case (Cons x xs')
    then have cs: "cs = xs' @ ys" "x = c" using 2(5) by auto
    consider (skip) "c = [] \<or> c = ''.''" | (up) "c = ''..''" "c \<noteq> []" "c \<noteq> ''.''"
      | (name) "c \<noteq> []" "c \<noteq> ''.''" "c \<noteq> ''..''" by blast
    then show ?thesis
    proof cases
      case name
      obtain nd where nd: "nodes s (acc @ [c]) = Some nd"
        using 2(6) name 2(5) [symmetric] by (cases "nodes s (acc @ [c])") auto
      show ?thesis
      proof (cases nd)
        case (LinkN t)
        have w: "walk n s True acc (c # cs) = Ok r" using 2(6) 2(5) [symmetric] by simp
        then obtain j where j: "n = Suc j" using name nd LinkN by (cases n) auto
        have "walk j s True (if IsAbs t then [] else acc) (Split SLASH t @ cs) = Ok r"
          using w name nd LinkN j by simp
        then have "walk k' s False (if IsAbs t then [] else acc) (Split SLASH t @ xs') \<noteq> Err ENOENT" for k'
          using 2(4) [OF _ _ nd LinkN _ j, of "Split SLASH t @ xs'"] name cs by auto
        then show ?thesis using Cons cs name nd LinkN by (cases k) auto
      qed (use 2 name nd cs Cons in auto)
    qed (use 2 cs Cons in auto)
  qed simp
qed simp

text \<open>C7. Reading back: after a Write that returned no error, a Read of the same path that returns no
  error returns the content that was written, even where parts of the path are symbolic links.\<close>

theorem read_after_write:
  assumes wf: "os_wf s" and roots: "abs_roots m" and w: "fs_Write m rnd p c mode s = (Ok u, s')"
    and rd: "fs_Read m p s' = (Ok d, s'')"
  shows "d = c"
proof -
  obtain q s1 where sp: "securePath m p s = (Ok q, s1)" using w by (auto simp: fs_Write_def bindS_Ok)
  have out: "write_outcome q (written c mode) True s s'"
    using Write_outcome [OF wf roots sp w] by simp
  have safe: "safe_target m s q" using securePath_safe [OF sp wf roots] by blast
  have wf': "os_wf s'" using keepsD [OF ops_wf(1) w] wf by (simp add: wf_step_def)
  have file': "nodes s' q = Some (written c mode)" using out by (simp add: write_outcome_def)
  obtain q' s2 where sp': "securePath m p s' = (Ok q', s2)" and rf: "os_ReadFile q' s2 = (Ok d, s'')"
    using rd by (auto simp: fs_Read_def bindS_Ok wrapS_Ok)
  from sp roots show ?thesis
  proof (cases rule: securePath_steps)
    case (1 ex r)
    let ?y = "drop (length ex) (path_comps p)"
    have cp: "path_comps p = ex @ ?y" using 1(4) by (auto simp: prefix_def)
    have "plain_comps ?y" using 1(3) cp by (metis plain_comps_simps(3))
    then have walk': "walk 255 s' True [] (path_comps p) = Ok q"
      using walk_after_write [OF 1(5) write_extends [OF out] wf', of ?y] safe file' cp 1(9)
      by (simp add: is_link_def written_def safe_target_def)
    from sp' roots show ?thesis
    proof (cases rule: securePath_steps)
      case (1 ex' r')
      have "path_comps p = take (Suc (length ex')) (path_comps p) @ drop (Suc (length ex')) (path_comps p)"
        by simp
      then have "ex' = path_comps p" using walk_found walk' 1(7) by metis
      then have "q' = q" using 1(5,9) walk' by simp
      then show ?thesis
        using rf file' same_fs_nodes [OF 1(1)] unfolding os_ReadFile_def
        by (auto elim!: sys_cases simp: written_def)
    qed
  qed
qed

section \<open>Modes\<close>

lemma validateMode_Ok: "validateMode mode = Ok u \<Longrightarrow> Perm mode = mode \<and> mode AND 2 = 0 \<and> mode \<noteq> 0"
proof -
  assume "validateMode mode = Ok u"
  then have m: "Perm mode \<noteq> 0" "mode AND NOT 0x1FF = 0" "Perm mode AND 2 = 0"
    by (auto simp: validateMode_def split: if_splits)
  have "mode = (mode AND 0x1FF) OR (mode AND NOT 0x1FF)"
    by (metis bit.conj_disj_distrib bit.conj_one_right bit.disj_cancel_right)
  then show ?thesis using m by (simp add: Perm_def)
qed

lemma ocw_lookups:
  "keeps ocw_step (securePath m p)" "keeps ocw_step (resolvedRoots m)" "keeps ocw_step os_Sync"
  "keeps ocw_step (os_Open q)" "keeps ocw_step (os_ReadFile q)"
  by (rule keeps_mono, rule securePath_same resolvedRoots_same same_fs_reads, erule ocw_same)+

lemma ocw_Write: "keeps ocw_step (fs_Write m rnd p c mode)"
proof (rule keepsI)
  fix s
  show "ocw_step s (snd (fs_Write m rnd p c mode s))"
  proof (cases "validateMode mode")
    case (Inr u)
    then have "Perm mode AND 2 = 0" using validateMode_Ok by simp
    then have "keeps ocw_step (writeAt rnd c mode q)" for q
      unfolding writeAt_def replaceFile_def fillTemp_def syncDirectory_def
      by (intro keeps_intro ocw_order ocw_RemoveFile ocw_lookups) simp_all
    then have "keeps ocw_step (bindS (securePath m p) (writeAt rnd c mode))"
      by (intro keeps_bindS ocw_order ocw_lookups)
    then show ?thesis using Inr by (simp add: fs_Write_def bindS_def [of "liftS _"] keeps_def)
  qed (simp add: fs_Write_def bindS_def ocw_step_def)
qed

lemma ocw_others: "keeps ocw_step (fs_Delete m p)" "keeps ocw_step (fs_Rename m p p')" "keeps ocw_step (fs_Chown m p u g)"
  unfolding fs_Delete_def fs_Rename_def fs_Chown_def
  by (intro keeps_intro ocw_order ocw_lookups)+

lemma ocw_rest: "keeps ocw_step (fs_MkdirAll m p mode)" "keeps ocw_step (fs_Chmod m p mode)"
  "keeps ocw_step (fs_Copy m p p')" "keeps ocw_step (fs_Read m p)" "keeps ocw_step (fs_List ow ds m p)"
proof -
  show "keeps ocw_step (fs_MkdirAll m p mode)"
  proof (rule keepsI)
    fix s
    show "ocw_step s (snd (fs_MkdirAll m p mode s))"
    proof (cases "validateMode mode")
      case (Inr u)
      then have "keeps ocw_step (bindS (securePath m p) (\<lambda>q. wrapS (FsOS MkdirCall) (os_MkdirAll q mode)))"
        using validateMode_Ok by (intro keeps_intro ocw_order ocw_lookups) simp
      then show ?thesis using Inr by (simp add: fs_MkdirAll_def bindS_def [of "liftS _"] keeps_def)
    qed (simp add: fs_MkdirAll_def bindS_def ocw_step_def)
  qed
  have "keeps ocw_step (bindS (liftS (validateMode mode)) (\<lambda>_. wrapS (FsOS ChmodCall) (os_Chmod q (Perm mode))))" for q
  proof (cases "validateMode mode")
    case (Inr u)
    then have "Perm mode AND 2 = 0" using validateMode_Ok by simp
    then show ?thesis by (intro keeps_intro ocw_order)
  qed (simp add: keeps_def bindS_def ocw_step_def)
  then show "keeps ocw_step (fs_Chmod m p mode)"
    unfolding fs_Chmod_def by (rule keeps_bindS [OF ocw_order(2) ocw_lookups(1)])
  have "(x AND NOT 0x12) AND 2 = 0" for x :: "32 word"
    by (simp add: and.assoc)
  then show "keeps ocw_step (fs_Copy m p p')"
    unfolding fs_Copy_def copyAt_def copyInto_def by (intro keeps_intro ocw_order ocw_lookups) simp_all
  show "keeps ocw_step (fs_Read m p)" "keeps ocw_step (fs_List ow ds m p)"
    by (rule keeps_mono, rule reads_same, erule ocw_same)+
qed

lemma handle_file_ocw: "keeps ocw_step (handle_file ow ds m rnd req)"
proof (rule keepsI)
  fix s
  show "ocw_step s (snd (handle_file ow ds m rnd req s))"
    using keeps_at [OF ocw_Write] keeps_at [OF ocw_others(1)] keeps_at [OF ocw_others(2)]
      keeps_at [OF ocw_others(3)] keeps_at [OF ocw_rest(1)] keeps_at [OF ocw_rest(2)]
      keeps_at [OF ocw_rest(3)] keeps_at [OF ocw_rest(4)] keeps_at [OF ocw_rest(5)]
    by (cases req) (simp_all add: handle_file_def bindS_ret_snd)
qed

text \<open>C8. No file request makes anything writable for others: if nothing was before, nothing is
  afterwards, whatever mode was asked for and whatever system calls fail.\<close>

theorem requests_keep_others_out:
  assumes "others_cannot_write s"
  shows "others_cannot_write (snd (handle_file ow ds m rnd req s))"
  using assms keeps_at [OF handle_file_ocw] by (simp add: ocw_step_def)

section \<open>When nothing fails\<close>

lemma sys_quiet: "faults s = [] \<Longrightarrow> sys act s = act s"
  by (simp add: sys_def)

lemma comps_no_dots:
  assumes "x \<in> set (path_comps p)" "\<not> Contains p ''..''"
  shows "\<not> Contains x ''..''"
proof
  have "x \<in> set (Split SLASH p)" using assms by (simp add: path_comps_no_dots)
  then obtain a b where "p = a @ x @ b" using Split_Contains by (force simp: Contains_iff)
  moreover assume "Contains x ''..''"
  ultimately have "Contains p ''..''" using Contains_mono by simp
  then show False using assms(2) by simp
qed

lemma abs_path_no_dots:
  assumes "\<forall>x \<in> set q. \<not> Contains x ''..''"
  shows "\<not> Contains (abs_path q) ''..''"
proof -
  have "\<not> Contains (Join ''/'' q) ''..''"
    using assms
  proof (induction "''/''" q rule: Join.induct)
    case (3 x y ys)
    then have IH: "\<not> Contains (Join ''/'' (y # ys)) ''..''" "\<not> Contains x ''..''" by auto
    then have "\<not> Contains (SLASH # Join ''/'' (y # ys)) ''..''" by (simp add: HasPrefix_def)
    then show ?case using IH(2) by (simp add: Contains_append2)
  qed auto
  then show ?thesis by (simp add: abs_path_def HasPrefix_def)
qed

lemma Contains_abs_path:
  assumes "IsAbs p" "\<not> Contains p ''..''" "prefix q (path_comps p)"
  shows "\<not> Contains (abs_path q) ''..''"
proof (rule abs_path_no_dots, rule ballI)
  fix x assume "x \<in> set q"
  then have "x \<in> set (path_comps p)" using assms(3) by (auto simp: prefix_def)
  then show "\<not> Contains x ''..''" by (rule comps_no_dots [OF _ assms(2)])
qed

lemma walk_absent:
  assumes "plain_comps (p @ [c])" "\<forall>x. x \<noteq> [] \<longrightarrow> prefix x p \<longrightarrow> is_dir s (acc @ x)"
    "nodes s (acc @ p @ [c]) = None"
  shows "walk n s f acc (p @ [c]) = Err ENOENT"
  using assms
proof (induction p arbitrary: acc)
  case (Cons d p)
  have d: "d \<noteq> []" "d \<noteq> ''.''" "d \<noteq> ''..''" using Cons.prems(1) by (auto simp: plain_comp_def)
  have "is_dir s (acc @ [d])" using Cons.prems(2) by (metis list.discI prefix_Cons prefix_bot.bot_least)
  moreover have "walk n s f (acc @ [d]) (p @ [c]) = Err ENOENT"
    using Cons.prems by (intro Cons.IH) (auto dest: spec [of _ "d # _"])
  ultimately show ?case
    using d by (auto simp: is_dir_def is_dir_node_def split: option.splits node.splits)
qed (auto simp: plain_comp_def)

text \<open>A path whose parent is a directory inside a root that is a directory resolves to itself.\<close>

lemma securePath_quiet:
  assumes wf: "os_wf s" and q0: "faults s = []" and roots: "abs_roots m"
    and root: "abs_path R \<in> set (allowedRoots m)" "plain_comps R" "is_dir s R"
    and p: "IsAbs p" "\<not> Contains p ''..''" and q: "path_comps p = q" "q \<noteq> []"
    and par: "prefix R (butlast q)" "is_dir s (butlast q)" and nl: "\<not> is_link s q"
  shows "securePath m p s = (Ok q, s)"
proof -
  have pl: "plain_comps q" using p(1) q(1) path_comps_plain by blast
  have plb: "plain_comps (butlast q)" using pl q(2) by (metis append_butlast_last_id plain_comps_simps(3))
  have plq: "prefix R q" using par(1) prefixeq_butlast prefix_order.trans by blast
  have dirs: "is_dir s x" if "prefix x (butlast q)" for x
    using that par(2) exists_physical [OF wf, of "butlast q" x] is_dir_not_link [OF par(2)]
    by (cases "x = butlast q") (auto simp: strict_prefix_def)
  have self: "walk n s f [] x = Ok x" if "plain_comps x" "is_dir s x" for n f x
    using walk_link_free [of x "[]" s n f] that exists_physical [OF wf, of x] is_dir_not_link [OF that(2)]
    by simp
  have val: "validatePath m p = Ok (abs_path q)"
  proof -
    have "rel_inside (Clean (abs_path R)) (Clean p)"
      using rel_inside_iff [of "Clean (abs_path R)" "Clean p"] p(1) plq root(2) q(1)
      by (simp add: path_under_def path_comps_Clean)
    then have "list_ex (\<lambda>root. rel_inside (Clean root) (Clean p)) (allowedRoots m)"
      using root(1) by (auto simp: list_ex_iff)
    then show ?thesis
      using p q(1) by (simp add: validatePath_def validatePathWithin_def Clean_abs Let_def)
  qed
  obtain ex where ex: "nearestExisting q s = (Ok ex, s)" "prefix ex q" "ex = q \<or> ex = butlast q"
    "walk 255 s True [] ex = Ok ex"
  proof (cases "nodes s q = None")
    case True
    have qs: "butlast q @ [last q] = q" using q(2) by simp
    have "walk 40 s False [] q = Err ENOENT"
      using walk_absent [of "butlast q" "last q" s "[]"] dirs True pl qs by simp
    then have "nearestExisting q s = (Ok (butlast q), s)"
      using q(2) q0 self [OF plb par(2)]
      by (simp add: nearestExisting.simps [of q] nearestExisting.simps [of "butlast q"] os_Lstat_def sys_quiet)
    then show thesis using that self [OF plb par(2)] prefixeq_butlast by blast
  next
    case False
    then have "walk n s f [] q = Ok q" for n f
      using walk_link_free [of q "[]" s] pl nl exists_physical [OF wf False] by simp
    then show thesis using that [of q] q0 by (simp add: nearestExisting.simps os_Lstat_def sys_quiet)
  qed
  have plex: "plain_comps ex" using ex(3) pl plb by auto
  obtain rs s1 where rr: "resolvedRoots m s = (Ok rs, s1)" "list_all2 (root_of s) (allowedRoots m) rs"
    using resolveRoots_Ok [of "allowedRoots m" s] unfolding resolvedRoots_def by (metis surj_pair)
  have "s1 = s"
  proof -
    have "snd (resolveRoots xs t) = t" if "faults t = []" for xs t
      using that by (induction xs) (auto simp: EvalSymlinks_def sys_quiet bindS_ret_snd)
    then show ?thesis using rr(1) q0 by (metis resolvedRoots_def snd_conv)
  qed
  from rr(2) root(1) obtain str where str: "str \<in> set rs" "root_of s (abs_path R) str"
    by (metis in_set_conv_nth list_all2_conv_all_nth)
  have "walk 255 s True [] (Split SLASH (abs_path R)) = Ok R"
    using self [OF root(2,3), of 255 True] Split_Join [of R SLASH] plain_comps_no_slash [OF root(2)]
    by (cases "R = []") (auto simp: abs_path_def)
  then have "str = abs_path R" using str(2) root(2) by (auto simp: root_of_def Clean_abs_path)
  moreover have "rel_inside (abs_path R) (abs_path ex)"
    using rel_inside_iff [of "abs_path R" "abs_path ex"] root(2) plex par(1) plq ex(3)
    by (auto simp: path_under_def)
  moreover have nd: "\<not> Contains (abs_path ex) ''..''"
    using Contains_abs_path [OF p] ex(2) q(1) by simp
  ultimately have val2: "validatePathWithin (abs_path ex) rs = Ok (abs_path ex)"
    using str(1) root(2) plex
    by (auto simp: validatePathWithin_def list_ex_iff Clean_abs_path Let_def intro!: bexI [of _ "abs_path R"])
  have "\<not> HasPrefix (Join ''/'' (drop (length ex) q)) ''..''" if "ex \<noteq> q"
  proof -
    have "drop (length ex) q = [last q]" using that ex(3) q(2)
      by (metis append_butlast_last_id append_eq_conv_conj)
    moreover have "\<not> Contains (last q) ''..''" using comps_no_dots [OF _ p(2)] q by simp
    ultimately show ?thesis by (auto simp: HasPrefix_iff Contains_iff) (metis append_Nil)
  qed
  then have "joinSuffix ex ex q = Ok q"
    using joinSuffix_eq [OF ex(2) pl plex] ex(2) by (auto simp: prefix_def)
  then show ?thesis
    using val ex rr(1) val2 \<open>s1 = s\<close> q(1) pl p(1) q0
    by (simp add: securePath_def bindS_def wrapS_def EvalSymlinks_def sys_quiet Let_def)
qed

lemma quiet_faults [simp]:
  "faults (set_node p n s) = faults s" "faults (drop_nodes P s) = faults s" "faults (move_nodes p q s) = faults s"
  by (simp_all add: set_node_def drop_nodes_def move_nodes_def)

lemma mkdirs_existing: "\<forall>x. prefix x p \<longrightarrow> is_dir s (acc @ x) \<Longrightarrow> mkdirs mode acc p s = (Ok (), s)"
proof (induction p arbitrary: acc)
  case (Cons c p)
  have "is_dir s (acc @ [c])" using Cons.prems by (metis prefix_Cons prefix_bot.bot_least)
  moreover have "mkdirs mode (acc @ [c]) p s = (Ok (), s)"
    using Cons.prems by (intro Cons.IH) (auto dest: spec [of _ "c # _"])
  ultimately show ?case by (auto simp: is_dir_def split: option.splits)
qed simp

text \<open>Write to a path in a directory that exists, with no file of the temporary name.\<close>

lemma writeAt_quiet:
  assumes wf: "os_wf s" and q0: "faults s = []" and pl: "plain_comps q" "q \<noteq> []"
    and par: "is_dir s (butlast q)" and nd: "\<not> is_dir s q"
    and fresh: "nodes s (butlast q @ [''.'' @ last q @ ''.tmp-'' @ rnd]) = None"
  shows "\<exists>s'. writeAt rnd c mode q s = (Ok (), s') \<and> faults s' = [] \<and> nodes s' = (nodes s)(q \<mapsto> written c mode)"
proof -
  define pre where "pre = ''.'' @ last q @ ''.tmp-''"
  define tmp where "tmp = butlast q @ [pre @ rnd]"
  have base: "''.'' @ Base (abs_path q) @ ''.tmp-'' = pre" using Base_abs_path [OF pl(1)] pl(2) by (simp add: pre_def)
  have slash: "SLASH \<notin> set pre"
    using pl last_in_set [of q] by (auto simp: pre_def plain_comps_def plain_comp_def)
  have dirs: "is_dir s x" if "prefix x (butlast q)" for x
    using that par exists_physical [OF wf, of "butlast q" x] is_dir_not_link [OF par]
    by (cases "x = butlast q") (auto simp: strict_prefix_def)
  have mk: "os_MkdirAll (butlast q) 0x1ED s = (Ok (), s)"
    unfolding os_MkdirAll_def by (rule mkdirs_existing) (use dirs in simp)
  have qs: "q = butlast q @ [last q]" using pl(2) by simp
  have ne: "tmp \<noteq> q"
    unfolding tmp_def pre_def by (subst qs) (auto dest: arg_cong [of _ _ length])
  have len: "length tmp = length q" using pl(2) by (simp add: tmp_def)
  have np: "\<not> prefix tmp q" "\<not> prefix q tmp" using ne len by (auto simp: prefix_def)
  define s1 where "s1 = set_node tmp (FileN [] (newMeta 0x180 s)) s"
  define s2 where "s2 = set_node tmp (FileN [] ((newMeta 0x180 s)\<lparr>perm := Perm mode\<rparr>)) s1"
  define s3 where "s3 = set_node tmp (FileN c ((newMeta 0x180 s)\<lparr>perm := Perm mode\<rparr>)) s2"
  define s4 where "s4 = move_nodes tmp q s3"
  have f: "faults s1 = []" "faults s2 = []" "faults s3 = []" "faults s4 = []"
    using q0 by (simp_all add: s1_def s2_def s3_def s4_def)
  have w: "FileN c ((newMeta 0x180 s)\<lparr>perm := Perm mode\<rparr>) = written c mode"
    by (simp add: written_def newMeta_def)
  have n3: "nodes s3 = (nodes s)(tmp \<mapsto> written c mode)" by (simp add: s1_def s2_def s3_def w)
  have wf3: "os_wf s3"
    unfolding s3_def s2_def s1_def
    by (rule os_wf_set_same [of _ _ "FileN [] ((newMeta 0x180 s)\<lparr>perm := Perm mode\<rparr>)"],
        rule os_wf_set_same [of _ _ "FileN [] (newMeta 0x180 s)"], rule os_wf_set_new)
      (use wf par fresh in \<open>auto simp: tmp_def pre_def is_dir_def is_dir_node_def\<close>)
  have create: "os_CreateTemp (butlast q) pre rnd s = (Ok tmp, s1)"
    using q0 slash par fresh by (simp add: os_CreateTemp_def sys_quiet Let_def s1_def tmp_def pre_def)
  have fill: "fillTemp tmp c mode s1 = (Ok (), s3)"
    using f by (simp add: fillTemp_def bindS_def wrapS_def os_Chmod_def os_WriteData_def os_Sync_def
        sys_quiet s1_def s2_def s3_def)
  have nb: "tmp \<noteq> butlast q" by (simp add: tmp_def)
  have d3: "is_dir s3 (butlast q)" "\<not> is_dir s3 q" "\<not> is_dir s3 tmp"
    using par nd n3 ne nb by (auto simp: is_dir_def is_dir_node_def written_def)
  have ren: "os_Rename tmp q s3 = (Ok (), s4)"
    using f(3) np ne d3 n3 by (simp add: os_Rename_def sys_quiet s4_def)
  have o4: "nodes s4 q = Some (written c mode)" "only (\<lambda>x. x = tmp \<or> x = q) s3 s4"
    using Rename_over_file [OF wf3 _ ne ren, of c] n3 by (simp_all add: written_def)
  have t4: "nodes s4 tmp = None" using np n3 by (simp add: s4_def nodes_move_nodes)
  have fresh': "nodes s tmp = None" using fresh by (simp add: tmp_def pre_def)
  have "nodes s4 x = ((nodes s)(q \<mapsto> written c mode)) x" for x
  proof (cases "x = tmp \<or> x = q")
    case False
    then have "nodes s4 x = nodes s3 x" using o4(2) unfolding only_def by blast
    then show ?thesis using False n3 by simp
  qed (use o4(1) t4 fresh' ne in auto)
  then have n4: "nodes s4 = (nodes s)(q \<mapsto> written c mode)" by blast
  have "os_RemoveFile tmp s4 = s4" using t4 f(4) by (simp add: os_RemoveFile_def os_Remove_def sys_quiet)
  moreover have "syncDirectory (butlast q) s4 = (Ok (), s4)"
    using par n4 f(4) nd by (auto simp: syncDirectory_def bindS_def os_Open_def os_Sync_def sys_quiet is_dir_def
        split: option.splits)
  ultimately have "writeAt rnd c mode q s = (Ok (), s4)"
    using mk create fill ren unfolding writeAt_def base
    by (simp add: bindS_def wrapS_def deferS_def replaceFile_def)
  then show ?thesis using n4 f(4) by blast
qed

section \<open>The file manager as a file store\<close>

text \<open>
  The managed files are those with a managed name directly inside one of a list of directories that
  are allowed roots. The invariant: nothing fails, the directories exist, no root is reached
  through a link, and under the managed names there is nothing but files.
\<close>

definition store_dom :: "path list \<Rightarrow> (string \<Rightarrow> bool) \<Rightarrow> string \<Rightarrow> bool" where
  "store_dom dirs nm p =
     (let q = path_comps p
      in p = abs_path q \<and> \<not> Contains p ''..'' \<and> q \<noteq> [] \<and> butlast q \<in> set dirs \<and> nm (last q))"

definition store_inv :: "Manager \<Rightarrow> path list \<Rightarrow> (string \<Rightarrow> bool) \<Rightarrow> string \<Rightarrow> os \<Rightarrow> bool" where
  "store_inv m dirs nm rnd s =
     (abs_roots m \<and> os_wf s \<and> faults s = [] \<and>
      (\<forall>root \<in> set (allowedRoots m). root = abs_path (path_comps root) \<and> link_free s (path_comps root)) \<and>
      (\<forall>R \<in> set dirs. plain_comps R \<and> abs_path R \<in> set (allowedRoots m) \<and> is_dir s R \<and>
        (\<forall>x. nm x \<longrightarrow> \<not> is_link s (R @ [x]) \<and> \<not> is_dir s (R @ [x]) \<and>
           nodes s (R @ [''.'' @ x @ ''.tmp-'' @ rnd]) = None \<and> \<not> nm (''.'' @ x @ ''.tmp-'' @ rnd) \<and>
           (\<forall>root \<in> set (allowedRoots m). path_comps root \<noteq> R @ [x]))))"

definition file_content :: "os \<Rightarrow> string \<Rightarrow> string option" where
  "file_content s p = (case nodes s (path_comps p) of Some (FileN c _) \<Rightarrow> Some c | _ \<Rightarrow> None)"

lemma store_dom_abs_path:
  assumes "plain_comps (R @ [x])" "R \<in> set dirs" "nm x" "\<forall>y \<in> set (R @ [x]). \<not> Contains y ''..''"
  shows "store_dom dirs nm (abs_path (R @ [x]))"
  using assms abs_path_no_dots [OF assms(4)] by (simp add: store_dom_def Let_def)

lemma store_dom_target:
  assumes inv: "store_inv m dirs nm rnd s" and dom: "store_dom dirs nm p"
  obtains R x where "path_comps p = R @ [x]" "R \<in> set dirs" "nm x" "is_dir s R" "plain_comps (R @ [x])"
    "\<not> is_link s (R @ [x])" "\<not> is_dir s (R @ [x])" "securePath m p s = (Ok (R @ [x]), s)"
proof -
  define q where "q = path_comps p"
  have q: "q \<noteq> []" "butlast q \<in> set dirs" "nm (last q)" "IsAbs p" "\<not> Contains p ''..''"
    using dom IsAbs_abs_path [of q] by (auto simp: store_dom_def Let_def q_def)
  define R x where "R = butlast q" and "x = last q"
  have qs: "q = R @ [x]" using q(1) by (simp add: R_def x_def)
  have props: "plain_comps R" "abs_path R \<in> set (allowedRoots m)" "is_dir s R" "\<not> is_link s (R @ [x])"
    "\<not> is_dir s (R @ [x])" "os_wf s" "faults s = []" "abs_roots m"
    using inv q(2,3) [folded R_def x_def] unfolding store_inv_def by blast+
  have "securePath m p s = (Ok q, s)"
    by (rule securePath_quiet [of s m R p]) (use props q qs in \<open>auto simp: q_def\<close>)
  moreover have "plain_comps q" using path_comps_plain [OF q(4)] by (simp add: q_def)
  ultimately show thesis using that [of R x] props q qs by (simp add: q_def R_def x_def)
qed

lemma store_inv_update:
  assumes inv: "store_inv m dirs nm rnd s" and R: "R \<in> set dirs" "nm x"
    and s': "os_wf s'" "faults s' = []"
    and n: "nodes s' = (nodes s)(R @ [x] := v)" "\<And>c. v = Some c \<Longrightarrow> \<exists>d mt. c = FileN d mt"
  shows "store_inv m dirs nm rnd s'"
proof -
  have link: "is_link s' y \<Longrightarrow> is_link s y" for y
    using n by (cases v) (auto simp: is_link_def split: if_splits option.splits node.splits)
  have dir: "is_dir s' y \<Longrightarrow> is_dir s y" for y
    using n by (cases v) (auto simp: is_dir_def is_dir_node_def split: if_splits option.splits node.splits)
  have notx: "\<not> is_dir s (R @ [x])" using inv R by (simp add: store_inv_def)
  have keep: "is_dir s' y" if "is_dir s y" for y
    using that notx n(1) by (cases "y = R @ [x]") (auto simp: is_dir_def)
  have "nodes s' (R' @ [''.'' @ y @ ''.tmp-'' @ rnd]) = None" if "R' \<in> set dirs" "nm y" for R' y
    using that inv R n(1) by (auto simp: store_inv_def)
  then show ?thesis
    using inv s' link dir keep unfolding store_inv_def link_free_def by blast
qed

lemma walk_no_links:
  assumes "plain_comps p" "\<forall>x. prefix x p \<longrightarrow> \<not> is_link s (acc @ x)" "walk n s f acc p = Ok r"
  shows "r = acc @ p"
  using assms
proof (induction p arbitrary: acc)
  case (Cons c p)
  have c: "c \<noteq> []" "c \<noteq> ''.''" "c \<noteq> ''..''" using Cons.prems(1) by (auto simp: plain_comp_def)
  have nl: "\<not> is_link s (acc @ [c])" using Cons.prems(2) by (metis prefix_Cons prefix_bot.bot_least)
  obtain nd where nd: "nodes s (acc @ [c]) = Some nd"
    using Cons.prems(3) c by (cases "nodes s (acc @ [c])") auto
  show ?case
  proof (cases nd)
    case (DirN mt)
    have "\<forall>x. prefix x p \<longrightarrow> \<not> is_link s ((acc @ [c]) @ x)"
      using Cons.prems(2) by (auto dest: spec [of _ "c # _"])
    then show ?thesis using Cons.IH [of "acc @ [c]"] Cons.prems c nd DirN by simp
  qed (use Cons.prems(3) c nd nl in \<open>auto simp: is_link_def split: if_splits\<close>)
qed simp

lemma Delete_quiet:
  assumes inv: "store_inv m dirs nm rnd s" and dom: "store_dom dirs nm p" and q: "path_comps p = R @ [x]"
    and R: "R \<in> set dirs" "nm x" and sp: "securePath m p s = (Ok (R @ [x]), s)" and pl: "plain_comps (R @ [x])"
  shows "fs_Delete m p s = (Ok (), drop_nodes (prefix (R @ [x])) s)"
proof -
  have q0: "faults s = []" using inv by (simp add: store_inv_def)
  obtain rs s1 where rr: "resolvedRoots m s = (Ok rs, s1)" "list_all2 (root_of s) (allowedRoots m) rs"
    using resolveRoots_Ok [of "allowedRoots m" s] unfolding resolvedRoots_def by (metis surj_pair)
  have s1: "s1 = s"
  proof -
    have "snd (resolveRoots xs t) = t" if "faults t = []" for xs t
      using that by (induction xs) (auto simp: EvalSymlinks_def sys_quiet bindS_ret_snd)
    then show ?thesis using rr(1) q0 by (metis resolvedRoots_def snd_conv)
  qed
  have "abs_path (R @ [x]) \<noteq> str" if "str \<in> set rs" for str
  proof -
    from rr(2) that obtain root where root: "root \<in> set (allowedRoots m)" "root_of s root str"
      by (metis in_set_conv_nth list_all2_conv_all_nth)
    define y where "y = path_comps root"
    have y: "root = abs_path y" "link_free s y" "y \<noteq> R @ [x]" "plain_comps y"
      using inv root(1) R path_comps_plain [of root] IsAbs_abs_path [of y]
      unfolding store_inv_def y_def by metis+
    have "r = y" if "walk 255 s True [] (Split SLASH root) = Ok r" for r
      using that y Split_Join [of y SLASH] plain_comps_no_slash [OF y(4)] walk_no_links [of y s "[]" 255 True r]
      by (cases "y = []") (auto simp: abs_path_def link_free_def)
    then have "str = abs_path y" using root(2) y by (auto simp: root_of_def Clean_abs_path)
    then show ?thesis using y pl by (simp add: abs_path_inject)
  qed
  then show ?thesis
    using sp rr(1) s1 q0
    by (auto simp: fs_Delete_def bindS_def guardS_def wrapS_def os_RemoveAll_def sys_quiet list_ex_iff)
qed

lemma agent_file_store:
  assumes mode: "validateMode mode = Ok ()"
  shows "file_store (fs_Read m) (\<lambda>p c. fs_Write m rnd p c mode) (fs_Delete m) (store_dom dirs nm) (store_inv m dirs nm rnd) file_content"
proof unfold_locales
  fix s p c
  assume inv: "store_inv m dirs nm rnd s" and dom: "store_dom dirs nm p"
  have quiet: "os_wf s" "faults s = []" using inv by (auto simp: store_inv_def)
  from inv dom obtain R x where t: "path_comps p = R @ [x]" "R \<in> set dirs" "nm x" "is_dir s R"
    "plain_comps (R @ [x])" "\<not> is_link s (R @ [x])" "\<not> is_dir s (R @ [x])"
    "securePath m p s = (Ok (R @ [x]), s)" by (rule store_dom_target)
  have other: "path_comps p' \<noteq> R @ [x]" if "store_dom dirs nm p'" "p' \<noteq> p" for p'
    using that dom t(1) by (metis store_dom_def)
  have node: "nodes s (R @ [x]) = None \<or> (\<exists>d mt. nodes s (R @ [x]) = Some (FileN d mt))"
    using t(6,7) by (auto simp: is_link_def is_dir_def is_dir_node_def split: option.splits node.splits)
  show "file_content s p = Some c \<Longrightarrow> fs_Read m p s = (Ok c, s)"
    using t quiet by (auto simp: fs_Read_def bindS_def wrapS_def os_ReadFile_def sys_quiet file_content_def
        split: option.splits node.splits)
  show "file_content s p = None \<Longrightarrow> \<exists>e. fs_Read m p s = (Err e, s)"
    using t node quiet by (auto simp: fs_Read_def bindS_def wrapS_def os_ReadFile_def sys_quiet file_content_def)
  show "\<exists>s'. fs_Write m rnd p c mode s = (Ok (), s') \<and> store_inv m dirs nm rnd s' \<and> file_content s' p = Some c \<and>
      (\<forall>p'. store_dom dirs nm p' \<longrightarrow> p' \<noteq> p \<longrightarrow> file_content s' p' = file_content s p')"
  proof -
    have "nodes s (R @ [''.'' @ x @ ''.tmp-'' @ rnd]) = None" using inv t unfolding store_inv_def by blast
    then obtain s' where s': "writeAt rnd c mode (R @ [x]) s = (Ok (), s')" "faults s' = []"
        "nodes s' = (nodes s)(R @ [x] \<mapsto> written c mode)"
      using writeAt_quiet [of s "R @ [x]" rnd c mode] quiet t by auto
    have w: "fs_Write m rnd p c mode s = (Ok (), s')"
      using s'(1) t mode by (simp add: fs_Write_def bindS_def)
    have "os_wf s'" using keepsD [OF ops_wf(1) w] quiet by (simp add: wf_step_def)
    then have "store_inv m dirs nm rnd s'"
      by (rule store_inv_update [OF inv t(2,3) _ s'(2,3)]) (simp add: written_def)
    then show ?thesis using w s' t other by (auto simp: file_content_def written_def)
  qed
  show "\<exists>s'. fs_Delete m p s = (Ok (), s') \<and> store_inv m dirs nm rnd s' \<and> file_content s' p = None \<and>
      (\<forall>p'. store_dom dirs nm p' \<longrightarrow> p' \<noteq> p \<longrightarrow> file_content s' p' = file_content s p')"
  proof -
    define s' where "s' = drop_nodes (prefix (R @ [x])) s"
    have d: "fs_Delete m p s = (Ok (), s')" using Delete_quiet [OF inv dom t(1-3) t(8,5)] by (simp add: s'_def)
    have "nodes s y = None" if "strict_prefix (R @ [x]) y" for y
      using exists_physical [OF quiet(1) _ that] t(7) by blast
    then have n: "nodes s' = (nodes s)(R @ [x] := None)"
      by (auto simp: s'_def fun_eq_iff strict_prefix_def)
    have "os_wf s'" "faults s' = []" using os_wf_drop_tree [OF quiet(1)] quiet(2) by (auto simp: s'_def)
    then have "store_inv m dirs nm rnd s'" using store_inv_update [OF inv t(2,3) _ _ n] by simp
    then show ?thesis using d n t other by (auto simp: file_content_def)
  qed
qed

interpretation managed: file_store "fs_Read m" "\<lambda>p c. fs_Write m rnd p c 0x1A4" "fs_Delete m"
    "store_dom dirs nm" "store_inv m dirs nm rnd" file_content
  for m rnd dirs nm
  by (rule agent_file_store) (simp add: validateMode_def Perm_def)

section \<open>Examples\<close>

definition sampleDir :: node where
  "sampleDir = DirN \<lparr>perm = 0x1ED, uid = 0, gid = 0\<rparr>"

definition sampleManager :: Manager where
  "sampleManager = \<lparr>allowedRoots = [''/srv'']\<rparr>"

text \<open>A tree with a link inside the root, a link out of it and a file.\<close>

definition sampleOS :: os where
  "sampleOS = \<lparr>tree = [([], sampleDir), ([''srv''], sampleDir), ([''srv'', ''app''], sampleDir),
     ([''srv'', ''cur''], LinkN ''app''), ([''srv'', ''out''], LinkN ''/etc''), ([''etc''], sampleDir),
     ([''srv'', ''app'', ''f''], FileN ''old'' \<lparr>perm = 0x1A4, uid = 0, gid = 0\<rparr>)],
     umask = 0x12, faults = [], partial = 0\<rparr>"

lemma sampleOS_wf: "os_wf sampleOS"
  by (rule os_wf_check) (simp_all add: sampleOS_def sampleDir_def is_dir_def nodes_def is_dir_node_def)

lemma sample_roots: "abs_roots sampleManager"
  by (simp add: abs_roots_def sampleManager_def)

lemma sample_securePath:
  "securePath sampleManager ''/srv/cur/f'' sampleOS = (Ok [''srv'', ''app'', ''f''], sampleOS)"
  "fst (securePath sampleManager ''/srv/out/f'' sampleOS) = Err SymlinkEscape"
  by code_simp+

definition sampleWrite :: "(fs_error, unit) result \<times> os" where
  "sampleWrite = fs_Write sampleManager ''1'' ''/srv/cur/f'' ''new'' 0x1A4 sampleOS"

lemma sample_write:
  "fst sampleWrite = Ok ()" "fst (fs_Read sampleManager ''/srv/cur/f'' (snd sampleWrite)) = Ok ''new''"
  by code_simp+

theorem securePath_confined_witness:
  "in_roots sampleManager sampleOS [''srv'', ''app'', ''f''] \<and> link_free sampleOS [''srv'', ''app'', ''f''] \<and>
   walk 3 sampleOS True [] [''srv'', ''app'', ''f''] = Ok [''srv'', ''app'', ''f'']"
proof -
  have "nodes sampleOS [''srv'', ''app'', ''f''] \<noteq> None" by code_simp
  then show ?thesis
    using securePath_confined [OF sample_securePath(1) sampleOS_wf sample_roots, of 3 True] by blast
qed

theorem file_requests_confined_witness:
  "only (may_change sampleManager sampleOS) sampleOS
     (snd (handle_file (\<lambda>_ _. ([], [])) 4096 sampleManager ''1'' (FileDelete ''/srv/app'') sampleOS)) \<and>
   os_wf (snd (handle_file (\<lambda>_ _. ([], [])) 4096 sampleManager ''1'' (FileDelete ''/srv/app'') sampleOS)) \<and>
   nodes (snd (handle_file (\<lambda>_ _. ([], [])) 4096 sampleManager ''1'' (FileDelete ''/srv/app'') sampleOS))
     [''srv'', ''app'', ''f''] = None"
proof -
  have "nodes (snd (handle_file (\<lambda>_ _. ([], [])) 4096 sampleManager ''1'' (FileDelete ''/srv/app'') sampleOS))
     [''srv'', ''app'', ''f''] = None" by code_simp
  then show ?thesis using file_requests_confined [OF sampleOS_wf sample_roots] by blast
qed

theorem Write_atomic_witness:
  "write_outcome [''srv'', ''app'', ''f''] (written ''new'' 0x1A4) True sampleOS (snd sampleWrite)"
proof -
  have "fs_Write sampleManager ''1'' ''/srv/cur/f'' ''new'' 0x1A4 sampleOS = (Ok (), snd sampleWrite)"
    using sample_write(1) by (simp add: sampleWrite_def prod_eq_iff)
  from Write_atomic [OF sampleOS_wf sample_roots sample_securePath(1) this] show ?thesis by simp
qed

theorem read_after_write_witness:
  "\<exists>d. fst (fs_Read sampleManager ''/srv/cur/f'' (snd sampleWrite)) = Ok d \<and> d = ''new''"
proof -
  have w: "fs_Write sampleManager ''1'' ''/srv/cur/f'' ''new'' 0x1A4 sampleOS = (Ok (), snd sampleWrite)"
    using sample_write(1) by (simp add: sampleWrite_def prod_eq_iff)
  obtain d s2 where r: "fs_Read sampleManager ''/srv/cur/f'' (snd sampleWrite) = (Ok d, s2)"
    using sample_write(2) by (metis prod.collapse)
  have "d = ''new''" by (rule read_after_write [OF sampleOS_wf sample_roots w r])
  then show ?thesis using r by simp
qed

theorem requests_keep_others_out_witness:
  "others_cannot_write (snd (handle_file (\<lambda>_ _. ([], [])) 4096 sampleManager ''1''
     (FileChmod ''/srv/app/f'' 0x1FF) sampleOS))"
  by (rule requests_keep_others_out, rule ocw_check)
    (simp add: sampleOS_def sampleDir_def node_perm_def)

end
