(* ===== verification/Go_Links.thy ===== *)
theory Go_Links
  imports Go_Replace
begin

text \<open>
  System calls on paths that may run through symbolic links, for the code that opens paths as they are
  configured (archives, backups), and what a file system holds at a path. On a path without links
  the calls act on the path itself.
\<close>

section \<open>Calls that follow links\<close>

text \<open>As \<open>walk\<close>, but the last component may be missing: where a creating open ends up.\<close>

fun walkNew :: "nat \<Rightarrow> os \<Rightarrow> path \<Rightarrow> string list \<Rightarrow> (os_error, path) result" where
  "walkNew n s acc [] = Ok acc"
| "walkNew n s acc (c # cs) =
     (if c = [] \<or> c = ''.'' then walkNew n s acc cs
      else if c = ''..'' then walkNew n s (butlast acc) cs
      else (case nodes s (acc @ [c]) of
              None \<Rightarrow> if cs = [] then Ok (acc @ [c]) else Err ENOENT
            | Some (FileN _ _) \<Rightarrow> if cs = [] then Ok (acc @ [c]) else Err ENOTDIR
            | Some (DirN _) \<Rightarrow> walkNew n s (acc @ [c]) cs
            | Some (LinkN t) \<Rightarrow>
                (case n of 0 \<Rightarrow> Err ELOOP
                 | Suc k \<Rightarrow> walkNew k s (if IsAbs t then [] else acc) (Split SLASH t @ cs))))"

definition OpenTruncFollow :: "path \<Rightarrow> 32 word \<Rightarrow> path io" where
  "OpenTruncFollow p mode s =
     (case walkNew 40 s [] p of
        Inl e \<Rightarrow> (Err e, s)
      | Inr r \<Rightarrow> bindS (os_OpenTrunc r mode) (\<lambda>_. retS r) s)"

fun mkdirsFollow :: "32 word \<Rightarrow> path \<Rightarrow> path \<Rightarrow> unit io" where
  "mkdirsFollow mode acc [] s = (Ok (), s)"
| "mkdirsFollow mode acc (c # cs) s =
     (case nodes s (acc @ [c]) of
        None \<Rightarrow> bindS (sys (\<lambda>s. (Ok (), set_node (acc @ [c]) (DirN (newMeta mode s)) s)))
                  (\<lambda>_. mkdirsFollow mode (acc @ [c]) cs) s
      | Some (LinkN t) \<Rightarrow>
          (case walk 40 s True acc [c] of
             Inl e \<Rightarrow> (Err e, s)
           | Inr r \<Rightarrow> if is_dir s r then mkdirsFollow mode r cs s else (Err ENOTDIR, s))
      | Some (DirN _) \<Rightarrow> mkdirsFollow mode (acc @ [c]) cs s
      | Some (FileN _ _) \<Rightarrow> (Err ENOTDIR, s))"

definition MkdirAllFollow :: "path \<Rightarrow> 32 word \<Rightarrow> unit io" where
  "MkdirAllFollow p mode = mkdirsFollow mode [] p"

text \<open>\<open>follow\<close> resolves a path completely (\<open>open\<close>, \<open>stat\<close>), \<open>inDir\<close> all but its last component (\<open>lstat\<close>, \<open>rename\<close>,
  \<open>unlink\<close>, \<open>mkdir\<close>).\<close>

definition follow :: "path \<Rightarrow> (path \<Rightarrow> 'a io) \<Rightarrow> 'a io" where
  "follow p f s = (case walk 40 s True [] p of Inl e \<Rightarrow> (Err e, s) | Inr q \<Rightarrow> f q s)"

definition inDir :: "path \<Rightarrow> (path \<Rightarrow> 'a io) \<Rightarrow> 'a io" where
  "inDir p f s =
     (if p = [] then f [] s
      else case walk 40 s True [] (butlast p) of Inl e \<Rightarrow> (Err e, s)
           | Inr d \<Rightarrow> if is_dir s d then f (d @ [last p]) s else (Err ENOTDIR, s))"

text \<open>\<open>os.Lstat\<close> and \<open>os.Stat\<close> with what they find, and reading a whole file through its name.\<close>

definition lstatNode :: "path \<Rightarrow> node io" where
  "lstatNode p = inDir p os_Open"

definition statNode :: "path \<Rightarrow> node io" where
  "statNode p = follow p os_Open"

definition readContent :: "path \<Rightarrow> string io" where
  "readContent p = bindS (follow p os_Open) (\<lambda>n. bindS os_Sync (\<lambda>_. case n of FileN c _ \<Rightarrow> retS c | _ \<Rightarrow> failS EISDIR))"

lemma is_link_iff: "is_link s p \<longleftrightarrow> (\<exists>t. nodes s p = Some (LinkN t))"
  by (auto simp: is_link_def split: option.splits node.splits)

lemma mkdirsFollow_eq:
  "\<forall>q. prefix q cs \<longrightarrow> \<not> is_link s (acc @ q) \<Longrightarrow> mkdirsFollow mode acc cs s = mkdirs mode acc cs s"
proof (induction cs arbitrary: acc s)
  case (Cons c cs)
  have here: "\<not> is_link s (acc @ [c])" using Cons.prems by auto
  have next_step: "mkdirsFollow mode (acc @ [c]) cs s' = mkdirs mode (acc @ [c]) cs s'"
    if "\<And>x. is_link s' x \<Longrightarrow> is_link s x" for s'
  proof (rule Cons.IH)
    show "\<forall>q. prefix q cs \<longrightarrow> \<not> is_link s' ((acc @ [c]) @ q)"
      using Cons.prems that by (metis Cons_prefix_Cons append.assoc append_Cons append_Nil)
  qed
  obtain r s1 where m: "sys (\<lambda>s. (Ok (), set_node (acc @ [c]) (DirN (newMeta mode s)) s)) s = (r, s1)"
    (is "?m = _") by (cases ?m)
  have "is_link s1 x \<Longrightarrow> is_link s x" for x
    using m by (auto elim!: sys_cases simp: is_link_def split: if_splits)
  then show ?case
    using here next_step [of s] next_step [of s1]
    by (cases r) (auto simp: bindS_def m is_dir_node_def is_link_def split: option.split node.split)
qed simp

lemma walkNew_plain:
  assumes "plain_comps cs" "\<forall>q. prefix q cs \<longrightarrow> \<not> is_link s (acc @ q)" "walkNew n s acc cs = Ok r"
  shows "r = acc @ cs"
  using assms
proof (induction cs arbitrary: acc)
  case (Cons c cs)
  have c: "c \<noteq> []" "c \<noteq> ''.''" "c \<noteq> ''..''" using Cons.prems(1) by (auto simp: plain_comp_def)
  have here: "\<not> is_link s (acc @ [c])" using Cons.prems(2) by auto
  have rest: "\<forall>q. prefix q cs \<longrightarrow> \<not> is_link s ((acc @ [c]) @ q)"
    using Cons.prems(2) by (metis Cons_prefix_Cons append.assoc append_Cons append_Nil)
  show ?case
    using Cons.IH [of "acc @ [c]"] Cons.prems(1,3) rest c here
    by (auto simp: is_link_iff split: option.splits node.splits if_splits)
qed simp

section \<open>Contents\<close>

text \<open>\<open>os.Stat\<close> of a path without symbolic links.\<close>

definition os_Stat :: "path \<Rightarrow> node io" where
  "os_Stat p = os_Open p"

text \<open>\<open>io.Copy\<close> from an opened file; reading a directory fails.\<close>

definition copyNode :: "node \<Rightarrow> path \<Rightarrow> unit io" where
  "copyNode n p = (case n of FileN c _ \<Rightarrow> os_WriteData p c | _ \<Rightarrow> failS EISDIR)"

definition content_at :: "os \<Rightarrow> path \<Rightarrow> string option" where
  "content_at s p = (case nodes s p of Some (FileN c _) \<Rightarrow> Some c | _ \<Rightarrow> None)"

text \<open>Everything that existed is as it was.\<close>

abbreviation files_grow :: "os \<Rightarrow> os \<Rightarrow> bool" where
  "files_grow \<equiv> outside_kept (\<lambda>_. False)"

lemma content_at_exists: "content_at s p = Some c \<Longrightarrow> nodes s p \<noteq> None"
  by (auto simp: content_at_def split: option.splits)

lemma outside_content: "outside_kept D s s' \<Longrightarrow> content_at s p = Some c \<Longrightarrow> \<not> D p \<Longrightarrow> content_at s' p = Some c"
  using content_at_exists [of s p c] by (auto simp: outside_kept_def content_at_def)

lemma content_same: "nodes s' = nodes s \<Longrightarrow> content_at s' = content_at s"
  by (simp add: content_at_def fun_eq_iff)

lemma ReadFile_Ok: "os_ReadFile p s = (Ok c, s') \<Longrightarrow> content_at s p = Some c \<and> nodes s' = nodes s"
  unfolding os_ReadFile_def
  by (auto elim!: sys_cases simp: content_at_def split: option.splits node.splits)

lemma Open_Ok: "os_Open p s = (Ok n, s') \<Longrightarrow> nodes s p = Some n \<and> nodes s' = nodes s"
  unfolding os_Open_def by (auto elim!: sys_cases split: option.splits)

lemma OpenExcl_result:
  assumes "os_OpenExcl p mode s = (r, s')"
  shows "(\<exists>e. r = Err e) \<and> nodes s' = nodes s \<or> r = Ok () \<and> nodes s p = None \<and> (\<exists>m. nodes s' = (nodes s)(p \<mapsto> FileN [] m))"
  using assms unfolding os_OpenExcl_def by (auto elim!: sys_cases split: if_splits) blast+

lemma Sync_nodes: "os_Sync s = (r, s') \<Longrightarrow> nodes s' = nodes s"
  unfolding os_Sync_def by (auto elim!: sys_cases)

lemma grows_reads [keeps_intro]: "keeps files_grow (os_ReadFile p)" "keeps files_grow (os_Open p)" "keeps files_grow os_Sync"
  by (rule keeps_outside, intro keeps_intro)+

lemma Mkdir_result:
  assumes "os_Mkdir p mode s = (r, s')"
  shows "(\<exists>e. r = Err e) \<and> nodes s' = nodes s \<or> r = Ok () \<and> nodes s p = None \<and> (\<exists>m. nodes s' = (nodes s)(p \<mapsto> DirN m))"
  using assms unfolding os_Mkdir_def by (auto elim!: sys_cases split: if_splits) blast+

lemma grows_Mkdir [keeps_intro]: "keeps files_grow (os_Mkdir p mode)"
proof (rule keepsI)
  fix s
  show "files_grow s (snd (os_Mkdir p mode s))"
    by (cases "os_Mkdir p mode s") (auto simp: outside_kept_def dest!: Mkdir_result)
qed

lemma grows_MkdirTemp [keeps_intro]: "keeps files_grow (os_MkdirTemp d pre rnd)"
  unfolding os_MkdirTemp_def by (intro keeps_intro outside_kept_order)

lemma grows_OpenCreate [keeps_intro]: "keeps files_grow (os_OpenCreate p mode)"
  unfolding os_OpenCreate_def
  by (rule keeps_sys) (auto simp: outside_kept_def intro!: keepsI split: option.splits node.splits)

lemma grows_content: "files_grow s s' \<Longrightarrow> content_at s p = Some c \<Longrightarrow> content_at s' p = Some c"
  using outside_content [of "\<lambda>_. False"] by blast

lemma OpenTrunc_result:
  assumes "os_OpenTrunc p mode s = (r, s')"
  shows "only (\<lambda>x. x = p) s s' \<and> (is_ok r \<longrightarrow> (\<exists>m. nodes s' p = Some (FileN [] m)))"
  using assms unfolding os_OpenTrunc_def
  by (auto elim!: sys_cases simp: only_def split: option.splits node.splits if_splits)

lemma copyNode_result:
  assumes "copyNode n p s = (r, s')" "nodes s p = Some (FileN d m)"
  shows "only (\<lambda>x. x = p) s s' \<and> (is_ok r \<longrightarrow> (\<exists>c mc. n = FileN c mc \<and> nodes s' p = Some (FileN c m)))"
proof (cases n)
  case (FileN c mc)
  then show ?thesis using WriteData_result [of p c s r s' d m] assms by (cases r) (auto simp: copyNode_def)
qed (use assms in \<open>auto simp: copyNode_def\<close>)

lemma joinS_same:
  assumes "joinS m1 m2 s = (r, s')" "keeps same_fs m2"
  obtains r1 s1 where "m1 s = (r1, s1)" "nodes s' = nodes s1" "is_ok r \<longrightarrow> is_ok r1"
proof -
  obtain r1 s1 where m1: "m1 s = (r1, s1)" by fastforce
  obtain r2 s2 where m2: "m2 s1 = (r2, s2)" by fastforce
  have "nodes s2 = nodes s1" using keepsD [OF assms(2) m2] by (rule same_fs_nodes)
  then show thesis using that m1 m2 assms(1) by (auto simp: joinS_def split: if_splits)
qed

lemma same_syncs: "keeps same_fs (joinS os_Sync os_Sync)" "keeps same_fs os_Sync"
  by (intro keeps_intro same_fs_order)+

lemma joinS_cases:
  assumes "joinS m1 m2 s = (r, s')"
  obtains r1 s1 r2 where "m1 s = (r1, s1)" "m2 s1 = (r2, s')" "is_ok r = (is_ok r1 \<and> is_ok r2)"
  using assms by (auto simp: joinS_def split: prod.splits if_splits)

lemma outside_chain: "outside_kept D s s1 \<Longrightarrow> outside_kept D s1 s2 \<Longrightarrow> outside_kept D s s2"
  using transpD [OF outside_kept_order(2)] .

lemma outside_same: "nodes s' = nodes s \<Longrightarrow> outside_kept D s s'"
  by (simp add: outside_kept_def)

lemma outside_only_same: "only D s s' \<Longrightarrow> outside_kept D s s'"
  using outside_only [of D s s' D] by blast

lemma only_same: "nodes s' = nodes s \<Longrightarrow> only P s s'"
  by (simp add: only_def)

lemma outside_keptD: "outside_kept D s s' \<Longrightarrow> nodes s x \<noteq> None \<Longrightarrow> \<not> D x \<Longrightarrow> nodes s' x = nodes s x"
  by (simp add: outside_kept_def)

lemma outside_mono: "outside_kept D s s' \<Longrightarrow> (\<And>x. D x \<Longrightarrow> E x) \<Longrightarrow> outside_kept E s s'"
  by (auto simp: outside_kept_def)

lemma outside_content_eq:
  "outside_kept D s s' \<Longrightarrow> nodes s x \<noteq> None \<Longrightarrow> \<not> D x \<Longrightarrow> content_at s' x = content_at s x"
  using outside_keptD [of D s s' x] by (simp add: content_at_def)

lemma content_nodes: "content_at s x \<noteq> None \<Longrightarrow> nodes s x \<noteq> None"
  by (cases "nodes s x") (simp_all add: content_at_def)

lemma wf_nodes: "nodes s' = nodes s \<Longrightarrow> wf_step s s'"
  by (simp add: wf_step_def os_wf_def is_dir_def)

lemma deferS_eq: "deferS f m s = (r, s') \<Longrightarrow> \<exists>s1. m s = (r, s1) \<and> s' = f s1"
  by (auto simp: deferS_def split: prod.splits)

lemma MkdirTemp_Ok: "os_MkdirTemp d pre rnd s = (Ok p, s') \<Longrightarrow> p = d @ [pre @ rnd]"
  by (auto simp: os_MkdirTemp_def bindS_Ok)


section \<open>Paths without links\<close>

lemma walk_free:
  assumes "plain_comps cs" "\<forall>q. prefix q cs \<longrightarrow> \<not> is_link s (acc @ q)" "walk n s f acc cs = Ok r"
  shows "r = acc @ cs"
  using assms
proof (induction cs arbitrary: acc)
  case (Cons c cs)
  have c: "c \<noteq> []" "c \<noteq> ''.''" "c \<noteq> ''..''" using Cons.prems(1) by (auto simp: plain_comp_def)
  have here: "\<not> is_link s (acc @ [c])" using Cons.prems(2) by auto
  have rest: "\<forall>q. prefix q cs \<longrightarrow> \<not> is_link s ((acc @ [c]) @ q)"
    using Cons.prems(2) by (metis Cons_prefix_Cons append.assoc append_Cons append_Nil)
  show ?case
    using Cons.IH [of "acc @ [c]"] Cons.prems(1,3) rest c here
    by (auto simp: is_link_iff split: option.splits node.splits if_splits)
qed simp

lemma walk_link_free_Ok: "plain_comps p \<Longrightarrow> link_free s p \<Longrightarrow> walk n s f [] p = Ok r \<Longrightarrow> r = p"
  using walk_free [of p s "[]"] by (simp add: link_free_def)

lemma link_free_butlast: "link_free s p \<Longrightarrow> link_free s (butlast p)"
  unfolding link_free_def using prefix_order.trans [OF _ prefixeq_butlast] by blast

lemma plain_comps_butlast: "plain_comps p \<Longrightarrow> plain_comps (butlast p)"
  by (auto simp: plain_comps_def dest: in_set_butlastD)

lemma follow_free:
  assumes "follow p f s = (r, s')" "plain_comps p" "link_free s p"
  obtains (err) e where "r = Err e" "s' = s" | (run) "f p s = (r, s')"
  using assms walk_link_free_Ok [of p s] by (auto simp: follow_def split: sum.splits)

lemma inDir_free:
  assumes "inDir p f s = (r, s')" "plain_comps p" "link_free s p"
  obtains (err) e where "r = Err e" "s' = s" | (run) "f p s = (r, s')"
proof (cases "p = []")
  case True
  then show thesis using assms run by (simp add: inDir_def)
next
  case False
  show thesis
  proof (cases "walk 40 s True [] (butlast p)")
    case (Inr d)
    then have "d = butlast p" using walk_link_free_Ok [OF plain_comps_butlast [OF assms(2)] link_free_butlast [OF assms(3)]] by blast
    then show ?thesis using Inr assms(1) False err run by (auto simp: inDir_def split: if_splits)
  qed (use assms(1) False err in \<open>auto simp: inDir_def\<close>)
qed

lemma MkdirAllFollow_free: "link_free s p \<Longrightarrow> MkdirAllFollow p mode s = os_MkdirAll p mode s"
  unfolding MkdirAllFollow_def os_MkdirAll_def by (rule mkdirsFollow_eq) (simp add: link_free_def)

text \<open>No call of the modelled code makes a symbolic link.\<close>

definition calm :: "os \<Rightarrow> os \<Rightarrow> bool" where
  "calm s s' = (\<forall>x. is_link s' x \<longrightarrow> is_link s x)"

lemma calm_order [intro, simp]: "reflp calm" "transp calm" "calm s s"
  by (auto simp: calm_def reflp_def transp_def)

lemma calm_link_free: "calm s s' \<Longrightarrow> link_free s p \<Longrightarrow> link_free s' p"
  by (auto simp: calm_def link_free_def)

lemma calm_nodes: "nodes s' = nodes s \<Longrightarrow> calm s s'"
  by (simp add: calm_def is_link_def)

lemma calm_sys: "keeps calm act \<Longrightarrow> keeps calm (sys act)"
  by (rule keeps_sys) (auto simp: calm_def)

lemma calm_set: "\<not> (\<exists>t. n = LinkN t) \<Longrightarrow> calm s (set_node p n s)"
  by (auto simp: calm_def is_link_iff)

lemma calm_drop: "calm s (drop_nodes P s)"
  by (auto simp: calm_def is_link_iff split: if_splits)

lemma calm_calls [keeps_intro]:
  "keeps calm (os_Open p)" "keeps calm os_Sync" "keeps calm (os_ReadFile p)" "keeps calm (EvalSymlinks p)"
  "keeps calm (os_CreateTemp d pre rnd)" "keeps calm (os_Chmod p mode)" "keeps calm (os_Remove p)" "keeps calm (os_RemoveAll p)"
  "keeps calm (os_Mkdir p mode)" "keeps calm (os_OpenCreate p mode)" "keeps calm (os_OpenExcl p mode)"
  unfolding os_Open_def os_Sync_def os_ReadFile_def EvalSymlinks_def os_CreateTemp_def os_Chmod_def os_Remove_def os_RemoveAll_def
    os_Mkdir_def os_OpenCreate_def os_OpenExcl_def
  by (intro calm_sys keepsI, auto intro!: calm_set calm_drop simp: Let_def split: option.split node.split)+

lemma calm_data [keeps_intro]: "keeps calm (os_WriteData p c)" "keeps calm (os_AppendData p c)"
proof (rule keepsI)
  show "calm s (snd (os_WriteData p c s))" for s
    by (cases "os_WriteData p c s") (auto elim!: WriteData_cases simp: calm_def is_link_iff split: if_splits)
  show "keeps calm (os_AppendData p c)"
  proof (rule keepsI)
    show "calm s (snd (os_AppendData p c s))" for s
      by (cases "os_AppendData p c s") (auto elim!: AppendData_cases simp: calm_def is_link_iff split: if_splits)
  qed
qed

lemma mkdirs_links: "is_link (snd (mkdirs mode acc cs s)) x \<Longrightarrow> is_link s x"
proof (induction cs arbitrary: acc s)
  case (Cons c cs)
  obtain r s1 where m: "sys (\<lambda>s. (Ok (), set_node (acc @ [c]) (DirN (newMeta mode s)) s)) s = (r, s1)"
    (is "?m = _") by (cases ?m)
  have 1: "is_link s1 x \<Longrightarrow> is_link s x"
    using m by (auto elim!: sys_cases simp: is_link_def split: if_splits)
  show ?case
  proof (cases "nodes s (acc @ [c])")
    case None
    then show ?thesis
      using Cons.prems 1 Cons.IH [of "acc @ [c]" s1] by (cases r) (simp_all add: bindS_def m)
  next
    case (Some n)
    then show ?thesis
      using Cons.prems Cons.IH [of "acc @ [c]" s] by (simp split: if_splits)
  qed
qed simp

lemma calm_mkdirs: "calm s (snd (mkdirs mode acc p s))"
  using mkdirs_links by (auto simp: calm_def)

lemma calm_MkdirAll [keeps_intro]: "keeps calm (os_MkdirAll p mode)"
  unfolding os_MkdirAll_def by (rule keepsI) (rule calm_mkdirs)

lemma calm_MkdirTemp [keeps_intro]: "keeps calm (os_MkdirTemp d pre rnd)"
  unfolding os_MkdirTemp_def by (intro keeps_intro calm_order)

lemma calm_copyNode [keeps_intro]: "keeps calm (copyNode n p)"
  unfolding copyNode_def by (cases n) (simp_all add: keeps_intro)

lemma calm_RemoveFile: "calm s (os_RemoveFile p s)"
  using calm_calls(7) by (simp add: os_RemoveFile_def keeps_def)

lemma Rename_file_calm:
  assumes "os_wf t" "nodes t tmp = Some (FileN c mt)" "os_Rename tmp q t = (r, t')"
  shows "calm t t'"
  using assms(3) unfolding os_Rename_def
proof (cases rule: sys_cases)
  case (work fs)
  show ?thesis
  proof (cases "nodes t' = nodes t")
    case False
    then have np: "\<not> prefix tmp q" "\<not> prefix q tmp" and t': "t' = move_nodes tmp q (t\<lparr>faults := fs\<rparr>)"
      using work by (auto split: if_splits)
    have nd: "\<not> is_dir t tmp" using assms(2) by (simp add: is_dir_def is_dir_node_def)
    have below: "nodes t (tmp @ d # z) = None" for d z
      using os_wf_parent [OF assms(1), of "tmp @ [d]"] nd os_wf_missing [OF assms(1), of "tmp @ [d]" "tmp @ d # z"]
      by (cases "nodes t (tmp @ [d])") auto
    have "\<not> is_link t (tmp @ w)" for w
      using below assms(2) by (cases w) (auto simp: is_link_iff)
    then show ?thesis using np unfolding calm_def is_link_iff t' by (auto simp: nodes_move_nodes is_link_iff split: if_splits)
  qed (rule calm_nodes)
qed (simp add: calm_nodes)

section \<open>Frames of contents\<close>

definition cframe :: "(path \<Rightarrow> bool) \<Rightarrow> os \<Rightarrow> os \<Rightarrow> bool" where
  "cframe D s s' = (\<forall>x. \<not> D x \<longrightarrow> content_at s' x = content_at s x)"

lemma cframe_order [intro, simp]: "reflp (cframe D)" "transp (cframe D)" "cframe D s s"
  by (simp_all add: cframe_def reflp_def transp_def)

lemma cframe_chain: "cframe D s s1 \<Longrightarrow> cframe D s1 s2 \<Longrightarrow> cframe D s s2"
  using transpD [OF cframe_order(2)] .

lemma cframe_mono: "cframe D s s' \<Longrightarrow> (\<And>x. D x \<Longrightarrow> E x) \<Longrightarrow> cframe E s s'"
  by (auto simp: cframe_def)

lemma cframe_only: "only D s s' \<Longrightarrow> cframe D s s'"
  unfolding only_def cframe_def content_at_def by metis

lemma cframe_keeps: "keeps (only D) m \<Longrightarrow> keeps (cframe D) m"
  using keeps_mono [of "only D" m "cframe D"] cframe_only by blast

lemma cframe_nodes: "nodes s' = nodes s \<Longrightarrow> cframe D s s'"
  by (simp add: cframe_def content_at_def)

lemma cframe_mkdirs: "cframe D s (snd (mkdirs mode acc p s))"
proof (induction p arbitrary: acc s)
  case (Cons c cs)
  show ?case
  proof (cases "nodes s (acc @ [c])")
    case None
    obtain r s1 where m: "sys (\<lambda>s. (Ok (), set_node (acc @ [c]) (DirN (newMeta mode s)) s)) s = (r, s1)" (is "?m = _") by (cases ?m)
    have "cframe D s s1" using m None by (auto elim!: sys_cases simp: cframe_def content_at_def)
    then show ?thesis using Cons [of s1 "acc @ [c]"] cframe_chain m None by (cases r) (auto simp: bindS_def)
  qed (use Cons in simp)
qed simp

lemma cframe_MkdirAll [keeps_intro]: "keeps (cframe D) (os_MkdirAll p mode)"
  unfolding os_MkdirAll_def by (rule keepsI) (rule cframe_mkdirs)

end
