(* ===== verification/Nginx_Site.thy ===== *)
theory Nginx_Site
  imports Agent_Services Agent_Filesystem Go_Links
begin

text \<open>
  Publishing nginx sites on the Agent (\<open>internal/agent/nginxsite/manager.go\<close>) and the
  operations of the site runtime (\<open>internal/agent/siteruntime/manager.go\<close>). The site manager
  takes its file operations as arguments, as the code takes a file manager; that an Apply is all or
  nothing is proved once from the contract \<open>file_store\<close> and then stated for the Agent's own
  file manager.
\<close>

section \<open>Publishing a site\<close>

definition managedDomainPattern :: rexp where
  "managedDomainPattern = RSeq (RCls is_alnum)
     (ROpt (RSeq (RUpto 251 (RCls (Class [is_upper, is_lower, is_digit] ''.-''))) (RCls is_alnum)))"

definition validDomain :: "string \<Rightarrow> bool" where
  "validDomain domain =
     (length domain \<le> 253 \<and> MatchString managedDomainPattern domain \<and> \<not> Contains domain ''..'')"

datatype SiteAction = SiteUpsert | SiteDelete | SiteEnable | SiteDisable | OtherAction string

datatype 'e ngx_error =
    InvalidNginxDomain
  | ContentRequired
  | WriteConfigFailed 'e
  | EnableFailed 'e
  | ConfigMissing
  | DisableFailed 'e
  | DeleteEnabledFailed 'e
  | DeleteConfigFailed 'e
  | UnsupportedAction string
  | ValidationFailed string
  | ReloadFailed host_error

definition configPath :: "string \<Rightarrow> string" where
  "configPath domain = ''/etc/nginx/sites-available/opendeploy-'' @ domain @ ''.conf''"

definition enabledPath :: "string \<Rightarrow> string" where
  "enabledPath domain = ''/etc/nginx/sites-enabled/opendeploy-'' @ domain @ ''.conf''"

text \<open>A snapshot is the content when the read succeeded and None when it failed for any reason.\<close>

definition readSnapshot :: "(string \<Rightarrow> ('s, 'e, string) action) \<Rightarrow> string \<Rightarrow> 's \<Rightarrow> string option \<times> 's" where
  "readSnapshot fread path s =
     (case fread path s of (Inr c, s') \<Rightarrow> (Some c, s') | (Inl _, s') \<Rightarrow> (None, s'))"

definition restore ::
  "(string \<Rightarrow> string \<Rightarrow> ('s, 'e, unit) action) \<Rightarrow> (string \<Rightarrow> ('s, 'e, unit) action) \<Rightarrow>
     string \<Rightarrow> string option \<Rightarrow> 's \<Rightarrow> 's" where
  "restore fwrite fdelete path snap s =
     (case snap of Some c \<Rightarrow> snd (fwrite path c s) | None \<Rightarrow> snd (fdelete path s))"

text \<open>The part of Apply that changes files, up to the validation.\<close>

definition applyFiles ::
  "(string \<Rightarrow> string \<Rightarrow> ('s, 'e, unit) action) \<Rightarrow> (string \<Rightarrow> ('s, 'e, unit) action) \<Rightarrow> SiteAction \<Rightarrow>
     string \<Rightarrow> string \<Rightarrow> string \<Rightarrow> string option \<Rightarrow> string option \<Rightarrow> ('s, 'e ngx_error, unit) action" where
  "applyFiles fwrite fdelete action cp ep content cs es s =
     (case action of
        SiteUpsert \<Rightarrow>
          if content = [] then (Err ContentRequired, s)
          else (case fwrite cp content s of
                  (Inl e, s1) \<Rightarrow> (Err (WriteConfigFailed e), s1)
                | (Inr _, s1) \<Rightarrow>
                    (case fwrite ep content s1 of
                       (Inl e, s2) \<Rightarrow> (Err (EnableFailed e), restore fwrite fdelete cp cs s2)
                     | (Inr _, s2) \<Rightarrow> (Ok (), s2)))
      | SiteEnable \<Rightarrow>
          (case cs of None \<Rightarrow> (Err ConfigMissing, s)
           | Some c \<Rightarrow> wrapS EnableFailed (fwrite ep c) s)
      | SiteDisable \<Rightarrow> wrapS DisableFailed (fdelete ep) s
      | SiteDelete \<Rightarrow>
          (case fdelete ep s of
             (Inl e, s1) \<Rightarrow> (Err (DeleteEnabledFailed e), s1)
           | (Inr _, s1) \<Rightarrow>
               (case fdelete cp s1 of
                  (Inl e, s2) \<Rightarrow> (Err (DeleteConfigFailed e), restore fwrite fdelete ep es s2)
                | (Inr _, s2) \<Rightarrow> (Ok (), s2)))
      | OtherAction a \<Rightarrow> (Err (UnsupportedAction a), s))"

text \<open>Apply. \<open>check\<close> is \<open>validateAndReload\<close> on the files as they are.\<close>

definition ngx_Apply ::
  "(string \<Rightarrow> ('s, 'e, string) action) \<Rightarrow> (string \<Rightarrow> string \<Rightarrow> ('s, 'e, unit) action) \<Rightarrow>
     (string \<Rightarrow> ('s, 'e, unit) action) \<Rightarrow> ('s \<Rightarrow> ('e ngx_error, unit) result) \<Rightarrow>
     SiteAction \<Rightarrow> string \<Rightarrow> string \<Rightarrow> ('s, 'e ngx_error, unit) action" where
  "ngx_Apply fread fwrite fdelete check action domain content s =
     (if \<not> validDomain domain then (Err InvalidNginxDomain, s)
      else let cp = configPath domain; ep = enabledPath domain;
               (cs, s1) = readSnapshot fread cp s;
               (es, s2) = readSnapshot fread ep s1
           in case applyFiles fwrite fdelete action cp ep content cs es s2 of
                (Inl e, s3) \<Rightarrow> (Err e, s3)
              | (Inr _, s3) \<Rightarrow>
                  (case check s3 of
                     Inl e \<Rightarrow> (Err e, restore fwrite fdelete ep es (restore fwrite fdelete cp cs s3))
                   | Inr _ \<Rightarrow> (Ok (), s3)))"

definition validateAndReload :: "shell_env \<Rightarrow> (spawned list, 'e ngx_error, unit) action" where
  "validateAndReload env log =
     (case shell_Run env ''nginx'' [''-t''] log of
        ((r, e), log1) \<Rightarrow>
          if e \<noteq> None \<or> (case r of None \<Rightarrow> True | Some x \<Rightarrow> ExitCode x \<noteq> 0)
          then (Err (ValidationFailed (case r of None \<Rightarrow> [] | Some x \<Rightarrow> TrimSpace (Stderr x))), log1)
          else wrapS ReloadFailed (systemd_Reload env ''nginx'') log1)"

section \<open>All or nothing\<close>

text \<open>What an accepted action makes of the contents.\<close>

definition site_contents ::
  "SiteAction \<Rightarrow> string \<Rightarrow> string \<Rightarrow> string \<Rightarrow> (string \<Rightarrow> string option) \<Rightarrow> string \<Rightarrow> string option" where
  "site_contents action cp ep content m =
     (case action of
        SiteUpsert \<Rightarrow> m(cp \<mapsto> content, ep \<mapsto> content)
      | SiteEnable \<Rightarrow> m(ep := m cp)
      | SiteDisable \<Rightarrow> m(ep := None)
      | SiteDelete \<Rightarrow> m(ep := None, cp := None)
      | OtherAction _ \<Rightarrow> m)"

context file_store
begin

lemma snapshot_is_content:
  assumes "inv s" "dom p" shows "readSnapshot fread p s = (content s p, s)"
  using read_Some [OF assms] read_None [OF assms] by (cases "content s p") (auto simp: readSnapshot_def)

lemma restore_content:
  assumes "inv s" "dom p"
  shows "inv (restore fwrite fdelete p v s) \<and>
    (\<forall>p'. dom p' \<longrightarrow> content (restore fwrite fdelete p v s) p' = (if p' = p then v else content s p'))"
proof (cases v)
  case None
  obtain s' where "fdelete p s = (Ok (), s')" "inv s'" "content s' p = None"
    "\<And>p'. dom p' \<Longrightarrow> p' \<noteq> p \<Longrightarrow> content s' p' = content s p'" using deleteE [OF assms] by blast
  then show ?thesis using None by (simp add: restore_def)
next
  case (Some c)
  obtain s' where "fwrite p c s = (Ok (), s')" "inv s'" "content s' p = Some c"
    "\<And>p'. dom p' \<Longrightarrow> p' \<noteq> p \<Longrightarrow> content s' p' = content s p'" using writeE [OF assms] by blast
  then show ?thesis using Some by (simp add: restore_def)
qed

lemma applyFiles_result:
  assumes inv: "inv s" and dom: "dom cp" "dom ep" "cp \<noteq> ep"
    and r: "applyFiles fwrite fdelete action cp ep txt (content s cp) (content s ep) s = (r, s')"
  shows "inv s' \<and> (\<forall>p. dom p \<longrightarrow> content s' p =
    (if is_ok r then site_contents action cp ep txt (content s) p else content s p))"
proof (cases action)
  case SiteUpsert
  obtain s1 where 1: "fwrite cp txt s = (Ok (), s1)" "inv s1" "content s1 cp = Some txt"
    "\<And>p'. dom p' \<Longrightarrow> p' \<noteq> cp \<Longrightarrow> content s1 p' = content s p'" using writeE [OF inv dom(1)] by blast
  obtain s2 where 2: "fwrite ep txt s1 = (Ok (), s2)" "inv s2" "content s2 ep = Some txt"
    "\<And>p'. dom p' \<Longrightarrow> p' \<noteq> ep \<Longrightarrow> content s2 p' = content s1 p'" using writeE [OF 1(2) dom(2)] by blast
  show ?thesis
    using r 1 2 inv dom SiteUpsert by (auto simp: applyFiles_def site_contents_def split: if_splits)
next
  case SiteDelete
  obtain s1 where 1: "fdelete ep s = (Ok (), s1)" "inv s1" "content s1 ep = None"
    "\<And>p'. dom p' \<Longrightarrow> p' \<noteq> ep \<Longrightarrow> content s1 p' = content s p'" using deleteE [OF inv dom(2)] by blast
  obtain s2 where 2: "fdelete cp s1 = (Ok (), s2)" "inv s2" "content s2 cp = None"
    "\<And>p'. dom p' \<Longrightarrow> p' \<noteq> cp \<Longrightarrow> content s2 p' = content s1 p'" using deleteE [OF 1(2) dom(1)] by blast
  show ?thesis
    using r 1 2 inv dom SiteDelete by (auto simp: applyFiles_def site_contents_def split: if_splits)
next
  case SiteEnable
  show ?thesis
  proof (cases "content s cp")
    case (Some c)
    obtain s1 where 1: "fwrite ep c s = (Ok (), s1)" "inv s1" "content s1 ep = Some c"
      "\<And>p'. dom p' \<Longrightarrow> p' \<noteq> ep \<Longrightarrow> content s1 p' = content s p'" using writeE [OF inv dom(2)] by blast
    show ?thesis
      using r 1 dom SiteEnable Some by (auto simp: applyFiles_def site_contents_def wrapS_def)
  qed (use r inv SiteEnable in \<open>auto simp: applyFiles_def\<close>)
next
  case SiteDisable
  obtain s1 where 1: "fdelete ep s = (Ok (), s1)" "inv s1" "content s1 ep = None"
    "\<And>p'. dom p' \<Longrightarrow> p' \<noteq> ep \<Longrightarrow> content s1 p' = content s p'" using deleteE [OF inv dom(2)] by blast
  show ?thesis
    using r 1 dom SiteDisable by (auto simp: applyFiles_def site_contents_def wrapS_def)
qed (use r inv in \<open>auto simp: applyFiles_def\<close>)

lemma apply_all_or_nothing:
  assumes inv: "inv s" and dom: "dom (configPath d)" "dom (enabledPath d)" "configPath d \<noteq> enabledPath d"
    and r: "ngx_Apply fread fwrite fdelete check action d txt s = (r, s')"
  shows "inv s' \<and> (\<forall>p. dom p \<longrightarrow> content s' p =
    (if is_ok r then site_contents action (configPath d) (enabledPath d) txt (content s) p else content s p))"
proof (cases "validDomain d")
  case True
  let ?cp = "configPath d" and ?ep = "enabledPath d"
  obtain q s3 where f: "applyFiles fwrite fdelete action ?cp ?ep txt (content s ?cp) (content s ?ep) s = (q, s3)"
    by fastforce
  note fr = applyFiles_result [OF inv dom f]
  note snaps = snapshot_is_content [OF inv dom(1)] snapshot_is_content [OF inv dom(2)]
  show ?thesis
  proof (cases q)
    case (Inl e)
    then show ?thesis using r True f fr snaps by (auto simp: ngx_Apply_def Let_def)
  next
    case (Inr u)
    note r1 = restore_content [OF _ dom(1), of s3 "content s ?cp"]
    note r2 = restore_content [OF _ dom(2), of "restore fwrite fdelete ?cp (content s ?cp) s3" "content s ?ep"]
    have other: "p \<noteq> ?cp \<Longrightarrow> p \<noteq> ?ep \<Longrightarrow> site_contents action ?cp ?ep txt (content s) p = content s p" for p
      by (cases action) (auto simp: site_contents_def)
    have fr': "inv s3" "\<And>p. dom p \<Longrightarrow> content s3 p = site_contents action ?cp ?ep txt (content s) p"
      using fr Inr by auto
    show ?thesis
    proof (cases "check s3")
      case (Inl e)
      then have "r = Err e" "s' = restore fwrite fdelete ?ep (content s ?ep) (restore fwrite fdelete ?cp (content s ?cp) s3)"
        using r True f snaps Inr by (auto simp: ngx_Apply_def Let_def)
      then show ?thesis using r1 r2 fr' other by simp
    next
      case ok: (Inr v)
      then have "r = Ok ()" "s' = s3" using r True f snaps Inr by (auto simp: ngx_Apply_def Let_def)
      then show ?thesis using fr' by simp
    qed
  qed
qed (use r inv in \<open>auto simp: ngx_Apply_def\<close>)

lemma apply_after_read_error:
  assumes rd: "fread (configPath d) s = (Err e, s1)" and inv: "inv s1" and valid: "validDomain d"
    and dom: "dom (configPath d)" "dom (enabledPath d)" "configPath d \<noteq> enabledPath d" and nonempty: "txt \<noteq> []"
    and rejected: "\<And>t. check t = Err x"
  shows "\<exists>s'. ngx_Apply fread fwrite fdelete check SiteUpsert d txt s = (Err x, s') \<and>
    content s' (configPath d) = None"
proof -
  let ?cp = "configPath d" and ?ep = "enabledPath d"
  obtain s2 where 2: "fwrite ?cp txt s1 = (Ok (), s2)" "inv s2" using writeE [OF inv dom(1)] by blast
  obtain s3 where 3: "fwrite ?ep txt s2 = (Ok (), s3)" "inv s3" using writeE [OF 2(2) dom(2)] by blast
  note r1 = restore_content [OF 3(2) dom(1), of None]
  define s4 where "s4 = restore fwrite fdelete ?cp None s3"
  have "inv s4" "content s4 ?cp = None" using r1 dom by (auto simp: s4_def)
  then have "content (restore fwrite fdelete ?ep (content s1 ?ep) s4) ?cp = None"
    using restore_content [OF _ dom(2), of s4 "content s1 ?ep"] dom by simp
  then show ?thesis
    using rd valid nonempty rejected 2 3 snapshot_is_content [OF inv dom(2)]
    by (auto simp: ngx_Apply_def readSnapshot_def [of _ ?cp] applyFiles_def Let_def s4_def)
qed

end

section \<open>The site manager on the Agent's files\<close>

definition siteDirs :: "path list" where
  "siteDirs = [[''etc'', ''nginx'', ''sites-available''], [''etc'', ''nginx'', ''sites-enabled'']]"

definition siteName :: "string \<Rightarrow> bool" where
  "siteName x = HasPrefix x ''opendeploy-''"

abbreviation site_inv :: "string \<Rightarrow> os \<Rightarrow> bool" where
  "site_inv rnd \<equiv> store_inv NewManager siteDirs siteName rnd"

definition agent_site_Apply ::
  "string \<Rightarrow> (os \<Rightarrow> shell_env) \<Rightarrow> spawned list \<Rightarrow> SiteAction \<Rightarrow> string \<Rightarrow> string \<Rightarrow> (os, fs_error ngx_error, unit) action" where
  "agent_site_Apply rnd env log =
     ngx_Apply (fs_Read NewManager) (\<lambda>p c. fs_Write NewManager rnd p c 0x1A4) (fs_Delete NewManager)
       (\<lambda>s. fst (validateAndReload (env s) log))"

lemma domain_chars:
  assumes "validDomain d" shows "SLASH \<notin> set d" "\<not> Contains d ''..''"
proof -
  have "re_chars managedDomainPattern c" if "c \<in> set d" for c
    using assms MatchString_chars that by (auto simp: validDomain_def)
  then have "is_alnum c \<or> Class [is_upper, is_lower, is_digit] ''.-'' c" if "c \<in> set d" for c
    using that by (fastforce simp: managedDomainPattern_def ROpt_def)
  then show "SLASH \<notin> set d" by (fastforce simp: Class_def byte_class_defs)
  show "\<not> Contains d ''..''" using assms by (simp add: validDomain_def)
qed

lemma domain_ends:
  assumes "validDomain d" shows "d \<noteq> []" "is_alnum (hd d)" "is_alnum (last d)"
proof -
  have m: "MatchString managedDomainPattern d" using assms by (simp add: validDomain_def)
  show "d \<noteq> []" "is_alnum (hd d)" using MatchString_hd [OF m [unfolded managedDomainPattern_def]] by auto
  from m have "in_lang (RSeq (RCls is_alnum) (ROpt (RSeq (RUpto 251 (RCls (Class [is_upper, is_lower, is_digit] ''.-'')))
      (RCls is_alnum)))) d"
    by (simp add: MatchString_iff managedDomainPattern_def)
  then show "is_alnum (last d)"
    unfolding in_lang_Seq ROpt_def in_lang_Alt in_lang_Cls by (auto simp: in_lang_One in_lang_Seq)
qed

text \<open>The file of a site inside its directory.\<close>

definition siteFile :: "string \<Rightarrow> string" where
  "siteFile d = ''opendeploy-'' @ d @ ''.conf''"

lemma siteFile_safe:
  assumes "validDomain d"
  shows "plain_comp (siteFile d)" "siteName (siteFile d)" "\<not> Contains (siteFile d) ''..''"
proof -
  note d = domain_chars [OF assms] domain_ends [OF assms]
  have dot: "\<not> is_alnum (CHR ''.'')" by (simp add: byte_class_defs)
  have "\<not> Contains (d @ ''.conf'') ''..''"
    using d dot unfolding Contains_append2 by (auto simp: HasPrefix_def)
  moreover have "hd (d @ ''.conf'') \<noteq> CHR ''.''" using d dot by auto
  ultimately show "\<not> Contains (siteFile d) ''..''"
    unfolding siteFile_def Contains_append2 by (simp add: HasPrefix_def)
  show "plain_comp (siteFile d)" using d(1) by (simp add: plain_comp_def siteFile_def)
  show "siteName (siteFile d)" by (simp add: siteName_def siteFile_def HasPrefix_def)
qed

lemma site_paths:
  assumes "validDomain d"
  shows "store_dom siteDirs siteName (configPath d)" "store_dom siteDirs siteName (enabledPath d)"
    "configPath d \<noteq> enabledPath d"
proof -
  have p: "configPath d = abs_path ([''etc'', ''nginx'', ''sites-available''] @ [siteFile d])"
    "enabledPath d = abs_path ([''etc'', ''nginx'', ''sites-enabled''] @ [siteFile d])"
    by (simp_all add: configPath_def enabledPath_def abs_path_def siteFile_def)
  have dirs: "plain_comps [''etc'', ''nginx'', ''sites-available'']" "plain_comps [''etc'', ''nginx'', ''sites-enabled'']"
    by (simp_all add: plain_comp_def)
  have nodots: "\<forall>y \<in> set [''etc'', ''nginx'', ''sites-available'']. \<not> Contains y ''..''"
    "\<forall>y \<in> set [''etc'', ''nginx'', ''sites-enabled'']. \<not> Contains y ''..''"
    by (simp_all add: HasPrefix_def)
  note f = siteFile_safe [OF assms]
  show "store_dom siteDirs siteName (configPath d)" "store_dom siteDirs siteName (enabledPath d)"
    unfolding p by (rule store_dom_abs_path; use dirs nodots f in \<open>auto simp: siteDirs_def\<close>)+
  show "configPath d \<noteq> enabledPath d" by (simp add: configPath_def enabledPath_def)
qed

text \<open>C10. Publishing a site is all or nothing: as long as no file operation fails and neither the site directories nor the site files are, or
  are reached through, symbolic links (the invariant), every Apply that returns an error (a bad request, or a configuration that nginx rejects or that cannot be loaded)
  leaves every managed site file as it was, and every Apply that returns none leaves exactly the files
  that the action asks for. The invariant holds again afterwards.\<close>

theorem site_apply_all_or_nothing:
  assumes "site_inv rnd s" "agent_site_Apply rnd env log action d txt s = (r, s')"
  shows "site_inv rnd s' \<and>
    (\<forall>p. store_dom siteDirs siteName p \<longrightarrow> file_content s' p =
      (if is_ok r then site_contents action (configPath d) (enabledPath d) txt (file_content s) p
       else file_content s p))"
proof (cases "validDomain d")
  case True
  show ?thesis
    using managed.apply_all_or_nothing [OF assms(1) site_paths [OF True]] assms(2)
    unfolding agent_site_Apply_def by blast
next
  case False
  then show ?thesis using assms by (auto simp: agent_site_Apply_def ngx_Apply_def)
qed

text \<open>A failed read is taken for a missing file: when reading the published configuration of a site
  fails for a passing reason, nothing else fails, and nginx rejects the new configuration, Apply reports
  the rejection and its rollback deletes the configuration that was there.\<close>

theorem read_error_loses_site:
  assumes "fs_Read NewManager (configPath d) s = (Err e, s1)" "site_inv rnd s1" "validDomain d" "txt \<noteq> []"
    and "\<And>t. fst (validateAndReload (env t) log) = Err x"
  shows "\<exists>s'. agent_site_Apply rnd env log SiteUpsert d txt s = (Err x, s') \<and>
           file_content s' (configPath d) = None"
  unfolding agent_site_Apply_def
  by (rule managed.apply_after_read_error [OF assms(1-3) site_paths [OF assms(3)] assms(4)])
    (rule assms(5))

section \<open>The site runtime\<close>

datatype runtime_error =
    RootOutside
  | SocketOutside
  | InvalidProbeDomain
  | InvalidCertificateDomain
  | WebrootOutside
  | InvalidCertificateEmail
  | NoWebAccount
  | InvalidAccountIdentity
  | CertbotFailed
  | RuntimeFiles fs_error
  | RuntimeIO

definition below :: "string \<Rightarrow> string \<Rightarrow> bool" where
  "below candidate root = (let clean = Clean candidate in clean \<noteq> root \<and> HasPrefix clean (root @ ''/''))"

text \<open>\<open>user.Lookup\<close> gives the uid and gid of an account as strings.\<close>

definition lookupWebAccount :: "(string \<Rightarrow> (string \<times> string) option) \<Rightarrow> (runtime_error, string \<times> string) result" where
  "lookupWebAccount lookup =
     (case List.map_filter lookup [''www-data'', ''nginx'', ''apache''] of [] \<Rightarrow> Err NoWebAccount | a # _ \<Rightarrow> Ok a)"

definition PrepareRoot ::
  "(string \<Rightarrow> (string \<times> string) option) \<Rightarrow> Manager \<Rightarrow> string \<Rightarrow> (os, runtime_error, unit) action" where
  "PrepareRoot lookup m path =
     bindS (guardS (\<not> below path ''/var/www'') RootOutside) (\<lambda>_.
     bindS (wrapS RuntimeFiles (fs_MkdirAll m path 0x1ED)) (\<lambda>_.
     bindS (liftS (lookupWebAccount lookup)) (\<lambda>(u, g).
     case (Atoi u, Atoi g) of
       (Some ui, Some gi) \<Rightarrow> wrapS RuntimeFiles (fs_Chown m path ui gi)
     | _ \<Rightarrow> failS InvalidAccountIdentity)))"

text \<open>\<open>stat\<close> is \<open>os.Stat\<close>: None when the path does not exist, else whether it is a socket,
  or an error.\<close>

definition SocketExists :: "(string \<Rightarrow> (runtime_error, bool option) result) \<Rightarrow> string \<Rightarrow> (runtime_error, bool) result" where
  "SocketExists stat path =
     (if \<not> below path ''/run/php'' then Err SocketOutside
      else case stat path of Inl e \<Rightarrow> Err e | Inr None \<Rightarrow> Ok False | Inr (Some b) \<Rightarrow> Ok b)"

text \<open>\<open>probe\<close> is the request to 127.0.0.1 with the given Host header.\<close>

definition HTTPProbe :: "(string \<Rightarrow> (runtime_error, int) result) \<Rightarrow> string \<Rightarrow> (runtime_error, int) result" where
  "HTTPProbe probe domain = (if \<not> validDomain domain then Err InvalidProbeDomain else probe domain)"

definition certbotArgs :: "string \<Rightarrow> string \<Rightarrow> string \<Rightarrow> string list" where
  "certbotArgs domain webroot email =
     [''certonly'', ''--webroot'', ''-w'', webroot, ''-d'', domain, ''--agree-tos'', ''-n''] @
     (if email = [] then [''--register-unsafely-without-email''] else [''-m'', email])"

text \<open>\<open>parseAddress\<close> is \<open>mail.ParseAddress\<close>: the address it finds.\<close>

definition ObtainCertificate ::
  "(string \<Rightarrow> string option) \<Rightarrow> Manager \<Rightarrow> shell_env \<Rightarrow> string \<Rightarrow> string \<Rightarrow> string \<Rightarrow>
     (os \<times> spawned list, runtime_error, unit) action" where
  "ObtainCertificate parseAddress m env domain webroot email = (\<lambda>(s, log).
     if \<not> validDomain domain then (Err InvalidCertificateDomain, (s, log))
     else if \<not> below webroot ''/var/www'' then (Err WebrootOutside, (s, log))
     else if email \<noteq> [] \<and> parseAddress email \<noteq> Some email then (Err InvalidCertificateEmail, (s, log))
     else case fs_MkdirAll m webroot 0x1ED s of
            (Inl e, s1) \<Rightarrow> (Err (RuntimeFiles e), (s1, log))
          | (Inr _, s1) \<Rightarrow>
              (case shell_Run env ''certbot'' (certbotArgs domain webroot email) log of
                 ((r, e), log1) \<Rightarrow>
                   if e \<noteq> None \<or> (case r of None \<Rightarrow> True | Some x \<Rightarrow> ExitCode x \<noteq> 0)
                   then (Err CertbotFailed, (s1, log1)) else (Ok (), (s1, log1))))"

lemma HasPrefix_abs_path:
  assumes "plain_comps q" "plain_comps R" "R \<noteq> []" "HasPrefix (abs_path q) (abs_path R @ ''/'')"
  shows "strict_prefix R q"
proof -
  from assms(4) obtain t where t: "abs_path q = abs_path R @ SLASH # t" by (auto simp: HasPrefix_iff)
  have split: "Split SLASH (abs_path x) = [] # x" if "plain_comps x" "x \<noteq> []" for x
    using that Split_Join [of x SLASH] plain_comps_no_slash by (simp add: abs_path_def)
  have "q \<noteq> []" using t by (auto simp: abs_path_def Cons_eq_append_conv)
  then have "[] # q = ([] # R) @ Split SLASH t"
    using split assms(1-3) t Split_append_gen [of SLASH "abs_path R" t] by metis
  then show ?thesis by (auto simp: strict_prefix_def)
qed

lemma below_www: "IsAbs path \<Longrightarrow> below path ''/var/www'' \<Longrightarrow> strict_prefix [''var'', ''www''] (path_comps path)"
  using HasPrefix_abs_path [OF path_comps_plain, of path "[''var'', ''www'']"] Clean_abs [of path]
  by (simp add: below_def Let_def plain_comp_def abs_path_def)

lemma securePath_link_free:
  assumes "securePath m p s = (Ok q, s')" "abs_roots m" "link_free s (path_comps p)"
  shows "same_fs s s' \<and> q = path_comps p"
  using assms(1,2)
proof (cases rule: securePath_steps)
  case (1 ex r)
  have "link_free s ex" using assms(3) 1(4) prefix_order.trans unfolding link_free_def by blast
  moreover have "plain_comps ex" using 1(3,4) by (auto simp: prefix_def)
  ultimately have "r = ex" using walk_link_free_Ok 1(5) by blast
  then show ?thesis using 1 by (auto simp: prefix_def)
qed

text \<open>On a path without links, creating a directory makes missing directories on the path, and changing
  the owner touches its end.\<close>

lemma MkdirAll_on_path:
  assumes "abs_roots m" "link_free s (path_comps p)"
  shows "only (\<lambda>x. prefix x (path_comps p) \<and> nodes s x = None) s (snd (fs_MkdirAll m p mode s)) \<and>
    link_free (snd (fs_MkdirAll m p mode s)) (path_comps p)"
proof (cases "validateMode mode")
  case (Inr u)
  let ?k = "\<lambda>clean. wrapS (FsOS MkdirCall) (os_MkdirAll clean mode)"
  have e: "fs_MkdirAll m p mode s = bindS (securePath m p) ?k s" by (simp add: fs_MkdirAll_def Inr bindS_def [of "liftS _"])
  obtain r s1 where sp: "securePath m p s = (r, s1)" by fastforce
  have same: "same_fs s s1" by (rule keepsD [OF securePath_same sp])
  then have nd: "nodes s1 = nodes s" by (simp add: same_fs_nodes)
  then have lf: "link_free s1 (path_comps p)" using assms(2) by (simp add: link_free_def is_link_def)
  show ?thesis
  proof (cases r)
    case (Inl x)
    then show ?thesis using e sp nd lf by (simp add: bindS_def only_def)
  next
    case (Inr q)
    then have q: "q = path_comps p" using securePath_link_free [OF _ assms] sp by blast
    have s2: "snd (fs_MkdirAll m p mode s) = snd (os_MkdirAll q mode s1)"
      by (simp add: e sp Inr bindS_def wrapS_def split: prod.split sum.split)
    have "only (\<lambda>x. prefix x (path_comps p) \<and> nodes s1 x = None) s1 (snd (os_MkdirAll q mode s1))"
      by (rule only_MkdirAll) (simp add: q)
    moreover have "link_free (snd (os_MkdirAll q mode s1)) (path_comps p)"
      using lf mkdirs_links unfolding link_free_def os_MkdirAll_def by blast
    ultimately show ?thesis using s2 nd by (simp add: only_def)
  qed
qed (use assms(2) in \<open>simp add: fs_MkdirAll_def bindS_def\<close>)

lemma Chown_on_path:
  assumes "abs_roots m" "link_free s (path_comps p)"
  shows "only (\<lambda>x. x = path_comps p) s (snd (fs_Chown m p u g s))"
  unfolding fs_Chown_def
proof (rule only_bindS)
  show "only (\<lambda>x. x = path_comps p) s (snd (securePath m p s))" by (rule keeps_at [OF same_keeps(2)])
next
  fix q s1
  assume "securePath m p s = (Ok q, s1)"
  then have "q = path_comps p" using securePath_link_free [OF _ assms] by blast
  then have "keeps (only (\<lambda>x. x = path_comps p)) (bindS (guardS (u \<le> 0 \<or> g \<le> 0) ForbiddenOwner) (\<lambda>_. wrapS (FsOS ChownCall) (os_Chown q u g)))"
    by (intro keeps_intro only_refl only_trans) simp
  then show "only (\<lambda>x. x = path_comps p) s1 (snd (bindS (guardS (u \<le> 0 \<or> g \<le> 0) ForbiddenOwner) (\<lambda>_. wrapS (FsOS ChownCall) (os_Chown q u g)) s1))"
    by (rule keeps_at)
qed

definition on_path :: "string \<Rightarrow> os \<Rightarrow> path \<Rightarrow> bool" where
  "on_path p s x = (prefix x (path_comps p) \<and> (x = path_comps p \<or> nodes s x = None))"

lemma PrepareRoot_on_path:
  assumes m: "abs_roots m" "link_free s (path_comps p)"
  shows "only (on_path p s) s (snd (PrepareRoot lookup m p s))"
  unfolding PrepareRoot_def
proof (rule only_bindS)
  fix v s0
  assume "guardS (\<not> below p ''/var/www'') RootOutside s = (Ok v, s0)"
  then have s0: "s0 = s" by (simp add: guardS_Ok)
  let ?k = "\<lambda>_. bindS (liftS (lookupWebAccount lookup)) (\<lambda>(u, g). case (Atoi u, Atoi g) of
       (Some ui, Some gi) \<Rightarrow> wrapS RuntimeFiles (fs_Chown m p ui gi) | _ \<Rightarrow> failS InvalidAccountIdentity)"
  have "only (on_path p s) s (snd (bindS (wrapS RuntimeFiles (fs_MkdirAll m p 0x1ED)) ?k s))"
  proof (rule only_wrap_bindS)
    show "only (on_path p s) s (snd (fs_MkdirAll m p 0x1ED s))"
      using MkdirAll_on_path [OF m, of "0x1ED"] by (auto simp: only_def on_path_def)
  next
    fix w s1
    assume "fs_MkdirAll m p 0x1ED s = (Ok w, s1)"
    then have "link_free s1 (path_comps p)" using MkdirAll_on_path [OF m, of "0x1ED"] by simp
    then have "only (on_path p s) s1 (snd (fs_Chown m p ui gi s1))" for ui gi
      using Chown_on_path [OF m(1), of s1 p ui gi] by (auto simp: only_def on_path_def)
    then show "only (on_path p s) s1 (snd (?k w s1))"
      by (auto simp: bindS_def only_wrapS split: sum.split option.split)
  qed
  then show "only (on_path p s) s0 (snd (bindS (wrapS RuntimeFiles (fs_MkdirAll m p 0x1ED)) ?k s0))" using s0 by simp
qed (simp add: guardS_def)


section \<open>Examples\<close>

text \<open>The site directories with one published site, and an nginx that rejects every configuration.\<close>

definition siteOS :: "bool list \<Rightarrow> os" where
  "siteOS fs = \<lparr>tree = [([], sampleDir), ([''etc''], sampleDir), ([''etc'', ''nginx''], sampleDir),
     ([''etc'', ''nginx'', ''sites-available''], sampleDir), ([''etc'', ''nginx'', ''sites-enabled''], sampleDir),
     ([''etc'', ''nginx'', ''sites-available'', ''opendeploy-a.conf''], FileN ''old'' \<lparr>perm = 0x1A4, uid = 0, gid = 0\<rparr>)],
     umask = 0x12, faults = fs, partial = 0\<rparr>"

definition rejectingShell :: shell_env where
  "rejectingShell = sampleShell\<lparr>se_exec := (\<lambda>_ _. \<lparr>oc_stdout = [], oc_stderr = [''bad''], oc_exit = Some 1,
     oc_failed = True, oc_deadline = False\<rparr>)\<rparr>"

lemma roots_shape:
  "list_all (\<lambda>root. root = abs_path (path_comps root) \<and> length (path_comps root) \<le> 3 \<and> IsAbs root) DefaultRoots"
  by code_simp

lemma siteOS_inv: "site_inv rnd (siteOS [])"
proof -
  have "link_free (siteOS []) q" for q
    by (auto simp: link_free_def is_link_def siteOS_def nodes_def sampleDir_def split: if_splits)
  moreover have "os_wf (siteOS [])"
    by (rule os_wf_check) (simp_all add: siteOS_def sampleDir_def is_dir_def nodes_def is_dir_node_def)
  moreover have "plain_comps R \<and> abs_path R \<in> set DefaultRoots \<and> is_dir (siteOS []) R \<and> length R = 3"
    if "R \<in> set siteDirs" for R
    using that by (auto simp: siteDirs_def plain_comp_def DefaultRoots_def abs_path_def siteOS_def is_dir_def
        nodes_def sampleDir_def is_dir_node_def)
  moreover have "\<not> is_link (siteOS []) (R @ [x])" "\<not> is_dir (siteOS []) (R @ [x])"
    "nodes (siteOS []) (R @ [''.'' @ x @ y]) = None" if "R \<in> set siteDirs" for R x y
    using that by (auto simp: siteDirs_def siteOS_def is_link_def is_dir_def nodes_def sampleDir_def is_dir_node_def)
  moreover have "\<not> siteName (''.'' @ x)" for x by (simp add: siteName_def HasPrefix_def)
  ultimately show ?thesis
    using roots_shape unfolding store_inv_def NewManager_def abs_roots_def
    by (fastforce simp: list_all_iff siteOS_def)
qed

lemma sample_domain: "validDomain ''a''"
  by code_simp

lemma nginx_rejects:
  "fst (validateAndReload rejectingShell []) = (Err (ValidationFailed ''bad'') :: (fs_error ngx_error, unit) result)"
proof -
  have "Validate (se_comment rejectingShell) ''nginx'' [''-t''] = Ok ()" "TrimSpace ''bad'' = ''bad''" by code_simp+
  moreover have "lb_String (writeAll [''bad'']) = ''bad''"
    by (simp add: writeAll_def lb_Write_def emptyBuffer_def lb_String_def maxCommandOutput_def Let_def)
  moreover have "se_exec rejectingShell [] c = \<lparr>oc_stdout = [], oc_stderr = [''bad''], oc_exit = Some 1,
     oc_failed = True, oc_deadline = False\<rparr>" for c
    by (simp add: rejectingShell_def)
  ultimately show ?thesis
    by (simp add: validateAndReload_def shell_Run_def Run_def Let_def)
qed

theorem site_apply_all_or_nothing_witness:
  "site_inv ''7'' (snd (agent_site_Apply ''7'' (\<lambda>_. rejectingShell) [] SiteUpsert ''a'' ''new'' (siteOS []))) \<and>
   file_content (snd (agent_site_Apply ''7'' (\<lambda>_. rejectingShell) [] SiteUpsert ''a'' ''new'' (siteOS []))) (configPath ''a'')
     \<in> {Some ''old'', Some ''new''}"
proof -
  have c: "file_content (siteOS []) (configPath ''a'') = Some ''old''" by code_simp
  obtain r s' where a: "agent_site_Apply ''7'' (\<lambda>_. rejectingShell) [] SiteUpsert ''a'' ''new'' (siteOS []) = (r, s')"
    by fastforce
  from site_apply_all_or_nothing [OF siteOS_inv a] site_paths(1) [OF sample_domain] site_paths(3) [OF sample_domain]
  show ?thesis using c by (auto simp: a site_contents_def split: if_splits)
qed

theorem read_error_loses_site_witness:
  "file_content (siteOS [True]) (configPath ''a'') = Some ''old'' \<and>
   (\<exists>s'. agent_site_Apply ''7'' (\<lambda>_. rejectingShell) [] SiteUpsert ''a'' ''new'' (siteOS [True]) =
      (Err (ValidationFailed ''bad''), s') \<and> file_content s' (configPath ''a'') = None)"
proof
  show "file_content (siteOS [True]) (configPath ''a'') = Some ''old''" by code_simp
  have rd: "fs_Read NewManager (configPath ''a'') (siteOS [True]) = (Err (FsOS Inspect EIO), siteOS [])"
    by code_simp
  show "\<exists>s'. agent_site_Apply ''7'' (\<lambda>_. rejectingShell) [] SiteUpsert ''a'' ''new'' (siteOS [True]) =
      (Err (ValidationFailed ''bad''), s') \<and> file_content s' (configPath ''a'') = None"
    by (rule read_error_loses_site [OF rd siteOS_inv sample_domain]) (simp_all add: nginx_rejects)
qed

definition wwwOS :: os where
  "wwwOS = \<lparr>tree = [([], sampleDir), ([''var''], sampleDir), ([''var'', ''www''], sampleDir)],
     umask = 0x12, faults = [], partial = 0\<rparr>"


end
