(* ===== verification/Agent_Firewall.thy ===== *)
theory Agent_Firewall
  imports Agent_Services
begin

text \<open>
  The Agent's firewall provider (\<open>internal/agent/firewall/ufw.go\<close>): the command lines it gives
  to ufw, the reading of ufw's status output, and the update of a rule, which adds the replacement,
  deletes the old rule and tries to undo the addition when the deletion fails.
\<close>

section \<open>Rules\<close>

datatype FirewallAction = ACTION_UNSPECIFIED | ACTION_ALLOW | ACTION_DENY | ACTION_REJECT
datatype FirewallDirection = DIRECTION_UNSPECIFIED | DIRECTION_IN | DIRECTION_OUT
datatype FirewallIPVersion = IP_UNSPECIFIED | IP_V4 | IP_V6 | IP_BOTH

record FirewallRuleRequest =
  rq_Id :: string
  rq_Action :: FirewallAction
  rq_Direction :: FirewallDirection
  rq_Source :: string
  rq_Destination :: string
  rq_IpVersion :: FirewallIPVersion
  rq_Port :: string
  rq_Protocol :: string
  rq_Comment :: string

record FirewallEntry =
  en_Id :: string
  en_Destination :: string
  en_Action :: FirewallAction
  en_Direction :: FirewallDirection
  en_Port :: string
  en_Protocol :: string
  en_IpVersion :: FirewallIPVersion

record FirewallStatus =
  fs_ProfileName :: string
  fs_Ipv6Enabled :: bool
  fs_Active :: bool
  fs_Logging :: string
  fs_DefaultIncoming :: string
  fs_DefaultOutgoing :: string
  fs_DefaultRouted :: string
  fs_RuleCount :: nat

datatype fw_error =
    UfwFailed string exec_error
  | UnsupportedFwAction
  | InvalidRuleId
  | RuleMissing string
  | ReplacementRejected string fw_error
  | ReplaceFailed string fw_error "fw_error option"
  | RollbackNotFound
  | ToggleNotReached string

type_synonym 'a fw = "(spawned list, fw_error, 'a) action"

definition ufw :: "shell_env \<Rightarrow> string \<Rightarrow> string list \<Rightarrow> string fw" where
  "ufw env what args = wrapS (UfwFailed what) (shell_Ok env ''ufw'' args)"

section \<open>Reading the status\<close>

definition upper_byte :: "char \<Rightarrow> char" where
  "upper_byte c = (if is_lower c then char_of (byte c - 32) else c)"

fun ruleAction :: "string list \<Rightarrow> FirewallAction" where
  "ruleAction [] = ACTION_UNSPECIFIED"
| "ruleAction (p # ps) =
     (let u = map upper_byte p
      in if u = ''ALLOW'' then ACTION_ALLOW else if u = ''DENY'' then ACTION_DENY
         else if u = ''REJECT'' then ACTION_REJECT else ruleAction ps)"

definition parseRule :: "string \<Rightarrow> string \<Rightarrow> FirewallEntry option" where
  "parseRule idStr rest =
     (let parts = Fields rest
      in if length parts < 3 then None
         else let dest = hd parts;
                  pp = SplitN2 SLASH dest;
                  hasSlash = (SLASH \<in> set dest)
              in Some \<lparr>en_Id = idStr,
                       en_Destination = (if hasSlash then ''Anywhere'' else dest),
                       en_Action = ruleAction (tl parts),
                       en_Direction = (if Contains rest '' IN '' then DIRECTION_IN
                                       else if Contains rest '' OUT '' then DIRECTION_OUT else DIRECTION_IN),
                       en_Port = (if hasSlash then pp ! 0 else []),
                       en_Protocol = (if hasSlash then pp ! 1 else []),
                       en_IpVersion = (if Contains rest ''(v6)'' then IP_V6 else IP_V4)\<rparr>)"

definition parseLine :: "string \<Rightarrow> FirewallEntry option" where
  "parseLine raw =
     (let line = TrimSpace raw
      in if \<not> HasPrefix line ''['' then None
         else case IndexByte (CHR '']'') line of
                None \<Rightarrow> None
              | Some i \<Rightarrow> parseRule (TrimSpace (take (i - 1) (drop 1 line))) (TrimSpace (drop (i + 1) line)))"

definition parseUFWStatus :: "string \<Rightarrow> FirewallEntry list" where
  "parseUFWStatus output = List.map_filter parseLine (Split NL output)"

definition fw_List :: "shell_env \<Rightarrow> FirewallEntry list fw" where
  "fw_List env = bindS (ufw env ''list'' [''status'', ''numbered'']) (\<lambda>out. retS (parseUFWStatus out))"

fun extractPolicy :: "string list \<Rightarrow> string \<Rightarrow> string" where
  "extractPolicy [] direction = []"
| "extractPolicy (p # ps) direction =
     (if Contains p (''('' @ direction @ '')'')
      then TrimPrefix (TrimSpace (hd (Split (CHR ''('') p))) ''Default: ''
      else extractPolicy ps direction)"

definition statusLine :: "string \<Rightarrow> FirewallStatus \<Rightarrow> FirewallStatus" where
  "statusLine raw st =
     (let line = TrimSpace raw; parts = Split (CHR '','') line
      in if HasPrefix line ''Status:''
         then st\<lparr>fs_Active := (TrimSpace (TrimPrefix line ''Status:'') = ''active'')\<rparr>
         else if HasPrefix line ''Logging:''
         then (case Split SPACE line of _ # l # _ \<Rightarrow> st\<lparr>fs_Logging := l\<rparr> | _ \<Rightarrow> st)
         else if HasPrefix line ''Default:''
         then let st1 = (if Contains line ''(incoming)'' then st\<lparr>fs_DefaultIncoming := extractPolicy parts ''incoming''\<rparr> else st);
                  st2 = (if Contains line ''(outgoing)'' then st1\<lparr>fs_DefaultOutgoing := extractPolicy parts ''outgoing''\<rparr> else st1)
              in if Contains line ''(routed)'' then st2\<lparr>fs_DefaultRouted := extractPolicy parts ''routed''\<rparr> else st2
         else st)"

definition fw_Status :: "shell_env \<Rightarrow> FirewallStatus fw" where
  "fw_Status env =
     bindS (ufw env ''status'' [''status'', ''verbose'']) (\<lambda>out log.
       let st = fold statusLine (Split NL out)
                  \<lparr>fs_ProfileName = ''ufw'', fs_Ipv6Enabled = False, fs_Active = False, fs_Logging = [], fs_DefaultIncoming = [], fs_DefaultOutgoing = [],
                   fs_DefaultRouted = [], fs_RuleCount = 0\<rparr>
       in case fw_List env log of
            (Inl _, log') \<Rightarrow> (Ok (st\<lparr>fs_Ipv6Enabled := True\<rparr>), log')
          | (Inr rules, log') \<Rightarrow> (Ok (st\<lparr>fs_RuleCount := length rules, fs_Ipv6Enabled := True\<rparr>), log'))"

section \<open>Changing rules\<close>

definition actionWord :: "FirewallAction \<Rightarrow> string option" where
  "actionWord a = (case a of ACTION_ALLOW \<Rightarrow> Some ''allow'' | ACTION_DENY \<Rightarrow> Some ''deny''
     | ACTION_REJECT \<Rightarrow> Some ''reject'' | ACTION_UNSPECIFIED \<Rightarrow> None)"

definition ruleArgs :: "FirewallRuleRequest \<Rightarrow> string list" where
  "ruleArgs req =
     (case rq_Direction req of DIRECTION_IN \<Rightarrow> [''in''] | DIRECTION_OUT \<Rightarrow> [''out''] | _ \<Rightarrow> []) @
     (let proto = (rq_Protocol req \<noteq> [] \<and> rq_Protocol req \<noteq> ''any'')
      in if rq_Source req = [] \<and> rq_Destination req = [] \<and> rq_IpVersion req = IP_BOTH
         then [if proto then rq_Port req @ ''/'' @ rq_Protocol req else rq_Port req]
         else (if proto then [''proto'', rq_Protocol req] else []) @
              [''from'', if rq_Source req = [] then ''any'' else rq_Source req,
               ''to'', if rq_Destination req = [] then ''any'' else rq_Destination req] @
              (if rq_Port req \<noteq> [] then [''port'', rq_Port req] else [])) @
     (if rq_Comment req \<noteq> [] then [''comment'', rq_Comment req] else [])"

definition fw_addRule :: "shell_env \<Rightarrow> FirewallRuleRequest \<Rightarrow> unit fw" where
  "fw_addRule env req =
     (case actionWord (rq_Action req) of
        None \<Rightarrow> failS UnsupportedFwAction
      | Some w \<Rightarrow> bindS (ufw env ''rule'' (w # ruleArgs req)) (\<lambda>_. retS ()))"

definition ruleIDPattern :: rexp where
  "ruleIDPattern = RSeq (RCls (in_range 49 57)) (RUpto 5 (RCls is_digit))"

definition fw_DeleteRule :: "shell_env \<Rightarrow> string \<Rightarrow> unit fw" where
  "fw_DeleteRule env rid =
     bindS (guardS (\<not> MatchString ruleIDPattern rid) InvalidRuleId) (\<lambda>_.
     bindS (ufw env ''delete'' [''--force'', ''delete'', rid]) (\<lambda>_. retS ()))"

definition matchesReplacement :: "string \<Rightarrow> FirewallRuleRequest \<Rightarrow> FirewallEntry \<Rightarrow> bool" where
  "matchesReplacement originalID rep rule =
     (en_Id rule \<noteq> originalID \<and> en_Port rule = rq_Port rep \<and> en_Protocol rule = rq_Protocol rep \<and>
      en_Action rule = rq_Action rep \<and> en_Direction rule = rq_Direction rep)"

definition deleteMatchingReplacement :: "shell_env \<Rightarrow> string \<Rightarrow> FirewallRuleRequest \<Rightarrow> unit fw" where
  "deleteMatchingReplacement env originalID rep =
     bindS (fw_List env) (\<lambda>rules.
       case find (matchesReplacement originalID rep) (rev rules) of
         Some rule \<Rightarrow> fw_DeleteRule env (en_Id rule)
       | None \<Rightarrow> failS RollbackNotFound)"

definition fw_updateRule :: "shell_env \<Rightarrow> FirewallRuleRequest \<Rightarrow> unit fw" where
  "fw_updateRule env req =
     (let rid = rq_Id req; rep = req\<lparr>rq_Id := []\<rparr>
      in bindS (guardS (\<not> MatchString ruleIDPattern rid) InvalidRuleId) (\<lambda>_.
         bindS (fw_List env) (\<lambda>rules.
         bindS (guardS (\<not> list_ex (\<lambda>r. en_Id r = rid) rules) (RuleMissing rid)) (\<lambda>_.
         bindS (wrapS (ReplacementRejected rid) (fw_addRule env rep)) (\<lambda>_ log.
           case fw_DeleteRule env rid log of
             (Inr _, log1) \<Rightarrow> (Ok (), log1)
           | (Inl e, log1) \<Rightarrow>
               (case deleteMatchingReplacement env rid rep log1 of
                  (Inl e2, log2) \<Rightarrow> (Err (ReplaceFailed rid e (Some e2)), log2)
                | (Inr _, log2) \<Rightarrow> (Err (ReplaceFailed rid e None), log2)))))))"

definition fw_AddRule :: "shell_env \<Rightarrow> FirewallRuleRequest \<Rightarrow> unit fw" where
  "fw_AddRule env req = (if rq_Id req \<noteq> [] then fw_updateRule env req else fw_addRule env req)"

definition fw_Toggle :: "shell_env \<Rightarrow> bool \<Rightarrow> unit fw" where
  "fw_Toggle env enable =
     (let action = (if enable then ''enable'' else ''disable'')
      in bindS (ufw env action [''--force'', action]) (\<lambda>_.
         bindS (fw_Status env) (\<lambda>st.
         guardS (fs_Active st \<noteq> enable) (ToggleNotReached action))))"

definition fw_Reset :: "shell_env \<Rightarrow> unit fw" where
  "fw_Reset env = bindS (ufw env ''reset'' [''--force'', ''reset'']) (\<lambda>_. retS ())"

section \<open>The commands that reach ufw\<close>

definition succeeded :: "shell_env \<Rightarrow> spawned list \<Rightarrow> spawned \<Rightarrow> bool" where
  "succeeded env log c = (\<not> oc_failed (se_exec env log c))"

lemma ufw_step:
  assumes "ufw env what args log = (r, log')"
  obtains (refused) e where "log' = log" "r = Err e"
  | (ran) c where "log' = log @ [c]" "sp_args c = args" "is_ok r = succeeded env log c"
proof (cases "Validate (se_comment env) ''ufw'' args")
  case (Inl e)
  then show thesis
    using assms refused by (auto simp: ufw_def wrapS_def shell_Ok_def shell_Run_rejected)
next
  case (Inr u)
  define c where "c = \<lparr>sp_binary = ''ufw'', sp_args = args, sp_env = restrictedEnvironment restrictedPath,
    sp_timeout = withCommandTimeout (se_deadline env) ''ufw''\<rparr>"
  have "log' = log @ [c]" "sp_args c = args" "is_ok r = succeeded env log c"
    using assms Inr by (auto simp: ufw_def wrapS_def shell_Ok_def shell_Run_def Run_def Let_def c_def succeeded_def
        split: if_splits)
  then show thesis by (rule ran)
qed

lemma fw_List_step:
  assumes "fw_List env log = (r, log')"
  obtains (refused) e where "log' = log" "r = Err e"
  | (ran) c where "log' = log @ [c]" "sp_args c = [''status'', ''numbered'']"
proof -
  obtain r1 where "ufw env ''list'' [''status'', ''numbered''] log = (r1, log')" "is_ok r1 = is_ok r"
    using assms unfolding fw_List_def by (cases rule: bindS_cases) auto
  then show thesis using refused ran by (cases r) (auto elim!: ufw_step)
qed

lemma fw_DeleteRule_step:
  assumes "fw_DeleteRule env rid log = (r, log')"
  obtains (refused) e where "log' = log" "r = Err e"
  | (ran) c where "log' = log @ [c]" "sp_args c = [''--force'', ''delete'', rid]" "is_ok r = succeeded env log c"
proof (cases "MatchString ruleIDPattern rid")
  case False
  then show thesis using assms refused by (auto simp: fw_DeleteRule_def bindS_def guardS_def)
next
  case True
  obtain r1 where "ufw env ''delete'' [''--force'', ''delete'', rid] log = (r1, log')" "is_ok r1 = is_ok r"
    using assms True unfolding fw_DeleteRule_def
    by (auto simp: bindS_def guardS_def split: prod.splits sum.splits)
  then show thesis using refused ran by (cases r) (auto elim!: ufw_step)
qed

lemma fw_addRule_step:
  assumes "fw_addRule env req log = (r, log')"
  obtains (refused) e where "log' = log" "r = Err e"
  | (ran) w c where "log' = log @ [c]" "actionWord (rq_Action req) = Some w" "sp_args c = w # ruleArgs req"
      "is_ok r = succeeded env log c"
proof (cases "actionWord (rq_Action req)")
  case None
  then show thesis using assms refused by (auto simp: fw_addRule_def)
next
  case (Some w)
  obtain r1 where "ufw env ''rule'' (w # ruleArgs req) log = (r1, log')" "is_ok r1 = is_ok r"
    using assms Some unfolding fw_addRule_def
    by (auto simp: bindS_def split: prod.splits sum.splits)
  then show thesis using refused ran Some by (cases r) (auto elim!: ufw_step)
qed

lemma rollback_step:
  assumes "deleteMatchingReplacement env rid rep log = (r, log')"
  shows "\<exists>cmds. log' = log @ cmds \<and> (\<forall>c \<in> set cmds. sp_args c \<noteq> [''--force'', ''delete'', rid])"
  using assms unfolding deleteMatchingReplacement_def
proof (cases rule: bindS_cases)
  case (err e)
  then show ?thesis by (auto elim!: fw_List_step)
next
  case (ok rules log1)
  obtain l where l: "log1 = log @ l" "\<forall>c \<in> set l. sp_args c \<noteq> [''--force'', ''delete'', rid]"
    using ok(1) by (auto elim!: fw_List_step)
  show ?thesis
  proof (cases "find (matchesReplacement rid rep) (rev rules)")
    case None
    then show ?thesis using ok(2) l by auto
  next
    case (Some rule)
    then have "en_Id rule \<noteq> rid" by (auto simp: find_Some_iff matchesReplacement_def)
    then show ?thesis using ok(2) l Some by (auto elim!: fw_DeleteRule_step)
  qed
qed

text \<open>How far an update got: the listing, the addition, the deletion and the rollback.\<close>

lemma updateRule_steps:
  assumes "fw_updateRule env req log = (r, log')"
  shows "(\<exists>cmds. log' = log @ cmds \<and> \<not> is_ok r \<and> (\<forall>c \<in> set cmds. sp_args c \<noteq> [''--force'', ''delete'', rq_Id req])) \<or>
    (\<exists>l w a rest. log' = log @ [l, a] @ rest \<and> actionWord (rq_Action req) = Some w \<and>
       sp_args a = w # ruleArgs req \<and> succeeded env (log @ [l]) a \<and>
       (is_ok r \<longrightarrow> (\<exists>d. rest = [d] \<and> sp_args d = [''--force'', ''delete'', rq_Id req] \<and> succeeded env (log @ [l, a]) d)))"
    (is "?early \<or> ?late")
proof -
  let ?rid = "rq_Id req" and ?rep = "req\<lparr>rq_Id := []\<rparr>"
  have word: "actionWord (rq_Action req) = Some w \<Longrightarrow> w \<noteq> ''--force''" for w
    by (auto simp: actionWord_def split: FirewallAction.splits)
  have ra: "ruleArgs ?rep = ruleArgs req" by (simp add: ruleArgs_def)
  from assms show ?thesis
    unfolding fw_updateRule_def Let_def
  proof (cases rule: bindS_cases)
    case (err e)
    then show ?thesis by (auto simp: guardS_def split: if_splits)
  next
    case (ok u log0)
    then have "log0 = log" by (auto simp: guardS_def split: if_splits)
    from ok(2) [unfolded this] show ?thesis
    proof (cases rule: bindS_cases)
      case (err e)
      then show ?thesis by (auto elim!: fw_List_step)
    next
      case (ok rules log1)
      obtain l where l: "log1 = log @ [l]" "sp_args l = [''status'', ''numbered'']"
        using ok(1) by (auto elim!: fw_List_step)
      from ok(2) show ?thesis
      proof (cases rule: bindS_cases)
        case (err e)
        then show ?thesis using l by (auto simp: guardS_def split: if_splits)
      next
        case (ok u log2)
        then have log2: "log2 = log1" by (auto simp: guardS_def split: if_splits)
        from ok(2) [unfolded log2] show ?thesis
        proof (cases rule: wrap_bindS_cases)
          case (err e)
          from err(1) have ?early
            by (cases rule: fw_addRule_step) (use l err(2) word in auto)
          then show ?thesis ..
        next
          case (ok u log3)
          from ok(1) obtain w a where a: "log3 = log1 @ [a]" "actionWord (rq_Action req) = Some w"
              "sp_args a = w # ruleArgs req" "succeeded env log1 a"
            by (cases rule: fw_addRule_step) (auto simp: ra)
          obtain r4 log4 where d: "fw_DeleteRule env ?rid log3 = (r4, log4)" by fastforce
          show ?thesis
          proof (cases r4)
            case (Inr v)
            from d obtain c where "log4 = log3 @ [c]" "sp_args c = [''--force'', ''delete'', ?rid]" "succeeded env log3 c"
              by (cases rule: fw_DeleteRule_step) (auto simp: Inr)
            then show ?thesis using ok(2) d Inr a l by auto
          next
            case (Inl e)
            obtain r5 log5 where rb: "deleteMatchingReplacement env ?rid ?rep log4 = (r5, log5)" by fastforce
            have "\<not> is_ok r \<and> log' = log5" using ok(2) d Inl rb by (cases r5) auto
            moreover obtain x where "log4 = log3 @ x" using d by (cases rule: fw_DeleteRule_step) auto
            moreover obtain y where "log5 = log4 @ y" using rollback_step [OF rb] by blast
            ultimately show ?thesis using a l by auto
          qed
        qed
      qed
    qed
  qed
qed

section \<open>Properties\<close>

lemma ufw_grows [keeps_intro]: "keeps (grows env) (ufw env what args)"
  unfolding ufw_def by (intro keeps_intro)

lemma fw_List_grows [keeps_intro]: "keeps (grows env) (fw_List env)"
  unfolding fw_List_def by (intro keeps_intro grows_order)

lemma fw_DeleteRule_grows [keeps_intro]: "keeps (grows env) (fw_DeleteRule env rid)"
  unfolding fw_DeleteRule_def by (intro keeps_intro grows_order)

lemma fw_addRule_grows [keeps_intro]: "keeps (grows env) (fw_addRule env req)"
  unfolding fw_addRule_def by (cases "actionWord (rq_Action req)") (simp_all add: keeps_intro)

lemma deleteMatchingReplacement_grows [keeps_intro]: "keeps (grows env) (deleteMatchingReplacement env rid rep)"
proof -
  have "keeps (grows env) (case x of Some rule \<Rightarrow> fw_DeleteRule env (en_Id rule) | None \<Rightarrow> failS RollbackNotFound)" for x
    by (cases x) (simp_all add: keeps_intro)
  then show ?thesis
    unfolding deleteMatchingReplacement_def by (intro keeps_bindS fw_List_grows grows_order)
qed

lemma fw_updateRule_grows [keeps_intro]: "keeps (grows env) (fw_updateRule env req)"
proof -
  let ?rid = "rq_Id req" and ?rep = "req\<lparr>rq_Id := []\<rparr>"
  have last: "keeps (grows env) (\<lambda>log.
       case fw_DeleteRule env ?rid log of
         (Inr _, log1) \<Rightarrow> (Ok (), log1)
       | (Inl e, log1) \<Rightarrow>
           (case deleteMatchingReplacement env ?rid ?rep log1 of
              (Inl e2, log2) \<Rightarrow> (Err (ReplaceFailed ?rid e (Some e2)), log2)
            | (Inr _, log2) \<Rightarrow> (Err (ReplaceFailed ?rid e None), log2)))"
    (is "keeps _ ?m")
  proof (rule keepsI)
    fix log
    obtain r1 log1 where d: "fw_DeleteRule env ?rid log = (r1, log1)" by fastforce
    obtain r2 log2 where b: "deleteMatchingReplacement env ?rid ?rep log1 = (r2, log2)" by fastforce
    have "grows env log log1" "grows env log1 log2"
      using keepsD [OF fw_DeleteRule_grows d] keepsD [OF deleteMatchingReplacement_grows b] .
    then show "grows env log (snd (?m log))"
      using grows_trans by (cases r1; cases r2) (auto simp: d b)
  qed
  show ?thesis
    unfolding fw_updateRule_def Let_def by (intro keeps_intro grows_order last)
qed

lemma fw_Status_grows [keeps_intro]: "keeps (grows env) (fw_Status env)"
proof -
  have "keeps (grows env) (\<lambda>log. case fw_List env log of (Inl _, log') \<Rightarrow> (Ok a, log') | (Inr rules, log') \<Rightarrow> (Ok (b rules), log'))"
    (is "keeps _ ?m") for a b
  proof (rule keepsI)
    fix log
    obtain r log' where l: "fw_List env log = (r, log')" by fastforce
    then show "grows env log (snd (?m log))" using keepsD [OF fw_List_grows l] by (cases r) simp_all
  qed
  then show ?thesis
    unfolding fw_Status_def Let_def by (intro keeps_bindS ufw_grows grows_order)
qed

lemma fw_grows [keeps_intro]:
  "keeps (grows env) (fw_AddRule env req)" "keeps (grows env) (fw_Toggle env b)" "keeps (grows env) (fw_Reset env)"
proof -
  show "keeps (grows env) (fw_AddRule env req)"
    unfolding fw_AddRule_def by (cases "rq_Id req = []") (simp_all add: keeps_intro)
  show "keeps (grows env) (fw_Toggle env b)" "keeps (grows env) (fw_Reset env)"
    unfolding fw_Toggle_def fw_Reset_def Let_def by (intro keeps_intro grows_order)+
qed

text \<open>C12. Updating a firewall rule never leaves the host without it: the command that deletes the old
  rule is given only after the command that adds the replacement has succeeded, and an update that
  reports success has run exactly the listing, the addition and the deletion, the last two
  successfully.\<close>

theorem update_adds_before_delete:
  assumes "rq_Id req \<noteq> []" "fw_AddRule env req log = (r, log @ cmds)"
  shows "((\<exists>c \<in> set cmds. sp_args c = [''--force'', ''delete'', rq_Id req]) \<longrightarrow>
           (\<exists>l w a rest. cmds = l # a # rest \<and> actionWord (rq_Action req) = Some w \<and>
              sp_args a = w # ruleArgs req \<and> succeeded env (log @ [l]) a)) \<and>
         (is_ok r \<longrightarrow>
           (\<exists>l a d. cmds = [l, a, d] \<and> succeeded env (log @ [l]) a \<and>
              sp_args d = [''--force'', ''delete'', rq_Id req] \<and> succeeded env (log @ [l, a]) d))"
proof -
  have "fw_updateRule env req log = (r, log @ cmds)" using assms by (simp add: fw_AddRule_def)
  from updateRule_steps [OF this] show ?thesis by (elim disjE exE conjE) auto
qed

definition ruleShell :: shell_env where
  "ruleShell = sampleShell\<lparr>se_exec := (\<lambda>log c. \<lparr>oc_stdout =
       [if sp_args c = [''status'', ''numbered''] then ''[ 1] 22/tcp ALLOW IN Anywhere'' else []],
     oc_stderr = [], oc_exit = Some 0, oc_failed = False, oc_deadline = False\<rparr>)\<rparr>"

definition sampleRule :: FirewallRuleRequest where
  "sampleRule = \<lparr>rq_Id = ''1'', rq_Action = ACTION_ALLOW, rq_Direction = DIRECTION_IN, rq_Source = [], rq_Destination = [],
     rq_IpVersion = IP_BOTH, rq_Port = ''2222'', rq_Protocol = ''tcp'', rq_Comment = []\<rparr>"

theorem update_adds_before_delete_witness:
  "\<exists>cmds r. fw_AddRule ruleShell sampleRule [] = (r, [] @ cmds) \<and>
     (is_ok r \<longrightarrow> (\<exists>l a d. cmds = [l, a, d] \<and> succeeded ruleShell [l] a \<and>
        sp_args d = [''--force'', ''delete'', ''1''] \<and> succeeded ruleShell [l, a] d))"
proof -
  obtain r cmds where run: "fw_AddRule ruleShell sampleRule [] = (r, [] @ cmds)" by fastforce
  have "rq_Id sampleRule \<noteq> []" "rq_Id sampleRule = ''1''" by (simp_all add: sampleRule_def)
  then show ?thesis using update_adds_before_delete [OF _ run] run by auto
qed

end
