(* ===== verification/Agent_Archive.thy ===== *)
theory Agent_Archive
  imports Agent_Filesystem Go_Links
begin

text \<open>
  The Agent's archive support (\<open>internal/agent/archive/manager.go\<close>) and the two handlers that use
  it. The decoders of the standard library are parameters: they turn the bytes of an archive into the
  entries the code loops over. Unlike the file manager, this code opens paths that may run through
  symbolic links, so \<open>MkdirAll\<close> and \<open>OpenFile\<close> appear here in the form that follows them.
  Sizes are 64-bit words, read as signed where the code compares int64 values.
\<close>

definition maxArchiveEntries :: nat where
  "maxArchiveEntries = 10000"

definition maxExtractedBytes :: int where
  "maxExtractedBytes = 2 ^ 30"

datatype arch_error =
    InvalidSourceCount
  | UnsupportedFormat string
  | CreateFailed string
  | ArchOS string os_error
  | UnsupportedArchive
  | OpenArchive
  | TooManyEntries
  | Cancelled
  | UnsupportedEntry string
  | SizeLimit
  | InvalidEntryPath
  | EntryEscapes string
  | SymlinkParent
  | ReadTar
  | TruncatedEntry
  | WriteEntry
  | CloseEntry

type_synonym 'a arch = "(os, arch_error, 'a) action"

section \<open>Creating archives\<close>

definition archiveCommand :: "string \<Rightarrow> string \<Rightarrow> string list \<Rightarrow> (string \<times> string list) option" where
  "archiveCommand format dest files =
     (if format = ''zip'' then Some (''zip'', [''-r'', ''-q'', dest] @ files)
      else if format = ''tar'' then Some (''tar'', [''-cf'', dest, ''--''] @ files)
      else if format = ''tar.gz'' then Some (''tar'', [''-czf'', dest, ''--''] @ files)
      else if format = ''tar.xz'' then Some (''tar'', [''-cJf'', dest, ''--''] @ files)
      else if format = ''tar.bz2'' then Some (''tar'', [''-cjf'', dest, ''--''] @ files)
      else if format = ''7z'' then Some (''7z'', [''a'', ''--'', dest] @ files)
      else None)"

text \<open>The buffer that keeps the first bytes of the archiver's output.\<close>

record limitedWriter =
  lw_buffer :: string
  lw_remaining :: int
  lw_truncated :: bool

definition lw_Write :: "string \<Rightarrow> limitedWriter \<Rightarrow> limitedWriter" where
  "lw_Write value w =
     (let (v, cut) = (if int (length value) > lw_remaining w
                      then (take (nat (max 0 (lw_remaining w))) value, True) else (value, lw_truncated w))
      in w\<lparr>lw_buffer := lw_buffer w @ v, lw_remaining := lw_remaining w - int (length v), lw_truncated := cut\<rparr>)"

definition lw_String :: "limitedWriter \<Rightarrow> string" where
  "lw_String w = (if lw_truncated w then lw_buffer w @ [NL] @ ''[output truncated]'' else lw_buffer w)"

text \<open>\<open>run\<close> is the process: the pieces it writes and whether it succeeded.\<close>

definition limitedCombinedOutput ::
  "(string \<Rightarrow> string list \<Rightarrow> string list \<times> bool) \<Rightarrow> int \<Rightarrow> string \<Rightarrow> string list \<Rightarrow> string \<times> bool" where
  "limitedCombinedOutput run limit command args =
     (let (pieces, success) = run command args
      in (lw_String (fold lw_Write pieces \<lparr>lw_buffer = [], lw_remaining = limit, lw_truncated = False\<rparr>), success))"

definition Create ::
  "(string \<Rightarrow> string list \<Rightarrow> string list \<times> bool) \<Rightarrow> string \<Rightarrow> string \<Rightarrow> string list \<Rightarrow> (arch_error, unit) result" where
  "Create run format dest files =
     (if files = [] \<or> length files > maxArchiveEntries then Err InvalidSourceCount
      else case archiveCommand format dest files of
             None \<Rightarrow> Err (UnsupportedFormat format)
           | Some (command, args) \<Rightarrow>
               let (output, success) = limitedCombinedOutput run (2 ^ 20) command args
               in if success then Ok () else Err (CreateFailed output))"

section \<open>Entries\<close>

definition safeTarget :: "string \<Rightarrow> string \<Rightarrow> (arch_error, string) result" where
  "safeTarget root name =
     (if name = [] \<or> IsAbs name \<or> HasPrefix name ''/'' \<or> NUL \<in> set name then Err InvalidEntryPath
      else let target = PathJoin [root, name]
           in if \<not> HasPrefix target (Clean root @ ''/'') then Err (EntryEscapes name) else Ok target)"

definition ensureSafeParent :: "path \<Rightarrow> unit arch" where
  "ensureSafeParent target =
     (let parent = butlast target
      in bindS (wrapS (ArchOS ''create parent'') (MkdirAllFollow parent 0x1E8)) (\<lambda>_.
         bindS (wrapS (ArchOS ''resolve parent'') (EvalSymlinks parent)) (\<lambda>resolved.
         guardS (resolved \<noteq> parent) SymlinkParent)))"

datatype tar_type = TypeDir | TypeReg | TypeOther

record tar_header =
  th_Name :: string
  th_Type :: tar_type
  th_Size :: "64 word"
  th_Mode :: "32 word"

text \<open>What the reader delivers: an entry with the bytes that can be read for it, or an error. The end
  of the list is the end of the archive.\<close>

datatype tar_event = TarEntry tar_header string | TarBroken

text \<open>\<open>io.CopyN\<close> of \<open>n\<close> bytes into the opened file, then Close.\<close>

definition copyN :: "path \<Rightarrow> nat \<Rightarrow> string \<Rightarrow> unit arch" where
  "copyN r n data s =
     (case os_WriteData r (take n data) s of
        (copied, s1) \<Rightarrow>
          (case os_Sync s1 of
             (closed, s2) \<Rightarrow>
               (if \<not> is_ok copied \<or> length data < n then Err TruncatedEntry
                else if \<not> is_ok closed then Err CloseEntry else Ok (), s2)))"

definition writeTAREntry :: "path \<Rightarrow> 64 word \<Rightarrow> 32 word \<Rightarrow> string \<Rightarrow> unit arch" where
  "writeTAREntry target sz mode data =
     bindS (ensureSafeParent target) (\<lambda>_.
     let m0 = Perm mode AND NOT 0x12; m = (if m0 = 0 then 0x1A0 else m0)
     in bindS (wrapS (ArchOS ''create entry'') (OpenTruncFollow target m)) (\<lambda>r.
        copyN r (unat sz) data))"

fun extractTAR :: "(nat \<Rightarrow> bool) \<Rightarrow> string \<Rightarrow> nat \<Rightarrow> 64 word \<Rightarrow> tar_event list \<Rightarrow> unit arch" where
  "extractTAR cancelled dest entries tot [] s = (Ok (), s)"
| "extractTAR cancelled dest entries tot (TarBroken # es) s = (Err ReadTar, s)"
| "extractTAR cancelled dest entries tot (TarEntry h data # es) s =
     (if cancelled entries then (Err Cancelled, s)
      else if Suc entries > maxArchiveEntries then (Err TooManyEntries, s)
      else case safeTarget dest (th_Name h) of
             Inl e \<Rightarrow> (Err e, s)
           | Inr target \<Rightarrow>
               (case th_Type h of
                  TypeDir \<Rightarrow>
                    bindS (wrapS (ArchOS ''create directory'') (MkdirAllFollow (path_comps target) 0x1E8))
                      (\<lambda>_. extractTAR cancelled dest (Suc entries) tot es) s
                | TypeReg \<Rightarrow>
                    if sint (th_Size h) < 0 \<or> sint (tot + th_Size h) > maxExtractedBytes then (Err SizeLimit, s)
                    else bindS (writeTAREntry (path_comps target) (th_Size h) (th_Mode h) data)
                           (\<lambda>_. extractTAR cancelled dest (Suc entries) (tot + th_Size h) es) s
                | TypeOther \<Rightarrow> (Err (UnsupportedEntry (th_Name h)), s)))"

record zip_entry =
  ze_Name :: string
  ze_Mode :: "32 word"
  ze_UncompressedSize64 :: "64 word"
  ze_Open :: bool
  ze_Data :: string
  ze_ReadFails :: bool

definition ModeDir :: "32 word" where
  "ModeDir = 0x80000000"

definition ModeSymlink :: "32 word" where
  "ModeSymlink = 0x08000000"

definition ModeType :: "32 word" where
  "ModeType = 0x8F280000"

definition isDirMode :: "32 word \<Rightarrow> bool" where
  "isDirMode mode = (mode AND ModeDir \<noteq> 0)"

text \<open>\<open>io.Copy\<close> of at most one byte more than the limit, then Close.\<close>

definition copyLimited :: "path \<Rightarrow> zip_entry \<Rightarrow> unit arch" where
  "copyLimited r e s =
     (let n = nat (maxExtractedBytes + 1)
      in case os_WriteData r (take n (ze_Data e)) s of
           (copied, s1) \<Rightarrow>
             (case os_Sync s1 of
                (closed, s2) \<Rightarrow>
                  (if \<not> is_ok copied \<or> (ze_ReadFails e \<and> length (ze_Data e) < n) then Err WriteEntry
                   else if \<not> is_ok closed then Err CloseEntry else Ok (), s2)))"

definition writeZIPEntry :: "zip_entry \<Rightarrow> path \<Rightarrow> unit arch" where
  "writeZIPEntry e target =
     bindS (ensureSafeParent target) (\<lambda>_.
     bindS (guardS (\<not> ze_Open e) OpenArchive) (\<lambda>_.
     let m0 = Perm (ze_Mode e); m = (if m0 = 0 then 0x1A0 else m0) AND NOT 0x12
     in bindS (wrapS (ArchOS ''create entry'') (OpenTruncFollow target m)) (\<lambda>r. copyLimited r e)))"

fun zipEntries :: "(nat \<Rightarrow> bool) \<Rightarrow> string \<Rightarrow> nat \<Rightarrow> 64 word \<Rightarrow> zip_entry list \<Rightarrow> unit arch" where
  "zipEntries cancelled dest i tot [] s = (Ok (), s)"
| "zipEntries cancelled dest i tot (e # es) s =
     (if cancelled i then (Err Cancelled, s)
      else case safeTarget dest (ze_Name e) of
             Inl x \<Rightarrow> (Err x, s)
           | Inr target \<Rightarrow>
               let mode = ze_Mode e in
               if mode AND ModeSymlink \<noteq> 0 \<or> (mode AND ModeType \<noteq> 0 \<and> \<not> isDirMode mode)
               then (Err (UnsupportedEntry (ze_Name e)), s)
               else if isDirMode mode
               then bindS (wrapS (ArchOS ''create directory'') (MkdirAllFollow (path_comps target) 0x1E8))
                      (\<lambda>_. zipEntries cancelled dest (Suc i) tot es) s
               else let tot' = tot + ze_UncompressedSize64 e
                    in if sint tot' > maxExtractedBytes then (Err SizeLimit, s)
                       else bindS (writeZIPEntry e (path_comps target))
                              (\<lambda>_. zipEntries cancelled dest (Suc i) tot' es) s)"

section \<open>Extracting\<close>

record codecs =
  cd_unzip :: "string \<Rightarrow> zip_entry list option"
  cd_gunzip :: "string \<Rightarrow> string option"
  cd_untar :: "string \<Rightarrow> tar_event list"

definition fileBytes :: "node \<Rightarrow> string" where
  "fileBytes n = (case n of FileN c _ \<Rightarrow> c | _ \<Rightarrow> [])"

definition extractZIP :: "codecs \<Rightarrow> (nat \<Rightarrow> bool) \<Rightarrow> path \<Rightarrow> string \<Rightarrow> unit arch" where
  "extractZIP cd cancelled source dest =
     bindS (wrapS (\<lambda>_. OpenArchive) (os_Open source)) (\<lambda>n.
       case cd_unzip cd (fileBytes n) of
         None \<Rightarrow> failS OpenArchive
       | Some entries \<Rightarrow>
           if length entries > maxArchiveEntries then failS TooManyEntries
           else zipEntries cancelled dest 0 0 entries)"

definition extractTARFile :: "codecs \<Rightarrow> (nat \<Rightarrow> bool) \<Rightarrow> path \<Rightarrow> string \<Rightarrow> bool \<Rightarrow> unit arch" where
  "extractTARFile cd cancelled source dest compressed =
     bindS (wrapS (\<lambda>_. OpenArchive) (os_Open source)) (\<lambda>n.
       if compressed then
         (case cd_gunzip cd (fileBytes n) of
            None \<Rightarrow> failS OpenArchive
          | Some raw \<Rightarrow> extractTAR cancelled dest 0 0 (cd_untar cd raw))
       else extractTAR cancelled dest 0 0 (cd_untar cd (fileBytes n)))"

definition Extract :: "codecs \<Rightarrow> (nat \<Rightarrow> bool) \<Rightarrow> string \<Rightarrow> string \<Rightarrow> unit arch" where
  "Extract cd cancelled source dest =
     bindS (wrapS (ArchOS ''create destination'') (MkdirAllFollow (path_comps dest) 0x1E8)) (\<lambda>_.
     let lower = ToLower source; src = path_comps source
     in if HasSuffix lower ''.zip'' then extractZIP cd cancelled src dest
        else if HasSuffix lower ''.tar'' then extractTARFile cd cancelled src dest False
        else if HasSuffix lower ''.tar.gz'' \<or> HasSuffix lower ''.tgz'' then extractTARFile cd cancelled src dest True
        else failS UnsupportedArchive)"

section \<open>Where entries go\<close>

lemma safeTarget_inside:
  assumes "safeTarget root name = Ok t" "IsAbs root"
  shows "strict_prefix (path_comps root) (path_comps t) \<and> plain_comps (path_comps t)"
proof -
  let ?j = "root @ ''/'' @ name"
  have name: "name \<noteq> []" "root \<noteq> []" using assms by (auto simp: safeTarget_def split: if_splits)
  have t: "t = Clean ?j" "HasPrefix t (Clean root @ ''/'')"
    using assms(1) name by (auto simp: safeTarget_def PathJoin_def Let_def split: if_splits)
  have abs: "IsAbs ?j" using assms(2) by (cases root) auto
  define xs rs where "xs = path_comps ?j" and "rs = path_comps root"
  have plain: "plain_comps xs" "plain_comps rs"
    using path_comps_plain [OF abs] path_comps_plain [OF assms(2)] by (auto simp: xs_def rs_def)
  have "HasPrefix (abs_path xs) (abs_path rs @ ''/'')"
    using t(1,2) by (simp only: Clean_abs [OF abs] Clean_abs [OF assms(2)] xs_def rs_def)
  then obtain rest where j: "Join ''/'' xs = Join ''/'' rs @ SLASH # rest"
    by (auto simp: HasPrefix_iff abs_path_def)
  then have "xs \<noteq> []" by auto
  then have "xs = Split SLASH (Join ''/'' rs) @ Split SLASH rest"
    using j Split_Join [OF _ plain_comps_no_slash [OF plain(1)]] by (metis Split_append_gen)
  moreover have "Split SLASH (Join ''/'' rs) = (if rs = [] then [[]] else rs)"
    using Split_Join [OF _ plain_comps_no_slash [OF plain(2)]] by auto
  ultimately have "strict_prefix rs xs"
    using plain(1) by (auto simp: strict_prefix_def prefix_def plain_comp_def split: if_splits)
  then show ?thesis
    using plain(1) by (simp only: t(1) path_comps_Clean [OF abs] xs_def rs_def simp_thms)
qed

text \<open>No symbolic link on the way to the destination or below it.\<close>

definition no_links :: "path \<Rightarrow> os \<Rightarrow> bool" where
  "no_links D s = (\<forall>q. prefix q D \<or> prefix D q \<longrightarrow> \<not> is_link s q)"

definition confined_step :: "path \<Rightarrow> os \<Rightarrow> os \<Rightarrow> bool" where
  "confined_step D s s' =
     (no_links D s \<longrightarrow> only (\<lambda>x. prefix D x \<or> (prefix x D \<and> nodes s x = None)) s s' \<and> no_links D s')"

lemma confined_order [intro, simp]: "reflp (confined_step D)" "transp (confined_step D)"
  unfolding confined_step_def reflp_def transp_def only_def by (auto, metis+)

lemma confined_trans: "confined_step D a b \<Longrightarrow> confined_step D b c \<Longrightarrow> confined_step D a c"
  using transpD [OF confined_order(2)] .

lemma confined_bindS:
  assumes "confined_step D s (snd (m s))" "\<And>v s1. m s = (Ok v, s1) \<Longrightarrow> confined_step D s1 (snd (k v s1))"
  shows "confined_step D s (snd (bindS m k s))"
proof -
  obtain r s1 where m: "m s = (r, s1)" by fastforce
  then show ?thesis
    using assms confined_trans [of D s s1] by (cases r) (auto simp: bindS_def)
qed

lemma confined_wrapS: "confined_step D s (snd (m s)) \<Longrightarrow> confined_step D s (snd (wrapS f m s))"
  by (auto simp: wrapS_def split: prod.split sum.split)

lemma confined_same: "same_fs s s' \<Longrightarrow> confined_step D s s'"
  by (auto simp: same_fs_def confined_step_def no_links_def)

lemma confined_reads: "confined_step D s (snd (EvalSymlinks p s))" "confined_step D s (snd (os_Sync s))"
  "confined_step D s (snd (os_Open p s))"
  using same_fs_reads confined_same unfolding keeps_def by blast+

lemma near_no_links: "no_links D s \<Longrightarrow> prefix D p \<or> prefix p D \<Longrightarrow> prefix q p \<Longrightarrow> \<not> is_link s q"
  unfolding no_links_def by (meson prefix_order.trans prefix_same_cases)

lemma confined_MkdirAllFollow:
  assumes "prefix D p \<or> prefix p D"
  shows "confined_step D s (snd (MkdirAllFollow p mode s))"
  unfolding confined_step_def
proof (intro impI conjI)
  assume nl: "no_links D s"
  have eq: "MkdirAllFollow p mode s = mkdirs mode [] p s"
    unfolding MkdirAllFollow_def using near_no_links [OF nl assms] by (intro mkdirsFollow_eq) simp
  have "prefix x p \<Longrightarrow> prefix D x \<or> prefix x D" for x
    using assms by (meson prefix_order.trans prefix_same_cases)
  note near = this
  show "only (\<lambda>x. prefix D x \<or> prefix x D \<and> nodes s x = None) s (snd (MkdirAllFollow p mode s))"
    unfolding eq by (rule only_mono [OF only_mkdirs [of "[]" p s mode]]) (use near in auto)
  show "no_links D (snd (MkdirAllFollow p mode s))"
    using nl mkdirs_links unfolding eq no_links_def by blast
qed

lemma confined_set:
  assumes "only (\<lambda>x. x = p) s s'" "prefix D p" "is_link s' p \<Longrightarrow> is_link s p"
  shows "confined_step D s s'"
proof -
  have "is_link s' q \<Longrightarrow> is_link s q" for q
    using assms(1,3) by (cases "q = p") (auto simp: only_def is_link_iff, metis)
  then show ?thesis
    using assms(1,2) by (auto simp: confined_step_def no_links_def only_def)
qed

lemma confined_OpenTrunc: "prefix D p \<Longrightarrow> confined_step D s (snd (os_OpenTrunc p mode s))"
proof (rule confined_set)
  show "only (\<lambda>x. x = p) s (snd (os_OpenTrunc p mode s))"
    using only_writes(2) [of "\<lambda>x. x = p" p] by (simp add: keeps_def)
  show "is_link (snd (os_OpenTrunc p mode s)) p \<Longrightarrow> is_link s p"
    by (cases "os_OpenTrunc p mode s")
      (auto simp: os_OpenTrunc_def is_link_def elim!: sys_cases split: option.splits node.splits if_splits)
qed

lemma confined_WriteData: "prefix D p \<Longrightarrow> confined_step D s (snd (os_WriteData p c s))"
proof (rule confined_set)
  show "only (\<lambda>x. x = p) s (snd (os_WriteData p c s))"
    using only_WriteData [of "\<lambda>x. x = p" p] by (simp add: keeps_def)
  show "is_link (snd (os_WriteData p c s)) p \<Longrightarrow> is_link s p"
    by (cases "os_WriteData p c s") (auto elim!: WriteData_cases simp: is_link_def)
qed

lemma OpenTruncFollow_target:
  assumes "no_links D s" "prefix D p" "plain_comps p" "walkNew 40 s [] p = Ok r"
  shows "r = p"
proof -
  have "\<forall>q. prefix q p \<longrightarrow> \<not> is_link s ([] @ q)"
    using near_no_links [OF assms(1)] assms(2) by auto
  from walkNew_plain [OF assms(3) this assms(4)] show ?thesis by simp
qed

lemma confined_OpenTruncFollow:
  assumes "prefix D p" "plain_comps p"
  shows "confined_step D s (snd (OpenTruncFollow p mode s))"
proof (cases "no_links D s")
  case True
  show ?thesis
  proof (cases "walkNew 40 s [] p")
    case (Inr r)
    then have "r = p" using OpenTruncFollow_target [OF True assms] by blast
    then show ?thesis
      using Inr confined_OpenTrunc [OF assms(1), of s mode]
      by (auto simp: OpenTruncFollow_def bindS_def split: prod.split sum.split)
  qed (simp add: OpenTruncFollow_def reflpD [OF confined_order(1)])
qed (simp add: confined_step_def)

lemma OpenTruncFollow_Ok: "OpenTruncFollow p mode s = (Ok r, s1) \<Longrightarrow> walkNew 40 s [] p = Ok r"
  by (auto simp: OpenTruncFollow_def bindS_def split: sum.splits prod.splits)

text \<open>What every write of an entry does: open the target, then fill what was opened.\<close>

lemma confined_open_fill:
  assumes "prefix D p" "plain_comps p" "\<And>s. confined_step D s (snd (fill p s))"
  shows "confined_step D s (snd (bindS (wrapS f (OpenTruncFollow p mode)) fill s))"
proof (cases "no_links D s")
  case True
  show ?thesis
  proof (rule confined_bindS [OF confined_wrapS [OF confined_OpenTruncFollow [OF assms(1,2)]]])
    fix r s1 assume "wrapS f (OpenTruncFollow p mode) s = (Ok r, s1)"
    then have "r = p"
      using OpenTruncFollow_Ok OpenTruncFollow_target [OF True assms(1,2)] by (auto simp: wrapS_Ok)
    then show "confined_step D s1 (snd (fill r s1))" using assms(3) by simp
  qed
qed (simp add: confined_step_def)

lemma confined_guardS: "confined_step D s (snd (guardS b e s))"
  by (simp add: guardS_def reflpD [OF confined_order(1)])

lemma confined_ensureSafeParent:
  assumes "prefix D p"
  shows "confined_step D s (snd (ensureSafeParent p s))"
proof -
  have "prefix D (butlast p) \<or> prefix (butlast p) D"
    using assms prefixeq_butlast prefix_same_cases by blast
  then show ?thesis
    unfolding ensureSafeParent_def Let_def
    by (intro confined_bindS confined_wrapS confined_MkdirAllFollow confined_reads confined_guardS)
qed

lemma confined_fill:
  assumes "prefix D p"
  shows "confined_step D s (snd (copyN p n data s))" "confined_step D s (snd (copyLimited p e s))"
proof -
  have *: "confined_step D s (snd (os_Sync (snd (os_WriteData p c s))))" for c
    using confined_trans [OF confined_WriteData [OF assms] confined_reads(2)] .
  show "confined_step D s (snd (copyN p n data s))"
    using * [of "take n data"] by (cases "os_WriteData p (take n data) s") (auto simp: copyN_def split: prod.split)
  show "confined_step D s (snd (copyLimited p e s))"
    using * [of "take (nat (maxExtractedBytes + 1)) (ze_Data e)"]
    by (cases "os_WriteData p (take (nat (maxExtractedBytes + 1)) (ze_Data e)) s")
      (auto simp: copyLimited_def Let_def split: prod.split)
qed

lemma confined_writes:
  assumes "prefix D p" "plain_comps p"
  shows "confined_step D s (snd (writeTAREntry p sz mode data s))"
    and "confined_step D s (snd (writeZIPEntry e p s))"
  unfolding writeTAREntry_def writeZIPEntry_def Let_def
  by (intro confined_bindS confined_ensureSafeParent confined_guardS confined_open_fill assms confined_fill)+

lemma confined_refl: "confined_step D s s"
  by (rule reflpD [OF confined_order(1)])

lemma target_confined:
  assumes "safeTarget dest name = Ok t" "IsAbs dest"
  shows "prefix (path_comps dest) (path_comps t)" "plain_comps (path_comps t)"
  using safeTarget_inside [OF assms] by (simp_all add: strict_prefix_def)

lemma confined_extractTAR:
  assumes "IsAbs dest"
  shows "confined_step (path_comps dest) s (snd (extractTAR cancelled dest n tot es s))"
proof (induction es arbitrary: n tot s)
  case (Cons e es)
  show ?case
  proof (cases e)
    case (TarEntry h data)
    show ?thesis
    proof (cases "safeTarget dest (th_Name h)")
      case (Inr t)
      note t = target_confined [OF Inr assms]
      have dir: "confined_step (path_comps dest) s
          (snd (bindS (wrapS f (MkdirAllFollow (path_comps t) mode)) (\<lambda>_. extractTAR cancelled dest m z es) s))" for f mode m z
        using t(1) by (intro confined_bindS confined_wrapS confined_MkdirAllFollow Cons) auto
      have reg: "confined_step (path_comps dest) s
          (snd (bindS (writeTAREntry (path_comps t) sz mode data) (\<lambda>_. extractTAR cancelled dest m z es) s))" for sz mode m z
        by (intro confined_bindS confined_writes t Cons)
      show ?thesis
        using dir reg by (simp add: TarEntry Inr confined_refl split: tar_type.split)
    qed (simp add: TarEntry confined_refl)
  qed (simp add: confined_refl)
qed (simp add: confined_refl)

lemma confined_zipEntries:
  assumes "IsAbs dest"
  shows "confined_step (path_comps dest) s (snd (zipEntries cancelled dest n tot es s))"
proof (induction es arbitrary: n tot s)
  case (Cons e es)
  show ?case
  proof (cases "safeTarget dest (ze_Name e)")
    case (Inr t)
    note t = target_confined [OF Inr assms]
    have dir: "confined_step (path_comps dest) s
        (snd (bindS (wrapS f (MkdirAllFollow (path_comps t) mode)) (\<lambda>_. zipEntries cancelled dest m z es) s))" for f mode m z
      using t(1) by (intro confined_bindS confined_wrapS confined_MkdirAllFollow Cons) auto
    have reg: "confined_step (path_comps dest) s
        (snd (bindS (writeZIPEntry e (path_comps t)) (\<lambda>_. zipEntries cancelled dest m z es) s))" for m z
      by (intro confined_bindS confined_writes t Cons)
    show ?thesis
      using dir reg by (simp add: Inr Let_def confined_refl)
  qed (simp add: confined_refl)
qed (simp add: confined_refl)

lemma confined_Extract:
  assumes "IsAbs dest"
  shows "confined_step (path_comps dest) s (snd (Extract cd cancelled source dest s))"
proof -
  note step = confined_bindS confined_wrapS confined_reads(3)
  have zip: "confined_step (path_comps dest) s (snd (extractZIP cd cancelled src dest s))" for src s
    unfolding extractZIP_def
    by (intro step) (simp add: confined_zipEntries [OF assms] confined_refl split: option.split)
  have tar: "confined_step (path_comps dest) s (snd (extractTARFile cd cancelled src dest z s))" for src z s
    unfolding extractTARFile_def
    by (intro step) (simp add: confined_extractTAR [OF assms] confined_refl split: option.split)
  show ?thesis
    unfolding Extract_def Let_def
    by (intro confined_bindS confined_wrapS confined_MkdirAllFollow) (simp_all add: zip tar confined_refl)
qed

section \<open>Properties\<close>

text \<open>C15. Extraction stays inside its destination: when no symbolic link lies on the way to the
  destination or below it, extracting any archive, of any contents and however it ends, changes nothing
  but the destination's subtree and the directories above it that were missing, and leaves no link
  there either.\<close>

theorem extraction_confined:
  assumes "IsAbs dest" "no_links (path_comps dest) s" "Extract cd cancelled source dest s = (r, s')"
  shows "only (\<lambda>x. prefix (path_comps dest) x \<or> (prefix x (path_comps dest) \<and> nodes s x = None)) s s' \<and>
         no_links (path_comps dest) s'"
  using confined_Extract [OF assms(1), of s cd cancelled source] assms(2,3) by (simp add: confined_step_def)

lemma mkdirsFollow_present:
  "\<forall>q. prefix q cs \<and> q \<noteq> [] \<longrightarrow> is_dir s (acc @ q) \<Longrightarrow> mkdirsFollow mode acc cs s = (Ok (), s)"
proof (induction cs arbitrary: acc)
  case (Cons c cs)
  have "is_dir s (acc @ [c])" using Cons.prems by auto
  then obtain m where d: "nodes s (acc @ [c]) = Some (DirN m)"
    by (auto simp: is_dir_def is_dir_node_def split: option.splits node.splits)
  have "\<forall>q. prefix q cs \<and> q \<noteq> [] \<longrightarrow> is_dir s ((acc @ [c]) @ q)"
    using Cons.prems by (metis Cons_prefix_Cons append.assoc append_Cons append_Nil list.distinct(1))
  then show ?case
    using Cons.IH d by simp
qed simp

text \<open>With no faults to come, a parent that exists and is reached without links passes the check.\<close>

lemma ensureSafeParent_present:
  assumes "faults s = []" "plain_comps D" "\<forall>q. prefix q D \<longrightarrow> is_dir s q"
  shows "ensureSafeParent (D @ [c]) s = (Ok (), s)"
proof -
  have "walk 255 s True [] D = Ok ([] @ D)"
    by (rule walk_link_free [OF assms(2)]) (use assms(3) is_dir_not_link in \<open>auto simp: strict_prefix_def\<close>)
  moreover have "mkdirsFollow 0x1E8 [] D s = (Ok (), s)"
    by (rule mkdirsFollow_present) (use assms(3) in simp)
  ultimately show ?thesis
    using assms(1) by (simp add: ensureSafeParent_def MkdirAllFollow_def bindS_def wrapS_def EvalSymlinks_def sys_def guardS_def)
qed

lemma faults_set_node [simp]: "faults (set_node p n s) = faults s"
  by (simp add: set_node_def)

lemma fill_written:
  assumes "faults s = []" "walkNew 40 s [] p = Ok r" "nodes s r = Some (FileN old mt)"
  shows "nodes (snd (bindS (wrapS f (OpenTruncFollow p mode)) (\<lambda>r. copyN r n data) s)) r = Some (FileN (take n data) mt)"
  using assms
  by (simp add: OpenTruncFollow_def os_OpenTrunc_def sys_def bindS_def wrapS_def copyN_def os_WriteData_def os_Sync_def
      split: prod.split)

lemma PathJoin_name:
  assumes "plain_comps (D @ [c])" "D \<noteq> []"
  shows "PathJoin [abs_path D, c] = abs_path (D @ [c])" "HasPrefix (abs_path (D @ [c])) (Clean (abs_path D) @ ''/'')"
proof -
  have c: "c \<noteq> []" "SLASH \<notin> set c" "plain_comps D" "c \<noteq> ''.''" "c \<noteq> ''..''"
    using assms(1) by (auto simp: plain_comp_def)
  have abs: "IsAbs (abs_path D @ SLASH # c)" by (simp add: abs_path_def)
  have "path_comps (abs_path D @ SLASH # c) = D @ [c]"
    using path_comps_abs_path [OF c(3)] c(2,4,5) c(1)
    by (simp add: path_comps_def Split_append_gen Split_single abs_path_def)
  then show "PathJoin [abs_path D, c] = abs_path (D @ [c])"
    using c(1) abs by (simp add: PathJoin_def Clean_abs) (simp add: abs_path_def)
  show "HasPrefix (abs_path (D @ [c])) (Clean (abs_path D) @ ''/'')"
    using assms(2) Clean_abs_path [OF c(3)] by (simp add: abs_path_def Join_append HasPrefix_iff)
qed

lemma safeTarget_name:
  assumes "plain_comps (D @ [c])" "D \<noteq> []" "NUL \<notin> set c"
  shows "safeTarget (abs_path D) c = Ok (abs_path (D @ [c]))"
proof -
  have "c \<noteq> []" "SLASH \<notin> set c" using assms(1) by (auto simp: plain_comp_def)
  then have "\<not> IsAbs c" by (cases c) auto
  then have "\<not> HasPrefix c ''/''" by (simp add: IsAbs_def)
  then show ?thesis
    unfolding safeTarget_def Let_def PathJoin_name(1) [OF assms(1,2)]
    using assms(3) PathJoin_name(2) [OF assms(1,2)] \<open>c \<noteq> []\<close> \<open>\<not> IsAbs c\<close> by simp
qed

text \<open>One regular entry, extracted into an existing directory without faults.\<close>

lemma extract_one:
  assumes "faults s = []" "plain_comps (D @ [c])" "D \<noteq> []" "NUL \<notin> set c" "\<forall>q. prefix q D \<longrightarrow> is_dir s q"
    and "walkNew 40 s [] (D @ [c]) = Ok r" "nodes s r = Some (FileN old mt)"
    and "0 \<le> sint sz" "sint (tot + sz) \<le> maxExtractedBytes" "n < maxArchiveEntries"
  shows "nodes (snd (extractTAR (\<lambda>_. False) (abs_path D) n tot
           [TarEntry \<lparr>th_Name = c, th_Type = TypeReg, th_Size = sz, th_Mode = mode\<rparr> data] s)) r = Some (FileN (take (unat sz) data) mt)"
proof -
  let ?m = "Perm mode AND NOT 0x12"
  have w: "writeTAREntry (D @ [c]) sz mode data s =
      bindS (wrapS (ArchOS ''create entry'') (OpenTruncFollow (D @ [c]) (if ?m = 0 then 0x1A0 else ?m)))
        (\<lambda>r. copyN r (unat sz) data) s"
    using ensureSafeParent_present [of s D c] assms(1,2,5) by (simp add: writeTAREntry_def bindS_def Let_def)
  have "nodes (snd (writeTAREntry (D @ [c]) sz mode data s)) r = Some (FileN (take (unat sz) data) mt)"
    unfolding w by (rule fill_written [OF assms(1,6,7)])
  then show ?thesis
    using assms(2,4,8,9,10) safeTarget_name [OF assms(2,3,4)]
    by (auto simp: bindS_def split: prod.split sum.split)
qed

text \<open>C16. The check on the parent directory does not cover the entry's own name: an archive entry whose
  name is that of a symbolic link in the destination is written through the link, to the file it leads
  to, wherever that is.\<close>

theorem entry_written_through_link:
  assumes "faults s = []" "plain_comps (D @ [c])" "D \<noteq> []" "NUL \<notin> set c" "\<forall>q. prefix q D \<longrightarrow> is_dir s q"
    and "nodes s (D @ [c]) = Some (LinkN target)" "walkNew 40 s [] (D @ [c]) = Ok r" "nodes s r = Some (FileN old mt)"
    and "0 \<le> sint sz" "sint sz \<le> maxExtractedBytes" "unat sz = length data"
  shows "r \<noteq> D @ [c] \<and>
    nodes (snd (extractTAR (\<lambda>_. False) (abs_path D) 0 0
      [TarEntry \<lparr>th_Name = c, th_Type = TypeReg, th_Size = sz, th_Mode = mode\<rparr> data] s)) r = Some (FileN data mt)"
  using extract_one [OF assms(1-5,7,8,9), of 0 0 mode data] assms(6,8,10,11) by (auto simp: maxArchiveEntries_def)

text \<open>Signed 64-bit addition.\<close>

lemma sint_add64: "sint (a + b :: 64 word) = (sint a + sint b + 2 ^ 63) mod 2 ^ 64 - 2 ^ 63"
  by (simp add: sint_word_ariths(1) signed_take_bit_eq_take_bit_shift take_bit_eq_mod)

lemma sint_add64_exact:
  assumes "- (2 ^ 63) \<le> sint a + sint b" "sint a + sint b < 2 ^ 63"
  shows "sint (a + b :: 64 word) = sint a + sint b"
  using assms by (simp add: sint_add64)

text \<open>C17. The size limit of tar extraction can be jumped: once anything has been extracted, an entry
  that declares 2^63 - 1 bytes makes the running total overflow to a negative number, passes the
  comparison, and all the data the stream delivers is written, however much that is.\<close>

theorem size_limit_overflow:
  assumes "faults s = []" "plain_comps (D @ [c])" "D \<noteq> []" "NUL \<notin> set c" "\<forall>q. prefix q D \<longrightarrow> is_dir s q"
    and "walkNew 40 s [] (D @ [c]) = Ok r" "nodes s r = Some (FileN old mt)"
    and "0 < sint tot" "sint tot \<le> maxExtractedBytes" "n < maxArchiveEntries" "length data < 2 ^ 63"
  shows "nodes (snd (extractTAR (\<lambda>_. False) (abs_path D) n tot
      [TarEntry \<lparr>th_Name = c, th_Type = TypeReg, th_Size = 0x7FFFFFFFFFFFFFFF, th_Mode = mode\<rparr> data] s)) r =
    Some (FileN data mt)"
proof -
  let ?max = "0x7FFFFFFFFFFFFFFF :: 64 word"
  have m: "sint ?max = 2 ^ 63 - 1" "unat ?max = 2 ^ 63 - 1" by simp_all
  have "(sint tot - 1 + 2 ^ 64) mod 2 ^ 64 = (sint tot - 1) mod 2 ^ 64" by (rule mod_add_self2)
  also have "\<dots> = sint tot - 1"
    by (rule mod_pos_pos_trivial) (use assms(8,9) in \<open>simp_all add: maxExtractedBytes_def\<close>)
  finally have "(sint tot - 1 + 2 ^ 64) mod 2 ^ 64 = sint tot - 1" .
  moreover have "sint tot + sint ?max + 2 ^ 63 = sint tot - 1 + 2 ^ 64" unfolding m(1) by simp
  ultimately have "sint (tot + ?max) = sint tot - 1 - 2 ^ 63" by (simp only: sint_add64)
  then have "sint (tot + ?max) \<le> maxExtractedBytes" using assms(9) by simp
  from extract_one [OF assms(1-7) _ this assms(10), of mode data] show ?thesis
    using m assms(11) by simp
qed

lemma ArchiveLimits_aux:
  assumes "extractTAR cancelled dest n tot es s = (Ok u, s')" "0 \<le> sint tot" "sint tot \<le> maxExtractedBytes"
    and "\<forall>h d. TarEntry h d \<in> set es \<longrightarrow> sint (th_Size h) < 2 ^ 62"
  shows "n + length es \<le> max n maxArchiveEntries \<and>
    sint tot + (\<Sum>e \<leftarrow> es. case e of TarEntry h d \<Rightarrow> if th_Type h = TypeReg then sint (th_Size h) else 0 | TarBroken \<Rightarrow> 0)
      \<le> maxExtractedBytes \<and>
    (\<forall>h d. TarEntry h d \<in> set es \<longrightarrow> th_Type h \<noteq> TypeOther)"
  using assms
proof (induction es arbitrary: n tot s)
  case (Cons e es)
  obtain h d where e: "e = TarEntry h d" using Cons.prems(1) by (cases e) auto
  have guards: "\<not> cancelled n" "Suc n \<le> maxArchiveEntries"
    using Cons.prems(1) by (auto simp: e split: if_splits)
  obtain t where t: "safeTarget dest (th_Name h) = Ok t"
    using Cons.prems(1) guards by (auto simp: e split: sum.splits)
  have small: "\<forall>h d. TarEntry h d \<in> set es \<longrightarrow> sint (th_Size h) < 2 ^ 62" using Cons.prems(4) by auto
  show ?case
  proof (cases "th_Type h")
    case TypeDir
    then obtain s1 where "extractTAR cancelled dest (Suc n) tot es s1 = (Ok u, s')"
      using Cons.prems(1) guards t by (auto simp: e bindS_Ok)
    from Cons.IH [OF this Cons.prems(2,3) small] show ?thesis
      using guards TypeDir by (auto simp: e max_def split: if_splits)
  next
    case TypeReg
    then have ok: "0 \<le> sint (th_Size h)" "sint (tot + th_Size h) \<le> maxExtractedBytes"
      using Cons.prems(1) guards t by (auto simp: e split: if_splits)
    obtain s1 where x: "extractTAR cancelled dest (Suc n) (tot + th_Size h) es s1 = (Ok u, s')"
      using Cons.prems(1) guards t TypeReg ok by (auto simp: e bindS_Ok)
    have "sint (th_Size h) < 2 ^ 62" using Cons.prems(4) e by auto
    then have sum: "sint (tot + th_Size h) = sint tot + sint (th_Size h)"
      by (intro sint_add64_exact) (use Cons.prems(2,3) ok(1) in \<open>simp_all add: maxExtractedBytes_def\<close>)
    from Cons.IH [OF x _ ok(2) small] show ?thesis
      using guards TypeReg sum Cons.prems(2) ok(1) by (auto simp: e max_def split: if_splits)
  next
    case TypeOther
    then show ?thesis using Cons.prems(1) guards t by (simp add: e)
  qed
qed simp

text \<open>A tar archive that was extracted to the end held at most ten thousand entries, all of them
  directories and regular files, and its regular files declared at most one gibibyte together, provided
  no single entry declares 2^62 bytes or more.\<close>

theorem tar_limits:
  assumes "extractTAR cancelled dest 0 0 es s = (Ok u, s')"
    and "\<forall>h d. TarEntry h d \<in> set es \<longrightarrow> sint (th_Size h) < 2 ^ 62"
  shows "length es \<le> maxArchiveEntries \<and>
    (\<Sum>e \<leftarrow> es. case e of TarEntry h d \<Rightarrow> if th_Type h = TypeReg then sint (th_Size h) else 0 | TarBroken \<Rightarrow> 0)
      \<le> maxExtractedBytes \<and>
    (\<forall>h d. TarEntry h d \<in> set es \<longrightarrow> th_Type h \<noteq> TypeOther)"
  using ArchiveLimits_aux [OF assms(1) _ _ assms(2)] by (auto simp: maxExtractedBytes_def)

definition lw_holds :: "int \<Rightarrow> string \<Rightarrow> limitedWriter \<Rightarrow> bool" where
  "lw_holds limit c w = (lw_buffer w = take (nat limit) c \<and> lw_remaining w = limit - int (length (lw_buffer w)) \<and>
     lw_truncated w = (int (length c) > limit))"

lemma lw_Write_holds:
  assumes "0 \<le> limit" "lw_holds limit c w"
  shows "lw_holds limit (c @ p) (lw_Write p w)"
proof (cases "int (length c) > limit")
  case True
  then have "nat limit \<le> length c" by simp
  then show ?thesis using assms True by (auto simp: lw_holds_def lw_Write_def min_def)
next
  case False
  then have r: "lw_buffer w = c" "lw_remaining w = limit - int (length c)" "\<not> lw_truncated w"
    using assms by (auto simp: lw_holds_def)
  have "nat (limit - int (length c)) = nat limit - length c" using False by simp
  then show ?thesis using assms r False by (auto simp: lw_holds_def lw_Write_def max_def min_def)
qed

text \<open>The archiver's output buffer is the plain truncation of everything that was written: its text
  is the first bytes up to the limit, and it is marked as truncated exactly when something was cut.\<close>

theorem archiver_output_truncated:
  assumes "0 \<le> limit" "run command args = (pieces, success)"
  shows "limitedCombinedOutput run limit command args =
    (if int (length (concat pieces)) > limit
     then take (nat limit) (concat pieces) @ [NL] @ ''[output truncated]'' else concat pieces, success)"
proof -
  let ?w = "\<lambda>ps. fold lw_Write ps \<lparr>lw_buffer = [], lw_remaining = limit, lw_truncated = False\<rparr>"
  have "lw_holds limit (concat ps) (?w ps)" for ps
  proof (induction ps rule: rev_induct)
    case (snoc p ps)
    from lw_Write_holds [OF assms(1) this, of p] show ?case by simp
  qed (use assms(1) in \<open>simp add: lw_holds_def\<close>)
  then show ?thesis
    using assms by (auto simp: limitedCombinedOutput_def lw_String_def lw_holds_def not_less)
qed

section \<open>Concrete archives\<close>

lemma no_links_check:
  assumes "list_all (\<lambda>(p, n). case n of LinkN _ \<Rightarrow> \<not> (prefix p D \<or> prefix D p) | _ \<Rightarrow> True) (tree s)"
  shows "no_links D s"
  unfolding no_links_def is_link_iff
proof (intro allI impI notI)
  fix q assume "prefix q D \<or> prefix D q" "\<exists>t. nodes s q = Some (LinkN t)"
  then show False using assms by (auto simp: nodes_def list_all_iff dest!: map_of_SomeD)
qed

definition archMeta :: meta where
  "archMeta = \<lparr>perm = 0x1ED, uid = 0, gid = 0\<rparr>"

definition archOS :: os where
  "archOS = \<lparr>tree = [([], DirN archMeta), ([''srv''], DirN archMeta), ([''etc''], DirN archMeta),
       ([''srv'', ''site''], DirN archMeta), ([''srv'', ''site'', ''page''], LinkN ''/etc/shadow''),
       ([''etc'', ''shadow''], FileN ''secret'' archMeta), ([''srv'', ''site'', ''old''], FileN ''o'' archMeta)],
     umask = 0x12, faults = [], partial = 0\<rparr>"

definition oneTar :: codecs where
  "oneTar = \<lparr>cd_unzip = (\<lambda>_. None), cd_gunzip = (\<lambda>_. None),
     cd_untar = (\<lambda>_. [TarEntry \<lparr>th_Name = ''a/b'', th_Type = TypeReg, th_Size = 1, th_Mode = 0x1A4\<rparr> ''x''])\<rparr>"

definition archRun :: "(arch_error, unit) result \<times> os" where
  "archRun = Extract oneTar (\<lambda>_. False) ''/srv/site/old.tar'' ''/srv/fresh'' archOS"

theorem extraction_confined_witness:
  "only (\<lambda>x. prefix (path_comps ''/srv/fresh'') x \<or> (prefix x (path_comps ''/srv/fresh'') \<and> nodes archOS x = None)) archOS (snd archRun) \<and>
   no_links (path_comps ''/srv/fresh'') (snd archRun)"
proof (rule extraction_confined [of _ _ oneTar "\<lambda>_. False" "''/srv/site/old.tar''" "fst archRun"])
  have "path_comps ''/srv/fresh'' = [''srv'', ''fresh'']" by code_simp
  then show "no_links (path_comps ''/srv/fresh'') archOS"
    by (simp add: archOS_def no_links_check)
qed (simp_all add: archRun_def)

lemma archOS_dirs: "\<forall>q. prefix q [''srv'', ''site''] \<longrightarrow> is_dir archOS q"
proof -
  have "list_all (is_dir archOS) (prefixes [''srv'', ''site''])" by code_simp
  then show ?thesis unfolding list_all_iff Ball_def in_set_prefixes .
qed

theorem entry_written_through_link_witness:
  "nodes (snd (extractTAR (\<lambda>_. False) (abs_path [''srv'', ''site'']) 0 0
      [TarEntry \<lparr>th_Name = ''page'', th_Type = TypeReg, th_Size = 5, th_Mode = 0x1A4\<rparr> ''owned''] archOS))
     [''etc'', ''shadow''] = Some (FileN ''owned'' archMeta)"
proof -
  have "plain_comps ([''srv'', ''site''] @ [''page''])" by (simp add: plain_comp_def)
  moreover have "walkNew 40 archOS [] ([''srv'', ''site''] @ [''page'']) = Ok [''etc'', ''shadow'']" by code_simp
  moreover have "nodes archOS ([''srv'', ''site''] @ [''page'']) = Some (LinkN ''/etc/shadow'')"
    "nodes archOS [''etc'', ''shadow''] = Some (FileN ''secret'' archMeta)" by code_simp+
  ultimately show ?thesis
    using entry_written_through_link [of archOS "[''srv'', ''site'']" "''page''" "''/etc/shadow''"
        "[''etc'', ''shadow'']" "''secret''" archMeta 5 "''owned''" "0x1A4"] archOS_dirs
    by (simp add: archOS_def maxExtractedBytes_def)
qed

theorem size_limit_overflow_witness:
  "nodes (snd (extractTAR (\<lambda>_. False) (abs_path [''srv'', ''site'']) 1 1
      [TarEntry \<lparr>th_Name = ''old'', th_Type = TypeReg, th_Size = 0x7FFFFFFFFFFFFFFF, th_Mode = 0x1A4\<rparr> ''bomb''] archOS))
     [''srv'', ''site'', ''old''] = Some (FileN ''bomb'' archMeta)"
proof -
  have "plain_comps ([''srv'', ''site''] @ [''old''])" by (simp add: plain_comp_def)
  moreover have "walkNew 40 archOS [] ([''srv'', ''site''] @ [''old'']) = Ok [''srv'', ''site'', ''old'']" by code_simp
  moreover have "nodes archOS [''srv'', ''site'', ''old''] = Some (FileN ''o'' archMeta)" by code_simp
  ultimately show ?thesis
    using size_limit_overflow [of archOS "[''srv'', ''site'']" "''old''" "[''srv'', ''site'', ''old'']" "''o''" archMeta 1 1 "''bomb''" "0x1A4"]
      archOS_dirs by (simp add: archOS_def maxExtractedBytes_def maxArchiveEntries_def)
qed

theorem tar_limits_witness:
  "length [TarEntry \<lparr>th_Name = ''d'', th_Type = TypeDir, th_Size = 0, th_Mode = 0\<rparr> []] \<le> maxArchiveEntries"
proof -
  have "is_ok (fst (extractTAR (\<lambda>_. False) ''/srv'' 0 0 [TarEntry \<lparr>th_Name = ''d'', th_Type = TypeDir, th_Size = 0, th_Mode = 0\<rparr> []] archOS))"
    (is "is_ok (fst ?x)")
  proof -
    have "safeTarget ''/srv'' ''d'' = Ok ''/srv/d''" by code_simp
    moreover have "is_ok (fst (MkdirAllFollow (path_comps ''/srv/d'') 0x1E8 archOS))" by code_simp
    ultimately show ?thesis
      by (auto simp: maxArchiveEntries_def bindS_def wrapS_def is_ok_iff split: prod.split sum.split)
  qed
  then obtain u s' where "?x = (Ok u, s')" by (cases ?x) (auto simp: is_ok_iff)
  from tar_limits [OF this] show ?thesis by simp
qed

theorem archiver_output_truncated_witness:
  "limitedCombinedOutput (\<lambda>_ _. ([''ab'', ''cd''], False)) 3 ''tar'' [] = (''abc'' @ [NL] @ ''[output truncated]'', False)"
  using archiver_output_truncated [of 3 "\<lambda>_ _. ([''ab'', ''cd''], False)" "''tar''" "[]" "[''ab'', ''cd'']" False] by simp

section \<open>Relations that extraction keeps\<close>

text \<open>A relation on file systems that the system calls of this theory keep, with safe mode bits, is kept
  by extraction as a whole.\<close>

locale archive_relation =
  fixes R :: "os \<Rightarrow> os \<Rightarrow> bool"
  assumes order: "reflp R" "transp R"
    and reads: "keeps R (EvalSymlinks p)" "keeps R os_Sync" "keeps R (os_Open p)"
    and fills: "keeps R (os_WriteData p c)"
    and opens: "m AND 2 = 0 \<Longrightarrow> keeps R (OpenTruncFollow p m)"
    and mkdirs: "keeps R (MkdirAllFollow p 0x1E8)"
begin

lemma parent_kept: "keeps R (ensureSafeParent p)"
  unfolding ensureSafeParent_def Let_def by (intro keeps_intro order mkdirs reads)

lemma copy_kept: "keeps R (copyN p n data)" "keeps R (copyLimited p e)"
proof -
  have *: "R s (snd (os_Sync (snd (os_WriteData p c s))))" for c s
    by (rule transpD [OF order(2) keeps_at [OF fills] keeps_at [OF reads(2)]])
  show "keeps R (copyN p n data)"
  proof (rule keepsI)
    fix s show "R s (snd (copyN p n data s))"
      using * [of s "take n data"] by (cases "os_WriteData p (take n data) s") (auto simp: copyN_def split: prod.split)
  qed
  show "keeps R (copyLimited p e)"
  proof (rule keepsI)
    fix s show "R s (snd (copyLimited p e s))"
      using * [of s "take (nat (maxExtractedBytes + 1)) (ze_Data e)"]
      by (cases "os_WriteData p (take (nat (maxExtractedBytes + 1)) (ze_Data e)) s")
        (auto simp: copyLimited_def Let_def split: prod.split)
  qed
qed

lemma entries_kept: "keeps R (writeTAREntry p sz mode data)" "keeps R (writeZIPEntry e p)"
proof -
  have two: "(x AND NOT 0x12) AND 2 = 0" for x :: "32 word"
  proof -
    have "NOT 0x12 AND 2 = (0 :: 32 word)" by code_simp
    then show ?thesis by (simp add: and.assoc)
  qed
  have default: "(if x = 0 then 0x1A0 else x) AND 2 = (0 :: 32 word)" if "x AND 2 = 0" for x
    using that by simp
  show "keeps R (writeTAREntry p sz mode data)"
    unfolding writeTAREntry_def Let_def by (intro keeps_intro order parent_kept opens copy_kept default two)
  show "keeps R (writeZIPEntry e p)"
    unfolding writeZIPEntry_def Let_def by (intro keeps_intro order parent_kept opens copy_kept two)
qed

lemma tar_kept: "keeps R (extractTAR cancelled dest n tot es)"
proof (induction es arbitrary: n tot)
  case (Cons e es)
  show ?case
  proof (rule keepsI)
    fix s
    have dir: "R s (snd (bindS (wrapS f (MkdirAllFollow t 0x1E8)) (\<lambda>_. extractTAR cancelled dest m z es) s))" for f t m z
      by (rule keepsD [OF _ prod.collapse [symmetric]], intro keeps_intro order mkdirs Cons)
    have reg: "R s (snd (bindS (writeTAREntry t sz mode data) (\<lambda>_. extractTAR cancelled dest m z es) s))" for t sz mode data m z
      by (rule keepsD [OF _ prod.collapse [symmetric]], intro keeps_intro order entries_kept Cons)
    show "R s (snd (extractTAR cancelled dest n tot (e # es) s))"
      using dir reg reflpD [OF order(1)] by (cases e) (auto split: sum.split tar_type.split)
  qed
qed (simp add: keeps_def reflpD [OF order(1)])

lemma zip_kept: "keeps R (zipEntries cancelled dest n tot es)"
proof (induction es arbitrary: n tot)
  case (Cons e es)
  show ?case
  proof (rule keepsI)
    fix s
    have dir: "R s (snd (bindS (wrapS f (MkdirAllFollow t 0x1E8)) (\<lambda>_. zipEntries cancelled dest m z es) s))" for f t m z
      by (rule keepsD [OF _ prod.collapse [symmetric]], intro keeps_intro order mkdirs Cons)
    have reg: "R s (snd (bindS (writeZIPEntry e t) (\<lambda>_. zipEntries cancelled dest m z es) s))" for t m z
      by (rule keepsD [OF _ prod.collapse [symmetric]], intro keeps_intro order entries_kept Cons)
    show "R s (snd (zipEntries cancelled dest n tot (e # es) s))"
      using dir reg reflpD [OF order(1)] by (simp add: Let_def split: sum.split)
  qed
qed (simp add: keeps_def reflpD [OF order(1)])

lemma extract_kept: "keeps R (Extract cd cancelled source dest)"
proof -
  have opt: "keeps R (case x of None \<Rightarrow> failS e | Some v \<Rightarrow> f v)" if "\<And>v. keeps R (f v)" for x e f
    using that keeps_failS [OF order(1)] by (cases x) auto
  have ite: "keeps R (if b then m else m')" if "keeps R m" "keeps R m'" for b m m'
    using that by simp
  show ?thesis
    unfolding Extract_def extractZIP_def extractTARFile_def Let_def
    by (intro keeps_bindS keeps_wrapS keeps_failS order mkdirs reads opt ite zip_kept tar_kept)
qed

end

lemma OpenTruncFollow_keeps:
  assumes "reflp R" "\<And>p. keeps R (os_OpenTrunc p m)"
  shows "keeps R (OpenTruncFollow p m)"
proof (rule keepsI)
  fix s
  show "R s (snd (OpenTruncFollow p m s))"
  proof (cases "walkNew 40 s [] p")
    case (Inr r)
    then show ?thesis
      using assms(2) [of r] by (auto simp: OpenTruncFollow_def bindS_def keeps_def split: prod.split sum.split)
        (metis snd_conv)+
  qed (simp add: OpenTruncFollow_def reflpD [OF assms(1)])
qed

text \<open>Making directories through links adds directories, each below an existing one.\<close>

lemma mkdirsFollow_wf: "os_wf s \<Longrightarrow> is_dir s acc \<Longrightarrow> os_wf (snd (mkdirsFollow mode acc cs s))"
proof (induction cs arbitrary: acc s)
  case (Cons c cs)
  obtain r s1 where m: "sys (\<lambda>s. (Ok (), set_node (acc @ [c]) (DirN (newMeta mode s)) s)) s = (r, s1)"
    (is "?m = _") by (cases ?m)
  have new: "os_wf s1 \<and> (is_ok r \<longrightarrow> is_dir s1 (acc @ [c]))" if "nodes s (acc @ [c]) = None"
    using m Cons.prems that os_wf_set_new [of "s\<lparr>faults := fs\<rparr>" "acc @ [c]" for fs]
    by (auto elim!: sys_cases simp: is_dir_set_node is_dir_node_def) (auto simp: is_dir_def)
  show ?case
  proof (cases "nodes s (acc @ [c])")
    case None
    then show ?thesis using new Cons.IH [of s1 "acc @ [c]"] by (cases r) (simp_all add: bindS_def m)
  next
    case (Some n)
    then show ?thesis
      using Cons.IH [of s] Cons.prems
      by (cases n) (auto simp: is_dir_def is_dir_node_def split: sum.split option.splits node.splits)
  qed
qed simp

lemma mkdirsFollow_ocw:
  "mode AND 2 = 0 \<Longrightarrow> others_cannot_write s \<Longrightarrow> others_cannot_write (snd (mkdirsFollow mode acc cs s))"
proof (induction cs arbitrary: acc s)
  case (Cons c cs)
  obtain r s1 where m: "sys (\<lambda>s. (Ok (), set_node (acc @ [c]) (DirN (newMeta mode s)) s)) s = (r, s1)"
    (is "?m = _") by (cases ?m)
  have new: "others_cannot_write s1"
    using m Cons.prems ocw_set [of "s\<lparr>faults := fs\<rparr>" for fs]
    by (auto elim!: sys_cases simp: node_perm_def newMeta_perm)
  show ?case
  proof (cases "nodes s (acc @ [c])")
    case None
    then show ?thesis using new Cons.IH [of s1 "acc @ [c]"] Cons.prems(1) by (cases r) (simp_all add: bindS_def m)
  next
    case (Some n)
    then show ?thesis
      using Cons.IH [of s] Cons.prems by (cases n) (auto split: sum.split)
  qed
qed simp

interpretation arch_wf: archive_relation wf_step
proof
  show "keeps wf_step (MkdirAllFollow p 0x1E8)" for p
    unfolding MkdirAllFollow_def
    by (rule keepsI) (auto simp: wf_step_def intro: mkdirsFollow_wf os_wf_root)
qed (auto intro: keeps_intro OpenTruncFollow_keeps)

interpretation arch_ocw: archive_relation ocw_step
proof
  show "keeps ocw_step (MkdirAllFollow p 0x1E8)" for p
  proof (rule keepsI)
    fix s
    have "(0x1E8 :: 32 word) AND 2 = 0" by code_simp
    from mkdirsFollow_ocw [OF this] show "ocw_step s (snd (MkdirAllFollow p 0x1E8 s))"
      by (simp add: MkdirAllFollow_def ocw_step_def)
  qed
  show "keeps ocw_step (EvalSymlinks p)" "keeps ocw_step os_Sync" "keeps ocw_step (os_Open p)" for p
    by (rule keeps_mono, rule same_fs_reads, erule ocw_same)+
qed (auto intro: keeps_intro OpenTruncFollow_keeps)

end
