(* ===== verification/Go_Float.thy ===== *)
theory Go_Float
  imports Complex_Main "HOL-Library.Log_Nat"
begin

text \<open>
  Values of type float64 as rational numbers, and the rounding of IEEE 754 binary64 to the nearest value, ties to
  even: 53 significant bits. Exponents are not bounded; the programs convert 64-bit integers and take quotients
  and percentages of them, far from overflow and from the subnormal numbers.
\<close>

definition halfEven :: "rat \<Rightarrow> int" where
  "halfEven y =
     (let n = \<lfloor>y\<rfloor>; d = y - of_int n
      in if d < 1/2 \<or> d = 1/2 \<and> even n then n else n + 1)"

definition pow2 :: "int \<Rightarrow> rat" where
  "pow2 e = (if e \<ge> 0 then 2 ^ nat e else 1 / 2 ^ nat (- e))"

text \<open>The exponent of the binade of a positive number.\<close>

definition binade :: "rat \<Rightarrow> int" where
  "binade x =
     (let (a, b) = quotient_of x; k = bitlen a - bitlen b
      in if pow2 k \<le> x then k else k - 1)"

definition roundPos :: "rat \<Rightarrow> rat" where
  "roundPos x = (let u = pow2 (binade x - 52) in of_int (halfEven (x / u)) * u)"

definition f64 :: "rat \<Rightarrow> rat" where
  "f64 x = (if x = 0 then 0 else if x > 0 then roundPos x else - roundPos (- x))"

section \<open>Rounding is monotone\<close>

lemma halfEven_bounds: "\<lfloor>y\<rfloor> \<le> halfEven y" "halfEven y \<le> \<lfloor>y\<rfloor> + 1"
  by (auto simp: halfEven_def Let_def)

lemma halfEven_of_int [simp]: "halfEven (of_int n) = n"
  by (simp add: halfEven_def)

lemma halfEven_mono:
  assumes "x \<le> y"
  shows "halfEven x \<le> halfEven y"
proof (cases "\<lfloor>x\<rfloor> = \<lfloor>y\<rfloor>")
  case True
  then show ?thesis using assms by (auto simp: halfEven_def Let_def)
next
  case False
  then have "\<lfloor>x\<rfloor> + 1 \<le> \<lfloor>y\<rfloor>" using floor_mono [OF assms] by linarith
  then show ?thesis using halfEven_bounds [of x] halfEven_bounds [of y] by linarith
qed

lemma pow2_powr: "real_of_rat (pow2 e) = 2 powr e"
  by (cases "e \<ge> 0") (simp_all add: pow2_def of_rat_power of_rat_divide powr_minus_divide powr_realpow [symmetric])

lemma pow2_pos [simp]: "0 < pow2 e"
  by (simp add: pow2_def)

lemma pow2_mono: "d \<le> e \<Longrightarrow> pow2 d \<le> pow2 e"
  by (metis of_rat_less_eq of_int_le_iff one_le_numeral pow2_powr powr_mono)

lemma pow2_less: "pow2 d < pow2 e \<longleftrightarrow> d < e"
  by (metis of_rat_less of_int_less_iff one_less_numeral_iff pow2_powr powr_less_cancel_iff semiring_norm(76))

lemma pow2_add: "pow2 (d + e) = pow2 d * pow2 e"
proof -
  have "real_of_rat (pow2 (d + e)) = real_of_rat (pow2 d * pow2 e)"
    by (simp add: pow2_powr of_rat_mult powr_add)
  then show ?thesis by (simp only: of_rat_eq_iff)
qed

lemma bitlen_range: "0 < a \<Longrightarrow> pow2 (bitlen a - 1) \<le> of_int a \<and> of_int a < pow2 (bitlen a)"
proof -
  assume a: "0 < a"
  have b: "2 ^ nat (bitlen a - 1) \<le> a \<and> a < 2 ^ nat (bitlen a)" by (rule bitlen_bounds [OF a])
  have "0 \<le> bitlen a - 1" using a bitlen_nonneg [of a] bitlen_eq_zero_iff [of a] by linarith
  moreover have "(of_int (2 ^ nat (bitlen a - 1)) :: rat) \<le> of_int a" "(of_int a :: rat) < of_int (2 ^ nat (bitlen a))"
    using b by (simp_all only: of_int_le_iff of_int_less_iff)
  ultimately show ?thesis by (simp add: pow2_def)
qed

lemma binade_bounds:
  assumes "0 < x"
  shows "pow2 (binade x) \<le> x \<and> x < pow2 (binade x + 1)"
proof -
  obtain a b where q: "quotient_of x = (a, b)" by fastforce
  have x: "x = of_int a / of_int b" "0 < b" using quotient_of_div [OF q] quotient_of_denom_pos [OF q] by auto
  then have a: "0 < a" using assms by (simp add: zero_less_divide_iff)
  let ?k = "bitlen a - bitlen b"
  have A: "pow2 (bitlen a - 1) \<le> of_int a" "of_int a < pow2 (bitlen a)" using bitlen_range [OF a] by auto
  have B: "pow2 (bitlen b - 1) \<le> of_int b" "of_int b < pow2 (bitlen b)" using bitlen_range [OF x(2)] by auto
  have b0: "(0 :: rat) < of_int b" using x(2) by simp
  have "pow2 (?k - 1) * of_int b \<le> pow2 (?k - 1) * pow2 (bitlen b)" using B(2) by (simp add: less_imp_le)
  also have "\<dots> = pow2 (bitlen a - 1)" by (simp add: pow2_add [symmetric])
  finally have lo: "pow2 (?k - 1) \<le> x" using A(1) b0 by (simp add: x(1) pos_le_divide_eq)
  have "of_int a < pow2 (?k + 1) * pow2 (bitlen b - 1)" using A(2) by (simp add: pow2_add [symmetric])
  also have "\<dots> \<le> pow2 (?k + 1) * of_int b" using B(1) by simp
  finally have hi: "x < pow2 (?k + 1)" using b0 by (simp add: x(1) pos_divide_less_eq)
  show ?thesis using lo hi by (auto simp: binade_def q Let_def)
qed

lemma binade_mono:
  assumes "0 < x" "x \<le> y"
  shows "binade x \<le> binade y"
proof -
  have "pow2 (binade x) < pow2 (binade y + 1)"
    using assms binade_bounds [of x] binade_bounds [of y] by linarith
  then show ?thesis by (simp add: pow2_less)
qed

lemma pow2_52: "pow2 52 = of_int (2 ^ 52)" "pow2 53 = of_int (2 ^ 53)"
  by (simp_all add: pow2_def)

lemma scaled:
  assumes "0 < x"
  shows "of_int (2 ^ 52) \<le> x / pow2 (binade x - 52)" "x / pow2 (binade x - 52) < of_int (2 ^ 53)"
proof -
  have "pow2 52 * pow2 (binade x - 52) \<le> x" "x < pow2 53 * pow2 (binade x - 52)"
    using binade_bounds [OF assms] by (simp_all add: pow2_add [symmetric] algebra_simps)
  then show "of_int (2 ^ 52) \<le> x / pow2 (binade x - 52)" "x / pow2 (binade x - 52) < of_int (2 ^ 53)"
    unfolding pow2_52 by (simp_all add: pos_le_divide_eq pos_divide_less_eq)
qed

lemma roundPos_binade:
  assumes "0 < x"
  shows "pow2 (binade x) \<le> roundPos x" "roundPos x \<le> pow2 (binade x + 1)"
proof -
  let ?u = "pow2 (binade x - 52)"
  have "halfEven (of_int (2 ^ 52)) \<le> halfEven (x / ?u)" "halfEven (x / ?u) \<le> halfEven (of_int (2 ^ 53))"
    using scaled [OF assms] by (auto intro: halfEven_mono less_imp_le)
  then have "(of_int (2 ^ 52) :: rat) \<le> of_int (halfEven (x / ?u))" "of_int (halfEven (x / ?u)) \<le> (of_int (2 ^ 53) :: rat)"
    by (simp_all only: halfEven_of_int of_int_le_iff)
  then have "pow2 52 * ?u \<le> roundPos x" "roundPos x \<le> pow2 53 * ?u"
    unfolding pow2_52 roundPos_def Let_def by (simp_all only: mult_right_mono pow2_pos less_imp_le)
  then show "pow2 (binade x) \<le> roundPos x" "roundPos x \<le> pow2 (binade x + 1)"
    by (simp_all add: pow2_add [symmetric] algebra_simps)
qed

lemma roundPos_mono:
  assumes "0 < x" "x \<le> y"
  shows "roundPos x \<le> roundPos y"
proof (cases "binade x = binade y")
  case True
  have "halfEven (x / pow2 (binade x - 52)) \<le> halfEven (y / pow2 (binade x - 52))"
    using assms(2) by (intro halfEven_mono divide_right_mono) (simp_all add: less_imp_le)
  then show ?thesis using True by (simp add: roundPos_def Let_def less_imp_le mult_right_mono)
next
  case False
  then have "binade x + 1 \<le> binade y" using binade_mono [OF assms] by simp
  from pow2_mono [OF this] show ?thesis
    using roundPos_binade [of x] roundPos_binade [of y] assms by linarith
qed

lemma roundPos_nonneg: "0 < x \<Longrightarrow> 0 \<le> roundPos x"
  using roundPos_binade(1) [of x] pow2_pos [of "binade x"] by linarith

theorem f64_mono: "x \<le> y \<Longrightarrow> f64 x \<le> f64 y"
  using roundPos_mono [of x y] roundPos_mono [of "- y" "- x"] roundPos_nonneg [of y] roundPos_nonneg [of "- x"]
  by (auto simp: f64_def)

lemma f64_0 [simp]: "f64 0 = 0"
  by (simp add: f64_def)

lemma f64_values: "f64 1 = 1" "f64 2 = 2" "f64 100 = 100" "f64 (- 1) = - 1" "f64 (- 100) = - 100"
    "f64 9223372036854775808 = 9223372036854775808" "f64 4611686018427387904 = 4611686018427387904"
  by code_simp+

end
