(* ===== verification/Agent_Stats.thy ===== *)
theory Agent_Stats
  imports Go_Prelude Go_Float "HOL-Library.Word"
begin

text \<open>
  The Agent's metrics collector and its process control (\<open>internal/agent/stats/collector.go\<close>,
  \<open>process_protection.go\<close>, with the result types of \<open>pkg/contract/module.go\<close>). Counters are
  64-bit words, so that the differences of two readings wrap as they do in Go. The virtual files are
  the parameter \<open>proc\<close> (None: the file cannot be opened), \<open>statfs\<close> the system call,
  \<open>glob\<close> the pattern matcher, \<open>parseFloat\<close> gives the value of \<open>strconv.ParseFloat\<close> and
  whether it succeeded. Values of float64 are rationals, and each operation on them rounds (\<open>f64\<close>).
\<close>

section \<open>Results\<close>

record CPUStats =
  cpu_UsagePercent :: rat
  cpu_Cores :: int

record MemoryStats =
  mem_Total :: "64 word"
  mem_Used :: "64 word"
  mem_Free :: "64 word"
  mem_UsedPercent :: rat

record DiskStats =
  dk_Mountpoint :: string
  dk_Total :: "64 word"
  dk_Used :: "64 word"
  dk_Free :: "64 word"
  dk_UsedPercent :: rat

record NetworkStats =
  net_BytesSent :: "64 word"
  net_BytesRecv :: "64 word"

record SystemStats =
  ss_CPU :: CPUStats
  ss_Memory :: MemoryStats
  ss_Swap :: MemoryStats
  ss_Disk :: "DiskStats list"
  ss_Network :: NetworkStats
  ss_LoadAverage :: "rat \<times> rat \<times> rat"
  ss_Temperature :: rat
  ss_Uptime :: int

record Collector =
  prevNetRx :: "64 word"
  prevNetTx :: "64 word"
  prevStatIdle :: "64 word"
  prevStatTotal :: "64 word"
  lastCollect :: int

datatype stat_error = StatOpenFailed string | StatFormat string | CpuLineNotFound | StatFailed

section \<open>Reading the counters\<close>

text \<open>The value \<open>strconv.ParseUint(s, 10, 64)\<close> returns, its error ignored: 0 for a malformed
  number, the largest word for one that is too large.\<close>

fun uintDigits :: "nat \<Rightarrow> string \<Rightarrow> nat" where
  "uintDigits acc [] = acc"
| "uintDigits acc (c # s) =
     (if \<not> is_digit c then 0
      else let n = 10 * acc + (byte c - 48)
           in if 2 ^ 64 \<le> n then 2 ^ 64 - 1 else uintDigits n s)"

definition ParseUint64 :: "string \<Rightarrow> 64 word" where
  "ParseUint64 s = of_nat (uintDigits 0 s)"

text \<open>None is a run-time panic: the guard asks for eight fields and the loop reads nine.\<close>

fun cpuLine :: "string list \<Rightarrow> (stat_error, 64 word \<times> 64 word) result option" where
  "cpuLine [] = Some (Err CpuLineNotFound)"
| "cpuLine (line # ls) =
     (if \<not> HasPrefix line ''cpu '' then cpuLine ls
      else let fields = Fields line
           in if length fields < 8 then Some (Err (StatFormat ''/proc/stat''))
              else if length fields < 9 then None
              else let vals = map ParseUint64 (take 8 (tl fields))
                   in Some (Ok (vals ! 3 + vals ! 4, sum_list vals)))"

definition readCPUStat :: "(string \<Rightarrow> string option) \<Rightarrow> (stat_error, 64 word \<times> 64 word) result option" where
  "readCPUStat proc =
     (case proc ''/proc/stat'' of None \<Rightarrow> Some (Err (StatOpenFailed ''/proc/stat''))
      | Some text \<Rightarrow> cpuLine (scanLines text))"

definition parseMemKB :: "string \<Rightarrow> 64 word" where
  "parseMemKB line = (let fields = Fields line in if length fields < 2 then 0 else ParseUint64 (fields ! 1))"

fun memLoop :: "64 word \<Rightarrow> 64 word \<Rightarrow> bool \<Rightarrow> string list \<Rightarrow> 64 word \<times> 64 word" where
  "memLoop tot avail seen [] = (tot, avail)"
| "memLoop tot avail seen (line # ls) =
     (let (t, a, s) = (if HasPrefix line ''MemTotal:'' then (parseMemKB line * 1024, avail, seen)
                       else if HasPrefix line ''MemAvailable:'' then (tot, parseMemKB line * 1024, True)
                       else (tot, avail, seen))
      in if t > 0 \<and> s then (t, a) else memLoop t a s ls)"

definition readMemInfo :: "(string \<Rightarrow> string option) \<Rightarrow> (stat_error, 64 word \<times> 64 word) result" where
  "readMemInfo proc =
     (case proc ''/proc/meminfo'' of None \<Rightarrow> Err (StatOpenFailed ''/proc/meminfo'')
      | Some text \<Rightarrow> Ok (memLoop 0 0 False (scanLines text)))"

definition swapLine :: "string \<Rightarrow> 64 word \<times> 64 word \<Rightarrow> 64 word \<times> 64 word" where
  "swapLine line = (\<lambda>(tot, free).
     if HasPrefix line ''SwapTotal:'' then (parseMemKB line * 1024, free)
     else if HasPrefix line ''SwapFree:'' then (tot, parseMemKB line * 1024)
     else (tot, free))"

definition readSwapInfo :: "(string \<Rightarrow> string option) \<Rightarrow> (stat_error, 64 word \<times> 64 word) result" where
  "readSwapInfo proc =
     (case proc ''/proc/meminfo'' of None \<Rightarrow> Err (StatOpenFailed ''/proc/meminfo'')
      | Some text \<Rightarrow> Ok (fold swapLine (scanLines text) (0, 0)))"

definition percent :: "64 word \<Rightarrow> 64 word \<Rightarrow> rat" where
  "percent part whole =
     (if whole > 0 then f64 (f64 (f64 (of_nat (unat part)) / f64 (of_nat (unat whole))) * 100) else 0)"

section \<open>Disks, network, load, uptime, temperature\<close>

record statfsResult =
  sf_Bsize :: "64 word"
  sf_Blocks :: "64 word"
  sf_Bavail :: "64 word"
  sf_Bfree :: "64 word"

definition isPseudoFS :: "string \<Rightarrow> bool" where
  "isPseudoFS fstype =
     (fstype \<in> set [''proc'', ''sysfs'', ''devpts'', ''tmpfs'', ''cgroup'', ''cgroup2'', ''devtmpfs'', ''hugetlbfs'',
        ''mqueue'', ''debugfs'', ''securityfs'', ''configfs'', ''fusectl'', ''pstore'', ''efivarfs'', ''bpf'',
        ''autofs'', ''ramfs''])"

definition getDiskUsage :: "(string \<Rightarrow> statfsResult option) \<Rightarrow> string \<Rightarrow> DiskStats option" where
  "getDiskUsage statfs mount =
     (case statfs mount of None \<Rightarrow> None
      | Some st \<Rightarrow>
          let tot = sf_Blocks st * sf_Bsize st;
              free = sf_Bavail st * sf_Bsize st;
              used = tot - free
          in Some \<lparr>dk_Mountpoint = mount, dk_Total = tot, dk_Used = used, dk_Free = free,
                   dk_UsedPercent = percent used tot\<rparr>)"

fun diskLoop :: "(string \<Rightarrow> statfsResult option) \<Rightarrow> string list \<Rightarrow> string list \<Rightarrow> DiskStats list" where
  "diskLoop statfs seen [] = []"
| "diskLoop statfs seen (line # ls) =
     (let fields = Fields line;
          fstype = (if length fields \<ge> 3 then fields ! 2 else []);
          mount = fields ! 1
      in if length fields < 2 \<or> isPseudoFS fstype \<or> mount \<in> set seen then diskLoop statfs seen ls
         else case getDiskUsage statfs mount of
                None \<Rightarrow> diskLoop statfs (mount # seen) ls
              | Some d \<Rightarrow> d # diskLoop statfs (mount # seen) ls)"

definition readDiskStats :: "(string \<Rightarrow> statfsResult option) \<Rightarrow> (string \<Rightarrow> string option) \<Rightarrow> DiskStats list" where
  "readDiskStats statfs proc =
     (case proc ''/proc/mounts'' of None \<Rightarrow> [] | Some text \<Rightarrow> diskLoop statfs [] (scanLines text))"

definition netLine :: "string \<Rightarrow> 64 word \<times> 64 word \<Rightarrow> 64 word \<times> 64 word" where
  "netLine line = (\<lambda>(rx, tx).
     case IndexByte (CHR '':'') line of
       None \<Rightarrow> (rx, tx)
     | Some i \<Rightarrow>
         let fields = Fields (drop (i + 1) line)
         in if TrimSpace (take i line) = ''lo'' \<or> length fields < 9 then (rx, tx)
            else (rx + ParseUint64 (fields ! 0), tx + ParseUint64 (fields ! 8)))"

definition readNetworkBytes :: "(string \<Rightarrow> string option) \<Rightarrow> (stat_error, 64 word \<times> 64 word) result" where
  "readNetworkBytes proc =
     (case proc ''/proc/net/dev'' of None \<Rightarrow> Err (StatOpenFailed ''/proc/net/dev'')
      | Some text \<Rightarrow> Ok (fold netLine (drop 2 (scanLines text)) (0, 0)))"

definition readLoadAverage :: "(string \<Rightarrow> rat \<times> bool) \<Rightarrow> (string \<Rightarrow> string option) \<Rightarrow> rat \<times> rat \<times> rat" where
  "readLoadAverage parseFloat proc =
     (case proc ''/proc/loadavg'' of None \<Rightarrow> (0, 0, 0)
      | Some text \<Rightarrow>
          let fields = Fields text
          in if length fields < 3 then (0, 0, 0)
             else (fst (parseFloat (fields ! 0)), fst (parseFloat (fields ! 1)), fst (parseFloat (fields ! 2))))"

definition truncate_rat :: "rat \<Rightarrow> int" where
  "truncate_rat x = (if x \<ge> 0 then \<lfloor>x\<rfloor> else \<lceil>x\<rceil>)"

definition readUptime :: "(string \<Rightarrow> rat \<times> bool) \<Rightarrow> (string \<Rightarrow> string option) \<Rightarrow> int" where
  "readUptime parseFloat proc =
     (case proc ''/proc/uptime'' of None \<Rightarrow> 0
      | Some text \<Rightarrow>
          (case Fields text of [] \<Rightarrow> 0
           | f # _ \<Rightarrow> if snd (parseFloat f) then truncate_rat (fst (parseFloat f)) else 0))"

fun temperatureFrom :: "(string \<Rightarrow> string list) \<Rightarrow> (string \<Rightarrow> string option) \<Rightarrow> string list \<Rightarrow> rat" where
  "temperatureFrom glob proc [] = 0"
| "temperatureFrom glob proc (pattern # ps) =
     (case glob pattern of [] \<Rightarrow> temperatureFrom glob proc ps
      | m # _ \<Rightarrow>
          (case map_option (\<lambda>d. Atoi (TrimSpace d)) (proc m) of
             Some (Some milliC) \<Rightarrow> f64 (f64 (of_int milliC) / 1000)
           | _ \<Rightarrow> temperatureFrom glob proc ps))"

definition readCPUTemperature :: "(string \<Rightarrow> string list) \<Rightarrow> (string \<Rightarrow> string option) \<Rightarrow> rat" where
  "readCPUTemperature glob proc =
     temperatureFrom glob proc [''/sys/class/thermal/thermal_zone*/temp'', ''/sys/class/hwmon/hwmon*/temp1_input'']"

section \<open>Collecting\<close>

text \<open>What the collector reads of the machine at one moment.\<close>

record machine =
  mc_proc :: "string \<Rightarrow> string option"
  mc_statfs :: "string \<Rightarrow> statfsResult option"
  mc_glob :: "string \<Rightarrow> string list"
  mc_parseFloat :: "string \<Rightarrow> rat \<times> bool"
  mc_NumCPU :: int
  mc_Now :: int

definition netOf :: "(stat_error, 64 word \<times> 64 word) result \<Rightarrow> 64 word \<times> 64 word" where
  "netOf r = (case r of Inl _ \<Rightarrow> (0, 0) | Inr v \<Rightarrow> v)"

definition NewCollector :: "machine \<Rightarrow> Collector option" where
  "NewCollector mc =
     (case readCPUStat (mc_proc mc) of None \<Rightarrow> None
      | Some cpu \<Rightarrow>
          let (rx, tx) = netOf (readNetworkBytes (mc_proc mc)); (idle, tot) = netOf cpu
          in Some \<lparr>prevNetRx = rx, prevNetTx = tx, prevStatIdle = idle, prevStatTotal = tot,
                   lastCollect = mc_Now mc\<rparr>)"

definition cpuUsage :: "64 word \<Rightarrow> 64 word \<Rightarrow> rat" where
  "cpuUsage idleDelta totalDelta =
     (if totalDelta > 0
      then f64 (f64 (1 - f64 (f64 (of_nat (unat idleDelta)) / f64 (of_nat (unat totalDelta)))) * 100) else 0)"

definition memoryStats :: "(stat_error, 64 word \<times> 64 word) result \<Rightarrow> MemoryStats" where
  "memoryStats r =
     (case r of Inl _ \<Rightarrow> \<lparr>mem_Total = 0, mem_Used = 0, mem_Free = 0, mem_UsedPercent = 0\<rparr>
      | Inr (tot, free) \<Rightarrow> \<lparr>mem_Total = tot, mem_Used = tot - free, mem_Free = free,
                              mem_UsedPercent = percent (tot - free) tot\<rparr>)"

definition collectCPU :: "int \<Rightarrow> (stat_error, 64 word \<times> 64 word) result \<Rightarrow> Collector \<Rightarrow> CPUStats \<times> Collector" where
  "collectCPU cores r c =
     (case r of Inl _ \<Rightarrow> (\<lparr>cpu_UsagePercent = 0, cpu_Cores = cores\<rparr>, c)
      | Inr (idle, tot) \<Rightarrow>
          (\<lparr>cpu_UsagePercent = cpuUsage (idle - prevStatIdle c) (tot - prevStatTotal c), cpu_Cores = cores\<rparr>,
           c\<lparr>prevStatIdle := idle, prevStatTotal := tot\<rparr>))"

definition collectNetwork :: "(stat_error, 64 word \<times> 64 word) result \<Rightarrow> Collector \<Rightarrow> NetworkStats \<times> Collector" where
  "collectNetwork r c =
     (case r of Inl _ \<Rightarrow> (\<lparr>net_BytesSent = 0, net_BytesRecv = 0\<rparr>, c)
      | Inr (rx, tx) \<Rightarrow> (\<lparr>net_BytesSent = tx, net_BytesRecv = rx\<rparr>, c\<lparr>prevNetRx := rx, prevNetTx := tx\<rparr>))"

definition Collect :: "machine \<Rightarrow> Collector \<Rightarrow> (SystemStats \<times> Collector) option" where
  "Collect mc c =
     (let proc = mc_proc mc; c0 = c\<lparr>lastCollect := mc_Now mc\<rparr>
      in case readCPUStat proc of None \<Rightarrow> None
         | Some r \<Rightarrow>
             let (cpu, c1) = collectCPU (mc_NumCPU mc) r c0;
                 (net, c2) = collectNetwork (readNetworkBytes proc) c1
             in Some (\<lparr>ss_CPU = cpu, ss_Memory = memoryStats (readMemInfo proc),
                       ss_Swap = memoryStats (readSwapInfo proc), ss_Disk = readDiskStats (mc_statfs mc) proc,
                       ss_Network = net, ss_LoadAverage = readLoadAverage (mc_parseFloat mc) proc,
                       ss_Temperature = readCPUTemperature (mc_glob mc) proc,
                       ss_Uptime = readUptime (mc_parseFloat mc) proc\<rparr>, c2))"

section \<open>Processes\<close>

text \<open>What gopsutil says of a process, errors read as zero values as the code does.\<close>

record process =
  pr_Pid :: int
  pr_Ppid :: int
  pr_Name :: string
  pr_User :: string
  pr_CpuPercent :: rat
  pr_MemPercent :: rat
  pr_MemRss :: "64 word"
  pr_NumThreads :: int
  pr_CreateTime :: int
  pr_Cmdline :: string

definition CollectProcesses :: "process list option \<Rightarrow> (stat_error, process list) result" where
  "CollectProcesses procs =
     (case procs of None \<Rightarrow> Err StatFailed | Some ps \<Rightarrow> Ok (filter (\<lambda>p. pr_Name p \<noteq> []) ps))"

definition protectedProcessNames :: "string list" where
  "protectedProcessNames =
     [''init'', ''systemd'', ''systemd-journald'', ''systemd-logind'', ''systemd-networkd'', ''systemd-resolved'',
      ''sshd'', ''opendeploy-agent'', ''opendeploy-core'', ''opendeploy-update'']"

definition protectedNameReason :: "string \<Rightarrow> string" where
  "protectedNameReason raw =
     (let name = TrimSpace (TrimSuffix raw ''.service'')
      in if name \<in> set protectedProcessNames then name @ '' is a critical process''
         else if HasPrefix name ''kworker'' \<or> HasPrefix name ''migration/'' \<or> HasPrefix name ''watchdog/''
         then ''Linux kernel processes are protected''
         else [])"

text \<open>\<open>find\<close> stands for \<open>process.NewProcess\<close>, \<open>self\<close> for \<open>os.Getpid\<close>.\<close>

definition protectedProcessReason ::
  "int \<Rightarrow> (int \<Rightarrow> process option) \<Rightarrow> (string \<Rightarrow> string option) \<Rightarrow> int \<Rightarrow> string" where
  "protectedProcessReason self lookup proc pid =
     (if pid \<le> 0 then ''PID must be positive''
      else if pid = 1 then ''PID 1 is the init process''
      else if pid = self then ''the Agent cannot terminate itself''
      else case lookup pid of None \<Rightarrow> []
           | Some p \<Rightarrow>
               let reason = protectedNameReason (pr_Name p); cmdline = pr_Cmdline p
               in if reason \<noteq> [] then reason
                  else if Contains cmdline ''/opendeploy-agent'' \<or> Contains cmdline ''/opendeploy-core'' \<or>
                          Contains cmdline ''opendeploy update --apply''
                  then ''OpenDeploy processes are protected''
                  else case proc (''/proc/'' @ Itoa pid @ ''/cgroup'') of
                         Some cgroup \<Rightarrow> if Contains cgroup ''.service''
                                        then ''systemd-managed processes must be controlled through Services'' else []
                       | None \<Rightarrow> [])"

datatype kill_error = ErrProtectedProcess string | NoSuchProcess | SignalFailed

text \<open>The signals that were sent, newest last: the process and whether it was SIGKILL.\<close>

type_synonym signals = "(int \<times> bool) list"

definition KillProcess ::
  "int \<Rightarrow> (int \<Rightarrow> process option) \<Rightarrow> (string \<Rightarrow> string option) \<Rightarrow> (int \<Rightarrow> bool \<Rightarrow> bool) \<Rightarrow> int \<Rightarrow> bool \<Rightarrow>
   (signals, kill_error, unit) action" where
  "KillProcess self lookup proc deliver pid force sent =
     (let reason = protectedProcessReason self lookup proc pid
      in if reason \<noteq> [] then (Err (ErrProtectedProcess reason), sent)
         else case lookup pid of
                None \<Rightarrow> (Err NoSuchProcess, sent)
              | Some _ \<Rightarrow> (if deliver pid force then Ok () else Err SignalFailed, sent @ [(pid, force)]))"

section \<open>Properties\<close>

text \<open>The quotient of two converted counters, and a percentage of a share, after rounding.\<close>

lemma f64_nonneg: "0 \<le> x \<Longrightarrow> 0 \<le> f64 x"
  using f64_mono [of 0 x] by simp

lemma f64_quotient:
  fixes a b :: nat
  shows "0 \<le> f64 (f64 (of_nat a) / f64 (of_nat b))" "a \<le> b \<Longrightarrow> f64 (f64 (of_nat a) / f64 (of_nat b)) \<le> 1"
proof -
  have n: "0 \<le> f64 (of_nat a)" "0 \<le> f64 (of_nat b)" by (simp_all add: f64_nonneg)
  then show "0 \<le> f64 (f64 (of_nat a) / f64 (of_nat b))" by (simp add: f64_nonneg)
  assume "a \<le> b"
  then have "f64 (of_nat a) \<le> f64 (of_nat b)" by (simp add: f64_mono)
  then have "f64 (of_nat a) / f64 (of_nat b) \<le> 1" using n by (auto simp: divide_le_eq)
  then show "f64 (f64 (of_nat a) / f64 (of_nat b)) \<le> 1" using f64_mono [of _ 1] by (simp add: f64_values)
qed

lemma f64_percent: "0 \<le> x \<Longrightarrow> x \<le> 1 \<Longrightarrow> 0 \<le> f64 (x * 100) \<and> f64 (x * 100) \<le> 100"
  using f64_mono [of "x * 100" 100] by (simp add: f64_nonneg f64_values)

lemma percent_bounds:
  assumes "part \<le> whole"
  shows "0 \<le> percent part whole \<and> percent part whole \<le> 100"
  using f64_percent [OF f64_quotient] assms by (simp add: percent_def word_le_nat_alt del: of_nat_unat)

lemma cpuUsage_share:
  assumes "idle \<le> tot"
  shows "0 \<le> cpuUsage idle tot \<and> cpuUsage idle tot \<le> 100"
proof -
  let ?q = "f64 (f64 (of_nat (unat idle)) / f64 (of_nat (unat tot)))"
  have "0 \<le> ?q" "?q \<le> 1" using f64_quotient assms by (simp_all add: word_le_nat_alt del: of_nat_unat)
  then have "0 \<le> f64 (1 - ?q)" "f64 (1 - ?q) \<le> 1" using f64_mono [of "1 - ?q" 1] by (simp_all add: f64_nonneg f64_values)
  from f64_percent [OF this] show ?thesis by (simp add: cpuUsage_def)
qed

text \<open>An idle difference in the upper half of the words against a total in the lowest quarter.\<close>

lemma cpuUsage_wrapped:
  assumes "2 ^ 63 \<le> unat idle" "unat tot \<le> 2 ^ 62" "0 < tot"
  shows "cpuUsage idle tot \<le> - 100"
proof -
  let ?i = "f64 (of_nat (unat idle))" and ?t = "f64 (of_nat (unat tot))"
  have "(of_nat (2 ^ 63) :: rat) \<le> of_nat (unat idle)" "(of_nat (unat tot) :: rat) \<le> of_nat (2 ^ 62)"
    using assms by (simp_all only: of_nat_le_iff)
  then have i: "9223372036854775808 \<le> ?i" and t: "?t \<le> 4611686018427387904"
    using f64_mono [of 9223372036854775808] f64_mono [of _ 4611686018427387904] by (simp_all add: f64_values)
  have "0 < unat tot" using assms(3) by (simp add: unat_gt_0 word_gt_0)
  then have "(of_nat 1 :: rat) \<le> of_nat (unat tot)" by (simp only: of_nat_le_iff)
  from f64_mono [OF this] have "1 \<le> ?t" by (simp add: f64_values)
  then have "2 \<le> ?i / ?t" using i t by (simp add: le_divide_eq)
  from f64_mono [OF this] have "1 - f64 (?i / ?t) \<le> - 1" by (simp add: f64_values)
  from f64_mono [OF this] have "f64 (1 - f64 (?i / ?t)) * 100 \<le> - 100" by (simp add: f64_values)
  from f64_mono [OF this] show ?thesis using assms(3) by (simp add: cpuUsage_def f64_values)
qed

text \<open>C13. The CPU usage of a snapshot, in float64 arithmetic: it is 0 when the total did not change, and between 0 and
  100 when the idle ticks did not grow by more than all ticks did, both differences taken modulo 2^64. When idle plus
  iowait went down since the last snapshot (which the kernel documents as possible for iowait), by less than 2^62 ticks while
  the total grew by at most 2^62, the difference wraps and the reported usage is -100 or less. The counters
  read are the ones the next snapshot is compared with.\<close>

theorem cpu_usage_range:
  assumes "collectCPU cores (Ok (idle, tot)) c = (cpu, c')"
  shows "(tot = prevStatTotal c \<longrightarrow> cpu_UsagePercent cpu = 0) \<and>
    (idle - prevStatIdle c \<le> tot - prevStatTotal c \<longrightarrow> 0 \<le> cpu_UsagePercent cpu \<and> cpu_UsagePercent cpu \<le> 100) \<and>
    (idle < prevStatIdle c \<and> unat (prevStatIdle c - idle) < 2 ^ 62 \<and> tot \<noteq> prevStatTotal c \<and> unat (tot - prevStatTotal c) \<le> 2 ^ 62 \<longrightarrow>
       cpu_UsagePercent cpu \<le> - 100) \<and>
    prevStatIdle c' = idle \<and> prevStatTotal c' = tot"
proof -
  let ?i = "idle - prevStatIdle c" and ?t = "tot - prevStatTotal c"
  have u: "cpu_UsagePercent cpu = cpuUsage ?i ?t" "prevStatIdle c' = idle" "prevStatTotal c' = tot"
    using assms by (auto simp: collectCPU_def)
  have "2 ^ 63 \<le> unat ?i" if "idle < prevStatIdle c" "unat (prevStatIdle c - idle) < 2 ^ 62"
  proof -
    have "unat (prevStatIdle c - idle) = unat (prevStatIdle c) - unat idle" using that(1) by (simp add: unat_sub word_less_nat_alt word_le_nat_alt)
    moreover have "unat ?i = 2 ^ 64 + unat idle - unat (prevStatIdle c)" using that(1)
      by (simp add: unat_sub_if' word_less_nat_alt)
    ultimately show ?thesis using that by (simp add: word_less_nat_alt)
  qed
  then have "cpuUsage ?i ?t \<le> - 100"
    if "idle < prevStatIdle c" "unat (prevStatIdle c - idle) < 2 ^ 62" "tot \<noteq> prevStatTotal c" "unat ?t \<le> 2 ^ 62"
    using that by (intro cpuUsage_wrapped) (auto simp: word_gt_0)
  moreover have "cpuUsage ?i ?t = 0" if "tot = prevStatTotal c" using that by (simp add: cpuUsage_def)
  ultimately show ?thesis using cpuUsage_share [of ?i ?t] u by auto
qed

text \<open>A /proc/stat whose cpu line has exactly seven counters, as kernels before the steal column
  write it, passes the length check and then makes the collector index past the end of the fields: the
  call panics, in NewCollector and in Collect.\<close>

theorem short_cpu_line_panics:
  assumes "mc_proc mc ''/proc/stat'' = Some text" "scanLines text = line # ls" "HasPrefix line ''cpu ''" "length (Fields line) = 8"
  shows "NewCollector mc = None \<and> Collect mc c = None"
  using assms by (simp add: NewCollector_def Collect_def readCPUStat_def Let_def)

lemma diskLoop_mounts:
  "distinct (map dk_Mountpoint (diskLoop statfs seen ls)) \<and>
   set (map dk_Mountpoint (diskLoop statfs seen ls)) \<inter> set seen = {}"
proof (induction ls arbitrary: seen)
  case (Cons line ls)
  have mount: "getDiskUsage statfs m = Some d \<Longrightarrow> dk_Mountpoint d = m" for m d
    by (auto simp: getDiskUsage_def Let_def split: option.splits)
  show ?case
    using Cons [of seen] Cons [of "Fields line ! 1 # seen"]
    by (auto simp: Let_def dest: mount split: option.split)
qed simp

text \<open>Whatever the machine's files hold, a snapshot lists each mount point once, and its memory,
  swap and disk figures add up: used plus free is the total, as 64-bit words.\<close>

theorem snapshot_consistent:
  assumes "Collect mc c = Some (s, c')"
  shows "distinct (map dk_Mountpoint (ss_Disk s)) \<and>
    mem_Used (ss_Memory s) + mem_Free (ss_Memory s) = mem_Total (ss_Memory s) \<and>
    mem_Used (ss_Swap s) + mem_Free (ss_Swap s) = mem_Total (ss_Swap s) \<and>
    (\<forall>d \<in> set (ss_Disk s). dk_Used d + dk_Free d = dk_Total d \<and>
       (dk_Free d \<le> dk_Total d \<longrightarrow> 0 \<le> dk_UsedPercent d \<and> dk_UsedPercent d \<le> 100))"
proof -
  have mem: "mem_Used (memoryStats r) + mem_Free (memoryStats r) = mem_Total (memoryStats r)" for r
    by (auto simp: memoryStats_def split: sum.split)
  have usage: "dk_Used d + dk_Free d = dk_Total d \<and>
      (dk_Free d \<le> dk_Total d \<longrightarrow> 0 \<le> dk_UsedPercent d \<and> dk_UsedPercent d \<le> 100)"
    if d: "getDiskUsage statfs m = Some d" for statfs m d
    using d percent_bounds [OF word_sub_le] by (auto simp: getDiskUsage_def Let_def split: option.splits)
  have disk: "d \<in> set (diskLoop statfs seen ls) \<Longrightarrow> \<exists>m. getDiskUsage statfs m = Some d" for statfs seen ls d
    by (induction statfs seen ls rule: diskLoop.induct) (auto simp: Let_def split: option.splits if_splits)
  have s: "ss_Disk s = readDiskStats (mc_statfs mc) (mc_proc mc)"
      "ss_Memory s = memoryStats (readMemInfo (mc_proc mc))" "ss_Swap s = memoryStats (readSwapInfo (mc_proc mc))"
    using assms by (auto simp: Collect_def Let_def split: option.splits prod.splits)
  have all: "\<forall>d \<in> set (ss_Disk s). \<exists>m. getDiskUsage (mc_statfs mc) m = Some d"
    using disk by (auto simp: s readDiskStats_def split: option.splits)
  show ?thesis
    using diskLoop_mounts all usage mem by (auto simp: s readDiskStats_def split: option.splits)
qed

text \<open>C14. Process control spares the protected processes: whatever process identifier is asked for,
  at most one signal is sent, to that process; never to the init process, to the Agent itself, to a
  process whose name, without the suffix .service and surrounding space, is one of the protected names or starts like a kernel
  thread (kworker, migration/, watchdog/), to one whose command line names an OpenDeploy binary
  or a running update, or to one in the control group of a systemd service; a process that cannot be found
  gets none; and every refusal is reported as an error.\<close>

theorem kill_spares_protected:
  "case KillProcess self lookup proc deliver pid force sent of (r, sent') \<Rightarrow>
     (sent' = sent \<and> \<not> is_ok r) \<or>
     (\<exists>p. sent' = sent @ [(pid, force)] \<and> is_ok r = deliver pid force \<and> 1 < pid \<and> pid \<noteq> self \<and> lookup pid = Some p \<and>
        TrimSpace (TrimSuffix (pr_Name p) ''.service'') \<notin> set protectedProcessNames \<and>
        \<not> HasPrefix (TrimSpace (TrimSuffix (pr_Name p) ''.service'')) ''kworker'' \<and>
        \<not> HasPrefix (TrimSpace (TrimSuffix (pr_Name p) ''.service'')) ''migration/'' \<and>
        \<not> HasPrefix (TrimSpace (TrimSuffix (pr_Name p) ''.service'')) ''watchdog/'' \<and>
        \<not> Contains (pr_Cmdline p) ''/opendeploy-agent'' \<and> \<not> Contains (pr_Cmdline p) ''/opendeploy-core'' \<and>
        \<not> Contains (pr_Cmdline p) ''opendeploy update --apply'' \<and>
        (\<forall>cg. proc (''/proc/'' @ Itoa pid @ ''/cgroup'') = Some cg \<longrightarrow> \<not> Contains cg ''.service''))"
proof (cases "protectedProcessReason self lookup proc pid = []")
  case False
  then show ?thesis by (simp add: KillProcess_def)
next
  case True
  have pid: "1 < pid" "pid \<noteq> self"
    using True by (auto simp: protectedProcessReason_def Let_def split: if_splits)
  show ?thesis
  proof (cases "lookup pid")
    case None
    then show ?thesis using True by (simp add: KillProcess_def)
  next
    case (Some p)
    then have nm: "protectedNameReason (pr_Name p) = []"
      using True pid by (auto simp: protectedProcessReason_def Let_def split: if_splits)
    have cmd: "\<not> Contains (pr_Cmdline p) ''/opendeploy-agent''" "\<not> Contains (pr_Cmdline p) ''/opendeploy-core''"
      "\<not> Contains (pr_Cmdline p) ''opendeploy update --apply''"
      using True pid Some nm unfolding protectedProcessReason_def Let_def by (simp_all split: if_splits)
    have cg: "proc (''/proc/'' @ Itoa pid @ ''/cgroup'') = Some cg \<Longrightarrow> \<not> Contains cg ''.service''" for cg
      using True pid Some nm cmd unfolding protectedProcessReason_def Let_def by (simp split: if_splits)
    have names: "TrimSpace (TrimSuffix (pr_Name p) ''.service'') \<notin> set protectedProcessNames"
      "\<not> HasPrefix (TrimSpace (TrimSuffix (pr_Name p) ''.service'')) ''kworker''"
      "\<not> HasPrefix (TrimSpace (TrimSuffix (pr_Name p) ''.service'')) ''migration/''"
      "\<not> HasPrefix (TrimSpace (TrimSuffix (pr_Name p) ''.service'')) ''watchdog/''"
      using nm unfolding protectedNameReason_def Let_def by (simp_all split: if_splits)
    have "KillProcess self lookup proc deliver pid force sent =
        (if deliver pid force then Ok () else Err SignalFailed, sent @ [(pid, force)])"
      using True Some by (simp add: KillProcess_def)
    then show ?thesis using pid Some names cmd cg by simp
  qed
qed

definition sampleMachine :: machine where
  "sampleMachine = \<lparr>mc_proc = (\<lambda>f. if f = ''/proc/stat'' then Some ''cpu 4 0 2 90 1 1 1 0'' else None),
     mc_statfs = (\<lambda>_. None), mc_glob = (\<lambda>_. []), mc_parseFloat = (\<lambda>_. (0, False)), mc_NumCPU = 4, mc_Now = 0\<rparr>"

definition oldMachine :: machine where
  "oldMachine = sampleMachine\<lparr>mc_proc := (\<lambda>f. if f = ''/proc/stat'' then Some ''cpu 4 0 2 90 1 1 1'' else None)\<rparr>"

definition sampleCollector :: Collector where
  "sampleCollector = \<lparr>prevNetRx = 0, prevNetTx = 0, prevStatIdle = 80, prevStatTotal = 88, lastCollect = 0\<rparr>"

theorem cpu_usage_range_witness:
  "cpu_UsagePercent (fst (collectCPU 4 (Ok (79, 100)) sampleCollector)) \<le> - 100"
proof -
  have "79 < prevStatIdle sampleCollector" "unat (prevStatIdle sampleCollector - 79) < 2 ^ 62"
    "100 \<noteq> prevStatTotal sampleCollector" "unat (100 - prevStatTotal sampleCollector) \<le> 2 ^ 62"
    by (simp_all add: sampleCollector_def)
  then show ?thesis
    using cpu_usage_range [of 4 79 100 sampleCollector "fst (collectCPU 4 (Ok (79, 100)) sampleCollector)"
        "snd (collectCPU 4 (Ok (79, 100)) sampleCollector)"] by simp
qed

theorem short_cpu_line_panics_witness:
  "NewCollector oldMachine = None \<and> Collect oldMachine sampleCollector = None"
proof (rule short_cpu_line_panics)
  show "mc_proc oldMachine ''/proc/stat'' = Some ''cpu 4 0 2 90 1 1 1''" by (simp add: oldMachine_def)
  show "scanLines ''cpu 4 0 2 90 1 1 1'' = ''cpu 4 0 2 90 1 1 1'' # []" by (simp add: scanLines_def dropCR_def)
  show "HasPrefix ''cpu 4 0 2 90 1 1 1'' ''cpu ''" by code_simp
  show "length (Fields ''cpu 4 0 2 90 1 1 1'') = 8" by code_simp
qed

theorem snapshot_consistent_witness:
  "distinct (map dk_Mountpoint (ss_Disk (fst (the (Collect sampleMachine sampleCollector)))))"
proof -
  have r: "readCPUStat (mc_proc sampleMachine) \<noteq> None"
  proof -
    have "length (Fields ''cpu 4 0 2 90 1 1 1 0'') = 9" "HasPrefix ''cpu 4 0 2 90 1 1 1 0'' ''cpu ''" by code_simp+
    then show ?thesis by (simp add: readCPUStat_def sampleMachine_def scanLines_def dropCR_def Let_def del: Fields.simps)
  qed
  then have "Collect sampleMachine sampleCollector \<noteq> None"
    by (auto simp: Collect_def Let_def split: prod.splits)
  then obtain s c' where "Collect sampleMachine sampleCollector = Some (s, c')" by fastforce
  then show ?thesis using snapshot_consistent [of sampleMachine sampleCollector s c'] by simp
qed

definition sleeper :: process where
  "sleeper = \<lparr>pr_Pid = 42, pr_Ppid = 7, pr_Name = ''sleep'', pr_User = ''deploy'', pr_CpuPercent = 0, pr_MemPercent = 0,
     pr_MemRss = 0, pr_NumThreads = 1, pr_CreateTime = 0, pr_Cmdline = ''sleep 60''\<rparr>"

theorem kill_spares_protected_witness:
  "KillProcess 1000 (\<lambda>_. Some sleeper) (\<lambda>_. Some ''user.slice'') (\<lambda>_ _. True) 42 False [] = (Ok (), [(42, False)]) \<and>
   \<not> Contains ''user.slice'' ''.service''"
proof -
  have k: "KillProcess 1000 (\<lambda>_. Some sleeper) (\<lambda>_. Some ''user.slice'') (\<lambda>_ _. True) 42 False [] = (Ok (), [(42, False)])"
    by code_simp
  then show ?thesis
    using kill_spares_protected [where self = 1000 and lookup = "\<lambda>_. Some sleeper" and proc = "\<lambda>_. Some ''user.slice''"
      and deliver = "\<lambda>_ _. True" and pid = 42 and force = False and sent = "[]"] by simp
qed

end
