(* ===== verification/Agent_Server.thy ===== *)
theory Agent_Server
  imports Agent_Firewall Agent_Archive Agent_Stats
begin

text \<open>
  The Agent's request handlers (\<open>internal/agent/server/server.go\<close>): each checks its request, calls
  one of the managers and turns every error into one of a few codes. The state of the Agent is what the
  managers act on: the processes it started, the archivers it ran, the file system, the signals it sent
  and the metrics collector. The handlers of the file manager are \<open>handle_file\<close>.
\<close>

section \<open>The Agent and its environment\<close>

record agent =
  ag_log :: "spawned list"
  ag_archivers :: "(string \<times> string list) list"
  ag_os :: os
  ag_signals :: signals
  ag_collector :: Collector

record 't server_env =
  sv_shell :: shell_env
  sv_pkgs :: "pkg_manager option"
  sv_fs :: Manager
  sv_parseTime :: "string \<Rightarrow> 't option"
  sv_codecs :: codecs
  sv_cancelled :: "nat \<Rightarrow> bool"
  sv_archiver :: "string \<Rightarrow> string list \<Rightarrow> string list \<times> bool"
  sv_pid :: int
  sv_lookup :: "int \<Rightarrow> process option"
  sv_processes :: "process list option"
  sv_proc :: "string \<Rightarrow> string option"
  sv_deliver :: "int \<Rightarrow> bool \<Rightarrow> bool"
  sv_machine :: machine
  sv_owner :: "int \<Rightarrow> int \<Rightarrow> string \<times> string"
  sv_dirSize :: int
  sv_rnd :: string
  sv_send :: "nat \<Rightarrow> bool"
  sv_version :: string

text \<open>The codes of \<open>status.Error\<close>. \<open>StreamBroken\<close> is the error that \<open>stream.Send\<close>
  returned, \<open>Panicked\<close> a run-time panic of the handler.\<close>

datatype code =
    InvalidArgument string
  | FailedPrecondition string
  | InternalErr
  | Unimplemented
  | StreamBroken
  | Panicked

datatype ServiceActionType =
    ACTION_NONE | ACTION_START | ACTION_STOP | ACTION_RESTART | ACTION_ENABLE | ACTION_DISABLE | ACTION_RELOAD

type_synonym 'a rpc = "(agent, code, 'a) action"

text \<open>\<open>internalError\<close>: the details stay in the Agent's log.\<close>

definition internalError :: "'e \<Rightarrow> code" where
  "internalError e = InternalErr"

definition onLog :: "(spawned list, 'e, 'a) action \<Rightarrow> (agent, 'e, 'a) action" where
  "onLog m s = (case m (ag_log s) of (r, l) \<Rightarrow> (r, s\<lparr>ag_log := l\<rparr>))"

definition onOS :: "(os, 'e, 'a) action \<Rightarrow> (agent, 'e, 'a) action" where
  "onOS m s = (case m (ag_os s) of (r, x) \<Rightarrow> (r, s\<lparr>ag_os := x\<rparr>))"

definition onSignals :: "(signals, 'e, 'a) action \<Rightarrow> (agent, 'e, 'a) action" where
  "onSignals m s = (case m (ag_signals s) of (r, x) \<Rightarrow> (r, s\<lparr>ag_signals := x\<rparr>))"

section \<open>Services and logs\<close>

definition ServiceAction :: "'t server_env \<Rightarrow> string \<Rightarrow> ServiceActionType \<Rightarrow> unit rpc" where
  "ServiceAction env name act =
     (let run = (\<lambda>f. wrapS internalError (onLog (f (sv_shell env) name)))
      in bindS (guardS (name = []) (InvalidArgument ''service_name is required'')) (\<lambda>_.
         case act of
           ACTION_START \<Rightarrow> run systemd_Start
         | ACTION_STOP \<Rightarrow> run systemd_Stop
         | ACTION_RESTART \<Rightarrow> run systemd_Restart
         | ACTION_ENABLE \<Rightarrow> run systemd_Enable
         | ACTION_DISABLE \<Rightarrow> run systemd_Disable
         | ACTION_RELOAD \<Rightarrow> run systemd_Reload
         | ACTION_NONE \<Rightarrow> failS (InvalidArgument ''unsupported service action'')))"

definition rpc_ServiceStatus :: "'t server_env \<Rightarrow> string \<Rightarrow> (string \<times> bool \<times> bool \<times> string) rpc" where
  "rpc_ServiceStatus env name s =
     (case systemd_Status (sv_parseTime env) (sv_shell env) name (ag_log s) of
        (st, l) \<Rightarrow> (Ok (st_Name st, st_Active st, st_Enabled st, st_SubState st), s\<lparr>ag_log := l\<rparr>))"

text \<open>\<open>stream.Send\<close> for each line; \<open>n\<close> counts the messages sent. The result is what the
  client received and whether all of it was sent.\<close>

fun sendAll :: "(nat \<Rightarrow> bool) \<Rightarrow> nat \<Rightarrow> string list \<Rightarrow> string list \<times> bool" where
  "sendAll send n [] = ([], True)"
| "sendAll send n (l # ls) =
     (if send n then (case sendAll send (Suc n) ls of (out, done) \<Rightarrow> (l # out, done)) else ([], False))"

definition streamed :: "'t server_env \<Rightarrow> string list \<Rightarrow> string list rpc" where
  "streamed env ls = (case sendAll (sv_send env) 0 ls of (out, done) \<Rightarrow> if done then retS out else failS StreamBroken)"

definition validLines :: "int \<Rightarrow> bool" where
  "validLines n = (1 \<le> n \<and> n \<le> 10000)"

definition ServiceLogs :: "'t server_env \<Rightarrow> string \<Rightarrow> int \<Rightarrow> string list rpc" where
  "ServiceLogs env name n =
     bindS (guardS (\<not> validLines n) (InvalidArgument ''lines must be between 1 and 10000'')) (\<lambda>_.
     bindS (wrapS internalError (onLog (systemd_Logs (sv_shell env) name n))) (streamed env))"

text \<open>The loop of FileLogs over the bytes of the output.\<close>

fun byteLines :: "string \<Rightarrow> string \<Rightarrow> string list" where
  "byteLines currentLine [] = (if currentLine \<noteq> [] then [currentLine] else [])"
| "byteLines currentLine (c # cs) =
     (if c = NL then currentLine # byteLines [] cs else byteLines (currentLine @ [c]) cs)"

definition FileLogs :: "'t server_env \<Rightarrow> string \<Rightarrow> int \<Rightarrow> string list rpc" where
  "FileLogs env path n =
     bindS (guardS (\<not> validLines n) (InvalidArgument ''lines must be between 1 and 10000'')) (\<lambda>_.
     bindS (guardS (path = []) (InvalidArgument ''path is required'')) (\<lambda>_.
     bindS (wrapS internalError (onLog (shell_Ok (sv_shell env) ''tail'' [''-n'', Itoa n, path]))) (\<lambda>out.
     streamed env (byteLines [] out))))"

definition StreamLogs :: "'t server_env \<Rightarrow> string \<Rightarrow> string list rpc" where
  "StreamLogs env path =
     bindS (guardS (path = []) (InvalidArgument ''path is required'')) (\<lambda>_.
     bindS (wrapS internalError (onLog (shell_Stream (sv_shell env) ''tail'' [''-f'', path]))) (streamed env))"

definition ServiceStreamLogs :: "'t server_env \<Rightarrow> string \<Rightarrow> string list rpc" where
  "ServiceStreamLogs env name =
     bindS (guardS (name = []) (InvalidArgument ''service_name is required'')) (\<lambda>_.
     bindS (wrapS internalError
              (onLog (shell_Stream (sv_shell env) ''journalctl'' [''-u'', name, ''-f'', ''-n'', ''10'']))) (streamed env))"

definition CommandExecute :: "'t server_env \<Rightarrow> string \<Rightarrow> string list \<Rightarrow> Result rpc" where
  "CommandExecute env command args s =
     (if command = [] then (Err (InvalidArgument ''command is required''), s)
      else case shell_Run (sv_shell env) command args (ag_log s) of
             ((Some res, _), l) \<Rightarrow> (Ok res, s\<lparr>ag_log := l\<rparr>)
           | ((None, Some e), l) \<Rightarrow> (Err (internalError e), s\<lparr>ag_log := l\<rparr>)
           | ((None, None), l) \<Rightarrow> (Err Panicked, s\<lparr>ag_log := l\<rparr>))"

section \<open>Packages\<close>

text \<open>
  The operation is passed as a method value of the package manager, so it is evaluated by the caller:
  with no package manager that evaluation is a call through a nil interface and panics.
\<close>

definition streamPackage ::
  "'t server_env \<Rightarrow> string \<Rightarrow> (shell_env \<Rightarrow> string \<Rightarrow> string list host) \<Rightarrow> string list rpc" where
  "streamPackage env pkg operation =
     bindS (guardS (sv_pkgs env = None) (FailedPrecondition ''no supported package manager is available'')) (\<lambda>_.
     bindS (wrapS internalError (onLog (operation (sv_shell env) pkg))) (streamed env))"

definition methodValue :: "'t server_env \<Rightarrow> (pkg_manager \<Rightarrow> 'f) \<Rightarrow> ('f \<Rightarrow> 'a rpc) \<Rightarrow> 'a rpc" where
  "methodValue env f k = (case sv_pkgs env of None \<Rightarrow> failS Panicked | Some m \<Rightarrow> k (f m))"

definition PackageInstall :: "'t server_env \<Rightarrow> string \<Rightarrow> string list rpc" where
  "PackageInstall env pkg = methodValue env pkg_Install (streamPackage env pkg)"

definition PackageRemove :: "'t server_env \<Rightarrow> string \<Rightarrow> string list rpc" where
  "PackageRemove env pkg = methodValue env pkg_Remove (streamPackage env pkg)"

definition PackageUpdate :: "'t server_env \<Rightarrow> string \<Rightarrow> string list rpc" where
  "PackageUpdate env pkg = methodValue env pkg_Update (streamPackage env pkg)"

definition PackageStatus :: "'t server_env \<Rightarrow> string \<Rightarrow> (bool \<times> string) rpc" where
  "PackageStatus env pkg =
     (case sv_pkgs env of
        None \<Rightarrow> failS (FailedPrecondition ''no supported package manager is available'')
      | Some m \<Rightarrow> wrapS internalError (onLog (pkg_Installed m (sv_shell env) pkg)))"

section \<open>Files and archives\<close>

definition rpc_file :: "'t server_env \<Rightarrow> file_request \<Rightarrow> file_response rpc" where
  "rpc_file env req =
     wrapS internalError (onOS (handle_file (sv_owner env) (sv_dirSize env) (sv_fs env) (sv_rnd env) req))"

definition archiveFormat :: "string \<Rightarrow> string option" where
  "archiveFormat dest =
     (if HasSuffix dest ''.zip'' then Some ''zip''
      else if HasSuffix dest ''.tar.gz'' \<or> HasSuffix dest ''.tgz'' then Some ''tar.gz''
      else if HasSuffix dest ''.tar.xz'' \<or> HasSuffix dest ''.txz'' then Some ''tar.xz''
      else if HasSuffix dest ''.tar.bz2'' \<or> HasSuffix dest ''.tbz2'' then Some ''tar.bz2''
      else if HasSuffix dest ''.tar'' then Some ''tar''
      else if HasSuffix dest ''.7z'' then Some ''7z''
      else None)"

fun resolveAll :: "Manager \<Rightarrow> string list \<Rightarrow> string list fs" where
  "resolveAll m [] s = (Ok [], s)"
| "resolveAll m (p # ps) s = bindS (Resolve m p) (\<lambda>r. bindS (resolveAll m ps) (\<lambda>rs. retS (r # rs))) s"

text \<open>The archiver that Create starts, if it gets that far, is recorded.\<close>

definition runArchiver :: "'t server_env \<Rightarrow> string \<Rightarrow> string \<Rightarrow> string list \<Rightarrow> (agent, arch_error, unit) action" where
  "runArchiver env format dest files s =
     (Create (sv_archiver env) format dest files,
      case (if files = [] \<or> length files > maxArchiveEntries then None else archiveCommand format dest files) of
        None \<Rightarrow> s | Some cmd \<Rightarrow> s\<lparr>ag_archivers := ag_archivers s @ [cmd]\<rparr>)"

definition ArchiveCreate :: "'t server_env \<Rightarrow> string \<Rightarrow> string list \<Rightarrow> unit rpc" where
  "ArchiveCreate env dst paths =
     bindS (wrapS (\<lambda>_. InvalidArgument ''invalid archive destination'') (onOS (Resolve (sv_fs env) dst))) (\<lambda>dest.
     bindS (wrapS (\<lambda>_. InvalidArgument ''invalid archive source'') (onOS (resolveAll (sv_fs env) paths))) (\<lambda>srcs.
     case archiveFormat dest of
       None \<Rightarrow> failS (InvalidArgument ''unsupported archive format'')
     | Some format \<Rightarrow> wrapS internalError (runArchiver env format dest srcs)))"

definition ArchiveExtract :: "'t server_env \<Rightarrow> string \<Rightarrow> string \<Rightarrow> unit rpc" where
  "ArchiveExtract env src dst =
     bindS (wrapS (\<lambda>_. InvalidArgument ''invalid archive source'') (onOS (Resolve (sv_fs env) src))) (\<lambda>source.
     bindS (wrapS (\<lambda>_. InvalidArgument ''invalid archive destination'') (onOS (Resolve (sv_fs env) dst))) (\<lambda>dest.
     wrapS internalError (onOS (Extract (sv_codecs env) (sv_cancelled env) source dest))))"

definition FileUploadStream :: "'t server_env \<Rightarrow> unit rpc" where
  "FileUploadStream env = failS Unimplemented"

section \<open>Firewall, metrics, processes\<close>

definition FirewallRule :: "'t server_env \<Rightarrow> FirewallRuleRequest \<Rightarrow> unit rpc" where
  "FirewallRule env req = wrapS internalError (onLog (fw_AddRule (sv_shell env) req))"

definition FirewallDelete :: "'t server_env \<Rightarrow> string \<Rightarrow> unit rpc" where
  "FirewallDelete env rid = wrapS internalError (onLog (fw_DeleteRule (sv_shell env) rid))"

definition FirewallList :: "'t server_env \<Rightarrow> FirewallEntry list rpc" where
  "FirewallList env = wrapS internalError (onLog (fw_List (sv_shell env)))"

definition rpc_FirewallStatus :: "'t server_env \<Rightarrow> FirewallStatus rpc" where
  "rpc_FirewallStatus env = wrapS internalError (onLog (fw_Status (sv_shell env)))"

definition FirewallToggle :: "'t server_env \<Rightarrow> bool \<Rightarrow> unit rpc" where
  "FirewallToggle env enable = wrapS internalError (onLog (fw_Toggle (sv_shell env) enable))"

definition FirewallReset :: "'t server_env \<Rightarrow> unit rpc" where
  "FirewallReset env = wrapS internalError (onLog (fw_Reset (sv_shell env)))"

definition rpc_SystemStats :: "'t server_env \<Rightarrow> SystemStats rpc" where
  "rpc_SystemStats env s =
     (case Collect (sv_machine env) (ag_collector s) of
        None \<Rightarrow> (Err Panicked, s)
      | Some (st, c) \<Rightarrow> (Ok st, s\<lparr>ag_collector := c\<rparr>))"

definition Ping :: "'t server_env \<Rightarrow> string rpc" where
  "Ping env = retS (sv_version env)"

definition ProcessList :: "'t server_env \<Rightarrow> process list rpc" where
  "ProcessList env = wrapS internalError (liftS (CollectProcesses (sv_processes env)))"

definition killCode :: "kill_error \<Rightarrow> code" where
  "killCode e = (case e of
     ErrProtectedProcess _ \<Rightarrow> FailedPrecondition ''process is protected; use service management for system services''
   | _ \<Rightarrow> internalError e)"

definition ProcessKill :: "'t server_env \<Rightarrow> int \<Rightarrow> bool \<Rightarrow> unit rpc" where
  "ProcessKill env pid force =
     wrapS killCode (onSignals (KillProcess (sv_pid env) (sv_lookup env) (sv_proc env) (sv_deliver env) pid force))"

section \<open>Requests\<close>

datatype request =
    RServiceAction string ServiceActionType
  | RServiceStatus string
  | RServiceLogs string int
  | RFileLogs string int
  | RStreamLogs string
  | RServiceStreamLogs string
  | RCommandExecute string "string list"
  | RPackageInstall string
  | RPackageRemove string
  | RPackageUpdate string
  | RPackageStatus string
  | RFile file_request
  | RArchiveCreate string "string list"
  | RArchiveExtract string string
  | RFileUploadStream
  | RFirewallRule FirewallRuleRequest
  | RFirewallDelete string
  | RFirewallList
  | RFirewallStatus
  | RFirewallToggle bool
  | RFirewallReset
  | RSystemStats
  | RPing
  | RProcessList
  | RProcessKill int bool

text \<open>What a request does to the Agent, and the code it ends with (None: no error).\<close>

definition ends :: "'a rpc \<Rightarrow> agent \<Rightarrow> code option \<times> agent" where
  "ends m s = (case m s of (Inl e, s') \<Rightarrow> (Some e, s') | (Inr _, s') \<Rightarrow> (None, s'))"

definition serve :: "'t server_env \<Rightarrow> request \<Rightarrow> agent \<Rightarrow> code option \<times> agent" where
  "serve env req =
     (case req of
        RServiceAction n a \<Rightarrow> ends (ServiceAction env n a)
      | RServiceStatus n \<Rightarrow> ends (rpc_ServiceStatus env n)
      | RServiceLogs n k \<Rightarrow> ends (ServiceLogs env n k)
      | RFileLogs p k \<Rightarrow> ends (FileLogs env p k)
      | RStreamLogs p \<Rightarrow> ends (StreamLogs env p)
      | RServiceStreamLogs n \<Rightarrow> ends (ServiceStreamLogs env n)
      | RCommandExecute c args \<Rightarrow> ends (CommandExecute env c args)
      | RPackageInstall p \<Rightarrow> ends (PackageInstall env p)
      | RPackageRemove p \<Rightarrow> ends (PackageRemove env p)
      | RPackageUpdate p \<Rightarrow> ends (PackageUpdate env p)
      | RPackageStatus p \<Rightarrow> ends (PackageStatus env p)
      | RFile r \<Rightarrow> ends (rpc_file env r)
      | RArchiveCreate d ps \<Rightarrow> ends (ArchiveCreate env d ps)
      | RArchiveExtract a d \<Rightarrow> ends (ArchiveExtract env a d)
      | RFileUploadStream \<Rightarrow> ends (FileUploadStream env)
      | RFirewallRule r \<Rightarrow> ends (FirewallRule env r)
      | RFirewallDelete i \<Rightarrow> ends (FirewallDelete env i)
      | RFirewallList \<Rightarrow> ends (FirewallList env)
      | RFirewallStatus \<Rightarrow> ends (rpc_FirewallStatus env)
      | RFirewallToggle b \<Rightarrow> ends (FirewallToggle env b)
      | RFirewallReset \<Rightarrow> ends (FirewallReset env)
      | RSystemStats \<Rightarrow> ends (rpc_SystemStats env)
      | RPing \<Rightarrow> ends (Ping env)
      | RProcessList \<Rightarrow> ends (ProcessList env)
      | RProcessKill p f \<Rightarrow> ends (ProcessKill env p f))"

section \<open>What every request keeps\<close>

definition archiver_ok :: "string \<times> string list \<Rightarrow> bool" where
  "archiver_ok cmd = (\<exists>format dest files. archiveCommand format dest files = Some cmd \<and> IsAbs dest \<and> list_all IsAbs files)"

definition signal_ok :: "int \<Rightarrow> int \<times> bool \<Rightarrow> bool" where
  "signal_ok self sig = (case sig of (pid, _) \<Rightarrow> 1 < pid \<and> pid \<noteq> self)"

definition serves :: "(string \<Rightarrow> bool) \<Rightarrow> int \<Rightarrow> agent \<Rightarrow> agent \<Rightarrow> bool" where
  "serves cm self s t =
     ((\<exists>cmds. ag_log t = ag_log s @ cmds \<and>
         list_all (\<lambda>c. is_ok (Validate cm (sp_binary c) (sp_args c)) \<and> sp_env c = restrictedEnvironment restrictedPath) cmds) \<and>
      (\<exists>cmds. ag_archivers t = ag_archivers s @ cmds \<and> list_all archiver_ok cmds) \<and>
      (\<exists>sigs. ag_signals t = ag_signals s @ sigs \<and> list_all (signal_ok self) sigs) \<and>
      wf_step (ag_os s) (ag_os t) \<and> ocw_step (ag_os s) (ag_os t))"

lemma serves_order [intro, simp]: "reflp (serves cm self)" "transp (serves cm self)"
proof -
  show "reflp (serves cm self)" by (simp add: reflp_def serves_def wf_step_def ocw_step_def)
  show "transp (serves cm self)"
    unfolding transp_def serves_def wf_step_def ocw_step_def by (force simp: list_all_append)
qed

lemma serves_refl [simp]: "serves cm self s s"
  by (rule reflpD [OF serves_order(1)])

lemma onLog_serves [keeps_intro]:
  assumes "keeps (grows env) m" "se_comment env = cm"
  shows "keeps (serves cm self) (onLog m)"
proof (rule keepsI)
  fix s
  show "serves cm self s (snd (onLog m s))"
    using keeps_at [OF assms(1), of "ag_log s"] assms(2)
    by (cases "m (ag_log s)")
      (auto simp: onLog_def serves_def grows_def permitted_def list_all_iff wf_step_def ocw_step_def)
qed

lemma onOS_serves [keeps_intro]:
  assumes "keeps wf_step m" "keeps ocw_step m"
  shows "keeps (serves cm self) (onOS m)"
proof (rule keepsI)
  fix s
  show "serves cm self s (snd (onOS m s))"
    using keeps_at [OF assms(1), of "ag_os s"] keeps_at [OF assms(2), of "ag_os s"]
    by (cases "m (ag_os s)") (auto simp: onOS_def serves_def)
qed

lemma streamed_serves [keeps_intro]: "keeps (serves cm self) (streamed env ls)"
  by (cases "sendAll (sv_send env) 0 ls") (auto simp: streamed_def intro: keeps_intro)

lemma services_serve [keeps_intro]:
  assumes [simp]: "se_comment (sv_shell env) = cm"
  shows "keeps (serves cm self) (ServiceAction env n a)" "keeps (serves cm self) (ServiceLogs env n k)"
    "keeps (serves cm self) (FileLogs env p k)" "keeps (serves cm self) (StreamLogs env p)"
    "keeps (serves cm self) (ServiceStreamLogs env n)"
proof -
  note log = onLog_serves [OF _ assms]
  show "keeps (serves cm self) (ServiceAction env n a)"
    unfolding ServiceAction_def Let_def
    by (cases a) (auto intro!: keeps_intro intro: log keeps_intro)
  show "keeps (serves cm self) (ServiceLogs env n k)" "keeps (serves cm self) (FileLogs env p k)"
    "keeps (serves cm self) (StreamLogs env p)" "keeps (serves cm self) (ServiceStreamLogs env n)"
    unfolding ServiceLogs_def FileLogs_def StreamLogs_def ServiceStreamLogs_def
    by (intro keeps_bindS keeps_guardS keeps_wrapS serves_order streamed_serves log keeps_intro)+
qed

lemma log_change_serves: "grows env (ag_log s) l \<Longrightarrow> se_comment env = cm \<Longrightarrow> serves cm self s (s\<lparr>ag_log := l\<rparr>)"
  by (auto simp: serves_def grows_def permitted_def list_all_iff wf_step_def ocw_step_def)

lemma direct_serve [keeps_intro]:
  assumes "se_comment (sv_shell env) = cm"
  shows "keeps (serves cm self) (rpc_ServiceStatus env n)" "keeps (serves cm self) (CommandExecute env c args)"
proof -
  show "keeps (serves cm self) (rpc_ServiceStatus env n)"
  proof (rule keepsI)
    fix s
    show "serves cm self s (snd (rpc_ServiceStatus env n s))"
      using log_change_serves [OF systemd_Status_grows [of "sv_shell env" "ag_log s" "sv_parseTime env" n] assms]
      by (cases "systemd_Status (sv_parseTime env) (sv_shell env) n (ag_log s)") (simp add: rpc_ServiceStatus_def)
  qed
  show "keeps (serves cm self) (CommandExecute env c args)"
  proof (rule keepsI)
    fix s :: agent
    obtain r x l where run: "shell_Run (sv_shell env) c args (ag_log s) = ((r, x), l)" by (metis surj_pair)
    have "serves cm self s (s\<lparr>ag_log := l\<rparr>)" by (rule log_change_serves [OF shell_Run_grows [OF run] assms])
    then show "serves cm self s (snd (CommandExecute env c args s))"
      using run by (cases r; cases x) (auto simp: CommandExecute_def)
  qed
qed

lemma packages_serve [keeps_intro]:
  assumes "se_comment (sv_shell env) = cm"
  shows "keeps (serves cm self) (PackageInstall env p)" "keeps (serves cm self) (PackageRemove env p)"
    "keeps (serves cm self) (PackageUpdate env p)" "keeps (serves cm self) (PackageStatus env p)"
proof -
  note log = onLog_serves [OF _ assms]
  have stream: "keeps (serves cm self) (streamPackage env p f)" if "keeps (grows (sv_shell env)) (f (sv_shell env) p)" for f
    unfolding streamPackage_def by (intro keeps_bindS keeps_guardS keeps_wrapS serves_order streamed_serves log that)
  show "keeps (serves cm self) (PackageInstall env p)" "keeps (serves cm self) (PackageRemove env p)"
    "keeps (serves cm self) (PackageUpdate env p)" "keeps (serves cm self) (PackageStatus env p)"
    unfolding PackageInstall_def PackageRemove_def PackageUpdate_def PackageStatus_def methodValue_def
    by (cases "sv_pkgs env"; simp; intro stream keeps_failS keeps_wrapS log serves_order pkg_grows pkg_query_grows)+
qed

lemma firewall_serve [keeps_intro]:
  assumes "se_comment (sv_shell env) = cm"
  shows "keeps (serves cm self) (FirewallRule env r)" "keeps (serves cm self) (FirewallDelete env i)"
    "keeps (serves cm self) (FirewallList env)" "keeps (serves cm self) (rpc_FirewallStatus env)"
    "keeps (serves cm self) (FirewallToggle env b)" "keeps (serves cm self) (FirewallReset env)"
  unfolding FirewallRule_def FirewallDelete_def FirewallList_def rpc_FirewallStatus_def FirewallToggle_def FirewallReset_def
  by (intro keeps_wrapS onLog_serves [OF _ assms] keeps_intro)+

lemma Resolve_keeps: "keeps same_fs (Resolve m p)"
  unfolding Resolve_def by (intro keeps_intro same_fs_order)

lemma resolveAll_keeps: "keeps same_fs (resolveAll m ps)"
proof (induction ps)
  case Nil
  show ?case by (simp add: keeps_def)
next
  case (Cons p ps)
  have "keeps same_fs (bindS (Resolve m p) (\<lambda>r. bindS (resolveAll m ps) (\<lambda>rs. retS (r # rs))))"
    by (intro keeps_intro same_fs_order Resolve_keeps Cons)
  then show ?case by (simp add: keeps_def)
qed

lemma same_serves: "keeps same_fs m \<Longrightarrow> keeps (serves cm self) (onOS m)"
  by (intro onOS_serves; erule keeps_mono) (simp_all add: same_fs_mono ocw_same)

lemma Resolve_abs: "Resolve m p s = (Ok r, s') \<Longrightarrow> IsAbs r"
  by (auto simp: Resolve_def bindS_Ok)

lemma resolveAll_abs: "resolveAll m ps s = (Ok rs, s') \<Longrightarrow> list_all IsAbs rs"
  by (induction ps arbitrary: s rs s') (auto simp: bindS_Ok dest: Resolve_abs)

lemma runArchiver_serves:
  "IsAbs dest \<Longrightarrow> list_all IsAbs files \<Longrightarrow> serves cm self s (snd (runArchiver env format dest files s))"
  by (auto simp: runArchiver_def serves_def archiver_ok_def wf_step_def ocw_step_def split: option.split)

lemma wrapS_snd: "snd (wrapS f m s) = snd (m s)"
  by (auto simp: wrapS_def split: prod.split sum.split)

lemma onOS_Ok: "onOS m s = (Ok v, s') \<Longrightarrow> \<exists>x. m (ag_os s) = (Ok v, x)"
  by (auto simp: onOS_def split: prod.splits)

lemma ArchiveCreate_serves [keeps_intro]: "keeps (serves cm self) (ArchiveCreate env d ps)"
proof (rule keepsI)
  fix s
  let ?R = "wrapS (\<lambda>_. InvalidArgument ''invalid archive destination'') (onOS (Resolve (sv_fs env) d))"
  let ?A = "wrapS (\<lambda>_. InvalidArgument ''invalid archive source'') (onOS (resolveAll (sv_fs env) ps))"
  have kR: "serves cm self a (snd (?R a))" and kA: "serves cm self a (snd (?A a))" for a
    by (rule keeps_at, intro keeps_wrapS same_serves Resolve_keeps resolveAll_keeps)+
  obtain r1 s1 where 1: "?R s = (r1, s1)" by fastforce
  show "serves cm self s (snd (ArchiveCreate env d ps s))"
  proof (cases r1)
    case (Inl e)
    then show ?thesis using 1 kR [of s] by (simp add: ArchiveCreate_def bindS_def)
  next
    case (Inr dest)
    have dest: "IsAbs dest" using 1 Inr by (auto simp: wrapS_Ok dest!: onOS_Ok Resolve_abs)
    obtain r2 s2 where 2: "?A s1 = (r2, s2)" by fastforce
    have s2: "serves cm self s s2" using kR [of s] kA [of s1] 1 2 transpD [OF serves_order(2)] by fastforce
    show ?thesis
    proof (cases r2)
      case (Inl e)
      then show ?thesis using 1 2 Inr s2 by (simp add: ArchiveCreate_def bindS_def)
    next
      case r2: (Inr srcs)
      have "list_all IsAbs srcs" using 2 r2 by (auto simp: wrapS_Ok dest!: onOS_Ok resolveAll_abs)
      then have "serves cm self s2 (snd (wrapS f (runArchiver env format dest srcs) s2))" for f format
        unfolding wrapS_snd by (rule runArchiver_serves [OF dest])
      then show ?thesis
        using 1 2 Inr r2 s2 transpD [OF serves_order(2) s2]
        by (auto simp: ArchiveCreate_def bindS_def split: option.split)
    qed
  qed
qed

lemma rest_serve [keeps_intro]:
  "keeps (serves cm self) (rpc_file env r)" "keeps (serves cm self) (ArchiveExtract env a d)"
  "keeps (serves cm self) (FileUploadStream env)" "keeps (serves cm self) (rpc_SystemStats env)"
  "keeps (serves cm self) (Ping env)" "keeps (serves cm self) (ProcessList env)"
proof -
  show "keeps (serves cm self) (rpc_file env r)"
    unfolding rpc_file_def by (intro keeps_wrapS onOS_serves handle_file_wf handle_file_ocw)
  show "keeps (serves cm self) (ArchiveExtract env a d)"
    unfolding ArchiveExtract_def
    by (intro keeps_bindS keeps_wrapS serves_order same_serves Resolve_keeps onOS_serves arch_wf.extract_kept arch_ocw.extract_kept)
  show "keeps (serves cm self) (rpc_SystemStats env)"
    by (rule keepsI) (auto simp: rpc_SystemStats_def serves_def wf_step_def ocw_step_def split: option.split)
  show "keeps (serves cm self) (FileUploadStream env)" "keeps (serves cm self) (Ping env)" "keeps (serves cm self) (ProcessList env)"
    unfolding FileUploadStream_def Ping_def ProcessList_def by (intro keeps_intro serves_order)+
qed

lemma KillProcess_signals:
  assumes "KillProcess self lookup proc deliver pid force sent = (r, sent')"
  shows "\<exists>sigs. sent' = sent @ sigs \<and> list_all (signal_ok self) sigs"
proof (cases "protectedProcessReason self lookup proc pid = []")
  case True
  then have "1 < pid" "pid \<noteq> self" by (auto simp: protectedProcessReason_def Let_def split: if_splits)
  then show ?thesis
    using assms True by (auto simp: KillProcess_def signal_ok_def split: option.splits)
qed (use assms in \<open>auto simp: KillProcess_def Let_def\<close>)

lemma ProcessKill_serves: "sv_pid env = self \<Longrightarrow> keeps (serves cm self) (ProcessKill env p f)"
  unfolding ProcessKill_def
  by (intro keeps_wrapS keepsI)
    (auto simp: onSignals_def serves_def wf_step_def ocw_step_def dest: KillProcess_signals split: prod.split)

lemma ends_serves: "keeps (serves cm self) m \<Longrightarrow> serves cm self s (snd (ends m s))"
  by (auto simp: ends_def keeps_def split: prod.split sum.split) (metis snd_conv)+

lemma serve_serves:
  assumes "se_comment (sv_shell env) = cm" "sv_pid env = self"
  shows "serves cm self s (snd (serve env req s))"
  using assms
  by (cases req) (simp_all add: serve_def ends_serves services_serve direct_serve packages_serve firewall_serve
      ArchiveCreate_serves rest_serve ProcessKill_serves)

section \<open>Properties\<close>

text \<open>On a host without a supported package manager the three streaming package requests panic: the
  handlers form the method value of the nil manager before the check that would answer with a failed
  precondition, as the status request does.\<close>

theorem no_package_manager_panics:
  assumes "sv_pkgs env = None"
  shows "serve env (RPackageInstall p) s = (Some Panicked, s) \<and>
         serve env (RPackageRemove p) s = (Some Panicked, s) \<and>
         serve env (RPackageUpdate p) s = (Some Panicked, s) \<and>
         serve env (RPackageStatus p) s = (Some (FailedPrecondition ''no supported package manager is available''), s)"
  using assms
  by (simp add: serve_def ends_def PackageInstall_def PackageRemove_def PackageUpdate_def PackageStatus_def methodValue_def)

lemma byteLines_append: "NL \<notin> set cur \<Longrightarrow> byteLines cur s =
   (let ls = Split NL (cur @ s) in if last ls = [] then butlast ls else ls)"
proof (induction cur s rule: byteLines.induct)
  case (2 cur c cs)
  show ?case
  proof (cases "c = NL")
    case True
    then show ?thesis using 2 by (simp add: Split_append Let_def)
  next
    case False
    then show ?thesis using 2 by simp
  qed
qed (auto simp: Split_single)

text \<open>The byte loop of FileLogs delivers the lines of the output: its newline-separated parts
  without the empty one after a final newline, in order and each exactly once, as long as the stream
  takes them.\<close>

theorem file_log_lines:
  assumes "validLines n" "path \<noteq> []" "\<And>i. sv_send env i"
    and "shell_Ok (sv_shell env) ''tail'' [''-n'', Itoa n, path] (ag_log s) = (Ok out, log')"
  shows "FileLogs env path n s =
    (Ok (let ls = Split NL out in if last ls = [] then butlast ls else ls), s\<lparr>ag_log := log'\<rparr>)"
proof -
  have "sendAll (sv_send env) i ls = (ls, True)" for i ls
    using assms(3) by (induction ls arbitrary: i) auto
  then show ?thesis
    using assms(1,2,4) byteLines_append [of "[]" out]
    by (simp add: FileLogs_def bindS_def guardS_def wrapS_def onLog_def streamed_def Let_def)
qed

text \<open>A log request with an unusable argument does nothing: without a service name or path, or with
  a line count outside 1 to 10000, no process is started and the answer is an invalid-argument error;
  and a file is read only below /var/log, whatever path the client sent.\<close>

theorem log_requests_guarded:
  "(\<not> validLines n \<longrightarrow> (\<exists>m. serve env (RServiceLogs name n) s = (Some (InvalidArgument m), s)) \<and>
                       (\<exists>m. serve env (RFileLogs path n) s = (Some (InvalidArgument m), s))) \<and>
   (\<exists>m. serve env (RStreamLogs []) s = (Some (InvalidArgument m), s)) \<and>
   (\<exists>m. serve env (RServiceStreamLogs []) s = (Some (InvalidArgument m), s)) \<and>
   (ag_log (snd (serve env (RStreamLogs path) s)) \<noteq> ag_log s \<longrightarrow>
      HasPrefix path ''-'' \<or> MatchString decimal path \<or> path_under ''/var/log'' path)"
proof (intro conjI impI)
  assume "ag_log (snd (serve env (RStreamLogs path) s)) \<noteq> ag_log s"
  then have "is_ok (Validate (se_comment (sv_shell env)) ''tail'' [''-f'', path])"
    by (auto simp: serve_def ends_def StreamLogs_def bindS_def guardS_def wrapS_def onLog_def shell_Stream_def is_ok_def
        split: if_splits sum.splits)
  then have "tailOperand path = Ok ()"
    by (auto simp: is_ok_iff Validate_def validateOperands_def andThen_Ok split: if_splits option.splits)
  then show "HasPrefix path ''-'' \<or> MatchString decimal path \<or> path_under ''/var/log'' path"
    by (auto simp: tailOperand_def pathWithin_under split: if_splits)
qed (auto simp: serve_def ends_def ServiceLogs_def FileLogs_def StreamLogs_def ServiceStreamLogs_def bindS_def guardS_def)

section \<open>A concrete Agent\<close>

definition sampleEnv :: "unit server_env" where
  "sampleEnv = \<lparr>sv_shell = sampleShell, sv_pkgs = None, sv_fs = sampleManager, sv_parseTime = (\<lambda>_. None), sv_codecs = oneTar,
     sv_cancelled = (\<lambda>_. False), sv_archiver = (\<lambda>_ _. ([], True)), sv_pid = 7,
     sv_lookup = (\<lambda>p. Some \<lparr>pr_Pid = p, pr_Ppid = 1, pr_Name = ''php'', pr_User = ''www'', pr_CpuPercent = 0, pr_MemPercent = 0,
        pr_MemRss = 0, pr_NumThreads = 1, pr_CreateTime = 0, pr_Cmdline = ''php worker''\<rparr>),
     sv_processes = None, sv_proc = (\<lambda>_. None), sv_deliver = (\<lambda>_ _. True), sv_machine = sampleMachine,
     sv_owner = (\<lambda>_ _. ([], [])), sv_dirSize = 0, sv_rnd = ''r'', sv_send = (\<lambda>_. True), sv_version = ''1''\<rparr>"

definition sampleAgent :: agent where
  "sampleAgent = \<lparr>ag_log = [], ag_archivers = [], ag_os = sampleOS, ag_signals = [], ag_collector = sampleCollector\<rparr>"

theorem no_package_manager_panics_witness:
  "serve sampleEnv (RPackageInstall ''nginx'') sampleAgent = (Some Panicked, sampleAgent)"
  using no_package_manager_panics [of sampleEnv "''nginx''" sampleAgent] by (simp add: sampleEnv_def)

theorem file_log_lines_witness:
  "\<exists>out s'. FileLogs sampleEnv ''/var/log/nginx/error.log'' 5 sampleAgent =
     (Ok (let ls = Split NL out in if last ls = [] then butlast ls else ls), s')"
proof -
  obtain r log' where run: "shell_Ok (sv_shell sampleEnv) ''tail'' [''-n'', Itoa 5, ''/var/log/nginx/error.log''] (ag_log sampleAgent) = (r, log')"
    by fastforce
  have "Validate (\<lambda>_. False) ''tail'' [''-n'', Itoa 5, ''/var/log/nginx/error.log''] = Ok ()" by code_simp
  then obtain out where "r = Ok out"
    using run by (auto simp: sampleEnv_def sampleShell_def shell_Ok_def shell_Run_def Run_def Let_def)
  then show ?thesis
    using file_log_lines [of 5 "''/var/log/nginx/error.log''" sampleEnv sampleAgent out log'] run
    by (auto simp: validLines_def sampleEnv_def)
qed

theorem log_requests_guarded_witness:
  "\<exists>m. serve sampleEnv (RFileLogs ''/var/log/x'' 0) sampleAgent = (Some (InvalidArgument m), sampleAgent)"
  using log_requests_guarded [of 0 sampleEnv "''nginx''" sampleAgent "''/var/log/x''"] by (simp add: validLines_def)

end
