(* ===== verification/Agent_Cron.thy ===== *)
theory Agent_Cron
  imports Agent_Filesystem Go_Regexp "HOL-Library.Multiset"
begin

text \<open>
  The Agent's cron component (\<open>internal/agent/cron\<close>: types, validation, discovery of the host's
  own jobs, the manager) and its request handlers (\<open>internal/agent/server/cron.go\<close>). The manager
  keeps two files that must agree: its state (jobs and history) and the table that the cron daemon
  reads. Both are replaced by \<open>atomicWrite\<close>, whose system calls are modelled here; the manager's
  operations see a file as replaced or unchanged. The state file is its decoded value: missing, not
  decodable, or a store. Every read and write can fail.
\<close>

section \<open>Jobs\<close>

definition JobTypeUnknown :: string where "JobTypeUnknown = ''UNKNOWN''"
definition JobTypeSystem :: string where "JobTypeSystem = ''SYSTEM''"
definition JobTypePackage :: string where "JobTypePackage = ''PACKAGE''"
definition JobTypeOpenDeploy :: string where "JobTypeOpenDeploy = ''OPENDEPLOY''"
definition JobTypeUser :: string where "JobTypeUser = ''USER''"

record Job =
  j_ID :: string
  j_Name :: string
  j_Description :: string
  j_Command :: string
  j_WorkingDir :: string
  j_User :: string
  j_Environment :: "(string \<times> string) list"
  j_Expression :: string
  j_Timezone :: string
  j_Enabled :: bool
  j_CreatedAt :: int
  j_UpdatedAt :: int
  j_Source :: string
  j_ReadOnly :: bool
  j_Type :: string
  j_PackageName :: string
  j_IsProtected :: bool
  j_CanEdit :: bool
  j_CanDelete :: bool
  j_LockReason :: string

record Run =
  r_ID :: string
  r_JobID :: string
  r_StartedAt :: int
  r_FinishedAt :: int
  r_Duration :: int
  r_ExitCode :: int
  r_Stdout :: string
  r_Stderr :: string
  r_Triggered :: string
  r_Actor :: string

record Store =
  st_Jobs :: "Job list"
  st_History :: "Run list"

record Validation =
  va_Valid :: bool
  va_Warnings :: "string list"

datatype cron_error =
    BadJobID
  | BadJobName
  | BadExpression string
  | BadCommand
  | UserRequired
  | NoSuchUser string
  | BadWorkingDir
  | BadEnvironment string
  | BadTimezone
  | CronRead
  | CronDecode
  | CronWrite
  | JobExists string
  | JobProtected string
  | ErrNotExist
  | InvalidStored string cron_error
  | RunFailed

section \<open>Validation\<close>

text \<open>What validation asks of the host: accounts, directories, time zones.\<close>

record cron_env =
  ce_users :: "string \<Rightarrow> bool"
  ce_isDir :: "string \<Rightarrow> bool"
  ce_zone :: "string \<Rightarrow> bool"
  ce_file :: "string \<Rightarrow> string option"
  ce_dir :: "string \<Rightarrow> (string \<times> bool \<times> bool) list"
  ce_dpkg :: "string \<Rightarrow> string option"
  ce_hash :: "string \<Rightarrow> string"
  ce_Now :: int

definition jobIDPattern :: rexp where
  "jobIDPattern = RSeq (RCls is_alnum) (RUpto 63 (RCls (Class [is_alnum] ''_-'')))"

definition envKeyPattern :: rexp where
  "envKeyPattern = RSeq (RCls (Class [is_upper] ''_'')) (RUpto 63 (RCls (Class [is_upper, is_digit] ''_'')))"

definition cronTokenPattern :: rexp where
  "cronTokenPattern = RPlus (RCls (Class [is_digit] ''*/?,LW#-''))"

text \<open>\<open>fmt.Sscanf(value, "%d", &parsed)\<close> on the characters that reach it: the leading digits, and
  None when there are none or the number does not fit into 64 bits.\<close>

definition Sscanf_d :: "string \<Rightarrow> int option" where
  "Sscanf_d s = (case takeWhile is_digit s of [] \<Rightarrow> None | ds \<Rightarrow> Atoi ds)"

definition validCronValue :: "int \<Rightarrow> int \<Rightarrow> string \<Rightarrow> bool" where
  "validCronValue minimum maximum v =
     (case Sscanf_d v of None \<Rightarrow> False | Some n \<Rightarrow> minimum \<le> n \<and> n \<le> maximum)"

definition validCronPart :: "int \<Rightarrow> int \<Rightarrow> string \<Rightarrow> bool" where
  "validCronPart minimum maximum part =
     (let base = hd (SplitN2 SLASH part)
      in base = ''*'' \<or> base = ''?'' \<or> ContainsAny base ''LW#'' \<or>
         list_all (validCronValue minimum maximum) (Split (CHR ''-'') base))"

definition validateCronField :: "string \<Rightarrow> int \<times> int \<Rightarrow> bool" where
  "validateCronField field = (\<lambda>(minimum, maximum). list_all (validCronPart minimum maximum) (Split (CHR '','') field))"

definition cronRanges :: "(int \<times> int) list" where
  "cronRanges = [(0, 59), (0, 23), (1, 31), (1, 12), (0, 7)]"

definition ValidateExpression :: "string \<Rightarrow> (cron_error, unit) result" where
  "ValidateExpression expression =
     (let fields = Fields expression
      in if length fields \<noteq> 5 then Err (BadExpression ''five fields'')
         else if \<not> list_all (MatchString cronTokenPattern) fields then Err (BadExpression ''unsupported characters'')
         else if \<not> list_all2 validateCronField fields cronRanges then Err (BadExpression ''value'')
         else Ok ())"

definition dangerous :: "string list" where
  "dangerous = [''rm -rf /'', ''mkfs.'', ''dd if='', '':(){'', ''shutdown'', ''poweroff'', ''reboot'',
     ''> /dev/sd'', ''chmod -r 777 /'', ''chown -r root /'']"

definition validateCommand :: "string \<Rightarrow> (cron_error, unit) result" where
  "validateCommand raw =
     (let command = TrimSpace raw
      in if command = [] \<or> length command > 8192 \<or> ContainsAny command [NUL, CR, NL] then Err BadCommand
         else if list_ex (Contains (ToLower command)) dangerous then Err BadCommand
         else Ok ())"

definition validateEnvironment :: "string \<times> string \<Rightarrow> (cron_error, unit) result" where
  "validateEnvironment = (\<lambda>(key, v).
     if \<not> MatchString envKeyPattern key then Err (BadEnvironment key)
     else if ContainsAny v [NUL, CR, NL] \<or> length v > 4096 then Err (BadEnvironment key) else Ok ())"

definition ValidateJob :: "cron_env \<Rightarrow> Job \<Rightarrow> (cron_error, Validation) result" where
  "ValidateJob env job =
     andThen (guardE (\<not> MatchString jobIDPattern (j_ID job)) BadJobID) (\<lambda>_.
     andThen (guardE (TrimSpace (j_Name job) = [] \<or> length (j_Name job) > 128) BadJobName) (\<lambda>_.
     andThen (ValidateExpression (j_Expression job)) (\<lambda>_.
     andThen (validateCommand (j_Command job)) (\<lambda>_.
     andThen (guardE (j_User job = []) UserRequired) (\<lambda>_.
     andThen (guardE (\<not> ce_users env (j_User job)) (NoSuchUser (j_User job))) (\<lambda>_.
     andThen (guardE (j_WorkingDir job \<noteq> [] \<and>
                (\<not> IsAbs (j_WorkingDir job) \<or> Contains (j_WorkingDir job) ''..'' \<or> \<not> ce_isDir env (j_WorkingDir job)))
              BadWorkingDir) (\<lambda>_.
     andThen (forEach validateEnvironment (j_Environment job)) (\<lambda>_.
     andThen (guardE (j_Timezone job \<noteq> [] \<and>
                (Contains (j_Timezone job) ''..'' \<or> ContainsAny (j_Timezone job) [NUL, CR, NL, SPACE] \<or>
                 \<not> ce_zone env (PathJoin [''/usr/share/zoneinfo'', j_Timezone job]))) BadTimezone) (\<lambda>_.
     Ok \<lparr>va_Valid = True,
         va_Warnings = (if j_User job = ''root'' then [''task runs with root privileges''] else [])\<rparr>)))))))))"

section \<open>The host's own jobs\<close>

definition determinePackage :: "cron_env \<Rightarrow> string \<Rightarrow> string" where
  "determinePackage env path =
     (case ce_dpkg env path of None \<Rightarrow> []
      | Some out \<Rightarrow> (case SplitN2 (CHR '':'') out of [p, _] \<Rightarrow> TrimSpace p | _ \<Rightarrow> []))"

text \<open>What a file's origin says of its jobs: type, protected, editable, package, reason.\<close>

definition fileOrigin :: "cron_env \<Rightarrow> string \<Rightarrow> string \<Rightarrow> string \<times> bool \<times> bool \<times> string \<times> string" where
  "fileOrigin env path source =
     (if source = ''User'' then (JobTypeUser, False, True, [], [])
      else if source = ''System'' then
        let pkg = determinePackage env path
        in if pkg \<noteq> [] then (JobTypePackage, True, False, pkg, ''Managed by Package ('' @ pkg @ '')'')
           else (JobTypeSystem, True, False, [], ''Managed by OS'')
      else (JobTypeSystem, False, False, [], []))"

definition parseSystemLine :: "cron_env \<Rightarrow> string \<Rightarrow> string \<Rightarrow> bool \<Rightarrow> nat \<Rightarrow> string \<Rightarrow> Job option" where
  "parseSystemLine env path source hasUser lineNumber raw =
     (let line = TrimSpace raw;
          fields = Fields line;
          required = (if hasUser then 7 else 6);
          expression = Join '' '' (take 5 fields);
          (ty, prot, edit, pkg, reason) = fileOrigin env path source
      in if line = [] \<or> HasPrefix line ''#'' \<or> Contains (hd fields) ''='' \<or> length fields < required \<or>
            \<not> is_ok (ValidateExpression expression)
         then None
         else Some \<lparr>j_ID = ''external-'' @ ce_hash env (path @ [NUL] @ line),
                    j_Name = Base path @ '':'' @ Itoa (int lineNumber + 1), j_Description = [],
                    j_Command = Join '' '' (drop (if hasUser then 6 else 5) fields), j_WorkingDir = [],
                    j_User = (if hasUser then fields ! 5 else Base path), j_Environment = [], j_Expression = expression,
                    j_Timezone = [], j_Enabled = True, j_CreatedAt = 0, j_UpdatedAt = 0, j_Source = source,
                    j_ReadOnly = True, j_Type = ty, j_PackageName = pkg, j_IsProtected = prot,
                    j_CanEdit = edit, j_CanDelete = edit, j_LockReason = reason\<rparr>)"

definition parseSystemFile :: "cron_env \<Rightarrow> string \<Rightarrow> string \<Rightarrow> bool \<Rightarrow> Job list" where
  "parseSystemFile env path source hasUser =
     (case ce_file env path of None \<Rightarrow> []
      | Some content \<Rightarrow>
          List.map_filter (\<lambda>(n, raw). parseSystemLine env path source hasUser n raw) (enumerate 0 (Split NL content)))"

definition discoverSystemJobs :: "cron_env \<Rightarrow> string \<Rightarrow> Job list" where
  "discoverSystemJobs env managedPath =
     parseSystemFile env ''/etc/crontab'' ''System'' True @
     concat (map (\<lambda>(name, dir, link).
        let path = PathJoin [''/etc/cron.d'', name]
        in if dir \<or> link \<or> Clean path = Clean managedPath then [] else parseSystemFile env path ''System'' True)
       (ce_dir env ''/etc/cron.d'')) @
     concat (map (\<lambda>spool. concat (map (\<lambda>(name, dir, link).
        if dir \<or> link then [] else parseSystemFile env (PathJoin [spool, name]) ''User'' False) (ce_dir env spool)))
       [''/var/spool/cron/crontabs'', ''/var/spool/cron''])"

section \<open>The manager's files\<close>

datatype 'a disk_file = Missing | Garbled | Holds 'a

record cron_host =
  ch_state :: "Store disk_file"
  ch_table :: "string option"
  ch_faults :: "bool list"
  ch_started :: "(string \<times> string \<times> string \<times> string list) list"

type_synonym 'a cron = "(cron_host, cron_error, 'a) action"

record CronManager =
  cm_statePath :: string
  cm_cronPath :: string
  cm_retention :: nat

definition NewCronManager :: CronManager where
  "NewCronManager = \<lparr>cm_statePath = ''/var/lib/opendeploy/cron/jobs.json'', cm_cronPath = ''/etc/cron.d/opendeploy'',
     cm_retention = 500\<rparr>"

text \<open>One file operation: it fails when the next fault says so, and then changes nothing.\<close>

definition fileOp :: "cron_error \<Rightarrow> (cron_host \<Rightarrow> cron_host) \<Rightarrow> unit cron" where
  "fileOp e f h =
     (case ch_faults h of [] \<Rightarrow> (Ok (), f h)
      | b # bs \<Rightarrow> if b then (Err e, h\<lparr>ch_faults := bs\<rparr>) else (Ok (), f (h\<lparr>ch_faults := bs\<rparr>)))"

definition cron_load :: "Store cron" where
  "cron_load =
     bindS (fileOp CronRead id) (\<lambda>_ h.
       case ch_state h of
         Missing \<Rightarrow> (Ok \<lparr>st_Jobs = [], st_History = []\<rparr>, h)
       | Garbled \<Rightarrow> (Err CronDecode, h)
       | Holds st \<Rightarrow> (Ok st, h))"

definition writeState :: "Store \<Rightarrow> unit cron" where
  "writeState st = fileOp CronWrite (\<lambda>h. h\<lparr>ch_state := Holds st\<rparr>)"

definition sortedKeys :: "(string \<times> string) list \<Rightarrow> string list" where
  "sortedKeys values = sort (map fst values)"

text \<open>\<open>quote\<close> stands for \<open>strconv.Quote\<close>.\<close>

definition envLine :: "(string \<Rightarrow> string) \<Rightarrow> (string \<times> string) list \<Rightarrow> string \<Rightarrow> string" where
  "envLine quote values key = key @ ''='' @ quote (case map_of values key of Some v \<Rightarrow> v | None \<Rightarrow> []) @ [NL]"

definition jobLine :: "Job \<Rightarrow> string" where
  "jobLine job = j_Expression job @ '' root /usr/bin/opendeploy-agent --cron-run='' @ j_ID job @ '' # opendeploy:'' @ j_ID job @ [NL]"

definition jobText :: "(string \<Rightarrow> string) \<Rightarrow> Job \<Rightarrow> string" where
  "jobText quote job =
     (if j_Timezone job \<noteq> [] then ''CRON_TZ='' @ j_Timezone job @ [NL] else []) @
     concat (map (envLine quote (j_Environment job)) (sortedKeys (j_Environment job))) @ jobLine job"

definition tableHeader :: string where
  "tableHeader = ''# Managed by OpenDeploy. Manual changes will be overwritten.'' @ [NL]"

definition sortJobs :: "Job list \<Rightarrow> Job list" where
  "sortJobs jobs = sort_key j_ID jobs"

text \<open>The text of the table, or the error of the first enabled job that no longer validates.\<close>

fun tableText :: "(string \<Rightarrow> string) \<Rightarrow> cron_env \<Rightarrow> Job list \<Rightarrow> (cron_error, string) result" where
  "tableText quote env [] = Ok []"
| "tableText quote env (job # jobs) =
     (if \<not> j_Enabled job then tableText quote env jobs
      else case ValidateJob env job of
             Inl e \<Rightarrow> Err (InvalidStored (j_ID job) e)
           | Inr _ \<Rightarrow> andThen (tableText quote env jobs) (\<lambda>t. Ok (jobText quote job @ t)))"

definition writeCron :: "(string \<Rightarrow> string) \<Rightarrow> cron_env \<Rightarrow> Job list \<Rightarrow> unit cron" where
  "writeCron quote env jobs =
     bindS (liftS (tableText quote env (sortJobs jobs))) (\<lambda>t.
     fileOp CronWrite (\<lambda>h. h\<lparr>ch_table := Some (tableHeader @ t)\<rparr>))"

definition writeCronFromDisk :: "(string \<Rightarrow> string) \<Rightarrow> cron_env \<Rightarrow> unit cron" where
  "writeCronFromDisk quote env = bindS cron_load (\<lambda>st. writeCron quote env (st_Jobs st))"

text \<open>Sorting happens in place, so the state is written in the order of the table.\<close>

definition cron_commit :: "(string \<Rightarrow> string) \<Rightarrow> cron_env \<Rightarrow> Store \<Rightarrow> unit cron" where
  "cron_commit quote env st =
     bindS (writeCron quote env (st_Jobs st)) (\<lambda>_ h.
       case writeState (st\<lparr>st_Jobs := sortJobs (st_Jobs st)\<rparr>) h of
         (Inr _, h1) \<Rightarrow> (Ok (), h1)
       | (Inl e, h1) \<Rightarrow> (Err e, snd (writeCronFromDisk quote env h1)))"

section \<open>Operations\<close>

definition managed :: "Job \<Rightarrow> Job" where
  "managed job =
     (if j_Type job = [] then job\<lparr>j_Type := JobTypeOpenDeploy, j_IsProtected := True, j_LockReason := ''Managed by OpenDeploy''\<rparr>
      else job)"

definition cron_List :: "CronManager \<Rightarrow> cron_env \<Rightarrow> Job list cron" where
  "cron_List m env =
     bindS cron_load (\<lambda>st.
     retS (map (\<lambda>j. managed (j\<lparr>j_Source := ''OpenDeploy''\<rparr>)) (sort_key j_Name (st_Jobs st)) @
           discoverSystemJobs env (cm_cronPath m)))"

definition cron_Get :: "CronManager \<Rightarrow> cron_env \<Rightarrow> string \<Rightarrow> Job cron" where
  "cron_Get m env jid =
     bindS cron_load (\<lambda>st.
       case find (\<lambda>j. j_ID j = jid) (st_Jobs st) of
         Some job \<Rightarrow> retS (managed job)
       | None \<Rightarrow>
           (case find (\<lambda>j. j_ID j = jid) (discoverSystemJobs env (cm_cronPath m)) of
              Some job \<Rightarrow> retS job
            | None \<Rightarrow> failS ErrNotExist))"

definition newJob :: "cron_env \<Rightarrow> Job \<Rightarrow> Job" where
  "newJob env job =
     (let j = job\<lparr>j_CreatedAt := ce_Now env, j_UpdatedAt := ce_Now env, j_Source := ''OpenDeploy'', j_ReadOnly := False\<rparr>
      in if j_Type job = [] then j\<lparr>j_Type := JobTypeUser, j_CanEdit := True, j_CanDelete := True\<rparr> else j)"

definition cron_Create :: "(string \<Rightarrow> string) \<Rightarrow> CronManager \<Rightarrow> cron_env \<Rightarrow> Job \<Rightarrow> Job cron" where
  "cron_Create quote m env job =
     bindS (liftS (ValidateJob env job)) (\<lambda>_.
     bindS cron_load (\<lambda>st.
     bindS (guardS (list_ex (\<lambda>j. j_ID j = j_ID job) (st_Jobs st)) (JobExists (j_ID job))) (\<lambda>_.
     bindS (guardS (list_ex (\<lambda>j. j_ID j = j_ID job) (discoverSystemJobs env (cm_cronPath m))) (JobExists (j_ID job))) (\<lambda>_.
     bindS (cron_commit quote env (st\<lparr>st_Jobs := st_Jobs st @ [newJob env job]\<rparr>)) (\<lambda>_.
     retS (newJob env job))))))"

text \<open>The guard of Update and Delete on the host's protected jobs.\<close>

definition externalLock :: "CronManager \<Rightarrow> cron_env \<Rightarrow> string \<Rightarrow> string option" where
  "externalLock m env jid =
     map_option j_LockReason (find (\<lambda>j. j_ID j = jid \<and> j_IsProtected j) (discoverSystemJobs env (cm_cronPath m)))"

definition locked :: "Job \<Rightarrow> bool" where
  "locked job = (j_IsProtected job \<or> j_Type job = JobTypeOpenDeploy)"

definition changedJob :: "cron_env \<Rightarrow> Job \<Rightarrow> Job \<Rightarrow> Job" where
  "changedJob env job old =
     job\<lparr>j_CreatedAt := j_CreatedAt old, j_UpdatedAt := ce_Now env, j_Source := ''OpenDeploy'', j_ReadOnly := False,
         j_Type := (if j_Type job = [] then j_Type old else j_Type job)\<rparr>"

fun updateJobs :: "cron_env \<Rightarrow> Job \<Rightarrow> Job list \<Rightarrow> (cron_error, Job \<times> Job list) result" where
  "updateJobs env job [] = Err ErrNotExist"
| "updateJobs env job (old # rest) =
     (if j_ID old = j_ID job then
        if locked old then Err (JobProtected ''protected OpenDeploy job'')
        else Ok (changedJob env job old, changedJob env job old # rest)
      else andThen (updateJobs env job rest) (\<lambda>(j, js). Ok (j, old # js)))"

definition cron_Update :: "(string \<Rightarrow> string) \<Rightarrow> CronManager \<Rightarrow> cron_env \<Rightarrow> Job \<Rightarrow> Job cron" where
  "cron_Update quote m env job =
     bindS (liftS (ValidateJob env job)) (\<lambda>_.
     bindS cron_load (\<lambda>st.
     case externalLock m env (j_ID job) of
       Some reason \<Rightarrow> failS (JobProtected reason)
     | None \<Rightarrow>
         bindS (liftS (updateJobs env job (st_Jobs st))) (\<lambda>(j, js).
         bindS (cron_commit quote env (st\<lparr>st_Jobs := js\<rparr>)) (\<lambda>_. retS j))))"

definition cron_Delete :: "(string \<Rightarrow> string) \<Rightarrow> CronManager \<Rightarrow> cron_env \<Rightarrow> string \<Rightarrow> unit cron" where
  "cron_Delete quote m env jid =
     bindS cron_load (\<lambda>st.
     case externalLock m env jid of
       Some reason \<Rightarrow> failS (JobProtected reason)
     | None \<Rightarrow>
         bindS (guardS (list_ex (\<lambda>j. j_ID j = jid \<and> locked j) (st_Jobs st)) (JobProtected ''protected OpenDeploy job'')) (\<lambda>_.
         bindS (guardS (\<not> list_ex (\<lambda>j. j_ID j = jid) (st_Jobs st)) ErrNotExist) (\<lambda>_.
         cron_commit quote env (st\<lparr>st_Jobs := filter (\<lambda>j. j_ID j \<noteq> jid) (st_Jobs st)\<rparr>))))"

definition SetEnabled :: "(string \<Rightarrow> string) \<Rightarrow> CronManager \<Rightarrow> cron_env \<Rightarrow> string \<Rightarrow> bool \<Rightarrow> Job cron" where
  "SetEnabled quote m env jid enabled =
     bindS (cron_Get m env jid) (\<lambda>job.
     bindS (guardS (j_IsProtected job) (JobProtected (j_LockReason job))) (\<lambda>_.
     cron_Update quote m env (job\<lparr>j_Enabled := enabled\<rparr>)))"

subsection \<open>Running a job\<close>

definition cronMaxOutput :: nat where
  "cronMaxOutput = 1048576"

definition cb_Write :: "string \<Rightarrow> string \<Rightarrow> string" where
  "cb_Write v buf = (if length buf < cronMaxOutput then buf @ take (cronMaxOutput - length buf) v else buf)"

definition baseEnvironment :: "(string \<times> string) list" where
  "baseEnvironment = [(''PATH'', ''/usr/local/sbin:/usr/local/bin:/usr/sbin:/usr/bin:/sbin:/bin''),
     (''HOME'', ''/tmp''), (''SHELL'', ''/bin/sh''), (''LANG'', ''C.UTF-8'')]"

definition buildEnvironment :: "Job \<Rightarrow> string list" where
  "buildEnvironment job =
     (let values = j_Environment job @ filter (\<lambda>(k, _). k \<notin> fst ` set (j_Environment job)) baseEnvironment
      in map (\<lambda>k. k @ ''='' @ (case map_of values k of Some v \<Rightarrow> v | None \<Rightarrow> [])) (sortedKeys values))"

text \<open>What the process gives: its output, its exit code if it ran, whether Run reports an error, and
  the time when it is over.\<close>

record cron_outcome =
  co_stdout :: "string list"
  co_stderr :: "string list"
  co_exit :: "int option"
  co_failed :: bool
  co_finished :: int

definition appendHistory :: "CronManager \<Rightarrow> Run \<Rightarrow> unit cron" where
  "appendHistory m run =
     bindS cron_load (\<lambda>st.
       let h = st_History st @ [run]
       in writeState (st\<lparr>st_History := drop (length h - cm_retention m) h\<rparr>))"

definition cron_Run ::
  "CronManager \<Rightarrow> cron_env \<Rightarrow> (string \<times> string \<times> string \<times> string list \<Rightarrow> cron_outcome) \<Rightarrow> string \<Rightarrow> string \<Rightarrow> string \<Rightarrow>
   cron_host \<Rightarrow> (Run option \<times> cron_error option) \<times> cron_host" where
  "cron_Run m env exec jid trigger actor h =
     (case cron_Get m env jid h of
        (Inl e, h1) \<Rightarrow> ((None, Some e), h1)
      | (Inr job, h1) \<Rightarrow>
          let cmd = (j_User job, j_Command job, j_WorkingDir job, buildEnvironment job);
              oc = exec cmd;
              run = \<lparr>r_ID = jid @ ''-'' @ Itoa (ce_Now env), r_JobID = jid, r_StartedAt = ce_Now env,
                     r_FinishedAt = co_finished oc, r_Duration = co_finished oc - ce_Now env,
                     r_ExitCode = (case co_exit oc of Some c \<Rightarrow> c | None \<Rightarrow> if co_failed oc then -1 else 0),
                     r_Stdout = fold cb_Write (co_stdout oc) [], r_Stderr = fold cb_Write (co_stderr oc) [],
                     r_Triggered = trigger, r_Actor = actor\<rparr>
          in (case appendHistory m run (h1\<lparr>ch_started := ch_started h1 @ [cmd]\<rparr>) of
                (Inl e, h2) \<Rightarrow> ((Some run, Some e), h2)
              | (Inr _, h2) \<Rightarrow> ((Some run, if co_failed oc then Some RunFailed else None), h2)))"

definition History :: "CronManager \<Rightarrow> string \<Rightarrow> int \<Rightarrow> Run list cron" where
  "History m jid limit =
     bindS cron_load (\<lambda>st.
       let n = (if limit < 1 \<or> limit > int (cm_retention m) then 100 else limit)
       in retS (take (nat n) (filter (\<lambda>r. jid = [] \<or> r_JobID r = jid) (rev (st_History st)))))"

section \<open>Requests\<close>

datatype cron_code = CronNotFound | CronInvalid "cron_error option" | CronInternal

datatype CronJobType = CRON_UNKNOWN | CRON_SYSTEM | CRON_PACKAGE | CRON_OPENDEPLOY | CRON_USER

text \<open>A job message: the fields of a job, with the type as an enumeration.\<close>

record CronJobMessage =
  pm_Fields :: Job
  pm_Type :: CronJobType

definition emptyJob :: Job where
  "emptyJob = \<lparr>j_ID = [], j_Name = [], j_Description = [], j_Command = [], j_WorkingDir = [], j_User = [], j_Environment = [],
     j_Expression = [], j_Timezone = [], j_Enabled = False, j_CreatedAt = 0, j_UpdatedAt = 0, j_Source = [], j_ReadOnly = False,
     j_Type = [], j_PackageName = [], j_IsProtected = False, j_CanEdit = False, j_CanDelete = False, j_LockReason = []\<rparr>"

definition jobTypeFromProto :: "CronJobType \<Rightarrow> string" where
  "jobTypeFromProto t = (case t of CRON_SYSTEM \<Rightarrow> JobTypeSystem | CRON_PACKAGE \<Rightarrow> JobTypePackage
     | CRON_OPENDEPLOY \<Rightarrow> JobTypeOpenDeploy | CRON_USER \<Rightarrow> JobTypeUser | CRON_UNKNOWN \<Rightarrow> JobTypeUnknown)"

definition cronJobFromProto :: "CronJobMessage option \<Rightarrow> Job" where
  "cronJobFromProto msg =
     (case msg of None \<Rightarrow> emptyJob
      | Some p \<Rightarrow> (pm_Fields p)\<lparr>j_Type := jobTypeFromProto (pm_Type p), j_CreatedAt := 0, j_UpdatedAt := 0\<rparr>)"

definition jobTypeToProto :: "string \<Rightarrow> CronJobType" where
  "jobTypeToProto t = (if t = JobTypeSystem then CRON_SYSTEM else if t = JobTypePackage then CRON_PACKAGE
     else if t = JobTypeOpenDeploy then CRON_OPENDEPLOY else if t = JobTypeUser then CRON_USER else CRON_UNKNOWN)"

definition cronJobToProto :: "Job \<Rightarrow> CronJobMessage" where
  "cronJobToProto job =
     \<lparr>pm_Fields = job\<lparr>j_CreatedAt := j_CreatedAt job div 1000000, j_UpdatedAt := j_UpdatedAt job div 1000000\<rparr>,
      pm_Type = jobTypeToProto (j_Type job)\<rparr>"

definition clampInt32 :: "int \<Rightarrow> int" where
  "clampInt32 c = (let c1 = (if c > 2147483647 then 2147483647 else c) in if c1 < -2147483648 then -2147483648 else c1)"

definition cronRunToProto :: "Run \<Rightarrow> Run" where
  "cronRunToProto r =
     r\<lparr>r_ExitCode := clampInt32 (r_ExitCode r), r_StartedAt := r_StartedAt r div 1000000,
       r_FinishedAt := r_FinishedAt r div 1000000, r_Duration := r_Duration r div 1000000\<rparr>"

definition cronError :: "cron_error \<Rightarrow> cron_code" where
  "cronError e = (if e = ErrNotExist then CronNotFound else CronInvalid (Some e))"

type_synonym 'a cron_rpc = "(cron_host, cron_code, 'a) action"

definition toMessage :: "Job cron_rpc \<Rightarrow> CronJobMessage cron_rpc" where
  "toMessage act = bindS act (\<lambda>j. retS (cronJobToProto j))"

definition CronList :: "CronManager \<Rightarrow> cron_env \<Rightarrow> CronJobMessage list cron_rpc" where
  "CronList m env = bindS (wrapS (\<lambda>_. CronInternal) (cron_List m env)) (\<lambda>js. retS (map cronJobToProto js))"

definition CronGet :: "CronManager \<Rightarrow> cron_env \<Rightarrow> string \<Rightarrow> CronJobMessage cron_rpc" where
  "CronGet m env jid = toMessage (wrapS cronError (cron_Get m env jid))"

definition CronCreate :: "(string \<Rightarrow> string) \<Rightarrow> CronManager \<Rightarrow> cron_env \<Rightarrow> CronJobMessage option \<Rightarrow> CronJobMessage cron_rpc" where
  "CronCreate quote m env msg = toMessage (wrapS cronError (cron_Create quote m env (cronJobFromProto msg)))"

definition CronUpdate :: "(string \<Rightarrow> string) \<Rightarrow> CronManager \<Rightarrow> cron_env \<Rightarrow> CronJobMessage option \<Rightarrow> CronJobMessage cron_rpc" where
  "CronUpdate quote m env msg = toMessage (wrapS cronError (cron_Update quote m env (cronJobFromProto msg)))"

definition CronDelete :: "(string \<Rightarrow> string) \<Rightarrow> CronManager \<Rightarrow> cron_env \<Rightarrow> string \<Rightarrow> unit cron_rpc" where
  "CronDelete quote m env jid = wrapS cronError (cron_Delete quote m env jid)"

definition CronEnable :: "(string \<Rightarrow> string) \<Rightarrow> CronManager \<Rightarrow> cron_env \<Rightarrow> string \<Rightarrow> CronJobMessage cron_rpc" where
  "CronEnable quote m env jid = toMessage (wrapS cronError (SetEnabled quote m env jid True))"

definition CronDisable :: "(string \<Rightarrow> string) \<Rightarrow> CronManager \<Rightarrow> cron_env \<Rightarrow> string \<Rightarrow> CronJobMessage cron_rpc" where
  "CronDisable quote m env jid = toMessage (wrapS cronError (SetEnabled quote m env jid False))"

text \<open>The error is only reported when the run has no identifier.\<close>

definition CronRun ::
  "CronManager \<Rightarrow> cron_env \<Rightarrow> (string \<times> string \<times> string \<times> string list \<Rightarrow> cron_outcome) \<Rightarrow> string \<Rightarrow> string \<Rightarrow> string \<Rightarrow> Run cron_rpc" where
  "CronRun m env exec jid trigger actor h =
     (case cron_Run m env exec jid trigger actor h of
        ((None, Some e), h') \<Rightarrow> (Err (cronError e), h')
      | ((Some run, _), h') \<Rightarrow> (Ok (cronRunToProto run), h')
      | ((None, None), h') \<Rightarrow> (Err CronInternal, h'))"

definition cronHistory :: "CronManager \<Rightarrow> string \<Rightarrow> int \<Rightarrow> Run list cron_rpc" where
  "cronHistory m jid limit =
     bindS (wrapS (\<lambda>_. CronInternal) (History m jid limit)) (\<lambda>rs. retS (map cronRunToProto rs))"

fun deleteAll :: "(string \<Rightarrow> string) \<Rightarrow> CronManager \<Rightarrow> cron_env \<Rightarrow> Job list \<Rightarrow> cron_host \<Rightarrow> cron_host" where
  "deleteAll quote m env [] h = h"
| "deleteAll quote m env (j # js) h = deleteAll quote m env js (snd (cron_Delete quote m env (j_ID j) h))"

fun createAll :: "(string \<Rightarrow> string) \<Rightarrow> CronManager \<Rightarrow> cron_env \<Rightarrow> Job list \<Rightarrow> unit cron_rpc" where
  "createAll quote m env [] h = (Ok (), h)"
| "createAll quote m env (j # js) h =
     bindS (wrapS cronError (cron_Create quote m env j)) (\<lambda>_. createAll quote m env js) h"

text \<open>\<open>jobs\<close> is the decoded content of the request, None when it cannot be decoded.\<close>

definition CronImport ::
  "(string \<Rightarrow> string) \<Rightarrow> CronManager \<Rightarrow> cron_env \<Rightarrow> string \<Rightarrow> Job list option \<Rightarrow> bool \<Rightarrow> CronJobMessage list cron_rpc" where
  "CronImport quote m env format jobs replace =
     bindS (guardS (format \<noteq> ''json'') (CronInvalid None)) (\<lambda>_.
       case jobs of None \<Rightarrow> failS (CronInvalid None)
       | Some js \<Rightarrow>
           bindS (\<lambda>h. (Ok (), if replace
                            then (case cron_List m env h of (Inr current, h1) \<Rightarrow> deleteAll quote m env current h1 | (Inl _, h1) \<Rightarrow> h1)
                            else h)) (\<lambda>_.
           bindS (createAll quote m env js) (\<lambda>_. CronList m env)))"

definition CronExport :: "CronManager \<Rightarrow> cron_env \<Rightarrow> (Job list \<Rightarrow> string) \<Rightarrow> (string \<times> string) cron_rpc" where
  "CronExport m env encode = bindS (wrapS (\<lambda>_. CronInternal) (cron_List m env)) (\<lambda>js. retS (''json'', encode js))"

definition CronValidate :: "cron_env \<Rightarrow> CronJobMessage option \<Rightarrow> (cron_error, Validation) result" where
  "CronValidate env msg = ValidateJob env (cronJobFromProto msg)"

section \<open>What the operations do to the store\<close>

text \<open>
  The specification of the store: a job is added under a new identifier, an unlocked job is replaced,
  unlocked jobs with an identifier are removed, a run is recorded and the oldest ones are forgotten.
\<close>

inductive store_step :: "nat \<Rightarrow> Store \<Rightarrow> Store \<Rightarrow> bool" for retention :: nat where
  created: "MatchString jobIDPattern (j_ID job) \<Longrightarrow> j_ID job \<notin> j_ID ` set (st_Jobs st) \<Longrightarrow>
    store_step retention st (st\<lparr>st_Jobs := sortJobs (st_Jobs st @ [job])\<rparr>)"
| updated: "st_Jobs st = as @ old # bs \<Longrightarrow> \<not> locked old \<Longrightarrow> j_ID job = j_ID old \<Longrightarrow> MatchString jobIDPattern (j_ID job) \<Longrightarrow>
    store_step retention st (st\<lparr>st_Jobs := sortJobs (as @ job # bs)\<rparr>)"
| deleted: "\<forall>j \<in> set (st_Jobs st). j_ID j = jid \<longrightarrow> \<not> locked j \<Longrightarrow>
    store_step retention st (st\<lparr>st_Jobs := sortJobs (filter (\<lambda>j. j_ID j \<noteq> jid) (st_Jobs st))\<rparr>)"
| recorded: "h = st_History st @ [run] \<Longrightarrow>
    store_step retention st (st\<lparr>st_History := drop (length h - retention) h\<rparr>)"

inductive_cases store_stepE: "store_step retention st st'"

text \<open>The store that a state file stands for; a file that cannot be decoded stands for none.\<close>

definition stored :: "cron_host \<Rightarrow> Store option" where
  "stored h = (case ch_state h of Missing \<Rightarrow> Some \<lparr>st_Jobs = [], st_History = []\<rparr> | Garbled \<Rightarrow> None | Holds st \<Rightarrow> Some st)"

text \<open>An operation leaves the stored value alone or makes one step of the specification.\<close>

definition store_ok :: "nat \<Rightarrow> cron_host \<Rightarrow> cron_host \<Rightarrow> bool" where
  "store_ok n h h' = (stored h' = stored h \<or> (\<exists>st st'. stored h = Some st \<and> stored h' = Some st' \<and> store_step n st st'))"

lemma stored_cong: "ch_state h = ch_state h' \<Longrightarrow> stored h = stored h'"
  by (simp add: stored_def)

lemma fileOp_cases:
  assumes "fileOp e f h = (r, h')"
  obtains (failed) bs where "r = Err e" "h' = h\<lparr>ch_faults := bs\<rparr>"
  | (ran) bs where "r = Ok ()" "h' = f (h\<lparr>ch_faults := bs\<rparr>)"
proof (cases "ch_faults h")
  case Nil
  then have "h\<lparr>ch_faults := []\<rparr> = h" by (cases h) simp
  then have "f (h\<lparr>ch_faults := []\<rparr>) = f h" by (rule arg_cong)
  then show thesis using assms Nil ran [of "[]"] by (auto simp: fileOp_def)
next
  case (Cons b bs)
  then show thesis using assms failed [of bs] ran [of bs] by (auto simp: fileOp_def split: if_splits)
qed

text \<open>The failures still to come.\<close>

definition failures :: "cron_host \<Rightarrow> nat" where
  "failures h = length (filter id (ch_faults h))"

lemma fileOp_failures:
  assumes "fileOp e f h = (r, h')" "\<And>g. ch_faults (f g) = ch_faults g"
  shows "if is_ok r then failures h' = failures h else failures h = Suc (failures h')"
  using assms by (cases "ch_faults h") (auto simp: fileOp_def failures_def split: if_splits)

lemma load_cases:
  assumes "cron_load h = (r, h')"
  obtains (failed) e bs where "r = Err e" "h' = h\<lparr>ch_faults := bs\<rparr>"
  | (loaded) st bs where "r = Ok st" "h' = h\<lparr>ch_faults := bs\<rparr>" "stored h = Some st"
  using assms unfolding cron_load_def
proof (cases rule: bindS_cases)
  case (err e)
  then show thesis using failed by (auto elim!: fileOp_cases)
next
  case (ok u h1)
  from ok(1) obtain bs where "h1 = h\<lparr>ch_faults := bs\<rparr>" by (auto elim!: fileOp_cases)
  then show thesis
    using ok(2) failed loaded by (auto simp: stored_def split: disk_file.splits)
qed

lemma writeCron_cases:
  assumes "writeCron quote env jobs h = (r, h')"
  obtains (failed) e bs where "r = Err e" "h' = h\<lparr>ch_faults := bs\<rparr>"
  | (ran) t bs where "r = Ok ()" "tableText quote env (sortJobs jobs) = Ok t"
      "h' = h\<lparr>ch_faults := bs, ch_table := Some (tableHeader @ t)\<rparr>"
  using assms unfolding writeCron_def
proof (cases rule: bindS_cases)
  case (err e)
  have "h = h\<lparr>ch_faults := ch_faults h\<rparr>" by simp
  then show thesis using err failed [of e "ch_faults h"] by simp
next
  case (ok t h1)
  then show thesis using failed ran by (auto elim!: fileOp_cases)
qed

lemma tableText_Ok:
  "tableText quote env jobs = Ok t \<Longrightarrow> t = concat (map (jobText quote) (filter j_Enabled jobs))"
  by (induction jobs arbitrary: t) (auto simp: andThen_Ok split: if_splits sum.splits)

text \<open>The table that belongs to a list of jobs, and when the two files agree.\<close>

definition render :: "(string \<Rightarrow> string) \<Rightarrow> Job list \<Rightarrow> string" where
  "render quote jobs = tableHeader @ concat (map (jobText quote) (filter j_Enabled (sortJobs jobs)))"

definition synced :: "(string \<Rightarrow> string) \<Rightarrow> cron_host \<Rightarrow> bool" where
  "synced quote h = (\<exists>st. stored h = Some st \<and> ch_table h = Some (render quote (st_Jobs st)))"

lemma sortJobs_idem [simp]: "sortJobs (sortJobs jobs) = sortJobs jobs"
  by (simp add: sortJobs_def sort_key_id_if_sorted)

lemma render_sorted [simp]: "render quote (sortJobs jobs) = render quote jobs"
  by (simp add: render_def)

lemma writeCron_failures: "writeCron quote env jobs h = (Inr u, h') \<Longrightarrow> failures h' = failures h"
  using fileOp_failures [of CronWrite _ h "Inr u" h']
  by (auto simp: writeCron_def bindS_def split: sum.splits)

lemma load_quiet: "failures h = 0 \<Longrightarrow> stored h = Some st \<Longrightarrow> \<exists>h'. cron_load h = (Ok st, h') \<and> failures h' = 0"
  by (cases "ch_faults h")
     (auto simp: cron_load_def bindS_def fileOp_def failures_def stored_def split: disk_file.splits)

lemma writeCron_quiet:
  "failures h = 0 \<Longrightarrow> is_ok (tableText quote env (sortJobs jobs)) \<Longrightarrow> is_ok (fst (writeCron quote env jobs h))"
  by (cases "ch_faults h") (auto simp: writeCron_def bindS_def fileOp_def failures_def split: sum.splits)

text \<open>Commit, the heart of every change.\<close>

lemma commit_result:
  assumes "cron_commit quote env st h = (r, h')"
  shows "(is_ok r \<longrightarrow> ch_state h' = Holds (st\<lparr>st_Jobs := sortJobs (st_Jobs st)\<rparr>) \<and> synced quote h') \<and>
    (\<not> is_ok r \<longrightarrow> ch_state h' = ch_state h \<and>
       (ch_table h' = ch_table h \<or> synced quote h' \<or>
        (\<exists>h1. ch_state h1 = ch_state h \<and> failures h1 < failures h \<and> \<not> is_ok (fst (writeCronFromDisk quote env h1)))))"
  using assms unfolding cron_commit_def
proof (cases rule: bindS_cases)
  case (err e)
  then show ?thesis by (auto elim!: writeCron_cases)
next
  case (ok u h1)
  from ok(1) obtain t bs where t: "tableText quote env (sortJobs (st_Jobs st)) = Ok t"
      "h1 = h\<lparr>ch_faults := bs, ch_table := Some (tableHeader @ t)\<rparr>"
    by (auto elim: writeCron_cases)
  let ?st = "st\<lparr>st_Jobs := sortJobs (st_Jobs st)\<rparr>"
  obtain r2 h2 where w: "writeState ?st h1 = (r2, h2)" by fastforce
  then show ?thesis
    unfolding writeState_def
  proof (cases rule: fileOp_cases)
    case (ran bs2)
    have "ch_table h2 = Some (render quote (sortJobs (st_Jobs st)))"
      using tableText_Ok [OF t(1)] t(2) ran(2) by (simp add: render_def)
    then show ?thesis using ok(2) w ran by (auto simp: synced_def stored_def)
  next
    case (failed bs2)
    have s2: "ch_state h2 = ch_state h" using failed(2) t(2) by simp
    have f2: "failures h2 < failures h"
      using fileOp_failures [OF w [unfolded writeState_def]] failed(1) writeCron_failures [OF ok(1)] by simp
    obtain r3 h3 where b: "writeCronFromDisk quote env h2 = (r3, h3)" by fastforce
    then have r: "r = Err CronWrite" "h' = h3" using ok(2) w failed by auto
    from b have "ch_state h3 = ch_state h2 \<and> (is_ok r3 \<longrightarrow> synced quote h3)"
      unfolding writeCronFromDisk_def
    proof (cases rule: bindS_cases)
      case (err e)
      then show ?thesis by (auto elim: load_cases)
    next
      case (ok st0 h4)
      from ok(1) obtain bs4 where l: "h4 = h2\<lparr>ch_faults := bs4\<rparr>" "stored h2 = Some st0" by (auto elim: load_cases)
      from ok(2) show ?thesis
      proof (cases rule: writeCron_cases)
        case (ran t4 bs5)
        then show ?thesis
          using l tableText_Ok [OF ran(2)] by (auto simp: synced_def stored_def render_def)
      qed (use l in auto)
    qed
    then show ?thesis using r s2 f2 b by (metis fst_conv is_ok_simps(2))
  qed
qed

lemma commit_step:
  assumes "stored h = Some st" "store_step n st (st'\<lparr>st_Jobs := sortJobs (st_Jobs st')\<rparr>)"
    and "ch_state h1 = ch_state h" "cron_commit quote env st' h1 = (r, h')"
  shows "store_ok n h h'"
  using commit_result [OF assms(4)] assms(1-3)
  by (cases "is_ok r") (auto simp: store_ok_def stored_def)

lemma store_ok_same: "ch_state h' = ch_state h \<Longrightarrow> store_ok n h h'"
  by (simp add: store_ok_def stored_def)

lemma ValidateJob_ID: "ValidateJob env job = Ok v \<Longrightarrow> MatchString jobIDPattern (j_ID job)"
  by (auto simp: ValidateJob_def andThen_Ok)

lemma newJob_ID [simp]: "j_ID (newJob env job) = j_ID job"
  by (simp add: newJob_def Let_def)

lemma changedJob_ID [simp]: "j_ID (changedJob env job old) = j_ID job"
  by (simp add: changedJob_def)

lemma Create_step:
  assumes "cron_Create quote m env job h = (r, h')"
  shows "store_ok n h h'"
  using assms unfolding cron_Create_def
proof (cases rule: bindS_cases)
  case (ok v h0)
  have v: "ValidateJob env job = Ok v" "h0 = h" using ok(1) by auto
  from ok(2) [unfolded v(2)] show ?thesis
  proof (cases rule: bindS_cases)
    case (err e)
    then show ?thesis by (auto elim!: load_cases intro: store_ok_same)
  next
    case (ok st h1)
    from ok(1) obtain bs where l: "stored h = Some st" "h1 = h\<lparr>ch_faults := bs\<rparr>" by (auto elim: load_cases)
    show ?thesis
    proof (cases "list_ex (\<lambda>j. j_ID j = j_ID job) (st_Jobs st) \<or>
        list_ex (\<lambda>j. j_ID j = j_ID job) (discoverSystemJobs env (cm_cronPath m))")
      case True
      then show ?thesis using ok(2) l by (auto simp: bindS_def guardS_def intro: store_ok_same split: if_splits)
    next
      case False
      then obtain r2 where c: "cron_commit quote env (st\<lparr>st_Jobs := st_Jobs st @ [newJob env job]\<rparr>) h1 = (r2, h')"
        using ok(2) by (auto simp: bindS_def guardS_def split: prod.splits sum.splits)
      have "store_step n st (st\<lparr>st_Jobs := sortJobs (st_Jobs st @ [newJob env job])\<rparr>)"
        using False ValidateJob_ID [OF v(1)] by (intro created) (auto simp: list_ex_iff)
      then show ?thesis using commit_step [OF l(1) _ _ c, of n] l(2) by simp
    qed
  qed
qed (simp add: store_ok_same)

lemma updateJobs_Ok:
  "updateJobs env job jobs = Ok (j, js) \<Longrightarrow>
     \<exists>as old bs. jobs = as @ old # bs \<and> \<not> locked old \<and> j_ID old = j_ID job \<and> j = changedJob env job old \<and> js = as @ j # bs"
proof (induction jobs arbitrary: js)
  case (Cons old rest)
  show ?case
  proof (cases "j_ID old = j_ID job")
    case True
    then show ?thesis using Cons.prems by (force split: if_splits)
  next
    case False
    then obtain js' where "updateJobs env job rest = Ok (j, js')" "js = old # js'"
      using Cons.prems by (auto simp: andThen_Ok)
    with Cons.IH show ?thesis by (metis append_Cons)
  qed
qed simp

lemma Update_step:
  assumes "cron_Update quote m env job h = (r, h')"
  shows "store_ok n h h'"
  using assms unfolding cron_Update_def
proof (cases rule: bindS_cases)
  case (ok v h0)
  have v: "ValidateJob env job = Ok v" "h0 = h" using ok(1) by auto
  from ok(2) [unfolded v(2)] show ?thesis
  proof (cases rule: bindS_cases)
    case (err e)
    then show ?thesis by (auto elim!: load_cases intro: store_ok_same)
  next
    case (ok st h1)
    from ok(1) obtain bs where l: "stored h = Some st" "h1 = h\<lparr>ch_faults := bs\<rparr>" by (auto elim: load_cases)
    show ?thesis
    proof (cases "externalLock m env (j_ID job)")
      case (Some reason)
      then show ?thesis using ok(2) l by (auto intro: store_ok_same)
    next
      case None
      show ?thesis
      proof (cases "updateJobs env job (st_Jobs st)")
        case (Inl e)
        then show ?thesis using ok(2) l None by (auto simp: bindS_def intro: store_ok_same)
      next
        case (Inr p)
        obtain j js where p: "p = (j, js)" by fastforce
        from updateJobs_Ok [OF Inr [unfolded p]] obtain as old bs' where
          u: "st_Jobs st = as @ old # bs'" "\<not> locked old" "j_ID old = j_ID job" "j = changedJob env job old" "js = as @ j # bs'"
          by blast
        obtain r2 where c: "cron_commit quote env (st\<lparr>st_Jobs := js\<rparr>) h1 = (r2, h')"
          using ok(2) None Inr p by (auto simp: bindS_def split: prod.splits sum.splits)
        have "store_step n st (st\<lparr>st_Jobs := sortJobs js\<rparr>)"
          using u ValidateJob_ID [OF v(1)] updated [of st as old bs' j n] by simp
        then show ?thesis using commit_step [OF l(1) _ _ c, of n] l(2) by simp
      qed
    qed
  qed
qed (simp add: store_ok_same)

lemma Delete_step:
  assumes "cron_Delete quote m env jid h = (r, h')"
  shows "store_ok n h h'"
  using assms unfolding cron_Delete_def
proof (cases rule: bindS_cases)
  case (err e)
  then show ?thesis by (auto elim!: load_cases intro: store_ok_same)
next
  case (ok st h1)
  from ok(1) obtain bs where l: "stored h = Some st" "h1 = h\<lparr>ch_faults := bs\<rparr>" by (auto elim: load_cases)
  show ?thesis
  proof (cases "externalLock m env jid")
    case (Some reason)
    then show ?thesis using ok(2) l by (auto intro: store_ok_same)
  next
    case None
    show ?thesis
    proof (cases "list_ex (\<lambda>j. j_ID j = jid \<and> locked j) (st_Jobs st) \<or> \<not> list_ex (\<lambda>j. j_ID j = jid) (st_Jobs st)")
      case True
      then show ?thesis using ok(2) l None by (auto simp: bindS_def guardS_def intro: store_ok_same split: if_splits)
    next
      case False
      then have c: "cron_commit quote env (st\<lparr>st_Jobs := filter (\<lambda>j. j_ID j \<noteq> jid) (st_Jobs st)\<rparr>) h1 = (r, h')"
        using ok(2) None by (simp add: bindS_def guardS_def)
      have "store_step n st (st\<lparr>st_Jobs := sortJobs (filter (\<lambda>j. j_ID j \<noteq> jid) (st_Jobs st))\<rparr>)"
        using False by (intro deleted) (auto simp: list_ex_iff)
      then show ?thesis using commit_step [OF l(1) _ _ c, of n] l(2) by simp
    qed
  qed
qed

lemma Get_state: "ch_state (snd (cron_Get m env jid h)) = ch_state h"
proof -
  obtain r h1 where l: "cron_load h = (r, h1)" by fastforce
  then have "ch_state h1 = ch_state h" by (auto elim: load_cases)
  then show ?thesis
    using l by (cases r) (auto simp: cron_Get_def bindS_def split: option.split)
qed

lemma SetEnabled_step:
  assumes "SetEnabled quote m env jid b h = (r, h')"
  shows "store_ok n h h'"
  using assms unfolding SetEnabled_def
proof (cases rule: bindS_cases)
  case (err e)
  then show ?thesis using Get_state [of m env jid h] by (simp add: store_ok_same)
next
  case (ok job h1)
  have s1: "ch_state h1 = ch_state h" using Get_state [of m env jid h] ok(1) by simp
  show ?thesis
  proof (cases "j_IsProtected job")
    case True
    then show ?thesis using ok(2) s1 by (auto simp: bindS_def guardS_def intro: store_ok_same)
  next
    case False
    then have "store_ok n h1 h'" using ok(2) Update_step by (simp add: bindS_def guardS_def)
    then show ?thesis using s1 by (simp add: store_ok_def stored_def)
  qed
qed

lemma appendHistory_step:
  assumes "appendHistory m run h = (r, h')"
  shows "store_ok (cm_retention m) h h'"
  using assms unfolding appendHistory_def Let_def
proof (cases rule: bindS_cases)
  case (err e)
  then show ?thesis by (auto elim!: load_cases intro: store_ok_same)
next
  case (ok st h1)
  from ok(1) obtain bs where l: "stored h = Some st" "h1 = h\<lparr>ch_faults := bs\<rparr>" by (auto elim: load_cases)
  have "store_step (cm_retention m) st
      (st\<lparr>st_History := drop (length (st_History st @ [run]) - cm_retention m) (st_History st @ [run])\<rparr>)"
    by (rule recorded) simp
  then show ?thesis
    using ok(2) l unfolding writeState_def
    by (auto elim!: fileOp_cases simp: store_ok_def stored_def)
qed

lemma Run_step:
  assumes "cron_Run m env exec jid tr ac h = (r, h')"
  shows "store_ok (cm_retention m) h h'"
proof -
  obtain g h1 where get: "cron_Get m env jid h = (g, h1)" by fastforce
  have s1: "ch_state h1 = ch_state h" using Get_state [of m env jid h] get by simp
  show ?thesis
  proof (cases g)
    case (Inl e)
    then show ?thesis using assms get s1 by (auto simp: cron_Run_def intro: store_ok_same)
  next
    case (Inr job)
    obtain run cmd ra h2 where a: "appendHistory m run (h1\<lparr>ch_started := ch_started h1 @ [cmd]\<rparr>) = (ra, h2)" "h' = h2"
      using assms get Inr by (auto simp: cron_Run_def Let_def split: prod.splits sum.splits)
    from appendHistory_step [OF a(1)] show ?thesis
      using s1 a(2) by (simp add: store_ok_def stored_def)
  qed
qed

section \<open>Replacing a file\<close>

text \<open>\<open>atomicWrite\<close>, call by call; the deferred Remove runs on every path after CreateTemp.\<close>

definition cron_atomicWrite :: "string \<Rightarrow> path \<Rightarrow> string \<Rightarrow> 32 word \<Rightarrow> unit io" where
  "cron_atomicWrite rnd p content mode =
     bindS (os_MkdirAll (butlast p) 0x1E8) (\<lambda>_.
     bindS (os_CreateTemp (butlast p) (''.'' @ Base (abs_path p) @ ''.tmp-'') rnd) (\<lambda>tmp.
     deferS (os_RemoveFile tmp) (
       bindS (os_Chmod tmp mode) (\<lambda>_.
       bindS (os_WriteData tmp content) (\<lambda>_.
       bindS os_Sync (\<lambda>_.
       bindS os_Sync (\<lambda>_.
       os_Rename tmp p)))))))"

lemma cron_fill_result:
  assumes wf: "os_wf t" and tmp: "nodes t tmp = Some (FileN [] \<lparr>perm = pm, uid = 0, gid = 0\<rparr>)" and ne: "tmp \<noteq> q"
    and r: "bindS (os_Chmod tmp mode) (\<lambda>_. bindS (os_WriteData tmp c) (\<lambda>_. bindS os_Sync (\<lambda>_. bindS os_Sync (\<lambda>_. os_Rename tmp q)))) t = (r, t')"
  shows "only (\<lambda>x. x = tmp) t t' \<and> \<not> is_ok r \<or>
    is_ok r \<and> nodes t' q = Some (FileN c \<lparr>perm = mode, uid = 0, gid = 0\<rparr>) \<and> \<not> is_dir t q \<and> only (\<lambda>x. x = tmp \<or> x = q) t t'"
  using r
proof (cases rule: bindS_cases)
  case (ok v t1)
  have c1: "only (\<lambda>x. x = tmp) t t1" "nodes t1 tmp = Some (FileN [] \<lparr>perm = mode, uid = 0, gid = 0\<rparr>)"
    using Chmod_result [OF ok(1) tmp] by auto
  have w1: "os_wf t1" using keepsD [OF wf_writes(2) ok(1)] wf by (simp add: wf_step_def)
  from ok(2) show ?thesis
  proof (cases rule: bindS_cases)
    case (err e)
    then show ?thesis using c1 WriteData_result [OF err(1) c1(2)] only_chain by auto
  next
    case (ok v t2)
    have c2: "only (\<lambda>x. x = tmp) t1 t2" "nodes t2 tmp = Some (FileN c \<lparr>perm = mode, uid = 0, gid = 0\<rparr>)"
      using WriteData_result [OF ok(1) c1(2)] by auto
    have w2: "os_wf t2" using keepsD [OF wf_WriteData ok(1)] w1 by (simp add: wf_step_def)
    have o2: "only (\<lambda>x. x = tmp) t t2" using c1(1) c2(1) only_chain by blast
    have sync: "keeps same_fs os_Sync" by (intro keeps_intro same_fs_order)
    obtain u t3 where s: "nodes t3 = nodes t2" "\<not> is_ok r \<and> t' = t3 \<or> os_Rename tmp q t3 = (r, t')"
    proof -
      obtain r3 t3 where s3: "os_Sync t2 = (r3, t3)" by fastforce
      obtain r4 t4 where s4: "os_Sync t3 = (r4, t4)" by fastforce
      have "nodes t3 = nodes t2" "nodes t4 = nodes t3"
        using keepsD [OF sync s3] keepsD [OF sync s4] same_fs_nodes by blast+
      then show thesis using ok(2) s3 s4 that by (cases r3; cases r4) (auto simp: bindS_def)
    qed
    have w3: "os_wf t3" using w2 s(1) by (simp add: os_wf_def is_dir_def)
    show ?thesis
    proof (cases "is_ok r")
      case True
      then have "os_Rename tmp q t3 = (Ok (), t')" using s(2) by (cases r) auto
      from Rename_over_file [OF w3 _ ne this] s(1) c2(2)
      have "nodes t' q = Some (FileN c \<lparr>perm = mode, uid = 0, gid = 0\<rparr>)" "\<not> is_dir t3 q" "only (\<lambda>x. x = tmp \<or> x = q) t3 t'" by simp_all
      then show ?thesis using True o2 s(1) ne unfolding only_def is_dir_def by metis
    next
      case False
      then have "nodes t' = nodes t2" using s Rename_fails [of tmp q t3 _ t'] by (cases r) auto
      then show ?thesis using False o2 by (simp add: only_def)
    qed
  qed
qed (use Chmod_result [OF _ tmp] in auto)

lemma cron_atomicWrite_result:
  assumes "os_wf s" "plain_comps q" "cron_atomicWrite rnd q c mode s = (r, s')"
  shows "write_outcome q (FileN c \<lparr>perm = mode, uid = 0, gid = 0\<rparr>) (is_ok r) s s' \<and> (is_ok r \<or> nodes s' q = nodes s q)"
proof -
  let ?body = "\<lambda>tmp. bindS (os_Chmod tmp mode) (\<lambda>_. bindS (os_WriteData tmp c) (\<lambda>_. bindS os_Sync (\<lambda>_. bindS os_Sync (\<lambda>_. os_Rename tmp q))))"
  have "bindS (wrapS id (os_MkdirAll (butlast q) 0x1E8)) (\<lambda>_.
      bindS (wrapS id (os_CreateTemp (butlast q) (''.'' @ Base (abs_path q) @ ''.tmp-'') rnd)) (\<lambda>tmp.
      deferS (os_RemoveFile tmp) (?body tmp))) s = (r, s')"
    using assms(3) by (simp add: cron_atomicWrite_def)
  from tempWrite_result [OF assms(1,2) this, of False "FileN c \<lparr>perm = mode, uid = 0, gid = 0\<rparr>"]
  show ?thesis using cron_fill_result [of _ _ _ q mode c] by simp
qed

section \<open>Sequences of requests\<close>

datatype cron_request =
    QList
  | QGet string
  | QCreate "CronJobMessage option"
  | QUpdate "CronJobMessage option"
  | QDelete string
  | QEnable string
  | QDisable string
  | QRun string string string
  | QHistory string int
  | QImport string "Job list option" bool
  | QExport "Job list \<Rightarrow> string"

text \<open>The host after a request. Accounts, directories, the host's own tables and the clock are those
  of the moment (\<open>env\<close>).\<close>

fun cron_serve ::
  "(string \<Rightarrow> string) \<Rightarrow> CronManager \<Rightarrow> (string \<times> string \<times> string \<times> string list \<Rightarrow> cron_outcome) \<Rightarrow> cron_env \<Rightarrow> cron_request \<Rightarrow> cron_host \<Rightarrow> cron_host" where
  "cron_serve quote m exec env QList h = snd (CronList m env h)"
| "cron_serve quote m exec env (QGet jid) h = snd (CronGet m env jid h)"
| "cron_serve quote m exec env (QCreate msg) h = snd (CronCreate quote m env msg h)"
| "cron_serve quote m exec env (QUpdate msg) h = snd (CronUpdate quote m env msg h)"
| "cron_serve quote m exec env (QDelete jid) h = snd (CronDelete quote m env jid h)"
| "cron_serve quote m exec env (QEnable jid) h = snd (CronEnable quote m env jid h)"
| "cron_serve quote m exec env (QDisable jid) h = snd (CronDisable quote m env jid h)"
| "cron_serve quote m exec env (QRun jid trigger actor) h = snd (CronRun m env exec jid trigger actor h)"
| "cron_serve quote m exec env (QHistory jid limit) h = snd (cronHistory m jid limit h)"
| "cron_serve quote m exec env (QImport format jobs replace) h = snd (CronImport quote m env format jobs replace h)"
| "cron_serve quote m exec env (QExport encode) h = snd (CronExport m env encode h)"

text \<open>The state after some requests, with any faults in between.\<close>

inductive cron_reaches ::
  "(string \<Rightarrow> string) \<Rightarrow> CronManager \<Rightarrow> (string \<times> string \<times> string \<times> string list \<Rightarrow> cron_outcome) \<Rightarrow> cron_host \<Rightarrow> cron_host \<Rightarrow> bool"
  for quote m exec h where
  start: "cron_reaches quote m exec h h"
| faulty: "cron_reaches quote m exec h h1 \<Longrightarrow> cron_reaches quote m exec h (h1\<lparr>ch_faults := bs\<rparr>)"
| request: "cron_reaches quote m exec h h1 \<Longrightarrow> cron_reaches quote m exec h (cron_serve quote m exec env q h1)"

definition store_steps :: "nat \<Rightarrow> cron_host \<Rightarrow> cron_host \<Rightarrow> bool" where
  "store_steps n = (store_ok n)\<^sup>*\<^sup>*"

lemma store_steps_order [intro, simp]: "reflp (store_steps n)" "transp (store_steps n)"
  by (auto simp: store_steps_def reflp_def transp_def)

lemma store_steps1: "store_ok n h h' \<Longrightarrow> store_steps n h h'"
  by (simp add: store_steps_def)

lemma keeps_store_steps: "(\<And>h r h'. act h = (r, h') \<Longrightarrow> store_ok n h h') \<Longrightarrow> keeps (store_steps n) act"
  by (rule keepsI) (metis prod.collapse store_steps1)

lemma keeps_unchanged: "(\<And>h. ch_state (snd (act h)) = ch_state h) \<Longrightarrow> keeps (store_steps n) act"
  by (rule keepsI) (simp add: store_steps1 store_ok_same)

lemma load_state: "ch_state (snd (cron_load h)) = ch_state h"
  by (cases "cron_load h") (auto elim: load_cases)

lemma List_state: "ch_state (snd (cron_List m env h)) = ch_state h"
  using load_state [of h] by (cases "cron_load h") (auto simp: cron_List_def bindS_def split: sum.split)

lemma History_state: "ch_state (snd (History m jid limit h)) = ch_state h"
  using load_state [of h] by (cases "cron_load h") (auto simp: History_def bindS_def Let_def split: sum.split)

lemma keeps_operations [keeps_intro]:
  "keeps (store_steps n) (cron_Create quote m env job)"
  "keeps (store_steps n) (cron_Update quote m env job)"
  "keeps (store_steps n) (cron_Delete quote m env jid)"
  "keeps (store_steps n) (SetEnabled quote m env jid b)"
  "keeps (store_steps n) (cron_List m env)"
  "keeps (store_steps n) (cron_Get m env jid)"
  "keeps (store_steps n) (History m jid limit)"
  by (rule keeps_store_steps keeps_unchanged, (erule Create_step Update_step Delete_step SetEnabled_step | rule List_state Get_state History_state))+

lemma deleteAll_steps: "store_steps n h (deleteAll quote m env js h)"
proof (induction js arbitrary: h)
  case (Cons j js)
  have "store_steps n h (snd (cron_Delete quote m env (j_ID j) h))"
    using keeps_operations(3) by (simp add: keeps_def)
  with Cons show ?case using transpD [OF store_steps_order(2)] by fastforce
qed (simp add: store_steps_def)

lemma createAll_steps: "keeps (store_steps n) (createAll quote m env js)"
proof (induction js)
  case Nil
  show ?case by (rule keepsI) (simp add: store_steps_def)
next
  case (Cons j js)
  have "keeps (store_steps n) (bindS (wrapS cronError (cron_Create quote m env j)) (\<lambda>_. createAll quote m env js))"
    by (intro keeps_intro store_steps_order Cons)
  then show ?case by (simp add: keeps_def)
qed

lemma CronList_steps [keeps_intro]: "keeps (store_steps n) (CronList m env)"
  unfolding CronList_def by (intro keeps_intro store_steps_order)

lemma Import_steps: "keeps (store_steps n) (CronImport quote m env format jobs replace)"
proof -
  have del: "keeps (store_steps n) (\<lambda>h. (Ok (), if replace
      then (case cron_List m env h of (Inr current, h1) \<Rightarrow> deleteAll quote m env current h1 | (Inl _, h1) \<Rightarrow> h1) else h))"
  proof (rule keepsI)
    fix h
    obtain r h1 where l: "cron_List m env h = (r, h1)" by fastforce
    then have "store_steps n h h1" using keepsD [OF keeps_operations(5)] by blast
    then have "store_steps n h (case r of Inr current \<Rightarrow> deleteAll quote m env current h1 | Inl _ \<Rightarrow> h1)"
      using deleteAll_steps transpD [OF store_steps_order(2)] by (auto split: sum.split)
    then show "store_steps n h (snd (Ok (), if replace
      then (case cron_List m env h of (Inr current, h1) \<Rightarrow> deleteAll quote m env current h1 | (Inl _, h1) \<Rightarrow> h1) else h))"
      by (cases r) (simp_all add: l store_steps_def)
  qed
  show ?thesis
    unfolding CronImport_def
    by (cases jobs) (simp_all only: option.case, (intro keeps_intro store_steps_order del createAll_steps)+)
qed

lemma toMessage_steps [keeps_intro]: "keeps (store_steps n) act \<Longrightarrow> keeps (store_steps n) (toMessage act)"
  unfolding toMessage_def by (intro keeps_intro store_steps_order)

lemma keeps_handlers:
  "keeps (store_steps n) (CronGet m env jid)"
  "keeps (store_steps n) (CronCreate quote m env msg)"
  "keeps (store_steps n) (CronUpdate quote m env msg)"
  "keeps (store_steps n) (CronDelete quote m env jid)"
  "keeps (store_steps n) (CronEnable quote m env jid)"
  "keeps (store_steps n) (CronDisable quote m env jid)"
  "keeps (store_steps n) (cronHistory m jid limit)"
  "keeps (store_steps n) (CronExport m env encode)"
  unfolding CronGet_def CronCreate_def CronUpdate_def CronDelete_def CronEnable_def CronDisable_def cronHistory_def CronExport_def
  by (intro keeps_intro store_steps_order)+

lemma serve_steps: "store_steps (cm_retention m) h (cron_serve quote m exec env q h)"
proof (cases q)
  case (QRun jid trigger actor)
  obtain p h' where r: "cron_Run m env exec jid trigger actor h = (p, h')" by fastforce
  obtain a b where p: "p = (a, b)" by fastforce
  have "snd (CronRun m env exec jid trigger actor h) = h'"
    using r p by (cases a; cases b) (simp_all add: CronRun_def)
  then show ?thesis using Run_step [OF r] QRun by (simp add: store_steps1)
next
  case (QImport format jobs replace)
  then show ?thesis using Import_steps by (simp add: keeps_def)
qed (simp_all add: keeps_at keeps_handlers keeps_operations CronList_steps)

lemma reaches_steps: "cron_reaches quote m exec h h' \<Longrightarrow> store_steps (cm_retention m) h h'"
proof (induction rule: cron_reaches.induct)
  case (faulty h1 bs)
  have "store_steps (cm_retention m) h1 (h1\<lparr>ch_faults := bs\<rparr>)" by (simp add: store_steps1 store_ok_same)
  with faulty show ?case using transpD [OF store_steps_order(2)] by blast
next
  case (request h1 env q)
  then show ?case using serve_steps transpD [OF store_steps_order(2)] by blast
qed (simp add: store_steps_def)

section \<open>Invariants of the store\<close>

definition store_inv :: "CronManager \<Rightarrow> Store \<Rightarrow> bool" where
  "store_inv m st =
     (distinct (map j_ID (st_Jobs st)) \<and> list_all (\<lambda>j. MatchString jobIDPattern (j_ID j)) (st_Jobs st) \<and>
      length (st_History st) \<le> cm_retention m)"

lemma sortJobs_facts [simp]:
  "set (sortJobs js) = set js" "distinct (map j_ID (sortJobs js)) = distinct (map j_ID js)"
  "list_all P (sortJobs js) = list_all P js"
proof -
  have "mset (map j_ID (sortJobs js)) = mset (map j_ID js)"
    unfolding sortJobs_def mset_map mset_sort ..
  then show "distinct (map j_ID (sortJobs js)) = distinct (map j_ID js)" by (rule mset_eq_imp_distinct_iff)
  show "set (sortJobs js) = set js" by (simp add: sortJobs_def)
  then show "list_all P (sortJobs js) = list_all P js" by (simp add: list_all_iff)
qed

lemma store_step_inv: "store_step (cm_retention m) st st' \<Longrightarrow> store_inv m st \<Longrightarrow> store_inv m st'"
proof (induction rule: store_step.induct)
  case (deleted st jid)
  then show ?case
    by (auto simp: store_inv_def list_all_iff distinct_map_filter)
next
  case (recorded h st run)
  then show ?case by (simp add: store_inv_def)
qed (auto simp: store_inv_def list_all_iff)

lemma store_step_locked:
  "store_step n st st' \<Longrightarrow> job \<in> set (st_Jobs st) \<Longrightarrow> locked job \<Longrightarrow> job \<in> set (st_Jobs st')"
  by (induction rule: store_step.induct) auto

lemma store_steps_induct:
  assumes steps: "store_steps n h h'" and st: "stored h = Some st" "P st"
    and step: "\<And>st st'. store_step n st st' \<Longrightarrow> P st \<Longrightarrow> P st'"
  shows "\<exists>st'. stored h' = Some st' \<and> P st'"
  using steps unfolding store_steps_def
proof (induction rule: rtranclp_induct)
  case (step h1 h2)
  from step.IH obtain st1 where st1: "stored h1 = Some st1" "P st1" by blast
  from step.hyps(2) consider "stored h2 = Some st1" | st2 where "stored h2 = Some st2" "store_step n st1 st2"
    unfolding store_ok_def using st1(1) by auto
  then show ?case using st1(2) assms(4) by cases blast+
qed (use st in auto)

text \<open>C19. Whatever requests are served, with whatever failures, a store with distinct and well-formed
  identifiers and a bounded history stays one, its state file never becomes undecodable, and no
  request, imports that replace everything included, removes or changes a locked job.\<close>

theorem cron_store_invariant:
  assumes "cron_reaches quote m exec h h'" "stored h = Some st" "store_inv m st"
  shows "\<exists>st'. stored h' = Some st' \<and> store_inv m st' \<and> {j \<in> set (st_Jobs st). locked j} \<subseteq> set (st_Jobs st')"
proof -
  let ?P = "\<lambda>st'. store_inv m st' \<and> {j \<in> set (st_Jobs st). locked j} \<subseteq> set (st_Jobs st')"
  have "?P st1 \<Longrightarrow> ?P st2" if "store_step (cm_retention m) st1 st2" for st1 st2
    using store_step_inv [OF that] store_step_locked [OF that] by blast
  from store_steps_induct [where P = ?P, OF reaches_steps [OF assms(1)] assms(2) _ this] assms(3)
  show ?thesis by auto
qed

definition sampleCronEnv :: cron_env where
  "sampleCronEnv = \<lparr>ce_users = (\<lambda>u. u = ''www-data''), ce_isDir = (\<lambda>_. False), ce_zone = (\<lambda>_. False), ce_file = (\<lambda>_. None),
     ce_dir = (\<lambda>_. []), ce_dpkg = (\<lambda>_. None), ce_hash = (\<lambda>_. ''0''), ce_Now = 7\<rparr>"

definition sampleJob :: Job where
  "sampleJob = emptyJob\<lparr>j_ID := ''backup'', j_Name := ''Backup'', j_Command := ''true'', j_User := ''www-data'',
     j_Expression := ''0 3 * * *'', j_Enabled := True\<rparr>"

definition lockedJob :: Job where
  "lockedJob = sampleJob\<lparr>j_ID := ''renew'', j_IsProtected := True\<rparr>"

definition sampleHost :: cron_host where
  "sampleHost = \<lparr>ch_state = Holds \<lparr>st_Jobs = [lockedJob], st_History = []\<rparr>, ch_table = None, ch_faults = [], ch_started = []\<rparr>"

theorem cron_store_invariant_witness:
  "\<exists>st'. stored (cron_serve id NewCronManager (\<lambda>_. undefined) sampleCronEnv (QImport ''json'' (Some []) True) sampleHost) = Some st' \<and>
     store_inv NewCronManager st' \<and> {j \<in> set [lockedJob]. locked j} \<subseteq> set (st_Jobs st')"
proof -
  have inv: "store_inv NewCronManager \<lparr>st_Jobs = [lockedJob], st_History = []\<rparr>"
    unfolding store_inv_def
  proof (intro conjI)
    show "list_all (\<lambda>j. MatchString jobIDPattern (j_ID j)) (st_Jobs \<lparr>st_Jobs = [lockedJob], st_History = []\<rparr>)" by code_simp
  qed simp_all
  have "cron_reaches id NewCronManager (\<lambda>_. undefined) sampleHost
      (cron_serve id NewCronManager (\<lambda>_. undefined) sampleCronEnv (QImport ''json'' (Some []) True) sampleHost)"
    by (intro request start)
  from cron_store_invariant [OF this _ inv] show ?thesis by (simp add: stored_def sampleHost_def)
qed

section \<open>The two files agree\<close>

lemma commit_sync:
  assumes "synced quote h" "stored h = Some st0" "is_ok (tableText quote env (sortJobs (st_Jobs st0)))" "failures h \<le> 1"
    and c: "cron_commit quote env st h = (r, h')"
  shows "synced quote h' \<and> (is_ok r \<or> stored h' = stored h)"
proof (cases "is_ok r")
  case False
  with commit_result [OF c] have s: "ch_state h' = ch_state h" and
    or: "ch_table h' = ch_table h \<or> synced quote h' \<or>
      (\<exists>h1. ch_state h1 = ch_state h \<and> failures h1 < failures h \<and> \<not> is_ok (fst (writeCronFromDisk quote env h1)))" by auto
  have "is_ok (fst (writeCronFromDisk quote env h1))" if h1: "ch_state h1 = ch_state h" "failures h1 < failures h" for h1
  proof -
    have "failures h1 = 0" "stored h1 = Some st0" using h1 assms(2,4) by (simp_all add: stored_def)
    then obtain h2 where "cron_load h1 = (Ok st0, h2)" "failures h2 = 0" using load_quiet by blast
    then show ?thesis using writeCron_quiet [OF _ assms(3)] by (simp add: writeCronFromDisk_def bindS_def)
  qed
  with or s assms(1) show ?thesis by (auto simp: synced_def stored_def)
qed (use commit_result [OF c] in simp)

text \<open>An operation is a transaction when it keeps the agreement and a failure keeps the store.\<close>

definition transaction :: "(string \<Rightarrow> string) \<Rightarrow> cron_host \<Rightarrow> ('e, 'a) result \<times> cron_host \<Rightarrow> bool" where
  "transaction quote h = (\<lambda>(r, h'). synced quote h' \<and> (is_ok r \<or> stored h' = stored h))"

lemma transactionI:
  assumes syn: "synced quote h" "stored h = Some st0" "is_ok (tableText quote env (sortJobs (st_Jobs st0)))" "failures h \<le> 1"
    and body: "\<And>h1. ch_state h1 = ch_state h \<Longrightarrow> ch_table h1 = ch_table h \<Longrightarrow>
       (\<exists>e. body st0 h1 = (Inl e, h1)) \<or> (\<exists>st f. body st0 h1 = bindS (cron_commit quote env st) (\<lambda>_. retS f) h1)"
  shows "transaction quote h (bindS cron_load body h)"
proof -
  obtain r h1 where l: "cron_load h = (r, h1)" by fastforce
  then have s1: "ch_state h1 = ch_state h" "ch_table h1 = ch_table h" and r: "r = Ok st0 \<or> \<not> is_ok r"
    using syn(2) by (auto elim: load_cases)
  have f1: "failures h1 \<le> 1"
    using l syn(4) fileOp_failures [of CronRead id h "fst (fileOp CronRead id h)" "snd (fileOp CronRead id h)"]
    by (auto simp: cron_load_def bindS_def split: prod.splits sum.splits disk_file.splits if_splits)
  have syn1: "synced quote h1" "stored h1 = stored h" using syn(1) s1 by (simp_all add: synced_def stored_def)
  show ?thesis
  proof (cases "is_ok r")
    case True
    with r have b: "bindS cron_load body h = body st0 h1" using l by (simp add: bindS_def)
    from body [OF s1] show ?thesis
    proof (elim disjE exE)
      fix st f assume c: "body st0 h1 = bindS (cron_commit quote env st) (\<lambda>_. retS f) h1"
      obtain rc h2 where cc: "cron_commit quote env st h1 = (rc, h2)" by fastforce
      have "synced quote h2 \<and> (is_ok rc \<or> stored h2 = stored h1)"
        using commit_sync [OF syn1(1) _ syn(3) f1 cc] syn1(2) syn(2) by simp
      then show ?thesis using b c cc syn1(2) by (cases rc) (simp_all add: transaction_def bindS_def)
    qed (use b syn1 in \<open>simp add: transaction_def\<close>)
  next
    case False
    then show ?thesis using l syn1 by (cases r) (simp_all add: transaction_def bindS_def)
  qed
qed

lemma transaction_fails: "synced quote h \<Longrightarrow> transaction quote h (Inl e, h)"
  by (simp add: transaction_def)

lemma bind_validation:
  "bindS (liftS v) k h = (case v of Inl e \<Rightarrow> (Inl e, h) | Inr x \<Rightarrow> k x h)"
  by (cases v) (simp_all add: bindS_def)

lemma bind_guard: "bindS (guardS b e) k h = (if b then (Inl e, h) else k () h)"
  by (simp add: bindS_def guardS_def)

text \<open>C20. Creating, updating and deleting a job are transactions over the two files: when they agree, every
  stored job still validates and at most one file operation fails, then the two files agree
  afterwards, and an operation that reports an error has left the store as it was.\<close>

theorem cron_changes_are_transactions:
  assumes "synced quote h" "stored h = Some st" "is_ok (tableText quote env (sortJobs (st_Jobs st)))" "failures h \<le> 1"
  shows "transaction quote h (cron_Create quote m env job h) \<and> transaction quote h (cron_Update quote m env job h) \<and>
         transaction quote h (cron_Delete quote m env jid h)"
proof (intro conjI)
  show "transaction quote h (cron_Create quote m env job h)"
    unfolding cron_Create_def bind_validation
  proof (cases "ValidateJob env job", simp_all only: sum.case)
    fix v
    show "transaction quote h (bindS cron_load (\<lambda>st.
      bindS (guardS (list_ex (\<lambda>j. j_ID j = j_ID job) (st_Jobs st)) (JobExists (j_ID job))) (\<lambda>_.
      bindS (guardS (list_ex (\<lambda>j. j_ID j = j_ID job) (discoverSystemJobs env (cm_cronPath m))) (JobExists (j_ID job))) (\<lambda>_.
      bindS (cron_commit quote env (st\<lparr>st_Jobs := st_Jobs st @ [newJob env job]\<rparr>)) (\<lambda>_.
      retS (newJob env job))))) h)"
      by (rule transactionI [OF assms], unfold bind_guard) (auto split: if_splits)
  qed (rule transaction_fails [OF assms(1)])
  show "transaction quote h (cron_Update quote m env job h)"
  proof (cases "ValidateJob env job")
    case (Inl e)
    then show ?thesis
      by (simp only: cron_Update_def bind_validation sum.case transaction_fails [OF assms(1)])
  next
    case (Inr v)
    show ?thesis
      unfolding cron_Update_def bind_validation Inr sum.case
      by (rule transactionI [OF assms], cases "externalLock m env (j_ID job)"; cases "updateJobs env job (st_Jobs st)")
         (auto simp only: option.case bind_validation sum.case failS_def split: prod.split)
  qed
  have ret: "\<exists>st'. cron_commit quote env st1 h1 = bindS (cron_commit quote env st') retS h1" for st1 h1
    by (rule exI [of _ st1]) (simp add: bindS_def split: prod.splits sum.splits)
  show "transaction quote h (cron_Delete quote m env jid h)"
    unfolding cron_Delete_def
    by (rule transactionI [OF assms], cases "externalLock m env jid")
       (simp_all add: bind_guard ret)
qed

definition syncedHost :: cron_host where
  "syncedHost = sampleHost\<lparr>ch_table := Some (render id [lockedJob]), ch_faults := [False, False, True]\<rparr>"

theorem cron_changes_are_transactions_witness:
  "transaction id syncedHost (cron_Create id NewCronManager sampleCronEnv sampleJob syncedHost) \<and>
   transaction id syncedHost (cron_Update id NewCronManager sampleCronEnv sampleJob syncedHost) \<and>
   transaction id syncedHost (cron_Delete id NewCronManager sampleCronEnv ''backup'' syncedHost)"
proof (rule cron_changes_are_transactions)
  show "stored syncedHost = Some \<lparr>st_Jobs = [lockedJob], st_History = []\<rparr>"
    by (simp add: stored_def syncedHost_def sampleHost_def)
  then show "synced id syncedHost" by (simp add: synced_def syncedHost_def)
  have "is_ok (ValidateJob sampleCronEnv lockedJob)" by code_simp
  then show "is_ok (tableText id sampleCronEnv (sortJobs (st_Jobs \<lparr>st_Jobs = [lockedJob], st_History = []\<rparr>)))"
    by (auto simp: sortJobs_def is_ok_iff)
  show "failures syncedHost \<le> 1" by (simp add: failures_def syncedHost_def)
qed

section \<open>Finding a created job\<close>

lemma find_only:
  assumes x: "x \<in> set xs" "P x" and unique: "\<And>y. y \<in> set xs \<Longrightarrow> P y \<Longrightarrow> y = x"
  shows "find P xs = Some x"
proof (cases "find P xs")
  case None
  then show ?thesis using x by (simp add: find_None_iff)
next
  case (Some y)
  then have "y \<in> set xs" "P y" by (auto simp: find_Some_iff)
  then show ?thesis using Some unique by simp
qed

lemma Create_Ok:
  assumes "cron_Create quote m env job h = (Ok j, h')"
  shows "\<exists>st. stored h = Some st \<and> j = newJob env job \<and> j_ID job \<notin> j_ID ` set (st_Jobs st) \<and>
    ch_state h' = Holds (st\<lparr>st_Jobs := sortJobs (st_Jobs st @ [j])\<rparr>)"
  using assms unfolding cron_Create_def
proof (cases rule: bindS_cases)
  case (ok v h0)
  from ok(2) show ?thesis
  proof (cases rule: bindS_cases)
    case (ok st h1)
    have h0: "h0 = h" using \<open>liftS (ValidateJob env job) h = (Inr v, h0)\<close> by simp
    have st: "stored h = Some st" using ok(1) h0 by (auto elim: load_cases)
    have new: "\<not> list_ex (\<lambda>j. j_ID j = j_ID job) (st_Jobs st)"
      and b: "bindS (cron_commit quote env (st\<lparr>st_Jobs := st_Jobs st @ [newJob env job]\<rparr>)) (\<lambda>_. retS (newJob env job)) h1 = (Ok j, h')"
      using ok(2) by (simp_all add: bind_guard split: if_splits)
    obtain rc h2 where c: "cron_commit quote env (st\<lparr>st_Jobs := st_Jobs st @ [newJob env job]\<rparr>) h1 = (rc, h2)" by fastforce
    have "is_ok rc" "h' = h2" "j = newJob env job"
      using b c by (auto simp: bindS_def split: sum.splits)
    then show ?thesis using commit_result [OF c] st new by (auto simp: list_ex_iff)
  qed simp
qed simp

text \<open>A job that was created is found again: when nothing fails, Get with its identifier returns the
  job as Create returned it.\<close>

theorem created_job_is_found:
  assumes "cron_Create quote m env job h = (Ok j, h')" "failures h' = 0"
  shows "\<exists>h''. cron_Get m env' (j_ID job) h' = (Ok (managed j), h'')"
proof -
  from Create_Ok [OF assms(1)] obtain st where st: "j = newJob env job" "j_ID job \<notin> j_ID ` set (st_Jobs st)"
    "ch_state h' = Holds (st\<lparr>st_Jobs := sortJobs (st_Jobs st @ [j])\<rparr>)" by blast
  then have "stored h' = Some (st\<lparr>st_Jobs := sortJobs (st_Jobs st @ [j])\<rparr>)" by (simp add: stored_def)
  from load_quiet [OF assms(2) this] obtain h'' where
    "cron_load h' = (Ok (st\<lparr>st_Jobs := sortJobs (st_Jobs st @ [j])\<rparr>), h'')" by blast
  moreover have "y = j" if "y \<in> set (sortJobs (st_Jobs st @ [j]))" "j_ID y = j_ID job" for y
    using that st(2) image_eqI [of "j_ID job" j_ID y] by auto
  then have "find (\<lambda>x. j_ID x = j_ID job) (sortJobs (st_Jobs st @ [j])) = Some j"
    by (intro find_only) (use st(1) in auto)
  ultimately show ?thesis by (simp add: cron_Get_def bindS_def)
qed

lemma sampleJob_valid: "\<exists>v. ValidateJob sampleCronEnv sampleJob = Ok v" "\<exists>v. ValidateJob sampleCronEnv lockedJob = Ok v"
proof -
  have "is_ok (ValidateJob sampleCronEnv sampleJob)" "is_ok (ValidateJob sampleCronEnv lockedJob)" by code_simp+
  then show "\<exists>v. ValidateJob sampleCronEnv sampleJob = Ok v" "\<exists>v. ValidateJob sampleCronEnv lockedJob = Ok v"
    by (simp_all add: is_ok_iff)
qed

definition emptyHost :: cron_host where
  "emptyHost = \<lparr>ch_state = Missing, ch_table = None, ch_faults = [], ch_started = []\<rparr>"

lemma noSystemJobs: "discoverSystemJobs sampleCronEnv p = []"
  by (simp add: discoverSystemJobs_def parseSystemFile_def sampleCronEnv_def)

lemma newJob_valid: "\<exists>v. ValidateJob sampleCronEnv (newJob sampleCronEnv sampleJob) = Ok v"
proof -
  have "is_ok (ValidateJob sampleCronEnv (newJob sampleCronEnv sampleJob))" by code_simp
  then show ?thesis by (simp add: is_ok_iff)
qed

theorem created_job_is_found_witness:
  "\<exists>h' h''. cron_Create id NewCronManager sampleCronEnv sampleJob emptyHost = (Ok (newJob sampleCronEnv sampleJob), h') \<and>
     cron_Get NewCronManager sampleCronEnv (j_ID sampleJob) h' = (Ok (managed (newJob sampleCronEnv sampleJob)), h'')"
proof -
  obtain v w where v: "ValidateJob sampleCronEnv sampleJob = Ok v" "ValidateJob sampleCronEnv (newJob sampleCronEnv sampleJob) = Ok w"
    using sampleJob_valid newJob_valid by blast
  have "\<exists>h'. cron_Create id NewCronManager sampleCronEnv sampleJob emptyHost = (Ok (newJob sampleCronEnv sampleJob), h') \<and> failures h' = 0"
    using v by (simp add: cron_Create_def bind_validation bindS_def cron_load_def fileOp_def emptyHost_def guardS_def noSystemJobs
        cron_commit_def writeCron_def writeState_def failures_def sortJobs_def)
  then obtain h' where h': "cron_Create id NewCronManager sampleCronEnv sampleJob emptyHost = (Ok (newJob sampleCronEnv sampleJob), h')"
    "failures h' = 0" by blast
  from created_job_is_found [OF h'] show ?thesis using h'(1) by blast
qed


section \<open>What reaches the table\<close>

lemma ValidateExpression_layout: "same_layout s t \<Longrightarrow> ValidateExpression s = ValidateExpression t"
  by (simp add: ValidateExpression_def Fields_layout)

lemma line_break_layout: "same_layout (a @ [NL] @ b) (a @ [SPACE] @ b)"
  unfolding same_layout_def
  by (intro list_all2_appendI list_all2_refl) (simp_all add: ascii_space_def in_range_def)

lemma job_in_table: "job \<in> set jobs \<Longrightarrow> j_Enabled job \<Longrightarrow> \<exists>u v. render quote jobs = u @ j_Expression job @ v"
proof -
  assume "job \<in> set jobs" "j_Enabled job"
  then have "job \<in> set (filter j_Enabled (sortJobs jobs))" by simp
  then obtain as bs where "filter j_Enabled (sortJobs jobs) = as @ job # bs" by (meson split_list)
  then have "render quote jobs =
      (tableHeader @ concat (map (jobText quote) as) @ (if j_Timezone job \<noteq> [] then ''CRON_TZ='' @ j_Timezone job @ [NL] else []) @
        concat (map (envLine quote (j_Environment job)) (sortedKeys (j_Environment job)))) @
      j_Expression job @
      ('' root /usr/bin/opendeploy-agent --cron-run='' @ j_ID job @ '' # opendeploy:'' @ j_ID job @ [NL] @ concat (map (jobText quote) bs))"
    by (simp only: render_def map_append list.map concat_append concat.simps jobText_def jobLine_def append_assoc)
  then show ?thesis by blast
qed

lemma newJob_fields [simp]: "j_Expression (newJob env job) = j_Expression job" "j_Enabled (newJob env job) = j_Enabled job"
  by (simp_all add: newJob_def Let_def)

lemma Create_synced:
  assumes "cron_Create quote m env job h = (Ok j, h')"
  shows "synced quote h'"
  using assms commit_result [of quote env]
  by (force simp: cron_Create_def bind_validation bind_guard bindS_def split: sum.splits prod.splits if_splits)

text \<open>Line breaks between the fields of an expression are accepted like blanks and reach the table
  as they are: an enabled job created with one leaves a table in which its entry is cut in two.\<close>

theorem expression_line_breaks:
  assumes "j_Enabled job" "cron_Create quote m env (job\<lparr>j_Expression := a @ [NL] @ b\<rparr>) h = (Ok j, h')"
  shows "ValidateJob env (job\<lparr>j_Expression := a @ [NL] @ b\<rparr>) = ValidateJob env (job\<lparr>j_Expression := a @ [SPACE] @ b\<rparr>) \<and>
         (\<exists>u v. ch_table h' = Some (u @ a @ [NL] @ b @ v))"
proof
  show "ValidateJob env (job\<lparr>j_Expression := a @ [NL] @ b\<rparr>) = ValidateJob env (job\<lparr>j_Expression := a @ [SPACE] @ b\<rparr>)"
    using ValidateExpression_layout [OF line_break_layout [of a b]] by (simp add: ValidateJob_def)
  let ?job = "job\<lparr>j_Expression := a @ [NL] @ b\<rparr>"
  from Create_Ok [OF assms(2)] obtain st where st: "j = newJob env ?job"
    "ch_state h' = Holds (st\<lparr>st_Jobs := sortJobs (st_Jobs st @ [j])\<rparr>)" by blast
  with Create_synced [OF assms(2)] have "ch_table h' = Some (render quote (st_Jobs st @ [j]))"
    by (auto simp: synced_def stored_def)
  then show "\<exists>u v. ch_table h' = Some (u @ a @ [NL] @ b @ v)"
    using job_in_table [of j "st_Jobs st @ [j]" quote] st(1) assms(1) by auto
qed

theorem expression_line_breaks_witness:
  "\<exists>j h' u v. cron_Create id NewCronManager sampleCronEnv (sampleJob\<lparr>j_Expression := ''0 3'' @ [NL] @ ''* * *''\<rparr>) emptyHost = (Ok j, h') \<and>
     ch_table h' = Some (u @ ''0 3'' @ [NL] @ ''* * *'' @ v)"
proof -
  let ?job = "sampleJob\<lparr>j_Expression := ''0 3'' @ [NL] @ ''* * *''\<rparr>"
  have "is_ok (ValidateJob sampleCronEnv ?job)" "is_ok (ValidateJob sampleCronEnv (newJob sampleCronEnv ?job))" by code_simp+
  then have "\<exists>h'. cron_Create id NewCronManager sampleCronEnv ?job emptyHost = (Ok (newJob sampleCronEnv ?job), h')"
    by (auto simp: is_ok_iff cron_Create_def bind_validation bindS_def cron_load_def fileOp_def emptyHost_def guardS_def noSystemJobs
        cron_commit_def writeCron_def writeState_def sortJobs_def simp del: append_Cons)
  then obtain h' where h': "cron_Create id NewCronManager sampleCronEnv ?job emptyHost = (Ok (newJob sampleCronEnv ?job), h')" by blast
  have "j_Enabled sampleJob" by (simp add: sampleJob_def)
  from expression_line_breaks [OF this h'] h' show ?thesis by blast
qed


text \<open>Replacing one of the manager's files is all or nothing: whichever of the calls fails, the file has
  its new content and mode when \<open>atomicWrite\<close> reports success and is what it was when it reports an
  error, and everything else that existed is untouched.\<close>

theorem atomicWrite_all_or_nothing:
  assumes "os_wf s" "plain_comps q"
  shows "case cron_atomicWrite rnd q c mode s of (r, s') \<Rightarrow>
    nodes s' q = (if is_ok r then Some (FileN c \<lparr>perm = mode, uid = 0, gid = 0\<rparr>) else nodes s q) \<and>
    (\<forall>x. x \<noteq> q \<and> nodes s x \<noteq> None \<longrightarrow> nodes s' x = nodes s x)"
proof -
  obtain r s' where w: "cron_atomicWrite rnd q c mode s = (r, s')" by fastforce
  from cron_atomicWrite_result [OF assms w] show ?thesis
    using w by (auto simp: write_outcome_def)
qed

theorem atomicWrite_all_or_nothing_witness:
  "is_ok (fst (cron_atomicWrite ''1'' [''srv'', ''app'', ''f''] ''new'' 0x180 sampleOS)) \<and>
   nodes (snd (cron_atomicWrite ''1'' [''srv'', ''app'', ''f''] ''new'' 0x180 sampleOS)) [''srv'', ''app'', ''f''] =
     Some (FileN ''new'' \<lparr>perm = 0x180, uid = 0, gid = 0\<rparr>)"
proof -
  have "is_ok (fst (cron_atomicWrite ''1'' [''srv'', ''app'', ''f''] ''new'' 0x180 sampleOS))" by code_simp
  moreover have "plain_comps [''srv'', ''app'', ''f'']" by code_simp
  ultimately show ?thesis
    using atomicWrite_all_or_nothing [OF sampleOS_wf, where q = "[''srv'', ''app'', ''f'']" and rnd = "''1''" and c = "''new''" and mode = "0x180"] by auto
qed

end
