(* ===== verification/Agent_System.thy ===== *)
theory Agent_System
  imports Agent_Server Agent_Cron
begin

text \<open>
  The whole service of the Agent: the handlers of \<open>server/server.go\<close> and the cron handlers of \<open>server/cron.go\<close>, which are
  methods of one gRPC service, over one state. A job of the cron manager is started as
  \<open>runuser -u user -- /bin/sh -c command\<close> and not through the command validator; the cron host records each start.
\<close>

datatype agent_request = GeneralRequest request | CronRequest cron_request

text \<open>What the cron handlers depend on: the quoting of environment values, the manager, the outcome of started jobs and
  the host of the moment.\<close>

record cron_side =
  cs_quote :: "string \<Rightarrow> string"
  cs_manager :: CronManager
  cs_exec :: "string \<times> string \<times> string \<times> string list \<Rightarrow> cron_outcome"
  cs_env :: cron_env

definition agent_serve :: "'t server_env \<Rightarrow> cron_side \<Rightarrow> agent_request \<Rightarrow> agent \<times> cron_host \<Rightarrow> agent \<times> cron_host" where
  "agent_serve env side req = (\<lambda>(a, h).
     case req of
       GeneralRequest r \<Rightarrow> (snd (serve env r a), h)
     | CronRequest r \<Rightarrow> (a, cron_serve (cs_quote side) (cs_manager side) (cs_exec side) (cs_env side) r h))"

text \<open>Requests one after the other, each in whatever environment the host is in then, with any failures of the cron files.\<close>

inductive agent_reaches :: "(string \<Rightarrow> bool) \<Rightarrow> int \<Rightarrow> CronManager \<Rightarrow> agent \<times> cron_host \<Rightarrow> agent \<times> cron_host \<Rightarrow> bool"
  for cm :: "string \<Rightarrow> bool" and self :: int and m :: CronManager and s0 :: "agent \<times> cron_host" where
  first: "agent_reaches cm self m s0 s0"
| failing: "agent_reaches cm self m s0 (a, h) \<Longrightarrow> agent_reaches cm self m s0 (a, h\<lparr>ch_faults := bs\<rparr>)"
| served: "agent_reaches cm self m s0 s \<Longrightarrow> se_comment (sv_shell env) = cm \<Longrightarrow> sv_pid env = self \<Longrightarrow> cs_manager side = m \<Longrightarrow>
    agent_reaches cm self m s0 (agent_serve (env :: unit server_env) side req s)"

section \<open>Jobs that are started\<close>

text \<open>A job of the store, or one that the host's own cron files define.\<close>

definition known_job :: "CronManager \<Rightarrow> cron_env \<Rightarrow> cron_host \<Rightarrow> Job \<Rightarrow> bool" where
  "known_job m env h job =
     (\<exists>st. stored h = Some st \<and> (job \<in> managed ` set (st_Jobs st) \<or> job \<in> set (discoverSystemJobs env (cm_cronPath m))))"

definition command_of :: "Job \<Rightarrow> string \<times> string \<times> string \<times> string list" where
  "command_of job = (j_User job, j_Command job, j_WorkingDir job, buildEnvironment job)"

definition started_same :: "cron_host \<Rightarrow> cron_host \<Rightarrow> bool" where
  "started_same h h' = (ch_started h' = ch_started h)"

lemma started_order [intro, simp]: "reflp started_same" "transp started_same"
  by (auto simp: started_same_def reflp_def transp_def)

lemma started_fileOp: "(\<And>g. ch_started (f g) = ch_started g) \<Longrightarrow> keeps started_same (fileOp e f)"
  by (rule keepsI) (auto simp: started_same_def fileOp_def split: list.split)

lemma started_files [keeps_intro]:
  "keeps started_same cron_load" "keeps started_same (writeState st)" "keeps started_same (writeCron quote env jobs)"
  unfolding cron_load_def writeState_def writeCron_def
  by (intro keeps_intro started_order started_fileOp; simp add: started_same_def keeps_def split: disk_file.split)+

lemma started_commit [keeps_intro]: "keeps started_same (cron_commit quote env st)"
proof -
  have disk: "keeps started_same (writeCronFromDisk quote env)"
    unfolding writeCronFromDisk_def by (intro keeps_intro started_order)
  have "keeps started_same (\<lambda>h. case writeState st' h of (Inr _, h1) \<Rightarrow> (Ok (), h1)
       | (Inl e, h1) \<Rightarrow> (Err e, snd (writeCronFromDisk quote env h1)))" for st'
  proof (rule keepsI)
    fix h
    obtain r h1 where w: "writeState st' h = (r, h1)" by fastforce
    have "started_same h h1" "started_same h1 (snd (writeCronFromDisk quote env h1))"
      using keepsD [OF started_files(2) w] keepsD [OF disk prod.collapse [symmetric]] by auto
    then show "started_same h (snd (case writeState st' h of (Inr _, h1) \<Rightarrow> (Ok (), h1)
       | (Inl e, h1) \<Rightarrow> (Err e, snd (writeCronFromDisk quote env h1))))"
      using w by (cases r) (auto simp: started_same_def)
  qed
  then show ?thesis unfolding cron_commit_def by (intro keeps_intro started_order)
qed

lemma started_option [keeps_intro]:
  "(\<And>x. keeps R (f x)) \<Longrightarrow> keeps R g \<Longrightarrow> keeps R (case v of None \<Rightarrow> g | Some x \<Rightarrow> f x)"
  by (cases v) auto

lemma started_prod [keeps_intro]: "(\<And>x y. keeps R (f x y)) \<Longrightarrow> keeps R (case v of (x, y) \<Rightarrow> f x y)"
  by (cases v) auto

lemma started_operations [keeps_intro]:
  "keeps started_same (cron_List m env)" "keeps started_same (cron_Get m env jid)" "keeps started_same (cron_Create quote m env job)"
  "keeps started_same (cron_Update quote m env job)" "keeps started_same (cron_Delete quote m env jid)"
  "keeps started_same (History m jid limit)"
  unfolding cron_List_def cron_Get_def cron_Create_def cron_Update_def cron_Delete_def History_def Let_def
  by (intro keeps_intro started_order)+

lemma started_deleteAll: "started_same h (deleteAll quote m env js h)"
proof (induction js arbitrary: h)
  case (Cons j js)
  have "started_same h (snd (cron_Delete quote m env (j_ID j) h))" using started_operations(5) by (simp add: keeps_def)
  then show ?case using Cons [of "snd (cron_Delete quote m env (j_ID j) h)"] by (simp add: started_same_def)
qed (simp add: started_same_def)

lemma started_createAll [keeps_intro]: "keeps started_same (createAll quote m env js)"
proof (induction js)
  case (Cons j js)
  have "createAll quote m env (j # js) = bindS (wrapS cronError (cron_Create quote m env j)) (\<lambda>_. createAll quote m env js)"
    by (rule ext) simp
  then show ?case using Cons by (simp add: keeps_intro)
qed (simp add: keeps_def started_same_def)

lemma started_requests [keeps_intro]:
  "keeps started_same (CronList m env)" "keeps started_same (CronGet m env jid)" "keeps started_same (CronCreate quote m env msg)"
  "keeps started_same (CronUpdate quote m env msg)" "keeps started_same (CronDelete quote m env jid)"
  "keeps started_same (CronEnable quote m env jid)" "keeps started_same (CronDisable quote m env jid)"
  "keeps started_same (cronHistory m jid limit)" "keeps started_same (CronExport m env encode)"
  unfolding CronList_def CronGet_def CronCreate_def CronUpdate_def CronDelete_def CronEnable_def CronDisable_def cronHistory_def
    CronExport_def toMessage_def SetEnabled_def
  by (intro keeps_intro started_order)+

lemma started_import: "keeps started_same (CronImport quote m env format jobs replace)"
proof -
  have "keeps started_same (\<lambda>h. (Ok (), if replace
        then (case cron_List m env h of (Inr current, h1) \<Rightarrow> deleteAll quote m env current h1 | (Inl _, h1) \<Rightarrow> h1) else h))"
  proof (rule keepsI)
    fix h
    obtain r h1 where l: "cron_List m env h = (r, h1)" by fastforce
    have "started_same h h1" by (rule keepsD [OF started_operations(1) l])
    then show "started_same h (snd (Ok (), if replace
        then (case cron_List m env h of (Inr current, h1) \<Rightarrow> deleteAll quote m env current h1 | (Inl _, h1) \<Rightarrow> h1) else h))"
      using l started_deleteAll by (cases r) (auto simp: started_same_def)
  qed
  then show ?thesis unfolding CronImport_def by (intro keeps_intro started_order)
qed

lemma Get_known: "cron_Get m env jid h = (Ok job, h1) \<Longrightarrow> known_job m env h job"
  unfolding cron_Get_def
  by (cases "cron_load h")
    (auto simp: bindS_def known_job_def find_Some_iff elim!: load_cases split: sum.splits option.splits)

lemma snd_case_result: "snd (case p of (Inl e, h) \<Rightarrow> (f e, h) | (Inr u, h) \<Rightarrow> (g u, h)) = snd p"
  by (simp split: prod.split sum.split)

lemma Run_started:
  "\<exists>cmds. ch_started (snd (CronRun m env exec jid trigger actor h)) = ch_started h @ cmds \<and>
     (\<forall>c \<in> set cmds. \<exists>job. known_job m env h job \<and> c = command_of job)"
proof -
  obtain r h1 where g: "cron_Get m env jid h = (r, h1)" by fastforce
  have h1: "ch_started h1 = ch_started h" using keepsD [OF started_operations(2) g] by (simp add: started_same_def)
  show ?thesis
  proof (cases r)
    case (Inl e)
    then show ?thesis using g h1 by (auto simp: CronRun_def cron_Run_def)
  next
    case (Inr job)
    have "keeps started_same (appendHistory m run)" for run
      unfolding appendHistory_def Let_def by (intro keeps_intro started_order)
    then have a: "ch_started (snd (appendHistory m run t)) = ch_started t" for run t by (simp add: keeps_def started_same_def)
    have "\<exists>run. snd (cron_Run m env exec jid trigger actor h) = snd (appendHistory m run (h1\<lparr>ch_started := ch_started h1 @ [command_of job]\<rparr>))"
      unfolding cron_Run_def g Inr prod.case sum.case Let_def command_of_def
      by (rule exI, rule snd_case_result)
    then have "ch_started (snd (cron_Run m env exec jid trigger actor h)) = ch_started h @ [command_of job]"
      using a h1 by auto
    moreover have "snd (CronRun m env exec jid trigger actor h) = snd (cron_Run m env exec jid trigger actor h)"
      by (auto simp: CronRun_def split: prod.split option.split)
    moreover have "known_job m env h job" using Get_known g Inr by blast
    ultimately show ?thesis by (intro exI [of _ "[command_of job]"]) auto
  qed
qed

lemma cron_serve_started:
  "\<exists>cmds. ch_started (cron_serve quote m exec env req h) = ch_started h @ cmds \<and>
     (\<forall>c \<in> set cmds. \<exists>job. known_job m env h job \<and> c = command_of job)"
proof (cases req)
  case (QRun jid trigger actor)
  then show ?thesis using Run_started by simp
qed (use started_requests started_import in \<open>auto simp: keeps_def started_same_def intro!: exI [of _ "[]"]\<close>)

section \<open>The invariant of the service\<close>

text \<open>The part of the Agent outside cron changes by requests of \<open>server.go\<close> only.\<close>

lemma agent_reaches_general: "agent_reaches cm self m s t \<Longrightarrow> serves cm self (fst s) (fst t)"
proof (induction rule: agent_reaches.induct)
  case (served t env side req)
  then show ?case
    using serve_serves [of env cm self "fst t"] transpD [OF serves_order(2)]
    by (cases t; cases req) (auto simp: agent_serve_def)
qed simp_all

text \<open>Every start of a job goes back to a job that was known when it was started.\<close>

lemma agent_reaches_started:
  "agent_reaches cm self m s t \<Longrightarrow> \<exists>cmds. ch_started (snd t) = ch_started (snd s) @ cmds \<and>
     (\<forall>c \<in> set cmds. \<exists>a h env job. agent_reaches cm self m s (a, h) \<and> known_job m env h job \<and> c = command_of job)"
proof (induction rule: agent_reaches.induct)
  case (served t env side req)
  obtain a h where t: "t = (a, h)" by fastforce
  show ?case
  proof (cases req)
    case (CronRequest r)
    obtain new where "ch_started (cron_serve (cs_quote side) m (cs_exec side) (cs_env side) r h) = ch_started h @ new"
      "\<forall>c \<in> set new. \<exists>job. known_job m (cs_env side) h job \<and> c = command_of job"
      using cron_serve_started by blast
    moreover obtain old where "ch_started h = ch_started (snd s) @ old"
      "\<forall>c \<in> set old. \<exists>a h env job. agent_reaches cm self m s (a, h) \<and> known_job m env h job \<and> c = command_of job"
      using served.IH t by auto
    moreover have "snd (agent_serve env side req t) = cron_serve (cs_quote side) m (cs_exec side) (cs_env side) r h"
      using served(4) t CronRequest by (simp add: agent_serve_def)
    moreover have "agent_reaches cm self m s (a, h)" using served(1) t by simp
    ultimately show ?thesis by (intro exI [of _ "old @ new"]) (simp only: append.assoc set_append Un_iff, blast)
  qed (use served.IH t in \<open>auto simp: agent_serve_def\<close>)
qed auto


definition sampleSide :: cron_side where
  "sampleSide = \<lparr>cs_quote = id, cs_manager = NewCronManager,
     cs_exec = (\<lambda>_. \<lparr>co_stdout = [], co_stderr = [], co_exit = Some 0, co_failed = False, co_finished = 0\<rparr>), cs_env = sampleCronEnv\<rparr>"


end
