(* ===== verification/Update_Manifest.thy ===== *)
theory Update_Manifest
  imports Go_Path Go_Regexp
begin

text \<open>
  What an update is decided on: the signed release manifest and the requests to the privileged updater
  (\<open>internal/update/manifest.go\<close>), the queries to GitHub (\<open>github.go\<close>) and the
  signature verifiers (\<open>verify.go\<close>). JSON decoding, URL parsing and HTTP exchanges are
  parameters.
\<close>

section \<open>The manifest\<close>

datatype upd_error =
    DecodeManifest
  | BadSchema
  | BadVersionTag
  | BadCommit
  | Incomplete
  | BadArtifact string
  | DuplicateArtifact string
  | NoArtifact string string
  | BadTag
  | QueryFailed
  | HTTPStatus nat
  | DecodeResponse
  | NotStable
  | UntrustedURL
  | UntrustedPath
  | DuplicateAsset string
  | NilDereference
  | BadGitObject
  | NotACommit
  | CosignPath
  | Keyring
  | GpgPath
  | VerificationFailed

definition ManifestSchema :: string where
  "ManifestSchema = ''opendeploy.release/v1''"

definition preClass :: "char \<Rightarrow> bool" where
  "preClass = Class [is_alnum] ''.-''"

definition versionPattern :: rexp where
  "versionPattern =
     RSeq (ROpt (RLit ''v'')) (RSeq (RPlus (RCls is_digit)) (RSeq (RLit ''.'') (RSeq (RPlus (RCls is_digit))
       (RSeq (RLit ''.'') (RSeq (RPlus (RCls is_digit)) (ROpt (RSeq (RLit ''-'') (RPlus (RCls preClass)))))))))"

definition hexClass :: "char \<Rightarrow> bool" where
  "hexClass = Class [is_digit] ''abcdef''"

definition commitPattern :: rexp where
  "commitPattern = RRep 40 (RCls hexClass)"

definition shaPattern :: rexp where
  "shaPattern = RRep 64 (RCls hexClass)"

record Artifact =
  a_OS :: string
  a_Arch :: string
  a_Name :: string
  a_SHA256 :: string
  a_Size :: int

text \<open>\<open>mf_PublishedAt\<close> is None for the zero time.\<close>

record Manifest =
  mf_Schema :: string
  mf_Version :: string
  mf_Tag :: string
  mf_Commit :: string
  mf_PublishedAt :: "int option"
  mf_Artifacts :: "Artifact list"

definition maxArtifact :: int where
  "maxArtifact = 536870912"

definition artifactKey :: "Artifact \<Rightarrow> string" where
  "artifactKey a = a_OS a @ ''/'' @ a_Arch a"

definition badArtifact :: "Artifact \<Rightarrow> bool" where
  "badArtifact a =
     (a_OS a = [] \<or> a_Arch a = [] \<or> a_Name a = [] \<or> ContainsAny (a_Name a) [SLASH, BACKSLASH] \<or>
      \<not> MatchString shaPattern (a_SHA256 a) \<or> a_Size a \<le> 0 \<or> a_Size a > maxArtifact)"

fun checkArtifacts :: "string list \<Rightarrow> Artifact list \<Rightarrow> (upd_error, unit) result" where
  "checkArtifacts seen [] = Ok ()"
| "checkArtifacts seen (a # as) =
     (if badArtifact a then Err (BadArtifact (artifactKey a))
      else if artifactKey a \<in> set seen then Err (DuplicateArtifact (artifactKey a))
      else checkArtifacts (artifactKey a # seen) as)"

definition ParseManifest :: "(string \<Rightarrow> Manifest option) \<Rightarrow> string \<Rightarrow> (upd_error, Manifest) result" where
  "ParseManifest decode data =
     (case decode data of None \<Rightarrow> Err DecodeManifest
      | Some m \<Rightarrow>
          andThen (guardE (mf_Schema m \<noteq> ManifestSchema) BadSchema) (\<lambda>_.
          andThen (guardE (\<not> MatchString versionPattern (mf_Version m) \<or> mf_Tag m \<noteq> mf_Version m) BadVersionTag) (\<lambda>_.
          andThen (guardE (\<not> MatchString commitPattern (mf_Commit m)) BadCommit) (\<lambda>_.
          andThen (guardE (mf_PublishedAt m = None \<or> mf_Artifacts m = []) Incomplete) (\<lambda>_.
          andThen (checkArtifacts [] (mf_Artifacts m)) (\<lambda>_. Ok m))))))"

definition ArtifactFor :: "Manifest \<Rightarrow> string \<Rightarrow> string \<Rightarrow> (upd_error, Artifact) result" where
  "ArtifactFor m goos goarch =
     (case find (\<lambda>a. a_OS a = goos \<and> a_Arch a = goarch) (mf_Artifacts m) of
        Some a \<Rightarrow> Ok a | None \<Rightarrow> Err (NoArtifact goos goarch))"

section \<open>Requests to the privileged updater\<close>

record UpdateRequest =
  ur_Schema :: string
  ur_Operation :: string
  ur_Tag :: string
  ur_TransactionID :: string
  ur_Archive :: string
  ur_Reason :: string
  ur_RequestedAt :: "int option"

definition validBackupArchiveName :: "string \<Rightarrow> bool" where
  "validBackupArchiveName name =
     (name = Base name \<and> HasPrefix name ''opendeploy-'' \<and> HasSuffix name ''.tar.gz'' \<and> length name \<le> 160 \<and>
      \<not> ContainsAny name [SLASH, BACKSLASH, NUL, CR, NL])"

definition ValidateRequest :: "UpdateRequest \<Rightarrow> bool" where
  "ValidateRequest r =
     (ur_Schema r = ''opendeploy.update-request/v1'' \<and> ur_RequestedAt r \<noteq> None \<and>
      (ur_Operation r = ''apply'' \<and> MatchString versionPattern (ur_Tag r) \<or>
       ur_Operation r = ''rollback'' \<and> ur_Tag r = [] \<or>
       ur_Operation r = ''backup'' \<and> ur_Tag r = [] \<and> ur_Archive r = [] \<and> length (ur_Reason r) \<le> 128 \<and>
         \<not> ContainsAny (ur_Reason r) [NUL, CR, NL] \<or>
       ur_Operation r = ''restore'' \<and> ur_Tag r = [] \<and> validBackupArchiveName (ur_Archive r)))"

section \<open>GitHub\<close>

record url =
  u_Scheme :: string
  u_Host :: string
  u_Path :: string

record Release =
  rl_Tag :: string
  rl_Draft :: bool
  rl_Prerelease :: bool
  rl_Assets :: "(string \<times> string) list"

text \<open>The decoded release document.\<close>

record release_doc =
  rd_Tag :: string
  rd_Draft :: bool
  rd_Prerelease :: bool
  rd_Assets :: "(string \<times> string) list"

record git_object =
  go_Type :: string
  go_SHA :: string

datatype endpoint = ReleaseEndpoint string | RefEndpoint string | TagEndpoint string

datatype github_doc = ReleaseDoc release_doc | ObjectDoc git_object

text \<open>The GitHub side: None when the exchange fails, otherwise the status and the decoded body.\<close>

record github =
  gh_APIBase :: string
  gh_Owner :: string
  gh_Repo :: string
  gh_answer :: "endpoint \<Rightarrow> (nat \<times> github_doc option) option"
  gh_parse :: "string \<Rightarrow> url option"

definition defaultGitHubAPI :: string where
  "defaultGitHubAPI = ''https://api.github.com''"

definition getJSON :: "github \<Rightarrow> endpoint \<Rightarrow> (upd_error, github_doc) result" where
  "getJSON c ep =
     (case gh_answer c ep of None \<Rightarrow> Err QueryFailed
      | Some (status, body) \<Rightarrow>
          if status \<noteq> 200 then Err (HTTPStatus status)
          else (case body of None \<Rightarrow> Err DecodeResponse | Some d \<Rightarrow> Ok d))"

definition getObject :: "github \<Rightarrow> endpoint \<Rightarrow> (upd_error, git_object) result" where
  "getObject c ep = andThen (getJSON c ep) (\<lambda>d. case d of ObjectDoc ob \<Rightarrow> Ok ob | ReleaseDoc _ \<Rightarrow> Err DecodeResponse)"

definition TagCommit :: "github \<Rightarrow> string \<Rightarrow> (upd_error, string) result" where
  "TagCommit c tag =
     andThen (getObject c (RefEndpoint tag)) (\<lambda>ref.
     if go_Type ref = ''commit'' \<and> MatchString commitPattern (go_SHA ref) then Ok (go_SHA ref)
     else if go_Type ref \<noteq> ''tag'' \<or> \<not> MatchString commitPattern (go_SHA ref) then Err BadGitObject
     else andThen (getObject c (TagEndpoint (go_SHA ref))) (\<lambda>an.
          if go_Type an \<noteq> ''commit'' \<or> \<not> MatchString commitPattern (go_SHA an) then Err NotACommit
          else Ok (go_SHA an)))"

text \<open>The redirect policy of the HTTP client: \<open>via\<close> is the number of requests already made.\<close>

definition checkRedirect :: "nat \<Rightarrow> url \<Rightarrow> bool" where
  "checkRedirect via u =
     (via < 5 \<and> u_Scheme u = ''https'' \<and>
      u_Host u \<in> set [''github.com'', ''api.github.com'', ''objects.githubusercontent.com'', ''release-assets.githubusercontent.com''])"

text \<open>One asset of the release. The parsed URL is used before its error is looked at; the API host of a
  configured base is None when that base cannot be parsed, and using it then stops the program.\<close>

definition trustedAsset :: "github \<Rightarrow> string \<Rightarrow> string \<Rightarrow> (upd_error, unit) result" where
  "trustedAsset c tag link =
     (case gh_parse c link of None \<Rightarrow> Err NilDereference
      | Some parsed \<Rightarrow>
          if gh_APIBase c = defaultGitHubAPI then
            if u_Scheme parsed \<noteq> ''https'' \<or> u_Host parsed \<noteq> ''github.com'' then Err UntrustedURL
            else if \<not> HasPrefix (u_Path parsed) (''/'' @ gh_Owner c @ ''/'' @ gh_Repo c @ ''/releases/download/'' @ tag @ ''/'')
            then Err UntrustedPath else Ok ()
          else (case gh_parse c (gh_APIBase c) of None \<Rightarrow> Err NilDereference
                | Some api \<Rightarrow> guardE (u_Host parsed \<noteq> u_Host api) UntrustedURL))"

fun releaseAssets :: "github \<Rightarrow> string \<Rightarrow> (string \<times> string) list \<Rightarrow> (string \<times> string) list \<Rightarrow> (upd_error, (string \<times> string) list) result" where
  "releaseAssets c tag acc [] = Ok acc"
| "releaseAssets c tag acc ((name, link) # rest) =
     andThen (trustedAsset c tag link) (\<lambda>_.
     if name \<in> fst ` set acc then Err (DuplicateAsset name)
     else releaseAssets c tag ((name, link) # acc) rest)"

definition gh_Release :: "github \<Rightarrow> string \<Rightarrow> (upd_error, Release) result" where
  "gh_Release c tag =
     (if \<not> MatchString versionPattern tag then Err BadTag
      else andThen (getJSON c (ReleaseEndpoint tag)) (\<lambda>d.
        case d of ObjectDoc _ \<Rightarrow> Err DecodeResponse
        | ReleaseDoc p \<Rightarrow>
            if rd_Tag p \<noteq> tag \<or> rd_Draft p \<or> rd_Prerelease p then Err NotStable
            else andThen (releaseAssets c tag [] (rd_Assets p)) (\<lambda>assets.
              Ok \<lparr>rl_Tag = rd_Tag p, rl_Draft = rd_Draft p, rl_Prerelease = rd_Prerelease p, rl_Assets = assets\<rparr>)))"

section \<open>Signature verifiers\<close>

text \<open>A verifier is given the two files and starts one program; \<open>run\<close> tells whether that program succeeds.\<close>

type_synonym verifier_run = "string \<Rightarrow> string list \<Rightarrow> bool"

record SigstoreVerifier =
  sv_CosignPath :: string
  sv_IdentityRegexp :: string
  sv_OIDCIssuer :: string

definition DefaultSigstoreVerifier :: SigstoreVerifier where
  "DefaultSigstoreVerifier =
     \<lparr>sv_CosignPath = ''/usr/bin/cosign'',
      sv_IdentityRegexp = ''^https://github'' @ [BACKSLASH] @ ''.com/anrted/opendeploy/'' @ [BACKSLASH] @
        ''.github/workflows/(release|build-binaries)'' @ [BACKSLASH] @ ''.yml@refs/tags/v[0-9].*$'',
      sv_OIDCIssuer = ''https://token.actions.githubusercontent.com''\<rparr>"

definition Sigstore_Verify :: "SigstoreVerifier \<Rightarrow> verifier_run \<Rightarrow> string \<Rightarrow> string \<Rightarrow> (upd_error, unit) result" where
  "Sigstore_Verify v run manifestPath bundlePath =
     (if sv_CosignPath v = [] then Err CosignPath
      else if \<not> IsAbs (sv_CosignPath v) then Err CosignPath
      else guardE (\<not> run (sv_CosignPath v)
             [''verify-blob'', ''--bundle'', bundlePath, ''--certificate-identity-regexp'', sv_IdentityRegexp v,
              ''--certificate-oidc-issuer'', sv_OIDCIssuer v, manifestPath]) VerificationFailed)"

record GPGVerifier =
  gv_GPGPath :: string
  gv_Keyring :: string

text \<open>\<open>stat\<close> gives the permission bits of a file.\<close>

definition GPG_Verify :: "GPGVerifier \<Rightarrow> (string \<Rightarrow> nat option) \<Rightarrow> verifier_run \<Rightarrow> string \<Rightarrow> string \<Rightarrow> (upd_error, unit) result" where
  "GPG_Verify v stat run manifestPath signaturePath =
     (let path = (if gv_GPGPath v = [] then ''/usr/bin/gpgv'' else gv_GPGPath v)
      in if gv_Keyring v = [] then Err Keyring
         else if (case stat (gv_Keyring v) of None \<Rightarrow> True | Some perm \<Rightarrow> bit perm 1 \<or> bit perm 4) then Err Keyring
         else if \<not> IsAbs path then Err GpgPath
         else guardE (\<not> run path [''--keyring'', gv_Keyring v, signaturePath, manifestPath]) VerificationFailed)"

end
