(* ===== verification/Update_Engine.thy ===== *)
theory Update_Engine
  imports Go_Links Update_Manifest
begin

text \<open>
  The updater that runs as root (\<open>internal/update/engine.go\<close>, \<open>lock_unix.go\<close>): it fetches a
  signed release, checks it, installs the three binaries, and restores the previous ones when the
  installation or the new binaries fail. It runs on the file system of \<open>Go_OS\<close>, where each call may
  fail. The configured directories are absolute and without symbolic links. Parameters are GitHub and
  the downloads, the JSON codecs, SHA-256, the reader of compressed archives, the signature program
  (a predicate on the contents of the two files), the system backup, and whether the services restart
  and are healthy with the installed binaries. Time-outs and log texts are left out; a time is None
  when it is the zero time.
\<close>

section \<open>Configuration and results\<close>

record Config =
  cf_StateDir :: string
  cf_ReleaseDir :: string
  cf_BinaryDir :: string
  cf_GOOS :: string
  cf_GOARCH :: string
  cf_Signature :: string

definition manifestAsset :: string where "manifestAsset = ''release-manifest.json''"
definition sigstoreAsset :: string where "sigstoreAsset = ''release-manifest.json.bundle''"
definition maxMetadata :: int where "maxMetadata = 4194304"

definition DefaultConfig :: Config where
  "DefaultConfig = \<lparr>cf_StateDir = ''/var/lib/opendeploy/updates'', cf_ReleaseDir = ''/opt/opendeploy/releases'',
     cf_BinaryDir = ''/usr/bin'', cf_GOOS = [], cf_GOARCH = [], cf_Signature = sigstoreAsset\<rparr>"

datatype eng_error =
    NotConfigured
  | RelativeDir
  | EOS os_error
  | EUpd upd_error
  | LockHeld
  | ManifestMissing
  | SignatureMissing string
  | TagMismatch
  | CommitMismatch
  | ArtifactMissing string
  | BadLimit
  | DownloadFailed
  | DownloadHTTP nat
  | CopyBroken
  | TooLarge
  | SizeMismatch
  | ShaMismatch
  | ArchiveOpen
  | ArchiveRead
  | UnsafeEntry string
  | UnexpectedEntry string
  | ReleaseTooLarge
  | ReleaseMissing "string list"
  | NoBackupProvider
  | BackupFailed
  | LiveMissing string os_error
  | SnapshotMissing string os_error
  | SnapshotFailed string eng_error
  | RestartFailed
  | Unhealthy
  | InstallRolledBack eng_error "eng_error option"
  | HealthRolledBack eng_error "eng_error option" "eng_error option" "eng_error option"
  | RollbackUnhealthy eng_error "eng_error option" "eng_error option" "eng_error option"
  | CorruptHistory nat
  | NoTransaction
  | NoSnapshot

record HistoryEntry =
  he_ID :: string
  he_StartedAt :: "int option"
  he_CompletedAt :: "int option"
  he_FromVersion :: string
  he_ToVersion :: string
  he_Commit :: string
  he_Status :: string
  he_Automatic :: bool
  he_Error :: "eng_error option"
  he_BackupDir :: path
  he_SystemBackup :: string

definition emptyEntry :: HistoryEntry where
  "emptyEntry = \<lparr>he_ID = [], he_StartedAt = None, he_CompletedAt = None, he_FromVersion = [], he_ToVersion = [], he_Commit = [],
     he_Status = [], he_Automatic = False, he_Error = None, he_BackupDir = [], he_SystemBackup = []\<rparr>"

record rel_entry =
  re_Name :: string
  re_Regular :: bool
  re_Size :: int
  re_Data :: string

text \<open>Everything outside the file system. A download is its status, its bytes and whether it ended
  properly; an archive is None when it is not compressed, otherwise its entries and whether it ended
  properly. \<open>ue_order1\<close> and \<open>ue_order2\<close> are the orders in which the two loops of install
  visit the map of names.\<close>

record upd_env =
  ue_ready :: bool
  ue_github :: github
  ue_signed :: "string \<Rightarrow> string \<Rightarrow> bool"
  ue_http :: "string \<Rightarrow> (nat \<times> string \<times> bool) option"
  ue_decode :: "string \<Rightarrow> Manifest option"
  ue_sha256 :: "string \<Rightarrow> string"
  ue_untar :: "string \<Rightarrow> (rel_entry list \<times> bool) option"
  ue_backup :: "(string \<Rightarrow> string option) option"
  ue_Restart :: "os \<Rightarrow> bool"
  ue_Healthy :: "os \<Rightarrow> bool"
  ue_encode :: "HistoryEntry \<Rightarrow> string"
  ue_decodeEntry :: "string \<Rightarrow> HistoryEntry option"
  ue_state :: "string \<Rightarrow> string \<Rightarrow> string"
  ue_platform :: "string \<times> string"
  ue_busy :: bool
  ue_stamp :: string
  ue_Now :: int
  ue_rnd :: string
  ue_order1 :: "(string \<times> string) list"
  ue_order2 :: "(string \<times> string) list"

type_synonym 'a eng = "(os, eng_error, 'a) action"

definition stateDir :: "Config \<Rightarrow> path" where "stateDir cfg = path_comps (cf_StateDir cfg)"
definition releaseRoot :: "Config \<Rightarrow> path" where "releaseRoot cfg = path_comps (cf_ReleaseDir cfg)"
definition binaryDir :: "Config \<Rightarrow> path" where "binaryDir cfg = path_comps (cf_BinaryDir cfg)"

definition joinName :: "path \<Rightarrow> string \<Rightarrow> path" where
  "joinName dir name = path_comps (PathJoin [abs_path dir, name])"

section \<open>Files\<close>

definition copyFile :: "path \<Rightarrow> path \<Rightarrow> 32 word \<Rightarrow> unit io" where
  "copyFile source destination mode =
     bindS (os_Open source) (\<lambda>input.
     bindS (os_MkdirAll (butlast destination) 0x1E8) (\<lambda>_.
     bindS (os_OpenTrunc destination mode) (\<lambda>_.
     joinS (copyNode input destination) (joinS os_Sync os_Sync))))"

definition atomicCopy :: "string \<Rightarrow> path \<Rightarrow> path \<Rightarrow> 32 word \<Rightarrow> unit io" where
  "atomicCopy rnd source destination mode =
     bindS (os_MkdirAll (butlast destination) 0x1E8) (\<lambda>_.
     bindS (os_CreateTemp (butlast destination) (''.'' @ Base (abs_path destination) @ ''.update-'') rnd) (\<lambda>temp.
     deferS (os_RemoveFile temp) (
       bindS (os_Open source) (\<lambda>input.
       bindS (joinS (copyNode input temp) (joinS os_Sync (joinS (os_Chmod temp mode) (joinS os_Sync os_Sync)))) (\<lambda>_.
       os_Rename temp destination)))))"

definition os_WriteFile :: "path \<Rightarrow> string \<Rightarrow> 32 word \<Rightarrow> unit io" where
  "os_WriteFile p c mode = bindS (os_OpenTrunc p mode) (\<lambda>_. joinS (os_WriteData p c) os_Sync)"

section \<open>Preparation\<close>

fun prepareEach :: "string list \<Rightarrow> unit eng" where
  "prepareEach [] s = (Ok (), s)"
| "prepareEach (d # ds) s =
     bindS (guardS (d = [] \<or> \<not> IsAbs d) RelativeDir) (\<lambda>_.
     bindS (wrapS EOS (os_MkdirAll (path_comps d) 0x1C0)) (\<lambda>_. prepareEach ds)) s"

definition prepareDirectories :: "Config \<Rightarrow> unit eng" where
  "prepareDirectories cfg =
     prepareEach [cf_StateDir cfg, PathJoin [cf_StateDir cfg, ''staging''], PathJoin [cf_StateDir cfg, ''backups''], cf_ReleaseDir cfg]"

definition acquireUpdateLock :: "upd_env \<Rightarrow> path \<Rightarrow> unit eng" where
  "acquireUpdateLock env p = bindS (wrapS EOS (os_OpenCreate p 0x180)) (\<lambda>_. guardS (ue_busy env) LockHeld)"

section \<open>Fetching\<close>

text \<open>What \<open>io.LimitReader\<close> lets through.\<close>

fun io_LimitReader :: "int \<Rightarrow> string \<Rightarrow> string" where
  "io_LimitReader n [] = []"
| "io_LimitReader n (c # s) = (if n \<le> 0 then [] else c # io_LimitReader (n - 1) s)"

text \<open>A file that must not exist yet is filled from a stream, which may break off.\<close>

definition newFile :: "path \<Rightarrow> 32 word \<Rightarrow> string \<Rightarrow> bool \<Rightarrow> unit eng" where
  "newFile p mode c broken =
     bindS (wrapS EOS (os_OpenExcl p mode)) (\<lambda>_.
     joinS (bindS (wrapS EOS (os_WriteData p c)) (\<lambda>_. guardS broken CopyBroken)) (wrapS EOS os_Sync))"

definition download :: "upd_env \<Rightarrow> string \<Rightarrow> path \<Rightarrow> int \<Rightarrow> unit eng" where
  "download env link destination limit =
     bindS (guardS (limit \<le> 0 \<or> limit > 536870912) BadLimit) (\<lambda>_.
     case ue_http env link of None \<Rightarrow> failS DownloadFailed
     | Some (status, body, complete) \<Rightarrow>
         let written = io_LimitReader (limit + 1) body
         in bindS (guardS (status \<noteq> 200) (DownloadHTTP status)) (\<lambda>_.
            bindS (newFile destination 0x180 written (\<not> complete \<and> int (length body) \<le> limit)) (\<lambda>_.
            guardS (int (length written) > limit) TooLarge)))"

text \<open>The signature program reads the two files.\<close>

definition verifySignature :: "upd_env \<Rightarrow> path \<Rightarrow> path \<Rightarrow> unit eng" where
  "verifySignature env manifestPath signaturePath =
     bindS (wrapS EOS (os_ReadFile manifestPath)) (\<lambda>m.
     bindS (wrapS EOS (os_ReadFile signaturePath)) (\<lambda>sg.
     guardS (\<not> ue_signed env m sg) (EUpd VerificationFailed)))"

definition verifySHA256 :: "upd_env \<Rightarrow> path \<Rightarrow> string \<Rightarrow> unit eng" where
  "verifySHA256 env p expected =
     bindS (wrapS EOS (os_ReadFile p)) (\<lambda>c. guardS (ue_sha256 env c \<noteq> ToLower expected) ShaMismatch)"

definition eng_artifact :: "upd_env \<Rightarrow> Config \<Rightarrow> Manifest \<Rightarrow> (upd_error, Artifact) result" where
  "eng_artifact env cfg m =
     (if cf_GOOS cfg \<noteq> [] \<or> cf_GOARCH cfg \<noteq> [] then ArtifactFor m (cf_GOOS cfg) (cf_GOARCH cfg)
      else ArtifactFor m (fst (ue_platform env)) (snd (ue_platform env)))"

section \<open>Extraction\<close>

definition expectedNames :: "string list" where
  "expectedNames = [''opendeploy-agent'', ''opendeploy-cli'', ''opendeploy-core'']"

definition unsafeName :: "string \<Rightarrow> bool" where
  "unsafeName name = (Contains name ''..'' \<or> IsAbs name \<or> Clean name \<noteq> name \<or> BACKSLASH \<in> set name)"

definition confinedReleaseTarget :: "path \<Rightarrow> string \<Rightarrow> (eng_error, path) result" where
  "confinedReleaseTarget destination name =
     (if name = [] \<or> unsafeName name then Err (UnsafeEntry name)
      else let root = abs_path destination; target = Clean (PathJoin [root, name])
           in if \<not> rel_inside root target then Err (UnsafeEntry name) else Ok (path_comps target))"

fun extractEntries :: "path \<Rightarrow> bool \<Rightarrow> string list \<Rightarrow> int \<Rightarrow> rel_entry list \<Rightarrow> unit eng" where
  "extractEntries dest complete found tot [] s =
     (if \<not> complete then (Err ArchiveRead, s)
      else let missing = filter (\<lambda>n. n \<notin> set found) expectedNames
           in if missing \<noteq> [] then (Err (ReleaseMissing missing), s) else (Ok (), s))"
| "extractEntries dest complete found tot (e # es) s =
     (let name = re_Name e; tot' = tot + re_Size e
      in if unsafeName name then (Err (UnsafeEntry name), s)
         else if name \<notin> set expectedNames \<or> \<not> re_Regular e \<or> re_Size e \<le> 0 \<or> re_Size e > 268435456
         then (Err (UnexpectedEntry name), s)
         else if tot' > 536870912 then (Err ReleaseTooLarge, s)
         else bindS (liftS (confinedReleaseTarget dest name)) (\<lambda>target.
              bindS (newFile target 0x1C0 (io_LimitReader (re_Size e) (re_Data e)) (int (length (re_Data e)) < re_Size e)) (\<lambda>_.
              extractEntries dest complete (name # found) tot' es)) s)"

definition extractRelease :: "upd_env \<Rightarrow> path \<Rightarrow> path \<Rightarrow> unit eng" where
  "extractRelease env archivePath destination =
     bindS (wrapS EOS (os_MkdirAll destination 0x1C0)) (\<lambda>_.
     bindS (wrapS EOS (os_Open archivePath)) (\<lambda>n.
     case n of
       FileN data _ \<Rightarrow>
         (case ue_untar env data of None \<Rightarrow> failS ArchiveOpen
          | Some (entries, complete) \<Rightarrow> extractEntries destination complete [] 0 entries)
     | _ \<Rightarrow> failS ArchiveOpen))"

section \<open>Installation and rollback\<close>

definition releaseNames :: "(string \<times> string) list" where
  "releaseNames = [(''opendeploy-core'', ''opendeploy-core''), (''opendeploy-agent'', ''opendeploy-agent''), (''opendeploy-cli'', ''opendeploy'')]"

definition liveNames :: "string list" where
  "liveNames = [''opendeploy-core'', ''opendeploy-agent'', ''opendeploy'']"

fun prepareCopies :: "Config \<Rightarrow> path \<Rightarrow> path \<Rightarrow> path \<Rightarrow> (string \<times> string) list \<Rightarrow> unit eng" where
  "prepareCopies cfg payload releaseDir backupDir [] s = (Ok (), s)"
| "prepareCopies cfg payload releaseDir backupDir ((sourceName, targetName) # rest) s =
     (let target = binaryDir cfg @ [targetName]
      in bindS (wrapS EOS (copyFile (payload @ [sourceName]) (releaseDir @ [targetName]) 0x1ED)) (\<lambda>_.
         bindS (wrapS (LiveMissing targetName) (os_Stat target)) (\<lambda>_.
         bindS (wrapS EOS (copyFile target (backupDir @ [targetName]) 0x1ED)) (\<lambda>_.
         prepareCopies cfg payload releaseDir backupDir rest))) s)"

fun switchCopies :: "upd_env \<Rightarrow> Config \<Rightarrow> path \<Rightarrow> string list \<Rightarrow> unit eng" where
  "switchCopies env cfg releaseDir [] s = (Ok (), s)"
| "switchCopies env cfg releaseDir (targetName # rest) s =
     bindS (wrapS EOS (atomicCopy (ue_rnd env) (releaseDir @ [targetName]) (binaryDir cfg @ [targetName]) 0x1ED)) (\<lambda>_.
     switchCopies env cfg releaseDir rest) s"

definition releasePath :: "Config \<Rightarrow> Manifest \<Rightarrow> path \<Rightarrow> path" where
  "releasePath cfg m backupDir =
     joinName (releaseRoot cfg) (TrimPrefix (mf_Version m) ''v'' @ ''-'' @ take 12 (mf_Commit m) @ ''-'' @ Base (abs_path backupDir))"

definition eng_install :: "upd_env \<Rightarrow> Config \<Rightarrow> path \<Rightarrow> Manifest \<Rightarrow> path \<Rightarrow> unit eng" where
  "eng_install env cfg payload m backupDir =
     (let releaseDir = releasePath cfg m backupDir
      in bindS (wrapS EOS (os_MkdirAll backupDir 0x1C0)) (\<lambda>_.
         bindS (wrapS EOS (os_Mkdir releaseDir 0x1E8)) (\<lambda>_.
         bindS (prepareCopies cfg payload releaseDir backupDir (ue_order1 env)) (\<lambda>_.
         bindS (switchCopies env cfg releaseDir (map snd (ue_order2 env))) (\<lambda>_.
         wrapS EOS (os_WriteFile (stateDir cfg @ [''current.json'']) (ue_state env (mf_Version m) (mf_Commit m)) 0x180))))))"

fun restoreEach :: "upd_env \<Rightarrow> Config \<Rightarrow> path \<Rightarrow> string list \<Rightarrow> unit eng" where
  "restoreEach env cfg backupDir [] s = (Ok (), s)"
| "restoreEach env cfg backupDir (name # rest) s =
     bindS (wrapS (SnapshotMissing name) (os_Stat (backupDir @ [name]))) (\<lambda>_.
     bindS (wrapS EOS (atomicCopy (ue_rnd env) (backupDir @ [name]) (binaryDir cfg @ [name]) 0x1ED)) (\<lambda>_.
     restoreEach env cfg backupDir rest)) s"

definition eng_restore :: "upd_env \<Rightarrow> Config \<Rightarrow> path \<Rightarrow> unit eng" where
  "eng_restore env cfg backupDir = restoreEach env cfg backupDir liveNames"

fun snapshotEach :: "Config \<Rightarrow> path \<Rightarrow> string list \<Rightarrow> unit eng" where
  "snapshotEach cfg destination [] s = (Ok (), s)"
| "snapshotEach cfg destination (name # rest) s =
     bindS (wrapS (\<lambda>e. SnapshotFailed name (EOS e)) (copyFile (binaryDir cfg @ [name]) (destination @ [name]) 0x1ED)) (\<lambda>_.
     snapshotEach cfg destination rest) s"

definition snapshotLive :: "Config \<Rightarrow> path \<Rightarrow> unit eng" where
  "snapshotLive cfg destination =
     bindS (wrapS EOS (os_MkdirAll destination 0x1C0)) (\<lambda>_. snapshotEach cfg destination liveNames)"

section \<open>History\<close>

definition historyPath :: "Config \<Rightarrow> path" where
  "historyPath cfg = stateDir cfg @ [''history.jsonl'']"

definition eng_appendHistory :: "upd_env \<Rightarrow> Config \<Rightarrow> HistoryEntry \<Rightarrow> unit eng" where
  "eng_appendHistory env cfg entry =
     wrapS EOS (bindS (os_OpenCreate (historyPath cfg) 0x180) (\<lambda>_.
       bindS (os_AppendData (historyPath cfg) (ue_encode env entry @ [NL])) (\<lambda>_. os_Sync)))"

fun decodeLines :: "(string \<Rightarrow> HistoryEntry option) \<Rightarrow> nat \<Rightarrow> string list \<Rightarrow> (eng_error, HistoryEntry list) result" where
  "decodeLines dec n [] = Ok []"
| "decodeLines dec n (line # rest) =
     (if TrimSpace line = [] then decodeLines dec (Suc n) rest
      else case dec line of None \<Rightarrow> Err (CorruptHistory (Suc n))
           | Some e \<Rightarrow> andThen (decodeLines dec (Suc n) rest) (\<lambda>es. Ok (e # es)))"

definition eng_History :: "upd_env \<Rightarrow> Config \<Rightarrow> HistoryEntry list eng" where
  "eng_History env cfg s =
     (case os_ReadFile (historyPath cfg) s of
        (Inl e, s') \<Rightarrow> (if e = ENOENT then Ok [] else Err (EOS e), s')
      | (Inr data, s') \<Rightarrow> (decodeLines (ue_decodeEntry env) 0 (Split NL (TrimSpace data)), s'))"

definition findHistory :: "upd_env \<Rightarrow> Config \<Rightarrow> string \<Rightarrow> HistoryEntry eng" where
  "findHistory env cfg tid =
     bindS (eng_History env cfg) (\<lambda>entries.
       case find (\<lambda>e. tid = [] \<and> he_Status e = ''succeeded'' \<or> he_ID e = tid) (rev entries) of
         None \<Rightarrow> failS NoTransaction | Some e \<Rightarrow> retS e)"

section \<open>Apply\<close>

text \<open>The error of an action together with the history entry as it is then.\<close>

definition withEntry :: "HistoryEntry \<Rightarrow> 'a eng \<Rightarrow> (os, HistoryEntry \<times> eng_error, 'a) action" where
  "withEntry entry m = wrapS (Pair entry) m"

definition lookupAsset :: "Release \<Rightarrow> string \<Rightarrow> eng_error \<Rightarrow> string eng" where
  "lookupAsset release name e = (case map_of (rl_Assets release) name of None \<Rightarrow> failS e | Some link \<Rightarrow> retS link)"

definition upd :: "(upd_error, 'a) result \<Rightarrow> 'a eng" where
  "upd r = wrapS EUpd (liftS r)"

definition verifyManifest :: "upd_env \<Rightarrow> Release \<Rightarrow> string \<Rightarrow> string \<Rightarrow> string \<Rightarrow> path \<Rightarrow> Manifest eng" where
  "verifyManifest env release manifestURL signatureURL signatureName stage =
     (let manifestPath = stage @ [manifestAsset]; signaturePath = joinName stage (Base signatureName)
      in bindS (download env manifestURL manifestPath maxMetadata) (\<lambda>_.
         bindS (download env signatureURL signaturePath maxMetadata) (\<lambda>_.
         bindS (verifySignature env manifestPath signaturePath) (\<lambda>_.
         bindS (wrapS EOS (os_ReadFile manifestPath)) (\<lambda>bytes.
         bindS (upd (ParseManifest (ue_decode env) bytes)) (\<lambda>m.
         bindS (guardS (mf_Tag m \<noteq> rl_Tag release) TagMismatch) (\<lambda>_.
         bindS (upd (TagCommit (ue_github env) (rl_Tag release))) (\<lambda>commit.
         bindS (guardS (commit \<noteq> mf_Commit m) CommitMismatch) (\<lambda>_.
         retS m)))))))))"

definition checkSize :: "path \<Rightarrow> int \<Rightarrow> unit eng" where
  "checkSize p n s =
     (case os_Stat p s of
        (Inr (FileN c _), s') \<Rightarrow> (if int (length c) = n then Ok () else Err SizeMismatch, s')
      | (_, s') \<Rightarrow> (Err SizeMismatch, s'))"

definition fetchPayload :: "upd_env \<Rightarrow> Config \<Rightarrow> Release \<Rightarrow> Manifest \<Rightarrow> path \<Rightarrow> path eng" where
  "fetchPayload env cfg release m stage =
     bindS (upd (eng_artifact env cfg m)) (\<lambda>a.
     bindS (lookupAsset release (a_Name a) (ArtifactMissing (a_Name a))) (\<lambda>link.
     let archivePath = joinName stage (a_Name a); payloadDir = stage @ [''payload'']
     in bindS (download env link archivePath (a_Size a)) (\<lambda>_.
        bindS (checkSize archivePath (a_Size a)) (\<lambda>_.
        bindS (verifySHA256 env archivePath (a_SHA256 a)) (\<lambda>_.
        bindS (extractRelease env archivePath payloadDir) (\<lambda>_.
        retS payloadDir))))))"

definition systemBackup :: "upd_env \<Rightarrow> string \<Rightarrow> string eng" where
  "systemBackup env reason =
     (case ue_backup env of None \<Rightarrow> failS NoBackupProvider
      | Some create \<Rightarrow> (case create reason of None \<Rightarrow> failS BackupFailed | Some b \<Rightarrow> retS b))"

text \<open>What is known before the switch: the entry, the manifest and the payload.\<close>

definition stageRelease ::
  "upd_env \<Rightarrow> Config \<Rightarrow> Release \<Rightarrow> string \<Rightarrow> string \<Rightarrow> string \<Rightarrow> HistoryEntry \<Rightarrow> path \<Rightarrow>
   (os, HistoryEntry \<times> eng_error, HistoryEntry \<times> Manifest \<times> path) action" where
  "stageRelease env cfg release manifestURL signatureURL signatureName entry stage =
     bindS (withEntry entry (verifyManifest env release manifestURL signatureURL signatureName stage)) (\<lambda>m.
     let entry1 = entry\<lparr>he_Commit := mf_Commit m, he_ID := he_ID entry @ ''-'' @ take 12 (mf_Commit m)\<rparr>
     in bindS (withEntry entry1 (fetchPayload env cfg release m stage)) (\<lambda>payload.
        bindS (withEntry entry1 (systemBackup env (''before-update-'' @ mf_Tag m))) (\<lambda>b.
        retS (entry1\<lparr>he_SystemBackup := b\<rparr>, m, payload))))"

definition runtimeCheck :: "upd_env \<Rightarrow> os \<Rightarrow> eng_error option" where
  "runtimeCheck env s = (if \<not> ue_Restart env s then Some RestartFailed else if \<not> ue_Healthy env s then Some Unhealthy else None)"

definition failed :: "(eng_error, unit) result \<Rightarrow> eng_error option" where
  "failed r = (case r of Inl e \<Rightarrow> Some e | Inr _ \<Rightarrow> None)"

definition rolledBack :: "upd_env \<Rightarrow> HistoryEntry \<Rightarrow> eng_error \<Rightarrow> HistoryEntry" where
  "rolledBack env entry e = entry\<lparr>he_Status := ''rolled_back'', he_Automatic := True, he_Error := Some e, he_CompletedAt := Some (ue_Now env)\<rparr>"

definition switchRelease ::
  "upd_env \<Rightarrow> Config \<Rightarrow> HistoryEntry \<Rightarrow> Manifest \<Rightarrow> path \<Rightarrow> (os, HistoryEntry \<times> eng_error, HistoryEntry) action" where
  "switchRelease env cfg entry0 m payload s =
     (let backupDir = joinName (stateDir cfg @ [''backups'']) (he_ID entry0);
          entry = entry0\<lparr>he_Status := ''installing'', he_BackupDir := backupDir\<rparr>
      in case eng_install env cfg payload m backupDir s of
           (Inl e, s1) \<Rightarrow>
             (case eng_restore env cfg backupDir s1 of
                (r, s2) \<Rightarrow>
                  let err = InstallRolledBack e (failed r); entry' = rolledBack env entry err
                  in (Err (entry', err), snd (eng_appendHistory env cfg entry' s2)))
         | (Inr _, s1) \<Rightarrow>
             (case runtimeCheck env s1 of
                Some e \<Rightarrow>
                  (case eng_restore env cfg backupDir s1 of
                     (r, s2) \<Rightarrow>
                       let err = HealthRolledBack e (failed r)
                             (if ue_Restart env s2 then None else Some RestartFailed) (if ue_Healthy env s2 then None else Some Unhealthy);
                           entry' = rolledBack env entry err
                       in (Err (entry', err), snd (eng_appendHistory env cfg entry' s2)))
              | None \<Rightarrow>
                  let entry' = entry\<lparr>he_Status := ''succeeded'', he_CompletedAt := Some (ue_Now env)\<rparr>
                  in bindS (withEntry entry' (eng_appendHistory env cfg entry')) (\<lambda>_. retS entry') s1))"

definition newEntry :: "upd_env \<Rightarrow> string \<Rightarrow> string \<Rightarrow> HistoryEntry" where
  "newEntry env tag currentVersion =
     emptyEntry\<lparr>he_ID := ue_stamp env, he_StartedAt := Some (ue_Now env), he_FromVersion := currentVersion,
       he_ToVersion := tag, he_Status := ''verifying''\<rparr>"

definition applyBody :: "upd_env \<Rightarrow> Config \<Rightarrow> string \<Rightarrow> HistoryEntry \<Rightarrow> (os, HistoryEntry \<times> eng_error, HistoryEntry) action" where
  "applyBody env cfg tag entry =
     bindS (withEntry entry (upd (gh_Release (ue_github env) tag))) (\<lambda>release.
     bindS (withEntry entry (lookupAsset release manifestAsset ManifestMissing)) (\<lambda>manifestURL.
     let signatureName = (if cf_Signature cfg = [] then sigstoreAsset else cf_Signature cfg)
     in bindS (withEntry entry (lookupAsset release signatureName (SignatureMissing signatureName))) (\<lambda>signatureURL.
        bindS (withEntry entry (wrapS EOS (os_MkdirTemp (stateDir cfg @ [''staging'']) ''update-'' (ue_rnd env)))) (\<lambda>stage.
        deferS (\<lambda>s. snd (os_RemoveAll stage s)) (
          bindS (stageRelease env cfg release manifestURL signatureURL signatureName entry stage) (\<lambda>(entry1, m, payload).
          switchRelease env cfg entry1 m payload))))))"

definition eng_Apply :: "upd_env \<Rightarrow> Config \<Rightarrow> string \<Rightarrow> string \<Rightarrow> os \<Rightarrow> (HistoryEntry \<times> eng_error option) \<times> os" where
  "eng_Apply env cfg tag currentVersion s =
     (case bindS (guardS (\<not> ue_ready env) NotConfigured) (\<lambda>_.
           bindS (prepareDirectories cfg) (\<lambda>_.
           acquireUpdateLock env (stateDir cfg @ [''update.lock'']))) s of
        (Inl e, s1) \<Rightarrow> ((emptyEntry, Some e), s1)
      | (Inr _, s1) \<Rightarrow>
          (case applyBody env cfg tag (newEntry env tag currentVersion) s1 of
             (Inr entry, s2) \<Rightarrow> ((entry, None), s2)
           | (Inl (entry, e), s2) \<Rightarrow>
               if he_CompletedAt entry = None then
                 let entry' = entry\<lparr>he_Status := ''failed'', he_Error := Some e, he_CompletedAt := Some (ue_Now env)\<rparr>
                 in ((entry', Some e), snd (eng_appendHistory env cfg entry' s2))
               else ((entry, Some e), s2)))"

section \<open>Rollback on request\<close>

definition rollbackFailed :: "upd_env \<Rightarrow> Config \<Rightarrow> HistoryEntry \<Rightarrow> eng_error \<Rightarrow> os \<Rightarrow> (HistoryEntry \<times> eng_error option) \<times> os" where
  "rollbackFailed env cfg entry e s =
     (let entry' = entry\<lparr>he_Status := ''rollback_failed'', he_Error := Some e, he_CompletedAt := Some (ue_Now env)\<rparr>
      in ((entry', Some e), snd (eng_appendHistory env cfg entry' s)))"

definition rollbackTo :: "upd_env \<Rightarrow> Config \<Rightarrow> HistoryEntry \<Rightarrow> os \<Rightarrow> (HistoryEntry \<times> eng_error option) \<times> os" where
  "rollbackTo env cfg original s =
     (let entry = emptyEntry\<lparr>he_ID := ''rollback-'' @ ue_stamp env, he_StartedAt := Some (ue_Now env),
            he_FromVersion := he_ToVersion original, he_ToVersion := he_FromVersion original, he_Commit := he_Commit original,
            he_Status := ''rolling_back'', he_BackupDir := he_BackupDir original\<rparr>;
          safety = joinName (stateDir cfg @ [''backups'']) (he_ID entry)
      in case snapshotLive cfg safety s of
           (Inl e, s1) \<Rightarrow> rollbackFailed env cfg entry e s1
         | (Inr _, s1) \<Rightarrow>
             (case eng_restore env cfg (he_BackupDir original) s1 of
                (Inl e, s2) \<Rightarrow> rollbackFailed env cfg entry e s2
              | (Inr _, s2) \<Rightarrow>
                  (case runtimeCheck env s2 of
                     Some e \<Rightarrow>
                       (case eng_restore env cfg safety s2 of
                          (r, s3) \<Rightarrow>
                            rollbackFailed env cfg entry (RollbackUnhealthy e (failed r)
                              (if ue_Restart env s3 then None else Some RestartFailed) (if ue_Healthy env s3 then None else Some Unhealthy)) s3)
                   | None \<Rightarrow>
                       let entry' = entry\<lparr>he_Status := ''manual_rollback'', he_CompletedAt := Some (ue_Now env)\<rparr>
                       in (case eng_appendHistory env cfg entry' s2 of (r, s3) \<Rightarrow> ((entry', failed r), s3)))))"

definition eng_Rollback :: "upd_env \<Rightarrow> Config \<Rightarrow> string \<Rightarrow> os \<Rightarrow> (HistoryEntry \<times> eng_error option) \<times> os" where
  "eng_Rollback env cfg transactionID s =
     (case bindS (prepareDirectories cfg) (\<lambda>_.
           bindS (acquireUpdateLock env (stateDir cfg @ [''update.lock''])) (\<lambda>_.
           bindS (findHistory env cfg transactionID) (\<lambda>original.
           bindS (guardS (he_BackupDir original = []) NoSnapshot) (\<lambda>_. retS original)))) s of
        (Inl e, s1) \<Rightarrow> ((emptyEntry, Some e), s1)
      | (Inr original, s1) \<Rightarrow> rollbackTo env cfg original s1)"

lemma newFile_result:
  assumes "newFile p mode c broken s = (r, s')"
  shows "files_grow s s' \<and> (is_ok r \<longrightarrow> content_at s' p = Some c \<and> nodes s p = None)"
  using assms unfolding newFile_def
proof (cases rule: wrap_bindS_cases)
  case (err e)
  then show ?thesis using OpenExcl_result [OF err(1)] by (auto simp: outside_kept_def)
next
  case (ok u s1)
  from OpenExcl_result [OF ok(1)] obtain m where new: "nodes s p = None" "nodes s1 = (nodes s)(p \<mapsto> FileN [] m)" by auto
  obtain r2 s2 where w: "os_WriteData p c s1 = (r2, s2)" by fastforce
  have w2: "only (\<lambda>x. x = p) s1 s2 \<and> (\<forall>u. r2 = Ok u \<longrightarrow> nodes s2 p = Some (FileN c m))"
    using WriteData_result [OF w, of "[]" m] new(2) by simp
  obtain r3 s3 where y: "os_Sync s2 = (r3, s3)" by fastforce
  note n3 = Sync_nodes [OF y]
  have s': "s' = s3" "is_ok r \<longrightarrow> is_ok r2"
    using ok(2) w y by (auto simp: joinS_def bindS_def wrapS_def guardS_def split: sum.splits if_splits)
  have "files_grow s s3" unfolding outside_kept_def
  proof (intro allI impI)
    fix x assume x: "nodes s x \<noteq> None"
    then have "x \<noteq> p" using new(1) by auto
    moreover from this have "nodes s2 x = nodes s1 x" using w2 unfolding only_def by blast
    ultimately show "nodes s3 x = nodes s x" using n3 new(2) by simp
  qed
  moreover have "content_at s3 p = Some c" if "is_ok r"
  proof -
    from that s'(2) have "r2 = Ok ()" by (cases r2) auto
    then have "nodes s2 p = Some (FileN c m)" using w2 by blast
    then show ?thesis using n3 by (simp add: content_at_def)
  qed
  ultimately show ?thesis using s'(1) new(1) by simp
qed

section \<open>Staging only adds files\<close>

lemma keeps_newFile [keeps_intro]: "keeps files_grow (newFile p mode c broken)"
  using newFile_result by (auto intro!: keepsI) (metis prod.collapse)

lemma grows_download [keeps_intro]: "keeps files_grow (download env link p limit)"
proof -
  have "keeps files_grow (case ue_http env link of None \<Rightarrow> failS DownloadFailed
     | Some (status, body, complete) \<Rightarrow>
         let written = io_LimitReader (limit + 1) body
         in bindS (guardS (status \<noteq> 200) (DownloadHTTP status)) (\<lambda>_.
            bindS (newFile p 0x180 written (\<not> complete \<and> int (length body) \<le> limit)) (\<lambda>_.
            guardS (int (length written) > limit) TooLarge)))"
    by (cases "ue_http env link") (auto simp: Let_def intro!: keeps_intro)
  then show ?thesis unfolding download_def by (intro keeps_intro outside_kept_order)
qed

lemma grows_checks [keeps_intro]:
  "keeps files_grow (verifySignature env p q)" "keeps files_grow (verifySHA256 env p e)"
  unfolding verifySignature_def verifySHA256_def by (intro keeps_intro outside_kept_order)+

lemma grows_upd [keeps_intro]: "keeps files_grow (upd r)"
  unfolding upd_def by (intro keeps_intro outside_kept_order)

lemma grows_lookupAsset [keeps_intro]: "keeps files_grow (lookupAsset release name e)"
  unfolding lookupAsset_def by (cases "map_of (rl_Assets release) name") (simp_all add: keeps_intro)

lemma grows_systemBackup [keeps_intro]: "keeps files_grow (systemBackup env reason)"
  unfolding systemBackup_def
  by (cases "ue_backup env"; simp add: keeps_intro split: option.split)

lemma grows_verifyManifest [keeps_intro]: "keeps files_grow (verifyManifest env release mu su sn stage)"
  unfolding verifyManifest_def Let_def by (intro keeps_intro outside_kept_order)

lemma grows_extractEntries: "keeps files_grow (extractEntries dest complete found tot es)"
proof (induction es arbitrary: found tot)
  case Nil
  show ?case by (rule keepsI) (simp add: Let_def outside_kept_def)
next
  case (Cons e es)
  have "keeps files_grow (bindS (liftS (confinedReleaseTarget dest (re_Name e))) (\<lambda>target.
      bindS (newFile target 0x1C0 (io_LimitReader (re_Size e) (re_Data e)) (int (length (re_Data e)) < re_Size e)) (\<lambda>_.
      extractEntries dest complete (re_Name e # found) (tot + re_Size e) es)))"
    by (intro keeps_intro outside_kept_order Cons)
  then show ?case by (simp add: keeps_def Let_def outside_kept_def)
qed

lemma grows_extractRelease [keeps_intro]: "keeps files_grow (extractRelease env p dest)"
proof -
  have "keeps files_grow (case n of FileN data _ \<Rightarrow>
         (case ue_untar env data of None \<Rightarrow> failS ArchiveOpen
          | Some (entries, complete) \<Rightarrow> extractEntries dest complete [] 0 entries)
     | _ \<Rightarrow> failS ArchiveOpen)" for n
    by (cases n) (auto simp: keeps_intro grows_extractEntries split: option.split)
  then show ?thesis unfolding extractRelease_def by (intro keeps_intro outside_kept_order)
qed

lemma checkSize_nodes: "checkSize p n s = (r, s') \<Longrightarrow>
    nodes s' = nodes s \<and> (is_ok r \<longrightarrow> (\<exists>c. content_at s p = Some c \<and> int (length c) = n))"
  unfolding checkSize_def os_Stat_def os_Open_def
  by (auto elim!: sys_cases simp: content_at_def sys_def split: prod.splits sum.splits node.splits if_splits list.splits option.splits)

lemma grows_checkSize [keeps_intro]: "keeps files_grow (checkSize p n)"
  by (rule keepsI) (metis checkSize_nodes outside_kept_def prod.collapse)

lemma grows_fetchPayload [keeps_intro]: "keeps files_grow (fetchPayload env cfg release m stage)"
  unfolding fetchPayload_def Let_def by (intro keeps_intro outside_kept_order)

lemma grows_stageRelease: "keeps files_grow (stageRelease env cfg release mu su sn entry stage)"
  unfolding stageRelease_def withEntry_def Let_def by (intro keeps_intro outside_kept_order)

section \<open>What a staged release is\<close>

lemma upd_Ok: "upd r s = (Ok v, s') \<longleftrightarrow> r = Ok v \<and> s' = s"
  by (auto simp: upd_def wrapS_def split: sum.splits)

lemma verifyManifest_Ok:
  assumes "verifyManifest env release mu su sn stage s = (Ok m, s')"
  shows "\<exists>bytes sg. ue_signed env bytes sg \<and> ParseManifest (ue_decode env) bytes = Ok m \<and> mf_Tag m = rl_Tag release \<and>
    TagCommit (ue_github env) (rl_Tag release) = Ok (mf_Commit m)"
proof -
  from assms obtain s2 s3 s4 bytes where
    v: "verifySignature env (stage @ [manifestAsset]) (joinName stage (Base sn)) s2 = (Ok (), s3)"
    and rd: "os_ReadFile (stage @ [manifestAsset]) s3 = (Ok bytes, s4)"
    and m: "ParseManifest (ue_decode env) bytes = Ok m" "mf_Tag m = rl_Tag release" "TagCommit (ue_github env) (rl_Tag release) = Ok (mf_Commit m)"
    unfolding verifyManifest_def Let_def by (auto simp: bindS_Ok wrapS_Ok upd_Ok guardS_Ok)
  from v obtain a b where a: "content_at s2 (stage @ [manifestAsset]) = Some a" and sg: "ue_signed env a b"
    and n: "nodes s3 = nodes s2"
    unfolding verifySignature_def by (auto simp: bindS_Ok wrapS_Ok guardS_Ok dest!: ReadFile_Ok)
  have "a = bytes" using a ReadFile_Ok [OF rd] content_same [OF n] by simp
  then show ?thesis using sg m by blast
qed

lemma joinName_plain: "plain_comps d \<Longrightarrow> plain_comp n \<Longrightarrow> joinName d n = d @ [n]"
  using path_comps_PathJoin(1) [of d "[n]"] by (simp add: joinName_def)

lemma expected_plain: "n \<in> set expectedNames \<Longrightarrow> plain_comp n"
  by (auto simp: expectedNames_def plain_comp_def)

lemma confined_target:
  assumes "plain_comps dest" "n \<in> set expectedNames" "confinedReleaseTarget dest n = Ok t"
  shows "t = dest @ [n]"
  using assms(3) path_comps_PathJoin [of dest "[n]"] assms(1) expected_plain [OF assms(2)]
  by (auto simp: confinedReleaseTarget_def Let_def path_comps_Clean split: if_splits)

lemma extractEntries_Ok:
  assumes "extractEntries dest complete found tot es s = (Ok u, s')" "plain_comps dest"
  shows "complete \<and> (\<forall>n \<in> set expectedNames. n \<in> set found \<or>
    (\<exists>e \<in> set es. re_Name e = n \<and> content_at s' (dest @ [n]) = Some (io_LimitReader (re_Size e) (re_Data e))))"
  using assms(1)
proof (induction es arbitrary: found tot s)
  case Nil
  then show ?case by (auto simp: Let_def filter_empty_conv split: if_splits)
next
  case (Cons e es)
  have nm: "re_Name e \<in> set expectedNames" using Cons.prems by (auto simp: Let_def split: if_splits)
  from Cons.prems obtain t s1 s2 where t: "confinedReleaseTarget dest (re_Name e) = Ok t"
    and nf: "newFile t 0x1C0 (io_LimitReader (re_Size e) (re_Data e)) (int (length (re_Data e)) < re_Size e) s = (Ok (), s2)"
    and rest: "extractEntries dest complete (re_Name e # found) (tot + re_Size e) es s2 = (Ok u, s')"
    by (auto simp: Let_def bindS_Ok split: if_splits)
  have "t = dest @ [re_Name e]" using confined_target [OF assms(2) nm t] .
  with newFile_result [OF nf] have "content_at s2 (dest @ [re_Name e]) = Some (io_LimitReader (re_Size e) (re_Data e))" by simp
  then have "content_at s' (dest @ [re_Name e]) = Some (io_LimitReader (re_Size e) (re_Data e))"
    using grows_content [OF keepsD [OF grows_extractEntries rest]] by blast
  then show ?case using Cons.IH [OF rest] by auto
qed

definition staged :: "upd_env \<Rightarrow> Release \<Rightarrow> Manifest \<Rightarrow> (string \<Rightarrow> string option) \<Rightarrow> bool" where
  "staged env release m new =
     (\<exists>bytes sg a archive entries.
        ue_signed env bytes sg \<and> ParseManifest (ue_decode env) bytes = Ok m \<and> mf_Tag m = rl_Tag release \<and>
        TagCommit (ue_github env) (rl_Tag release) = Ok (mf_Commit m) \<and>
        a \<in> set (mf_Artifacts m) \<and> int (length archive) = a_Size a \<and> ue_sha256 env archive = ToLower (a_SHA256 a) \<and>
        ue_untar env archive = Some (entries, True) \<and>
        (\<forall>n \<in> set expectedNames. \<exists>e \<in> set entries. re_Name e = n \<and> new n = Some (io_LimitReader (re_Size e) (re_Data e))))"

lemma fetchPayload_Ok:
  assumes "fetchPayload env cfg release m stage s = (Ok p, s')" "plain_comps stage"
  shows "p = stage @ [''payload''] \<and>
    (\<exists>a archive entries. a \<in> set (mf_Artifacts m) \<and> int (length archive) = a_Size a \<and> ue_sha256 env archive = ToLower (a_SHA256 a) \<and>
       ue_untar env archive = Some (entries, True) \<and>
       (\<forall>n \<in> set expectedNames. \<exists>e \<in> set entries. re_Name e = n \<and> content_at s' (p @ [n]) = Some (io_LimitReader (re_Size e) (re_Data e))))"
proof -
  let ?pay = "stage @ [''payload'']"
  from assms(1) obtain a s1 s2 s3 where a: "eng_artifact env cfg m = Ok a"
    and st: "checkSize (joinName stage (a_Name a)) (a_Size a) s1 = (Ok (), s2)"
    and sha: "verifySHA256 env (joinName stage (a_Name a)) (a_SHA256 a) s2 = (Ok (), s3)"
    and ex: "extractRelease env (joinName stage (a_Name a)) ?pay s3 = (Ok (), s')" and p: "p = ?pay"
    unfolding fetchPayload_def Let_def
    by (auto simp: bindS_Ok upd_Ok)
  from checkSize_nodes [OF st] obtain c where c: "content_at s2 (joinName stage (a_Name a)) = Some c" "int (length c) = a_Size a"
    by (auto simp: content_at_def)
  have n3: "nodes s3 = nodes s2" and sh: "ue_sha256 env c = ToLower (a_SHA256 a)"
    using sha c(1) unfolding verifySHA256_def by (auto simp: bindS_Ok wrapS_Ok guardS_Ok dest!: ReadFile_Ok)
  from ex obtain s4 n s5 where mk: "os_MkdirAll ?pay 0x1C0 s3 = (Ok (), s4)" and op: "os_Open (joinName stage (a_Name a)) s4 = (Ok n, s5)"
    and rest: "(case n of FileN data _ \<Rightarrow> (case ue_untar env data of None \<Rightarrow> failS ArchiveOpen
          | Some (entries, complete) \<Rightarrow> extractEntries ?pay complete [] 0 entries) | _ \<Rightarrow> failS ArchiveOpen) s5 = (Ok (), s')"
    unfolding extractRelease_def by (auto simp: bindS_Ok wrapS_Ok)
  have "content_at s4 (joinName stage (a_Name a)) = Some c"
    using grows_content [OF keepsD [OF outside_MkdirAll mk]] c(1) content_same [OF n3] by simp
  then obtain mt' where n: "n = FileN c mt'" using Open_Ok [OF op] by (auto simp: content_at_def split: node.splits)
  then obtain entries complete where un: "ue_untar env c = Some (entries, complete)"
    and ee: "extractEntries ?pay complete [] 0 entries s5 = (Ok (), s')"
    using rest by (auto split: option.splits)
  have pl: "plain_comps ?pay" using assms(2) by (simp add: plain_comp_def)
  have "a \<in> set (mf_Artifacts m)"
    using a by (auto simp: eng_artifact_def ArtifactFor_def find_Some_iff split: if_splits option.splits)
  then show ?thesis using extractEntries_Ok [OF ee pl] un c(2) sh p by auto
qed

section \<open>Copies\<close>

lemma wf_copyNode [keeps_intro]: "keeps wf_step (copyNode n p)"
  by (cases n) (simp_all add: copyNode_def keeps_intro)

lemma wf_copyFile [keeps_intro]: "keeps wf_step (copyFile src dst mode)"
  unfolding copyFile_def by (intro keeps_intro wf_step_order)

lemma copyFile_result:
  assumes "copyFile src dst mode s = (r, s')"
  shows "outside_kept (\<lambda>x. x = dst) s s' \<and>
    (is_ok r \<longrightarrow> content_at s src \<noteq> None \<and> content_at s' dst = content_at s src)"
  using assms unfolding copyFile_def
proof (cases rule: bindS_cases)
  case (err e)
  then show ?thesis using keepsD [OF grows_reads(2) err(1)] by (simp add: outside_kept_def)
next
  case (ok n s1)
  have n: "nodes s src = Some n" "nodes s1 = nodes s" using Open_Ok [OF ok(1)] by auto
  from ok(2) show ?thesis
  proof (cases rule: bindS_cases)
    case (err e)
    then show ?thesis using outside_chain [OF outside_same [OF n(2)] keepsD [OF outside_MkdirAll err(1)]] by simp
  next
    case (ok u s2)
    have k2: "outside_kept (\<lambda>x. x = dst) s s2"
      by (rule outside_chain [OF outside_same [OF n(2)] keepsD [OF outside_MkdirAll ok(1)]])
    from ok(2) show ?thesis
    proof (cases rule: bindS_cases)
      case (err e)
      have "only (\<lambda>x. x = dst) s2 s'" using OpenTrunc_result [OF err(1)] by blast
      then show ?thesis using outside_chain [OF k2 outside_only_same] err(2) by simp
    next
      case (ok u s3)
      from OpenTrunc_result [OF ok(1)] obtain m where o3: "only (\<lambda>x. x = dst) s2 s3" "nodes s3 dst = Some (FileN [] m)" by auto
      from joinS_same [OF ok(2) same_syncs(1)] obtain r1 s4 where
        c: "copyNode n dst s3 = (r1, s4)" "nodes s' = nodes s4" "is_ok r \<longrightarrow> is_ok r1" by blast
      note c4 = copyNode_result [OF c(1) o3(2)]
      have "outside_kept (\<lambda>x. x = dst) s s'"
        using outside_chain [OF outside_chain [OF k2 outside_only_same [OF o3(1)]] outside_only_same [of _ s3 s4]] c4 outside_chain [OF _ outside_same [OF c(2)]]
        by blast
      moreover have "is_ok r \<longrightarrow> content_at s src \<noteq> None \<and> content_at s' dst = content_at s src"
        using c4 c(2,3) n(1) by (auto simp: content_at_def)
      ultimately show ?thesis ..
    qed
  qed
qed

lemma atomicCopy_wf [keeps_intro]: "keeps wf_step (atomicCopy rnd src dst mode)"
  unfolding atomicCopy_def
  by (intro keeps_intro wf_step_order) (simp add: wf_step_def wf_RemoveFile)

lemma fillTemp_parts:
  assumes tmp: "nodes t tmp = Some (FileN [] \<lparr>perm = pm, uid = 0, gid = 0\<rparr>)"
    and r: "joinS (copyNode n tmp) (joinS os_Sync (joinS (os_Chmod tmp mode) (joinS os_Sync os_Sync))) t = (r, t')"
  shows "only (\<lambda>x. x = tmp) t t' \<and>
    (is_ok r \<longrightarrow> (\<exists>c mc. n = FileN c mc \<and> nodes t' tmp = Some (FileN c \<lparr>perm = mode, uid = 0, gid = 0\<rparr>)))"
proof -
  from r obtain r1 t1 r2 where c: "copyNode n tmp t = (r1, t1)"
    and rest: "joinS os_Sync (joinS (os_Chmod tmp mode) (joinS os_Sync os_Sync)) t1 = (r2, t')" "is_ok r = (is_ok r1 \<and> is_ok r2)"
    by (rule joinS_cases)
  from rest(1) obtain q2 t2 q3 where y: "os_Sync t1 = (q2, t2)" and m: "joinS (os_Chmod tmp mode) (joinS os_Sync os_Sync) t2 = (q3, t')"
    and q: "is_ok r2 = (is_ok q2 \<and> is_ok q3)" by (rule joinS_cases)
  from joinS_same [OF m same_syncs(1)] obtain q4 t3 where ch: "os_Chmod tmp mode t2 = (q4, t3)" "nodes t' = nodes t3" "is_ok q3 \<longrightarrow> is_ok q4"
    by blast
  note c1 = copyNode_result [OF c tmp]
  have n2: "nodes t2 = nodes t1" using Sync_nodes [OF y] .
  have "only (\<lambda>x. x = tmp) t2 t3" by (rule keepsD [OF only_writes(3) ch(1)]) simp
  then have "only (\<lambda>x. x = tmp) t1 t'"
    by (rule only_chain [OF only_same [OF n2] only_chain [OF _ only_same [OF ch(2)]]])
  then have "only (\<lambda>x. x = tmp) t t'" using only_chain [OF conjunct1 [OF c1]] by simp
  moreover have "\<exists>c mc. n = FileN c mc \<and> nodes t' tmp = Some (FileN c \<lparr>perm = mode, uid = 0, gid = 0\<rparr>)" if "is_ok r"
  proof -
    from that c1 rest(2) obtain c mc where cc: "n = FileN c mc" "nodes t2 tmp = Some (FileN c \<lparr>perm = pm, uid = 0, gid = 0\<rparr>)"
      using n2 by auto
    have "q4 = Ok ()" using that rest(2) q ch(3) by (cases q4) auto
    then show ?thesis using Chmod_result [OF ch(1) cc(2)] cc(1) ch(2) by simp
  qed
  ultimately show ?thesis by blast
qed

lemma atomicCopy_result:
  assumes wf: "os_wf s" and pl: "plain_comps dst" and src: "nodes s src = Some n"
    and r: "atomicCopy rnd src dst mode s = (r, s')"
  shows "outside_kept (\<lambda>x. x = dst) s s' \<and>
    (if is_ok r then content_at s src \<noteq> None \<and> content_at s' dst = content_at s src else nodes s' dst = nodes s dst)"
proof -
  let ?body = "\<lambda>tmp. bindS (os_Open src) (\<lambda>input.
       bindS (joinS (copyNode input tmp) (joinS os_Sync (joinS (os_Chmod tmp mode) (joinS os_Sync os_Sync)))) (\<lambda>_.
       os_Rename tmp dst))"
  have run: "bindS (wrapS id (os_MkdirAll (butlast dst) 0x1E8)) (\<lambda>_.
      bindS (wrapS id (os_CreateTemp (butlast dst) (''.'' @ Base (abs_path dst) @ ''.update-'') rnd)) (\<lambda>tmp.
      deferS (os_RemoveFile tmp) (?body tmp))) s = (r, s')"
    using r by (simp add: atomicCopy_def)
  have body: "only (\<lambda>x. x = tmp) t t' \<and> \<not> is_ok q \<or>
      (False \<or> is_ok q) \<and> nodes t' dst = Some (FileN c \<lparr>perm = mode, uid = 0, gid = 0\<rparr>) \<and> \<not> is_dir t dst \<and> only (\<lambda>x. x = tmp \<or> x = dst) t t'"
    if t: "os_wf t" "nodes t tmp = Some (FileN [] \<lparr>perm = pm, uid = 0, gid = 0\<rparr>)" "tmp \<noteq> dst"
      and old: "\<And>x. nodes s x \<noteq> None \<Longrightarrow> x \<noteq> tmp \<and> nodes t x = nodes s x" and b: "?body tmp t = (q, t')"
      and c: "\<And>d md. n = FileN d md \<Longrightarrow> d = c" for tmp pm t q t' c
    using b
  proof (cases rule: bindS_cases)
    case (err e)
    then have "only (\<lambda>x. x = tmp) t t'" using keepsD [OF only_reads(5) err(1)] by blast
    then show ?thesis using err(2) by simp
  next
    case (ok input t1)
    have i: "input = n" "nodes t1 = nodes t" using Open_Ok [OF ok(1)] old [of src] src by auto
    from ok(2) [unfolded i(1)] show ?thesis
    proof (cases rule: bindS_cases)
      case (err e)
      then have "only (\<lambda>x. x = tmp) t t'"
        using fillTemp_parts [OF _ err(1)] t(2) i(2) only_chain [OF only_same [OF i(2)]] by simp
      then show ?thesis using err(2) by simp
    next
      case (ok u t2)
      have "only (\<lambda>x. x = tmp) t1 t2 \<and> (\<exists>c mc. n = FileN c mc \<and> nodes t2 tmp = Some (FileN c \<lparr>perm = mode, uid = 0, gid = 0\<rparr>))"
        using fillTemp_parts [OF _ ok(1)] t(2) i(2) by simp
      then have n2: "only (\<lambda>x. x = tmp) t t2" "nodes t2 tmp = Some (FileN c \<lparr>perm = mode, uid = 0, gid = 0\<rparr>)"
        using only_chain [OF only_same [OF i(2)]] c by auto
      have k: "keeps wf_step (joinS (copyNode n tmp) (joinS os_Sync (joinS (os_Chmod tmp mode) (joinS os_Sync os_Sync))))"
        by (intro keeps_intro wf_step_order)
      have "os_wf t1" using t(1) i(2) by (simp add: os_wf_def is_dir_def)
      then have w2: "os_wf t2" using keepsD [OF k ok(1)] by (simp add: wf_step_def)
      show ?thesis
      proof (cases q)
        case (Inl e)
        then have "nodes t' = nodes t2" using Rename_fails ok(2) by blast
        then show ?thesis using Inl n2(1) only_chain [OF _ only_same] by auto
      next
        case (Inr v)
        then have "nodes t' dst = Some (FileN c \<lparr>perm = mode, uid = 0, gid = 0\<rparr>)" "\<not> is_dir t2 dst" "only (\<lambda>x. x = tmp \<or> x = dst) t2 t'"
          using Rename_over_file [OF w2 n2(2) t(3)] ok(2) by auto
        moreover have "nodes t2 dst = nodes t dst" using n2(1) t(3) unfolding only_def by blast
        moreover have "only (\<lambda>x. x = tmp \<or> x = dst) t t2" using n2(1) by (rule only_mono) simp
        ultimately show ?thesis using Inr only_chain by (auto simp: is_dir_def)
      qed
    qed
  qed
  have w: "write_outcome dst (FileN c \<lparr>perm = mode, uid = 0, gid = 0\<rparr>) (is_ok r) s s' \<and> (is_ok r \<or> nodes s' dst = nodes s dst)"
    if "\<And>d md. n = FileN d md \<Longrightarrow> d = c" for c
    using tempWrite_result [OF wf pl run, of False "FileN c \<lparr>perm = mode, uid = 0, gid = 0\<rparr>"] body that by blast
  show ?thesis
  proof (cases "\<exists>d md. n = FileN d md")
    case True
    then obtain d md where n: "n = FileN d md" by blast
    show ?thesis using w [of d] n src by (auto simp: write_outcome_def outside_kept_def content_at_def)
  next
    case False
    then have "write_outcome dst (FileN c \<lparr>perm = mode, uid = 0, gid = 0\<rparr>) (is_ok r) s s' \<and> (is_ok r \<or> nodes s' dst = nodes s dst)" for c
      using w by blast
    from this [of "[]"] this [of "''x''"] show ?thesis by (auto simp: write_outcome_def outside_kept_def)
  qed
qed

section \<open>The loops over the binaries\<close>

text \<open>Each of the files \<open>B/n\<close> has become a copy of \<open>D/n\<close> or, when a copy failed, is as it was.\<close>

definition swapped :: "path \<Rightarrow> path \<Rightarrow> string list \<Rightarrow> bool \<Rightarrow> os \<Rightarrow> os \<Rightarrow> bool" where
  "swapped B D ns ok s s' =
     (outside_kept (\<lambda>x. x \<in> (\<lambda>n. B @ [n]) ` set ns) s s' \<and>
      (\<forall>n \<in> set ns. nodes s' (B @ [n]) \<noteq> None \<and>
         (content_at s' (B @ [n]) = content_at s (D @ [n]) \<or> \<not> ok \<and> content_at s' (B @ [n]) = content_at s (B @ [n]))))"

definition copyable :: "path \<Rightarrow> path \<Rightarrow> string list \<Rightarrow> os \<Rightarrow> bool" where
  "copyable B D ns s =
     (os_wf s \<and> D \<noteq> B \<and> distinct ns \<and> (\<forall>n \<in> set ns. plain_comps (B @ [n]) \<and> nodes s (D @ [n]) \<noteq> None \<and> nodes s (B @ [n]) \<noteq> None))"

lemma swapped_same: "copyable B D ns s \<Longrightarrow> nodes s' = nodes s \<Longrightarrow> swapped B D ns False s s'"
  by (auto simp: swapped_def copyable_def outside_same content_at_def)

lemma atomicCopy_step:
  assumes "copyable B D (n # ns) s" "atomicCopy rnd (D @ [n]) (B @ [n]) mode s = (r, s1)"
  shows "copyable B D ns s1 \<and> nodes s1 (B @ [n]) \<noteq> None \<and> outside_kept (\<lambda>x. x = B @ [n]) s s1 \<and>
    content_at s1 (B @ [n]) = content_at s (if is_ok r then D @ [n] else B @ [n])"
proof -
  from assms(1) obtain k where k: "nodes s (D @ [n]) = Some k" and wf: "os_wf s" and pl: "plain_comps (B @ [n])"
    by (auto simp: copyable_def)
  note a = atomicCopy_result [OF wf pl k assms(2)]
  have keep: "nodes s1 x = nodes s x" if "nodes s x \<noteq> None" "x \<noteq> B @ [n]" for x
    using a that by (auto dest: outside_keptD)
  have "os_wf s1" using keepsD [OF atomicCopy_wf assms(2)] wf by (simp add: wf_step_def)
  moreover have "nodes s1 (D @ [m]) \<noteq> None \<and> nodes s1 (B @ [m]) \<noteq> None" if "m \<in> set ns" for m
  proof -
    have "m \<noteq> n" "D \<noteq> B" "nodes s (D @ [m]) \<noteq> None" "nodes s (B @ [m]) \<noteq> None"
      using that assms(1) by (auto simp: copyable_def)
    then show ?thesis using keep [of "D @ [m]"] keep [of "B @ [m]"] by simp
  qed
  moreover have "nodes s1 (B @ [n]) \<noteq> None \<and> content_at s1 (B @ [n]) = content_at s (if is_ok r then D @ [n] else B @ [n])"
  proof (cases "is_ok r")
    case True
    then have "content_at s1 (B @ [n]) = content_at s (D @ [n])" "content_at s (D @ [n]) \<noteq> None" using a by auto
    then show ?thesis using True content_at_exists [of s1 "B @ [n]"] by auto
  next
    case False
    then have "nodes s1 (B @ [n]) = nodes s (B @ [n])" using a by simp
    then show ?thesis using False assms(1) by (simp add: copyable_def content_at_def)
  qed
  ultimately show ?thesis using a assms(1) by (simp add: copyable_def)
qed

lemma swapped_fail:
  assumes "copyable B D (n # ns) s" "atomicCopy rnd (D @ [n]) (B @ [n]) mode s = (Inl e, s1)"
  shows "swapped B D (n # ns) False s s1"
proof -
  note st = atomicCopy_step [OF assms]
  then have keep: "nodes s1 x = nodes s x" if "nodes s x \<noteq> None" "x \<noteq> B @ [n]" for x
    using that by (auto dest: outside_keptD)
  have "nodes s1 (B @ [m]) = nodes s (B @ [m]) \<and> nodes s (B @ [m]) \<noteq> None" if "m \<in> set ns" for m
    using that assms(1) keep [of "B @ [m]"] by (auto simp: copyable_def)
  then show ?thesis using st outside_mono [of "\<lambda>x. x = B @ [n]" s s1] by (auto simp: swapped_def content_at_def)
qed

lemma swapped_Cons:
  assumes "copyable B D (n # ns) s" "atomicCopy rnd (D @ [n]) (B @ [n]) mode s = (Inr u, s1)" "swapped B D ns d s1 s'"
  shows "swapped B D (n # ns) d s s'"
proof -
  note st = atomicCopy_step [OF assms(1,2)]
  have c: "distinct (n # ns)" "D \<noteq> B" "\<And>m. m \<in> set (n # ns) \<Longrightarrow> nodes s (D @ [m]) \<noteq> None \<and> nodes s (B @ [m]) \<noteq> None"
    using assms(1) by (auto simp: copyable_def)
  have eq: "content_at s1 x = content_at s x" if "nodes s x \<noteq> None" "x \<noteq> B @ [n]" for x
    using st that by (auto dest: outside_content_eq)
  have "outside_kept (\<lambda>x. x \<in> (\<lambda>n. B @ [n]) ` set (n # ns)) s s'"
    by (rule outside_chain [of _ s s1]) (use st assms(3) in \<open>auto simp: swapped_def elim!: outside_mono\<close>)
  moreover have "nodes s' (B @ [n]) = nodes s1 (B @ [n])"
    using st assms(3) c(1) by (auto simp: swapped_def dest: outside_keptD)
  then have "nodes s' (B @ [n]) \<noteq> None \<and> content_at s' (B @ [n]) = content_at s (D @ [n])"
    using st by (simp add: content_at_def)
  moreover have "nodes s' (B @ [m]) \<noteq> None \<and> (content_at s' (B @ [m]) = content_at s (D @ [m]) \<or> \<not> d \<and> content_at s' (B @ [m]) = content_at s (B @ [m]))"
    if "m \<in> set ns" for m
  proof -
    have "m \<noteq> n" using that c(1) by auto
    then have "content_at s1 (D @ [m]) = content_at s (D @ [m])" "content_at s1 (B @ [m]) = content_at s (B @ [m])"
      using eq [of "D @ [m]"] eq [of "B @ [m]"] c(2) c(3) [of m] that by simp_all
    moreover have "nodes s' (B @ [m]) \<noteq> None \<and> (content_at s' (B @ [m]) = content_at s1 (D @ [m]) \<or> \<not> d \<and> content_at s' (B @ [m]) = content_at s1 (B @ [m]))"
      using assms(3) that unfolding swapped_def by blast
    ultimately show ?thesis by simp
  qed
  ultimately show ?thesis by (simp add: swapped_def)
qed

lemma switchCopies_result:
  assumes "copyable (binaryDir cfg) D ns s" "switchCopies env cfg D ns s = (r, s')"
  shows "swapped (binaryDir cfg) D ns (is_ok r) s s'"
  using assms
proof (induction ns arbitrary: s)
  case Nil
  then show ?case by (auto simp: swapped_def outside_same)
next
  case (Cons n ns)
  from Cons.prems(2) have "bindS (wrapS EOS (atomicCopy (ue_rnd env) (D @ [n]) (binaryDir cfg @ [n]) 0x1ED)) (\<lambda>_. switchCopies env cfg D ns) s = (r, s')"
    by simp
  then show ?case
  proof (cases rule: wrap_bindS_cases)
    case (err e)
    then show ?thesis using swapped_fail [OF Cons.prems(1) err(1)] by simp
  next
    case (ok u s1)
    then show ?thesis
      using swapped_Cons [OF Cons.prems(1) ok(1)] Cons.IH [OF _ ok(2)] atomicCopy_step [OF Cons.prems(1) ok(1)] by blast
  qed
qed

lemma restoreEach_result:
  assumes "copyable (binaryDir cfg) D ns s" "restoreEach env cfg D ns s = (r, s')"
  shows "swapped (binaryDir cfg) D ns (is_ok r) s s'"
  using assms
proof (induction ns arbitrary: s)
  case Nil
  then show ?case by (auto simp: swapped_def outside_same)
next
  case (Cons n ns)
  from Cons.prems(2) have "bindS (wrapS (SnapshotMissing n) (os_Stat (D @ [n]))) (\<lambda>_.
     bindS (wrapS EOS (atomicCopy (ue_rnd env) (D @ [n]) (binaryDir cfg @ [n]) 0x1ED)) (\<lambda>_. restoreEach env cfg D ns)) s = (r, s')"
    by simp
  then show ?case
  proof (cases rule: wrap_bindS_cases)
    case (err e)
    then have "nodes s' = nodes s" unfolding os_Stat_def os_Open_def by (auto elim!: sys_cases)
    then show ?thesis using swapped_same [OF Cons.prems(1)] err(2) by simp
  next
    case (ok k s0)
    then have n0: "nodes s0 = nodes s" unfolding os_Stat_def by (simp add: Open_Ok)
    then have c0: "copyable (binaryDir cfg) D (n # ns) s0"
      using Cons.prems(1) by (simp add: copyable_def os_wf_def is_dir_def)
    from ok(2) have "swapped (binaryDir cfg) D (n # ns) (is_ok r) s0 s'"
    proof (cases rule: wrap_bindS_cases)
      case (err e)
      then show ?thesis using swapped_fail [OF c0 err(1)] by simp
    next
      case (ok u s1)
      then show ?thesis
        using swapped_Cons [OF c0 ok(1)] Cons.IH [OF _ ok(2)] atomicCopy_step [OF c0 ok(1)] by blast
    qed
    then show ?thesis using n0 by (simp add: swapped_def outside_kept_def content_at_def)
  qed
qed

lemma wf_prepareCopies: "keeps wf_step (prepareCopies cfg P R K l)"
proof (induction l)
  case Nil
  show ?case by (rule keepsI) (simp add: wf_step_def)
next
  case (Cons p l)
  obtain a t where p: "p = (a, t)" by fastforce
  have "keeps wf_step (bindS (wrapS EOS (copyFile (P @ [a]) (R @ [t]) 0x1ED)) (\<lambda>_.
         bindS (wrapS (LiveMissing t) (os_Stat (binaryDir cfg @ [t]))) (\<lambda>_.
         bindS (wrapS EOS (copyFile (binaryDir cfg @ [t]) (K @ [t]) 0x1ED)) (\<lambda>_. prepareCopies cfg P R K l))))"
    unfolding os_Stat_def by (intro keeps_intro wf_step_order Cons)
  then show ?case by (simp add: p keeps_def Let_def)
qed

text \<open>The copies of the first loop: the release holds the payload, the snapshot what is live.\<close>

definition prepared :: "path \<Rightarrow> path \<Rightarrow> path \<Rightarrow> path \<Rightarrow> (string \<times> string) list \<Rightarrow> os \<Rightarrow> os \<Rightarrow> bool" where
  "prepared B P R K l s s' = (\<forall>(a, t) \<in> set l. content_at s' (R @ [t]) = content_at s (P @ [a]) \<and> content_at s' (K @ [t]) = content_at s (B @ [t]))"

definition apart :: "path \<Rightarrow> path \<Rightarrow> path \<Rightarrow> path \<Rightarrow> bool" where
  "apart B P R K = (P \<noteq> R \<and> P \<noteq> K \<and> B \<noteq> R \<and> B \<noteq> K \<and> R \<noteq> K)"

lemma prepareCopies_result:
  assumes ap: "apart (binaryDir cfg) P R K" and "distinct (map snd l)"
    and "\<forall>(a, t) \<in> set l. content_at s (P @ [a]) \<noteq> None \<and> content_at s (binaryDir cfg @ [t]) \<noteq> None"
    and "prepareCopies cfg P R K l s = (r, s')"
  shows "outside_kept (\<lambda>x. \<exists>t \<in> snd ` set l. x = R @ [t] \<or> x = K @ [t]) s s' \<and> (is_ok r \<longrightarrow> prepared (binaryDir cfg) P R K l s s')"
  using assms(2-4)
proof (induction l arbitrary: s)
  case Nil
  then show ?case by (simp add: outside_same prepared_def)
next
  case (Cons p l)
  obtain a t where p: "p = (a, t)" by fastforce
  let ?B = "binaryDir cfg" and ?D = "\<lambda>x. \<exists>t \<in> snd ` set (p # l). x = R @ [t] \<or> x = K @ [t]"
  have ne: "P \<noteq> R" "P \<noteq> K" "?B \<noteq> R" "?B \<noteq> K" "R \<noteq> K" using ap by (simp_all add: apart_def)
  have tl: "t \<notin> snd ` set l" "distinct (map snd l)" using Cons.prems(1) p by auto
  have src: "content_at s (P @ [a]) \<noteq> None" "content_at s (?B @ [t]) \<noteq> None" using Cons.prems(2) p by auto
  from Cons.prems(3) have run: "bindS (wrapS EOS (copyFile (P @ [a]) (R @ [t]) 0x1ED)) (\<lambda>_.
         bindS (wrapS (LiveMissing t) (os_Stat (?B @ [t]))) (\<lambda>_.
         bindS (wrapS EOS (copyFile (?B @ [t]) (K @ [t]) 0x1ED)) (\<lambda>_. prepareCopies cfg P R K l))) s = (r, s')"
    by (simp add: p Let_def)
  have D1: "outside_kept ?D s s1" if "outside_kept (\<lambda>x. x = R @ [t]) s s1" for s1
    using that by (rule outside_mono) (simp add: p)
  have D2: "outside_kept ?D s1 s2" if "outside_kept (\<lambda>x. x = K @ [t]) s1 s2" for s1 s2
    using that by (rule outside_mono) (simp add: p)
  from run show ?case
  proof (cases rule: wrap_bindS_cases)
    case (err e)
    then show ?thesis using copyFile_result [OF err(1)] D1 by simp
  next
    case (ok u s1)
    note c1 = copyFile_result [OF ok(1)]
    then have k1: "outside_kept (\<lambda>x. x = R @ [t]) s s1" and r1: "content_at s1 (R @ [t]) = content_at s (P @ [a])" by auto
    have keep1: "content_at s1 x = content_at s x" if "content_at s x \<noteq> None" "x \<noteq> R @ [t]" for x
      using outside_content [OF k1] that by force
    from ok(2) show ?thesis
    proof (cases rule: wrap_bindS_cases)
      case (err e)
      then have "nodes s' = nodes s1" unfolding os_Stat_def os_Open_def by (auto elim!: sys_cases)
      then show ?thesis using outside_chain [OF D1 [OF k1] outside_same] err(2) by simp
    next
      case (ok n s2)
      have n2: "nodes s2 = nodes s1" using Open_Ok ok(1) unfolding os_Stat_def by blast
      have k2: "outside_kept ?D s s2" by (rule outside_chain [OF D1 [OF k1] outside_same [OF n2]])
      from ok(2) show ?thesis
      proof (cases rule: wrap_bindS_cases)
        case (err e)
        then show ?thesis using outside_chain [OF k2 D2] copyFile_result [OF err(1)] by simp
      next
        case (ok u s3)
        note c3 = copyFile_result [OF ok(1)]
        then have k3: "outside_kept (\<lambda>x. x = K @ [t]) s2 s3" by simp
        have keep3: "content_at s3 x = content_at s x" if "content_at s x \<noteq> None" "x \<noteq> R @ [t]" "x \<noteq> K @ [t]" for x
          using outside_content [OF k3, of x] keep1 [OF that(1,2)] that content_same [OF n2] by force
        have srcs: "\<forall>(a', t') \<in> set l. content_at s3 (P @ [a']) = content_at s (P @ [a']) \<and> content_at s3 (?B @ [t']) = content_at s (?B @ [t'])"
          using Cons.prems(2) keep3 ne by auto
        then have "\<forall>(a', t') \<in> set l. content_at s3 (P @ [a']) \<noteq> None \<and> content_at s3 (?B @ [t']) \<noteq> None"
          using Cons.prems(2) by fastforce
        from Cons.IH [OF tl(2) this ok(2)] have
          ih: "outside_kept (\<lambda>x. \<exists>t \<in> snd ` set l. x = R @ [t] \<or> x = K @ [t]) s3 s'" "is_ok r \<longrightarrow> prepared ?B P R K l s3 s'" by auto
        have fr: "outside_kept ?D s s'"
          using outside_chain [OF outside_chain [OF k2 D2 [OF k3]] outside_mono [OF ih(1)]] by auto
        have b3: "content_at s3 (K @ [t]) = content_at s (?B @ [t])"
          using c3 content_same [OF n2] keep1 [OF src(2)] ne by simp
        have a3: "content_at s3 (R @ [t]) = content_at s (P @ [a])"
          using outside_content [OF k3, of "R @ [t]"] r1 src(1) content_same [OF n2] ne by force
        have same: "content_at s' x = content_at s3 x" if "content_at s3 x \<noteq> None" "x = R @ [t] \<or> x = K @ [t]" for x
          using outside_content [OF ih(1), of x] that tl(1) ne by force
        have "prepared ?B P R K (p # l) s s'" if "is_ok r"
        proof -
          have "content_at s' (R @ [t]) = content_at s (P @ [a])" "content_at s' (K @ [t]) = content_at s (?B @ [t])"
            using same [of "R @ [t]"] same [of "K @ [t]"] a3 b3 src by simp_all
          then show ?thesis using ih(2) that srcs p by (force simp: prepared_def)
        qed
        then show ?thesis using fr by simp
      qed
    qed
  qed
qed


section \<open>Installing\<close>

text \<open>The configured directories are absolute and none lies in another, the loops visit the three names,
  and the time stamp and the random text are no paths.\<close>

definition well_placed :: "upd_env \<Rightarrow> Config \<Rightarrow> bool" where
  "well_placed env cfg =
     (IsAbs (cf_StateDir cfg) \<and> IsAbs (cf_ReleaseDir cfg) \<and> IsAbs (cf_BinaryDir cfg) \<and>
      list_all (\<lambda>(a, b). \<not> prefix a b \<and> \<not> prefix b a)
        [(stateDir cfg, releaseRoot cfg), (stateDir cfg, binaryDir cfg), (releaseRoot cfg, binaryDir cfg)] \<and>
      set (ue_order1 env) = set releaseNames \<and> distinct (ue_order1 env) \<and>
      set (ue_order2 env) = set releaseNames \<and> distinct (ue_order2 env) \<and>
      SLASH \<notin> set (ue_stamp env) \<and> SLASH \<notin> set (ue_rnd env))"

lemma well_placed_dirs:
  assumes "well_placed env cfg"
  shows "plain_comps (stateDir cfg)" "plain_comps (releaseRoot cfg)" "plain_comps (binaryDir cfg)"
    "\<not> prefix (stateDir cfg) (binaryDir cfg)" "\<not> prefix (releaseRoot cfg) (binaryDir cfg)" "\<not> prefix (binaryDir cfg) (stateDir cfg)"
    "\<not> prefix (stateDir cfg) (releaseRoot cfg)" "\<not> prefix (binaryDir cfg) (releaseRoot cfg)" "\<not> prefix (releaseRoot cfg) (stateDir cfg)"
  using assms path_comps_plain by (auto simp: well_placed_def stateDir_def releaseRoot_def binaryDir_def)

lemma well_placed_orders:
  assumes "well_placed env cfg"
  shows "set (ue_order1 env) = set releaseNames" "distinct (map snd (ue_order1 env))"
    "set (map snd (ue_order2 env)) = set liveNames" "distinct (map snd (ue_order2 env))"
proof -
  have s: "set (ue_order1 env) = set releaseNames" "set (ue_order2 env) = set releaseNames" "distinct (ue_order1 env)" "distinct (ue_order2 env)"
    using assms by (simp_all add: well_placed_def)
  have inj: "inj_on snd (set releaseNames)" by (simp add: releaseNames_def)
  show "set (ue_order1 env) = set releaseNames" by fact
  show "distinct (map snd (ue_order1 env))" "distinct (map snd (ue_order2 env))" using s inj by (simp_all add: distinct_map)
  show "set (map snd (ue_order2 env)) = set liveNames" using s(2) by (simp add: releaseNames_def liveNames_def)
qed

lemma live_plain: "well_placed env cfg \<Longrightarrow> t \<in> set liveNames \<Longrightarrow> plain_comps (binaryDir cfg @ [t])"
  using well_placed_dirs(3) by (auto simp: liveNames_def plain_comp_def)

lemma live_apart:
  assumes "well_placed env cfg"
  shows "\<not> prefix (stateDir cfg) (binaryDir cfg @ [t])" "\<not> prefix (releaseRoot cfg) (binaryDir cfg @ [t])"
  using well_placed_dirs(4-9) [OF assms] by (auto simp: prefix_snoc)

lemma only_WriteFile: "P p \<Longrightarrow> keeps (only P) (os_WriteFile p c mode)"
  unfolding os_WriteFile_def by (intro keeps_intro only_refl only_trans)

lemma wf_WriteFile: "keeps wf_step (os_WriteFile p c mode)"
  unfolding os_WriteFile_def by (intro keeps_intro wf_step_order)

lemma wf_switchCopies: "keeps wf_step (switchCopies env cfg R ns)"
proof (induction ns)
  case Nil
  show ?case by (rule keepsI) (simp add: wf_step_def)
next
  case (Cons n ns)
  have "keeps wf_step (bindS (wrapS EOS (atomicCopy (ue_rnd env) (R @ [n]) (binaryDir cfg @ [n]) 0x1ED)) (\<lambda>_. switchCopies env cfg R ns))"
    by (intro keeps_intro wf_step_order Cons)
  then show ?case by (simp add: keeps_def)
qed

lemma install_wf: "keeps wf_step (eng_install env cfg P m K)"
  unfolding eng_install_def Let_def
  by (intro keeps_intro wf_step_order wf_prepareCopies wf_switchCopies wf_WriteFile)

text \<open>The files of the three binaries in the payload and where they go live.\<close>

definition files_ready :: "Config \<Rightarrow> path \<Rightarrow> os \<Rightarrow> bool" where
  "files_ready cfg P s =
     (os_wf s \<and> (\<forall>(a, t) \<in> set releaseNames. content_at s (P @ [a]) \<noteq> None \<and> content_at s (binaryDir cfg @ [t]) \<noteq> None))"

lemma release_live: "(\<exists>a. (a, t) \<in> set releaseNames) \<longleftrightarrow> t \<in> set liveNames"
proof -
  have "liveNames = map snd releaseNames" by (simp add: releaseNames_def liveNames_def)
  show ?thesis unfolding \<open>liveNames = _\<close> by force
qed

text \<open>After the first loop the release directory holds the payload, the snapshot what is live.\<close>

lemma prepareCopies_ready:
  assumes wp: "well_placed env cfg" and rd: "files_ready cfg P s" and ap: "apart (binaryDir cfg) P R K" and g: "files_grow s s2"
    and wf: "os_wf s2" and pc: "prepareCopies cfg P R K (ue_order1 env) s2 = (Ok u, s3)"
  shows "copyable (binaryDir cfg) R (map snd (ue_order2 env)) s3"
    "(a, t) \<in> set releaseNames \<Longrightarrow> content_at s3 (R @ [t]) = content_at s (P @ [a])"
    "(a, t) \<in> set releaseNames \<Longrightarrow> content_at s3 (K @ [t]) = content_at s (binaryDir cfg @ [t])"
proof -
  let ?B = "binaryDir cfg"
  note ord = well_placed_orders [OF wp]
  have ne: "?B \<noteq> R" "?B \<noteq> K" using ap by (simp_all add: apart_def)
  have ex: "content_at s (P @ [a]) \<noteq> None \<and> content_at s (?B @ [t]) \<noteq> None" if "(a, t) \<in> set releaseNames" for a t
    using that rd by (auto simp: files_ready_def)
  have c2: "content_at s2 x = content_at s x" if "content_at s x \<noteq> None" for x using grows_content [OF g] that by force
  have src: "\<forall>(a, t) \<in> set (ue_order1 env). content_at s2 (P @ [a]) \<noteq> None \<and> content_at s2 (?B @ [t]) \<noteq> None"
    using ex c2 ord(1) by force
  from prepareCopies_result [OF ap ord(2) src pc]
  have p3: "outside_kept (\<lambda>x. \<exists>t \<in> snd ` set (ue_order1 env). x = R @ [t] \<or> x = K @ [t]) s2 s3"
    "prepared ?B P R K (ue_order1 env) s2 s3" by simp_all
  have r3: "content_at s3 (R @ [t]) = content_at s (P @ [a]) \<and> content_at s3 (K @ [t]) = content_at s (?B @ [t])"
    if "(a, t) \<in> set releaseNames" for a t
  proof -
    have "content_at s3 (R @ [t]) = content_at s2 (P @ [a]) \<and> content_at s3 (K @ [t]) = content_at s2 (?B @ [t])"
      using p3(2) that ord(1) unfolding prepared_def by blast
    then show ?thesis using ex [OF that] c2 by simp
  qed
  then show "(a, t) \<in> set releaseNames \<Longrightarrow> content_at s3 (R @ [t]) = content_at s (P @ [a])"
    "(a, t) \<in> set releaseNames \<Longrightarrow> content_at s3 (K @ [t]) = content_at s (?B @ [t])" by simp_all
  show "copyable ?B R (map snd (ue_order2 env)) s3"
    unfolding copyable_def
  proof (intro conjI ballI)
    show "os_wf s3" using keepsD [OF wf_prepareCopies pc] wf by (simp add: wf_step_def)
    show "R \<noteq> ?B" "distinct (map snd (ue_order2 env))" using ne ord(4) by simp_all
    fix t assume "t \<in> set (map snd (ue_order2 env))"
    then have t: "t \<in> set liveNames" using ord(3) by simp
    then obtain a where a: "(a, t) \<in> set releaseNames" using release_live by blast
    show "plain_comps (?B @ [t])" by (rule live_plain [OF wp t])
    show "nodes s3 (R @ [t]) \<noteq> None" using r3 [OF a] ex [OF a] content_nodes [of s3 "R @ [t]"] by simp
    have "nodes s2 (?B @ [t]) \<noteq> None" using ex [OF a] c2 [of "?B @ [t]"] content_nodes [of s2 "?B @ [t]"] by simp
    then show "nodes s3 (?B @ [t]) \<noteq> None" using outside_keptD [OF p3(1), of "?B @ [t]"] ne by simp
  qed
qed

lemma install_Ok:
  assumes wp: "well_placed env cfg" and rd: "files_ready cfg P s"
    and P: "prefix (stateDir cfg) P" and K: "K = stateDir cfg @ [''backups'', i]" and PK: "P \<noteq> K"
    and R: "releasePath cfg m K = releaseRoot cfg @ [n]"
    and run: "eng_install env cfg P m K s = (Ok u, s')" and at: "(a, t) \<in> set releaseNames"
  shows "content_at s' (binaryDir cfg @ [t]) = content_at s (P @ [a]) \<and> content_at s' (K @ [t]) = content_at s (binaryDir cfg @ [t])"
proof -
  let ?B = "binaryDir cfg" and ?R = "releaseRoot cfg @ [n]" and ?ns = "map snd (ue_order2 env)" and ?cur = "stateDir cfg @ [''current.json'']"
  note dirs = well_placed_dirs [OF wp] and ord = well_placed_orders [OF wp]
  from run obtain s1 s2 s3 s4 where mk: "os_MkdirAll K 0x1C0 s = (Ok (), s1)" "os_Mkdir ?R 0x1E8 s1 = (Ok (), s2)"
    and pc: "prepareCopies cfg P ?R K (ue_order1 env) s2 = (Ok (), s3)"
    and sc: "switchCopies env cfg ?R ?ns s3 = (Ok (), s4)"
    and wr: "os_WriteFile ?cur (ue_state env (mf_Version m) (mf_Commit m)) 0x180 s4 = (Ok (), s')"
    unfolding eng_install_def Let_def R by (auto simp: bindS_Ok wrapS_Ok)
  have g: "files_grow s s2" by (rule outside_chain [OF keepsD [OF outside_MkdirAll mk(1)] keepsD [OF grows_Mkdir mk(2)]])
  have wf2: "os_wf s2" using rd keepsD [OF wf_MkdirAll mk(1)] keepsD [OF wf_creations(1) mk(2)] by (simp add: files_ready_def wf_step_def)
  have ap: "apart ?B P ?R K"
    using dirs P K PK unfolding apart_def by (auto simp: prefix_snoc)
  note rdy = prepareCopies_ready [OF wp rd ap g wf2 pc]
  have sw: "swapped ?B ?R ?ns True s3 s4" using switchCopies_result [OF rdy(1) sc] by simp
  then have sk: "outside_kept (\<lambda>x. x \<in> (\<lambda>n. ?B @ [n]) ` set ?ns) s3 s4" unfolding swapped_def by blast
  have "t \<in> set ?ns" using at ord(3) release_live [of t] by auto
  then have "content_at s4 (?B @ [t]) = content_at s3 (?R @ [t])" using sw unfolding swapped_def by blast
  then have 1: "content_at s4 (?B @ [t]) = content_at s (P @ [a])" using rdy(2) [OF at] by simp
  have "content_at s3 (K @ [t]) \<noteq> None" using rdy(3) [OF at] rd at by (auto simp: files_ready_def)
  moreover have "K @ [t] \<notin> (\<lambda>n. ?B @ [n]) ` set ?ns" using ap by (auto simp: apart_def)
  ultimately have 2: "content_at s4 (K @ [t]) = content_at s (?B @ [t])"
    using outside_content_eq [OF sk content_nodes] rdy(3) [OF at] by simp
  have "nodes s' x = nodes s4 x" if "x \<noteq> ?cur" for x
    using keepsD [OF only_WriteFile [of "\<lambda>x. x = ?cur"] wr] that unfolding only_def by blast
  moreover have "?B @ [t] \<noteq> ?cur" using dirs by auto
  moreover have "K @ [t] \<noteq> ?cur" using K by simp
  ultimately show ?thesis using 1 2 by (simp add: content_at_def)
qed


section \<open>Staging keeps the file system well formed\<close>

lemma wf_newFile [keeps_intro]: "keeps wf_step (newFile p mode c broken)"
  unfolding newFile_def by (intro keeps_intro wf_step_order)

lemma wf_download [keeps_intro]: "keeps wf_step (download env link p limit)"
proof -
  have "keeps wf_step (case ue_http env link of None \<Rightarrow> failS DownloadFailed
     | Some (status, body, complete) \<Rightarrow>
         let written = io_LimitReader (limit + 1) body
         in bindS (guardS (status \<noteq> 200) (DownloadHTTP status)) (\<lambda>_.
            bindS (newFile p 0x180 written (\<not> complete \<and> int (length body) \<le> limit)) (\<lambda>_.
            guardS (int (length written) > limit) TooLarge)))"
    by (cases "ue_http env link") (auto simp: Let_def intro!: keeps_intro)
  then show ?thesis unfolding download_def by (intro keeps_intro wf_step_order)
qed

lemma wf_checks [keeps_intro]:
  "keeps wf_step (verifySignature env p q)" "keeps wf_step (verifySHA256 env p e)" "keeps wf_step (upd r)"
  unfolding verifySignature_def verifySHA256_def upd_def by (intro keeps_intro wf_step_order)+

lemma wf_lookups [keeps_intro]: "keeps wf_step (lookupAsset release name e)" "keeps wf_step (systemBackup env reason)"
  unfolding lookupAsset_def systemBackup_def
  by (cases "map_of (rl_Assets release) name"; simp add: keeps_intro)
    (cases "ue_backup env"; simp add: keeps_intro split: option.split)

lemma wf_extractEntries: "keeps wf_step (extractEntries dest complete found tot es)"
proof (induction es arbitrary: found tot)
  case Nil
  show ?case by (rule keepsI) (simp add: Let_def wf_step_def)
next
  case (Cons e es)
  have "keeps wf_step (bindS (liftS (confinedReleaseTarget dest (re_Name e))) (\<lambda>target.
      bindS (newFile target 0x1C0 (io_LimitReader (re_Size e) (re_Data e)) (int (length (re_Data e)) < re_Size e)) (\<lambda>_.
      extractEntries dest complete (re_Name e # found) (tot + re_Size e) es)))"
    by (intro keeps_intro wf_step_order Cons)
  then show ?case by (simp add: keeps_def Let_def wf_step_def)
qed

lemma wf_extractRelease [keeps_intro]: "keeps wf_step (extractRelease env p dest)"
proof -
  have "keeps wf_step (case n of FileN data _ \<Rightarrow>
         (case ue_untar env data of None \<Rightarrow> failS ArchiveOpen
          | Some (entries, complete) \<Rightarrow> extractEntries dest complete [] 0 entries)
     | _ \<Rightarrow> failS ArchiveOpen)" for n
    by (cases n) (auto simp: keeps_intro wf_extractEntries split: option.split)
  then show ?thesis unfolding extractRelease_def by (intro keeps_intro wf_step_order)
qed

lemma wf_checkSize [keeps_intro]: "keeps wf_step (checkSize p n)"
  by (rule keepsI) (metis checkSize_nodes wf_nodes prod.collapse)

lemma wf_stageRelease: "keeps wf_step (stageRelease env cfg release mu su sn entry stage)"
  unfolding stageRelease_def withEntry_def Let_def verifyManifest_def fetchPayload_def
  by (intro keeps_intro wf_step_order)

lemma prepareEach_keeps: "keeps files_grow (prepareEach ds)" "keeps wf_step (prepareEach ds)"
proof (induction ds)
  case Nil
  show "keeps files_grow (prepareEach [])" "keeps wf_step (prepareEach [])"
    by (auto intro!: keepsI simp: outside_kept_def wf_step_def)
next
  case (Cons d ds)
  have "keeps files_grow (bindS (guardS (d = [] \<or> \<not> IsAbs d) RelativeDir) (\<lambda>_.
     bindS (wrapS EOS (os_MkdirAll (path_comps d) 0x1C0)) (\<lambda>_. prepareEach ds)))"
    by (intro keeps_intro outside_kept_order Cons)
  moreover have "keeps wf_step (bindS (guardS (d = [] \<or> \<not> IsAbs d) RelativeDir) (\<lambda>_.
     bindS (wrapS EOS (os_MkdirAll (path_comps d) 0x1C0)) (\<lambda>_. prepareEach ds)))"
    by (intro keeps_intro wf_step_order Cons)
  ultimately show "keeps files_grow (prepareEach (d # ds))" "keeps wf_step (prepareEach (d # ds))"
    by (simp_all add: keeps_def)
qed

lemma locked_keeps [keeps_intro]:
  "keeps files_grow (prepareDirectories cfg)" "keeps wf_step (prepareDirectories cfg)"
  "keeps files_grow (acquireUpdateLock env p)" "keeps wf_step (acquireUpdateLock env p)"
  unfolding prepareDirectories_def acquireUpdateLock_def
  by (intro prepareEach_keeps keeps_intro wf_step_order outside_kept_order)+

section \<open>Names\<close>

lemma versionPattern_chars: "MatchString versionPattern v \<Longrightarrow> SLASH \<notin> set v"
  by (auto dest!: MatchString_chars
      simp: versionPattern_def preClass_def Class_def RPlus_def ROpt_def is_digit_def is_alnum_def is_upper_def is_lower_def in_range_def)

lemma commitPattern_chars:
  assumes "MatchString commitPattern v"
  shows "SLASH \<notin> set v"
proof -
  have "re_chars (RRep n (RCls hexClass)) x \<Longrightarrow> hexClass x" for n x by (induction n) auto
  moreover have "\<not> hexClass SLASH" by (simp add: hexClass_def Class_def byte_class_defs)
  ultimately show ?thesis using MatchString_chars [OF assms, of SLASH] unfolding commitPattern_def by blast
qed

lemma ParseManifest_names:
  assumes "ParseManifest decode bytes = Ok m"
  shows "SLASH \<notin> set (mf_Version m)" "SLASH \<notin> set (mf_Commit m)"
  using assms versionPattern_chars commitPattern_chars
  by (auto simp: ParseManifest_def andThen_def guardE_def split: option.splits if_splits sum.splits)

lemma dashed_plain: "SLASH \<notin> set a \<Longrightarrow> SLASH \<notin> set b \<Longrightarrow> plain_comp (a @ ''-'' @ b)"
  by (auto simp: plain_comp_def append_eq_Cons_conv)

lemma TrimPrefix_set: "set (TrimPrefix s p) \<subseteq> set s"
  by (auto simp: TrimPrefix_def dest: in_set_dropD)

section \<open>The switch\<close>

definition live :: "Config \<Rightarrow> os \<Rightarrow> string \<Rightarrow> string option" where
  "live cfg s t = content_at s (binaryDir cfg @ [t])"

text \<open>The state directory, which holds the snapshots, the staging area and the history, has no live binary in it.\<close>

lemma live_only: "well_placed env cfg \<Longrightarrow> only (prefix (stateDir cfg)) s s' \<Longrightarrow> live cfg s' t = live cfg s t"
proof -
  assume "well_placed env cfg" "only (prefix (stateDir cfg)) s s'"
  then have "nodes s' (binaryDir cfg @ [t]) = nodes s (binaryDir cfg @ [t])" using live_apart(1) unfolding only_def by blast
  then show ?thesis by (simp add: live_def content_at_def)
qed

lemma live_grows: "files_grow s s' \<Longrightarrow> live cfg s t \<noteq> None \<Longrightarrow> live cfg s' t = live cfg s t"
  using grows_content unfolding live_def by force

lemma appendHistory_only: "keeps (only (prefix (stateDir cfg))) (eng_appendHistory env cfg entry)"
  unfolding eng_appendHistory_def historyPath_def by (intro keeps_intro only_refl only_trans prefixI) auto

lemma live_appendHistory: "well_placed env cfg \<Longrightarrow> live cfg (snd (eng_appendHistory env cfg e s)) t = live cfg s t"
  by (rule live_only) (auto intro: keepsD [OF appendHistory_only prod.collapse [symmetric]])

text \<open>What a switch that began with the payload \<open>new\<close> leaves live, by the error it reports.\<close>

definition switch_outcome :: "Config \<Rightarrow> (string \<Rightarrow> string option) \<Rightarrow> os \<Rightarrow> string \<Rightarrow> eng_error option \<Rightarrow> os \<Rightarrow> bool" where
  "switch_outcome cfg new s status err s' =
     (case err of
        Some (InstallRolledBack _ _) \<Rightarrow> status = ''rolled_back''
      | Some (HealthRolledBack _ restore _ _) \<Rightarrow>
          status = ''rolled_back'' \<and>
          (\<forall>(a, t) \<in> set releaseNames. live cfg s' t = live cfg s t \<or> restore \<noteq> None \<and> live cfg s' t = new a)
      | _ \<Rightarrow> status = ''succeeded'' \<and> (\<forall>(a, t) \<in> set releaseNames. live cfg s' t = new a))"

lemma restore_after_install:
  assumes wp: "well_placed env cfg" and rd: "files_ready cfg P s"
    and P: "prefix (stateDir cfg) P" and K: "K = stateDir cfg @ [''backups'', i]" and PK: "P \<noteq> K"
    and R: "releasePath cfg m K = releaseRoot cfg @ [n]"
    and inst: "eng_install env cfg P m K s = (Ok u, s1)" and rest: "eng_restore env cfg K s1 = (r, s2)"
    and at: "(a, t) \<in> set releaseNames"
  shows "live cfg s2 t = live cfg s t \<or> failed r \<noteq> None \<and> live cfg s2 t = content_at s (P @ [a])"
proof -
  note io = install_Ok [OF wp rd P K PK R inst]
  have ex: "content_at s (P @ [a]) \<noteq> None \<and> content_at s (binaryDir cfg @ [t]) \<noteq> None" if "(a, t) \<in> set releaseNames" for a t
    using that rd by (auto simp: files_ready_def)
  have "copyable (binaryDir cfg) K liveNames s1"
    unfolding copyable_def
  proof (intro conjI ballI)
    show "os_wf s1" using keepsD [OF install_wf inst] rd by (simp add: files_ready_def wf_step_def)
    show "K \<noteq> binaryDir cfg" using well_placed_dirs(4) [OF wp] K by (metis prefixI)
    show "distinct liveNames" by (simp add: liveNames_def)
    fix t assume t: "t \<in> set liveNames"
    then obtain a where a: "(a, t) \<in> set releaseNames" using release_live by blast
    show "plain_comps (binaryDir cfg @ [t])" by (rule live_plain [OF wp t])
    show "nodes s1 (K @ [t]) \<noteq> None" "nodes s1 (binaryDir cfg @ [t]) \<noteq> None"
      using io [OF a] ex [OF a] content_nodes by metis+
  qed
  then have "swapped (binaryDir cfg) K liveNames (is_ok r) s1 s2"
    using restoreEach_result rest unfolding eng_restore_def by blast
  moreover have "t \<in> set liveNames" using at release_live by blast
  ultimately have "content_at s2 (binaryDir cfg @ [t]) = content_at s1 (K @ [t]) \<or>
      \<not> is_ok r \<and> content_at s2 (binaryDir cfg @ [t]) = content_at s1 (binaryDir cfg @ [t])"
    unfolding swapped_def by blast
  then show ?thesis using io [OF at] by (cases r) (auto simp: failed_def live_def)
qed

lemma switchRelease_result:
  assumes wp: "well_placed env cfg" and rd: "files_ready cfg P s" and P: "prefix (stateDir cfg) P" "length (stateDir cfg) + 2 < length P"
    and i: "plain_comp (he_ID entry)" and m: "SLASH \<notin> set (mf_Version m)" "SLASH \<notin> set (mf_Commit m)"
    and run: "switchRelease env cfg entry m P s = (r, s')"
  shows "\<exists>e. r = Inr e \<and> he_CompletedAt e \<noteq> None \<and> switch_outcome cfg (\<lambda>a. content_at s (P @ [a])) s (he_Status e) None s' \<or>
    (\<exists>err. r = Inl (e, err) \<and> he_CompletedAt e \<noteq> None \<and> switch_outcome cfg (\<lambda>a. content_at s (P @ [a])) s (he_Status e) (Some err) s')"
proof -
  let ?K = "stateDir cfg @ [''backups'', he_ID entry]"
  have pb: "plain_comps (stateDir cfg @ [''backups''])" using well_placed_dirs(1) [OF wp] by (simp add: plain_comp_def)
  have K: "joinName (stateDir cfg @ [''backups'']) (he_ID entry) = ?K" using joinName_plain [OF pb i] by simp
  have PK: "P \<noteq> ?K" using P(2) by auto
  have "Base (abs_path ?K) = he_ID entry" using Base_abs_path [of ?K] pb i by simp
  then obtain n where R: "releasePath cfg m ?K = releaseRoot cfg @ [n]"
    using joinName_plain [OF well_placed_dirs(2) [OF wp] dashed_plain, of "TrimPrefix (mf_Version m) ''v''" "take 12 (mf_Commit m) @ ''-'' @ he_ID entry"]
      m i TrimPrefix_set [of "mf_Version m"] by (auto simp: releasePath_def plain_comp_def dest: in_set_takeD)
  let ?e = "entry\<lparr>he_Status := ''installing'', he_BackupDir := ?K\<rparr>"
  note h = live_appendHistory [OF wp]
  obtain q s1 where inst: "eng_install env cfg P m ?K s = (q, s1)" by fastforce
  show ?thesis
  proof (cases q)
    case (Inl e)
    then show ?thesis using run inst K
      by (auto simp: switchRelease_def Let_def rolledBack_def switch_outcome_def split: prod.splits)
  next
    case (Inr u)
    note io = install_Ok [OF wp rd P(1) refl PK R inst [unfolded Inr]]
    show ?thesis
    proof (cases "runtimeCheck env s1")
      case None
      let ?d = "?e\<lparr>he_Status := ''succeeded'', he_CompletedAt := Some (ue_Now env)\<rparr>"
      obtain q2 s2 where ah: "eng_appendHistory env cfg ?d s1 = (q2, s2)" by fastforce
      have new: "live cfg s2 t = content_at s (P @ [a])" if "(a, t) \<in> set releaseNames" for a t
        using io [OF that] h [of ?d s1 t] ah by (simp add: live_def)
      have nr: "q2 = Inl e \<Longrightarrow> \<exists>x. e = EOS x" for e
        using ah by (auto simp: eng_appendHistory_def wrapS_def split: prod.splits sum.splits)
      show ?thesis using run inst Inr None K ah new nr
        by (cases q2) (auto simp: switchRelease_def Let_def bindS_def withEntry_def wrapS_def switch_outcome_def)
    next
      case (Some e)
      obtain q2 s2 where rest: "eng_restore env cfg ?K s1 = (q2, s2)" by fastforce
      note bk = restore_after_install [OF wp rd P(1) refl PK R inst [unfolded Inr] rest]
      let ?err = "HealthRolledBack e (failed q2) (if ue_Restart env s2 then None else Some RestartFailed) (if ue_Healthy env s2 then None else Some Unhealthy)"
      have "r = Inl (rolledBack env ?e ?err, ?err)" "s' = snd (eng_appendHistory env cfg (rolledBack env ?e ?err) s2)"
        using run inst Inr Some K rest by (simp_all add: switchRelease_def Let_def)
      then show ?thesis using bk h by (simp add: rolledBack_def switch_outcome_def case_prod_beta)
    qed
  qed
qed

lemma withEntry_cases:
  assumes "bindS (withEntry entry act) k s = (r, s')"
  obtains (err) e where "r = Inl (entry, e)" "act s = (Inl e, s')" | (ok) v s1 where "act s = (Inr v, s1)" "k v s1 = (r, s')"
proof -
  obtain q s1 where "act s = (q, s1)" by fastforce
  then show thesis using assms err ok by (cases q) (auto simp: bindS_def withEntry_def wrapS_def)
qed

lemma stageRelease_result:
  assumes "stageRelease env cfg release mu su sn entry stage s = (r, s')" "plain_comps stage" "he_CompletedAt entry = None" "SLASH \<notin> set (he_ID entry)"
  shows "(\<exists>e err. r = Inl (e, err) \<and> he_CompletedAt e = None) \<or>
    (\<exists>e m p. r = Inr (e, m, p) \<and> p = stage @ [''payload''] \<and> plain_comp (he_ID e) \<and> SLASH \<notin> set (mf_Version m) \<and> SLASH \<notin> set (mf_Commit m) \<and>
       staged env release m (\<lambda>n. content_at s' (p @ [n])))"
  using assms(1) unfolding stageRelease_def
proof (cases rule: withEntry_cases)
  case (err e)
  then show ?thesis using assms(3) by simp
next
  case (ok m s1)
  note vm = verifyManifest_Ok [OF ok(1)]
  then have nm: "SLASH \<notin> set (mf_Version m)" "SLASH \<notin> set (mf_Commit m)" using ParseManifest_names by blast+
  let ?e = "entry\<lparr>he_Commit := mf_Commit m, he_ID := he_ID entry @ ''-'' @ take 12 (mf_Commit m)\<rparr>"
  have pl: "plain_comp (he_ID ?e)" using dashed_plain [OF assms(4), of "take 12 (mf_Commit m)"] nm(2) by (auto dest: in_set_takeD)
  from ok(2) [unfolded Let_def] show ?thesis
  proof (cases rule: withEntry_cases)
    case (err e)
    then show ?thesis using assms(3) by simp
  next
    case (ok p s2)
    note fp = fetchPayload_Ok [OF ok(1) assms(2)]
    from ok(2) show ?thesis
    proof (cases rule: withEntry_cases)
      case (err e)
      then show ?thesis using assms(3) by simp
    next
      case (ok b s3)
      have "s3 = s2" using ok(1) by (auto simp: systemBackup_def split: option.splits)
      then have "r = Inr (?e\<lparr>he_SystemBackup := b\<rparr>, m, p)" "s' = s2" using ok(2) by auto
      then show ?thesis using fp vm nm pl unfolding staged_def by fastforce
    qed
  qed
qed

lemma staged_names: "staged env release m new \<Longrightarrow> (a, t) \<in> set releaseNames \<Longrightarrow> new a \<noteq> None"
proof -
  assume st: "staged env release m new" and "(a, t) \<in> set releaseNames"
  then have "a \<in> set expectedNames" by (auto simp: releaseNames_def expectedNames_def)
  then show ?thesis using st unfolding staged_def by fastforce
qed

lemma switch_outcome_cong:
  assumes "switch_outcome cfg new s status err s'" "\<forall>t \<in> set liveNames. live cfg s t = live cfg s0 t" "\<forall>t \<in> set liveNames. live cfg s1 t = live cfg s' t"
  shows "switch_outcome cfg new s0 status err s1"
proof -
  have "live cfg s t = live cfg s0 t \<and> live cfg s1 t = live cfg s' t" if "(a, t) \<in> set releaseNames" for a t
    using that assms(2,3) release_live by blast
  then show ?thesis using assms(1) unfolding switch_outcome_def by (auto split: option.splits eng_error.splits)
qed

lemma staging_result:
  assumes wp: "well_placed env cfg" and wf: "os_wf s" and lv: "\<forall>t \<in> set liveNames. live cfg s t \<noteq> None"
    and en: "he_CompletedAt entry = None" "he_ID entry = ue_stamp env" and st: "stage = stateDir cfg @ [''staging'', ''update-'' @ ue_rnd env]"
    and run: "bindS (stageRelease env cfg release mu su sn entry stage) (\<lambda>(entry1, m, payload). switchRelease env cfg entry1 m payload) s = (r, s')"
  shows "(\<exists>e err. r = Inl (e, err) \<and> he_CompletedAt e = None \<and> (\<forall>t \<in> set liveNames. live cfg s' t = live cfg s t)) \<or>
    (\<exists>m new e. staged env release m new \<and> he_CompletedAt e \<noteq> None \<and>
       (r = Inr e \<and> switch_outcome cfg new s (he_Status e) None s' \<or>
        (\<exists>err. r = Inl (e, err) \<and> switch_outcome cfg new s (he_Status e) (Some err) s')))"
proof -
  have pl: "plain_comps stage" using well_placed_dirs(1) [OF wp] wp by (auto simp: st plain_comp_def well_placed_def)
  have nm: "SLASH \<notin> set (he_ID entry)" using wp en by (simp add: well_placed_def)
  have kp: "\<forall>t \<in> set liveNames. live cfg s1 t = live cfg s t \<and> live cfg s1 t \<noteq> None" "os_wf s1"
    if "stageRelease env cfg release mu su sn entry stage s = (q, s1)" for q s1
  proof -
    show "\<forall>t \<in> set liveNames. live cfg s1 t = live cfg s t \<and> live cfg s1 t \<noteq> None"
      using live_grows [OF keepsD [OF grows_stageRelease that]] lv by simp
    show "os_wf s1" using keepsD [OF wf_stageRelease that] wf by (simp add: wf_step_def)
  qed
  from run show ?thesis
  proof (cases rule: bindS_cases)
    case (err x)
    then show ?thesis using stageRelease_result [OF err(1) pl en(1) nm] kp(1) [OF err(1)] by auto
  next
    case (ok x s1)
    from stageRelease_result [OF ok(1) pl en(1) nm] obtain e m p where x: "x = (e, m, p)" "p = stage @ [''payload'']"
      and nms: "plain_comp (he_ID e)" "SLASH \<notin> set (mf_Version m)" "SLASH \<notin> set (mf_Commit m)"
      and sg: "staged env release m (\<lambda>n. content_at s1 (p @ [n]))" by auto
    have rd: "files_ready cfg p s1"
      using kp [OF ok(1)] staged_names [OF sg] release_live unfolding files_ready_def live_def by blast
    have P: "prefix (stateDir cfg) p" "length (stateDir cfg) + 2 < length p" using x(2) st by simp_all
    have sr: "switchRelease env cfg e m p s1 = (r, s')" using ok(2) x(1) by simp
    from switchRelease_result [OF wp rd P nms sr] kp(1) [OF ok(1)] show ?thesis
      using switch_outcome_cong [of cfg "\<lambda>n. content_at s1 (p @ [n])" s1 _ _ s' s s'] sg by metis
  qed
qed

text \<open>Up to the staging directory Apply only asks GitHub.\<close>

lemma applyBody_cases:
  assumes "applyBody env cfg tag entry s = (r, s')"
  obtains (early) err where "r = Inl (entry, err)" "files_grow s s'"
  | (staging) release mu su sn stage s2 s3 where "gh_Release (ue_github env) tag = Ok release"
      "os_MkdirTemp (stateDir cfg @ [''staging'']) ''update-'' (ue_rnd env) s = (Ok stage, s2)"
      "bindS (stageRelease env cfg release mu su sn entry stage) (\<lambda>(entry1, m, payload). switchRelease env cfg entry1 m payload) s2 = (r, s3)"
      "s' = snd (os_RemoveAll stage s3)"
proof -
  let ?sn = "if cf_Signature cfg = [] then sigstoreAsset else cf_Signature cfg"
  let ?mk = "wrapS EOS (os_MkdirTemp (stateDir cfg @ [''staging'']) ''update-'' (ue_rnd env))"
  have mk: "keeps files_grow ?mk" by (intro keeps_intro outside_kept_order)
  have same: "s1 = s" if "lookupAsset release n e s = (Inr v, s1)" for release n e v s1
    using that by (auto simp: lookupAsset_def split: option.splits)
  from assms [unfolded applyBody_def] show thesis
  proof (cases rule: withEntry_cases)
    case (err e)
    show ?thesis by (rule early [OF err(1) keepsD [OF grows_upd err(2)]])
  next
    case (ok release s1)
    then have rel: "gh_Release (ue_github env) tag = Ok release" "s1 = s" by (simp_all add: upd_Ok)
    from ok(2) [unfolded rel(2)] show ?thesis
    proof (cases rule: withEntry_cases)
      case (err e)
      show ?thesis by (rule early [OF err(1) keepsD [OF grows_lookupAsset err(2)]])
    next
      case (ok mu s1)
      from ok(2) [unfolded Let_def same [OF ok(1)]] show ?thesis
      proof (cases rule: withEntry_cases)
        case (err e)
        show ?thesis by (rule early [OF err(1) keepsD [OF grows_lookupAsset err(2)]])
      next
        case (ok su s1)
        from ok(2) [unfolded same [OF ok(1)]] show ?thesis
        proof (cases rule: withEntry_cases)
          case (err e)
          show ?thesis by (rule early [OF err(1) keepsD [OF mk err(2)]])
        next
          case (ok stage s2)
          then show ?thesis using staging [OF rel(1), of stage s2 mu su ?sn] deferS_eq [OF ok(2)] by (auto simp: wrapS_Ok)
        qed
      qed
    qed
  qed
qed

text \<open>The outcome of the part of Apply under the lock: nothing is live that was not, or the switch took place
  with a staged release.\<close>

lemma applyBody_result:
  assumes wp: "well_placed env cfg" and wf: "os_wf s" and lv: "\<forall>t \<in> set liveNames. live cfg s t \<noteq> None"
    and en: "he_CompletedAt entry = None" "he_ID entry = ue_stamp env"
    and run: "applyBody env cfg tag entry s = (r, s')"
  shows "(\<exists>e err. r = Inl (e, err) \<and> he_CompletedAt e = None \<and> (\<forall>t \<in> set liveNames. live cfg s' t = live cfg s t)) \<or>
    (\<exists>release m new e. gh_Release (ue_github env) tag = Ok release \<and> staged env release m new \<and> he_CompletedAt e \<noteq> None \<and>
       (r = Inr e \<and> switch_outcome cfg new s (he_Status e) None s' \<or>
        (\<exists>err. r = Inl (e, err) \<and> switch_outcome cfg new s (he_Status e) (Some err) s')))"
  using run
proof (cases rule: applyBody_cases)
  case (early err)
  then show ?thesis using live_grows [OF early(2)] lv en(1) by simp
next
  case (staging release mu su sn stage s2 s3)
  have stage: "stage = stateDir cfg @ [''staging'', ''update-'' @ ue_rnd env]" using MkdirTemp_Ok [OF staging(2)] by simp
  have wf2: "os_wf s2" using keepsD [OF wf_MkdirTemp staging(2)] wf by (simp add: wf_step_def)
  have e2: "\<forall>t \<in> set liveNames. live cfg s2 t = live cfg s t" "\<forall>t \<in> set liveNames. live cfg s2 t \<noteq> None"
    using live_grows [OF keepsD [OF grows_MkdirTemp staging(2)]] lv by simp_all
  have "only (prefix (stateDir cfg)) s3 s'"
    unfolding staging(4) by (rule keepsD [OF only_RemoveAll prod.collapse [symmetric]]) (auto simp: stage prefix_def)
  then have l3: "\<forall>t \<in> set liveNames. live cfg s' t = live cfg s3 t" using live_only [OF wp] by blast
  from staging_result [OF wp wf2 e2(2) en stage staging(3)] show ?thesis
    using staging(1) switch_outcome_cong [OF _ e2(1) l3] l3 e2(1) by fastforce
qed

lemma eng_Apply_result:
  assumes wp: "well_placed env cfg" and wf: "os_wf s" and lv: "\<forall>t \<in> set liveNames. live cfg s t \<noteq> None"
    and run: "eng_Apply env cfg tag currentVersion s = ((entry, err), s')"
  shows "he_Status entry \<in> {[], ''failed''} \<and> err \<noteq> None \<and> (\<forall>t \<in> set liveNames. live cfg s' t = live cfg s t) \<or>
    (\<exists>release m new. gh_Release (ue_github env) tag = Ok release \<and> staged env release m new \<and> switch_outcome cfg new s (he_Status entry) err s')"
proof -
  let ?lock = "bindS (guardS (\<not> ue_ready env) NotConfigured) (\<lambda>_. bindS (prepareDirectories cfg) (\<lambda>_.
      acquireUpdateLock env (stateDir cfg @ [''update.lock''])))"
  have kl: "keeps files_grow ?lock" "keeps wf_step ?lock" by (intro keeps_intro outside_kept_order wf_step_order)+
  obtain q s1 where l: "?lock s = (q, s1)" by fastforce
  have l1: "\<forall>t \<in> set liveNames. live cfg s1 t = live cfg s t" "\<forall>t \<in> set liveNames. live cfg s1 t \<noteq> None"
    using live_grows [OF keepsD [OF kl(1) l]] lv by simp_all
  have wf1: "os_wf s1" using keepsD [OF kl(2) l] wf by (simp add: wf_step_def)
  let ?new = "newEntry env tag currentVersion"
  obtain r s2 where b: "applyBody env cfg tag ?new s1 = (r, s2)" by fastforce
  have en: "he_CompletedAt ?new = None" "he_ID ?new = ue_stamp env" by (simp_all add: newEntry_def emptyEntry_def)
  note run' = run [unfolded eng_Apply_def l prod.case]
  show ?thesis
  proof (cases q)
    case (Inl e)
    then show ?thesis using run' l1 by (auto simp: emptyEntry_def)
  next
    case (Inr u)
    from applyBody_result [OF wp wf1 l1(2) en b] show ?thesis
    proof (elim disjE exE conjE)
      fix e x assume r: "r = Inl (e, x)" "he_CompletedAt e = None" "\<forall>t \<in> set liveNames. live cfg s2 t = live cfg s1 t"
      then have "he_Status entry = ''failed''" "err = Some x" "\<exists>e'. s' = snd (eng_appendHistory env cfg e' s2)"
        using run' Inr b by (auto simp: Let_def)
      then show ?thesis using r(3) l1 live_appendHistory [OF wp] by auto
    next
      fix release m new e assume "gh_Release (ue_github env) tag = Ok release" "staged env release m new"
        and "r = Inr e" "switch_outcome cfg new s1 (he_Status e) None s2"
      then show ?thesis using run' Inr b switch_outcome_cong [of cfg new s1 _ _ s2 s s2] l1 by auto
    next
      fix release m new e x assume "gh_Release (ue_github env) tag = Ok release" "staged env release m new" "he_CompletedAt e \<noteq> None"
        and "r = Inl (e, x)" "switch_outcome cfg new s1 (he_Status e) (Some x) s2"
      moreover from this have "entry = e" "err = Some x" "s' = s2" using run' Inr b by auto
      ultimately show ?thesis using switch_outcome_cong [of cfg new s1 _ _ s2 s s2] l1(1) by blast
    qed
  qed
qed

text \<open>C21. Apply never leaves the installed binaries in a state it does not report. It prepares its directories, takes the
  lock, asks GitHub, downloads, verifies, unpacks, backs up, installs, restarts and checks the health of the services,
  and every system call, download, restart and check may fail. A run that ends before the switch (no history entry, or
  one with status ``failed'') leaves every live binary as it was. A run whose services did not come up healthy has put
  every old binary back, or says in its error that the restore failed, and then each binary is still complete: the
  old one or the one of the staged release.\<close>

theorem apply_outcome_reported:
  assumes "well_placed env cfg" "os_wf s" "\<forall>t \<in> set liveNames. live cfg s t \<noteq> None"
    and "eng_Apply env cfg tag currentVersion s = ((entry, err), s')"
  shows "(he_Status entry \<in> {[], ''failed''} \<longrightarrow> (\<forall>t \<in> set liveNames. live cfg s' t = live cfg s t)) \<and>
    (\<forall>e restore restart healthy. he_Status entry = ''rolled_back'' \<and> err = Some (HealthRolledBack e restore restart healthy) \<longrightarrow>
       (restore = None \<longrightarrow> (\<forall>t \<in> set liveNames. live cfg s' t = live cfg s t)) \<and>
       (\<exists>release m new. gh_Release (ue_github env) tag = Ok release \<and> staged env release m new \<and>
          (\<forall>(a, t) \<in> set releaseNames. live cfg s' t \<in> {live cfg s t, new a})))"
  using eng_Apply_result [OF assms]
proof (elim disjE exE conjE)
  fix release m new assume rel: "gh_Release (ue_github env) tag = Ok release" "staged env release m new"
    and sw: "switch_outcome cfg new s (he_Status entry) err s'"
  then have ns: "he_Status entry \<noteq> []" "he_Status entry \<noteq> ''failed''"
    by (auto simp: switch_outcome_def split: option.splits eng_error.splits)
  have hr: "restore = None \<longrightarrow> (\<forall>t \<in> set liveNames. live cfg s' t = live cfg s t)"
    "\<forall>(a, t) \<in> set releaseNames. live cfg s' t \<in> {live cfg s t, new a}"
    if "err = Some (HealthRolledBack e restore restart healthy)" for e restore restart healthy
    using sw that release_live by (auto simp: switch_outcome_def)
  show ?thesis
  proof (intro conjI allI impI, goal_cases)
    case 1
    then show ?case using ns by simp
  next
    case 2
    then show ?case using hr(1) by blast
  next
    case 3
    then show ?case using rel hr(2) by (intro exI conjI) auto
  qed
qed auto

text \<open>C22. What a successful update installs was released and signed. When Apply reports ``succeeded'', the three live
  binaries are byte for byte the entries of an archive whose size and SHA-256 digest stand in a well formed manifest
  that the configured signature verifier accepted, whose tag is the one asked for and whose commit is the one GitHub
  gives for that tag.\<close>

theorem success_installs_signed_release:
  assumes "well_placed env cfg" "os_wf s" "\<forall>t \<in> set liveNames. live cfg s t \<noteq> None"
    and "eng_Apply env cfg tag currentVersion s = ((entry, err), s')" "he_Status entry = ''succeeded''"
  shows "\<exists>release m bytes sg a archive entries.
    gh_Release (ue_github env) tag = Ok release \<and> rl_Tag release = tag \<and>
    ue_signed env bytes sg \<and> ParseManifest (ue_decode env) bytes = Ok m \<and> mf_Tag m = tag \<and>
    TagCommit (ue_github env) tag = Ok (mf_Commit m) \<and>
    a \<in> set (mf_Artifacts m) \<and> int (length archive) = a_Size a \<and> ue_sha256 env archive = ToLower (a_SHA256 a) \<and>
    ue_untar env archive = Some (entries, True) \<and>
    (\<forall>(n, t) \<in> set releaseNames. \<exists>x \<in> set entries. re_Name x = n \<and> live cfg s' t = Some (io_LimitReader (re_Size x) (re_Data x)))"
proof -
  from eng_Apply_result [OF assms(1-4)] assms(5) obtain release m new where rel: "gh_Release (ue_github env) tag = Ok release"
    and st: "staged env release m new" and sw: "switch_outcome cfg new s ''succeeded'' err s'" by auto
  have tag: "rl_Tag release = tag"
    using rel by (auto simp: gh_Release_def andThen_def split: if_splits sum.splits github_doc.splits)
  have new: "\<forall>(n, t) \<in> set releaseNames. live cfg s' t = new n \<and> n \<in> set expectedNames"
    using sw by (auto simp: switch_outcome_def releaseNames_def expectedNames_def split: option.splits eng_error.splits)
  show ?thesis using st rel tag new unfolding staged_def by fastforce
qed


section \<open>Sample runs\<close>

definition updCfg :: Config where
  "updCfg = \<lparr>cf_StateDir = ''/s'', cf_ReleaseDir = ''/r'', cf_BinaryDir = ''/b'', cf_GOOS = ''linux'', cf_GOARCH = ''amd64'', cf_Signature = []\<rparr>"

definition updCommit :: string where
  "updCommit = replicate 40 CHR ''a''"

definition updManifest :: Manifest where
  "updManifest = \<lparr>mf_Schema = ManifestSchema, mf_Version = ''v1.2.3'', mf_Tag = ''v1.2.3'', mf_Commit = updCommit, mf_PublishedAt = Some 1,
     mf_Artifacts = [\<lparr>a_OS = ''linux'', a_Arch = ''amd64'', a_Name = ''r.tgz'', a_SHA256 = replicate 64 CHR ''0'', a_Size = 3\<rparr>]\<rparr>"

definition updGithub :: github where
  "updGithub = \<lparr>gh_APIBase = ''http://h'', gh_Owner = ''o'', gh_Repo = ''r'',
     gh_answer = (\<lambda>ep. case ep of
         ReleaseEndpoint t \<Rightarrow> Some (200, Some (ReleaseDoc \<lparr>rd_Tag = t, rd_Draft = False, rd_Prerelease = False,
           rd_Assets = [(manifestAsset, ''m''), (sigstoreAsset, ''s''), (''r.tgz'', ''a'')]\<rparr>))
       | RefEndpoint _ \<Rightarrow> Some (200, Some (ObjectDoc \<lparr>go_Type = ''commit'', go_SHA = updCommit\<rparr>))
       | TagEndpoint _ \<Rightarrow> None),
     gh_parse = (\<lambda>_. Some \<lparr>u_Scheme = ''http'', u_Host = ''h'', u_Path = []\<rparr>)\<rparr>"

definition updEnv :: "(os \<Rightarrow> bool) \<Rightarrow> upd_env" where
  "updEnv healthy = \<lparr>ue_ready = True, ue_github = updGithub, ue_signed = (\<lambda>m sg. m = ''man'' \<and> sg = ''sig''),
     ue_http = (\<lambda>l. Some (200, if l = ''m'' then ''man'' else if l = ''s'' then ''sig'' else ''tgz'', True)),
     ue_decode = (\<lambda>b. if b = ''man'' then Some updManifest else None), ue_sha256 = (\<lambda>_. replicate 64 CHR ''0''),
     ue_untar = (\<lambda>b. Some (map (\<lambda>n. \<lparr>re_Name = n, re_Regular = True, re_Size = 3, re_Data = ''new''\<rparr>) expectedNames, True)),
     ue_backup = Some (\<lambda>_. Some ''b''), ue_Restart = (\<lambda>_. True), ue_Healthy = healthy,
     ue_encode = (\<lambda>e. he_Status e), ue_decodeEntry = (\<lambda>_. None), ue_state = (\<lambda>v c. v), ue_platform = (''linux'', ''amd64''),
     ue_busy = False, ue_stamp = ''t'', ue_Now = 7, ue_rnd = ''1'', ue_order1 = releaseNames, ue_order2 = releaseNames\<rparr>"

definition updMeta :: meta where
  "updMeta = \<lparr>perm = 0x1ED, uid = 0, gid = 0\<rparr>"

definition updOS :: "bool list \<Rightarrow> os" where
  "updOS fs = \<lparr>tree = [([], DirN updMeta), ([''b''], DirN updMeta), ([''b'', ''opendeploy-core''], FileN ''c1'' updMeta),
       ([''b'', ''opendeploy-agent''], FileN ''a1'' updMeta), ([''b'', ''opendeploy''], FileN ''o1'' updMeta)],
     umask = 0x12, faults = fs, partial = 1\<rparr>"

definition oldCore :: "os \<Rightarrow> bool" where
  "oldCore s = (content_at s [''b'', ''opendeploy-core''] = Some ''c1'')"

definition updRun :: "(os \<Rightarrow> bool) \<Rightarrow> bool list \<Rightarrow> (HistoryEntry \<times> eng_error option) \<times> os" where
  "updRun healthy fs = eng_Apply (updEnv healthy) updCfg ''v1.2.3'' ''v1.0.0'' (updOS fs)"


lemma updOS_ready:
  "well_placed (updEnv healthy) updCfg" "os_wf (updOS fs)" "\<forall>t \<in> set liveNames. live updCfg (updOS fs) t \<noteq> None"
proof -
  have "stateDir updCfg = [''s'']" "releaseRoot updCfg = [''r'']" "binaryDir updCfg = [''b'']" by code_simp+
  then show "well_placed (updEnv healthy) updCfg" "\<forall>t \<in> set liveNames. live updCfg (updOS fs) t \<noteq> None"
    by (simp_all add: well_placed_def updCfg_def updEnv_def releaseNames_def liveNames_def live_def content_at_def updOS_def nodes_def)
  show "os_wf (updOS fs)" by (rule os_wf_check) (simp_all add: updOS_def updMeta_def is_dir_def nodes_def is_dir_node_def)
qed

theorem apply_outcome_reported_witness:
  "live updCfg (snd (updRun oldCore [])) ''opendeploy-core'' = Some ''c1''"
proof -
  obtain entry err s' where run: "updRun oldCore [] = ((entry, err), s')" by (metis prod.exhaust)
  have "(case updRun oldCore [] of ((entry, err), _) \<Rightarrow>
      he_Status entry = ''rolled_back'' \<and> err = Some (HealthRolledBack Unhealthy None None None))" by code_simp
  with run have e: "he_Status entry = ''rolled_back''" "err = Some (HealthRolledBack Unhealthy None None None)" by simp_all
  have "live updCfg s' ''opendeploy-core'' = live updCfg (updOS []) ''opendeploy-core''"
    using apply_outcome_reported [OF updOS_ready run [unfolded updRun_def]] e by (simp add: liveNames_def)
  moreover have "live updCfg (updOS []) ''opendeploy-core'' = Some ''c1''" by code_simp
  ultimately show ?thesis using run by simp
qed

theorem success_installs_signed_release_witness:
  "live updCfg (snd (updRun (\<lambda>_. True) [])) ''opendeploy'' = Some ''new''"
proof -
  obtain entry err s' where run: "updRun (\<lambda>_. True) [] = ((entry, err), s')" by (metis prod.exhaust)
  have "(case updRun (\<lambda>_. True) [] of ((entry, err), _) \<Rightarrow> he_Status entry = ''succeeded'')" by code_simp
  with run have e: "he_Status entry = ''succeeded''" by simp
  have "live updCfg s' ''opendeploy'' = Some ''new''"
    using success_installs_signed_release [OF updOS_ready run [unfolded updRun_def] e] by (auto simp: releaseNames_def updEnv_def)
  then show ?thesis using run by simp
qed

text \<open>A staged release on disk before the switch: the payload and the three live binaries.\<close>

definition stagedOS :: "bool list \<Rightarrow> os" where
  "stagedOS fs = \<lparr>tree = tree (updOS []) @ [([''r''], DirN updMeta), ([''s''], DirN updMeta), ([''s'', ''p''], DirN updMeta)] @
     map (\<lambda>n. ([''s'', ''p'', n], FileN ''new'' updMeta)) expectedNames, umask = 0x12, faults = fs, partial = 1\<rparr>"

definition switchRun :: "nat \<Rightarrow> (HistoryEntry \<times> eng_error, HistoryEntry) result \<times> os" where
  "switchRun n = switchRelease (updEnv (\<lambda>_. True)) updCfg (emptyEntry\<lparr>he_ID := ''k''\<rparr>) updManifest [''s'', ''p''] (stagedOS (replicate n False @ [True]))"

text \<open>An example run. One failing write can destroy a live binary and be reported as a clean rollback. The snapshot that install takes
  is written in place, and when its last write stops in the middle the truncated copy stays in the backup
  directory. The error then makes Apply restore from that directory: the truncated copy is renamed over the live
  binary, the restore succeeds, and the history says ``rolled\_back'' without a rollback error.\<close>

lemma failed_snapshot_example:
  "(case switchRun 33 of
      (Inl (entry, err), s') \<Rightarrow> he_Status entry = ''rolled_back'' \<and> err = InstallRolledBack (EOS EIO) None \<and>
        live updCfg (stagedOS []) ''opendeploy'' = Some ''o1'' \<and> live updCfg s' ''opendeploy'' = Some ''o'' \<and>
        live updCfg s' ''opendeploy-core'' = live updCfg (stagedOS []) ''opendeploy-core''
    | _ \<Rightarrow> False)"
  by code_simp

end
