(* ===== verification/Update_Version.thy ===== *)
theory Update_Version
  imports Update_Manifest "HOL-Library.List_Lexorder" "HOL-Library.Char_ord" "HOL-Library.Product_Lexorder"
begin

text \<open>
  The comparison of versions with which the Core decides whether a release is newer
  (\<open>internal/core/updater/service.go\<close>), the precedence of Semantic Versioning, and the versions on which the
  two agree.
\<close>

section \<open>Versions\<close>

record parsedVersion =
  pv_numbers :: "int \<times> int \<times> int"
  pv_pre :: string

text \<open>The submatches of the pattern \<open>v?(d+).(d+).(d+)(-(...))?\<close> at the start of a text. Digits and
  dots exclude each other, so the greedy match is the only one.\<close>

definition takeNumber :: "string \<Rightarrow> (string \<times> string) option" where
  "takeNumber s = (case takeWhile is_digit s of [] \<Rightarrow> None | ds \<Rightarrow> Some (ds, dropWhile is_digit s))"

definition takeDot :: "string \<Rightarrow> string option" where
  "takeDot s = (case s of CHR ''.'' # t \<Rightarrow> Some t | _ \<Rightarrow> None)"

definition takePre :: "string \<Rightarrow> string" where
  "takePre s = (case s of CHR ''-'' # t \<Rightarrow> takeWhile preClass t | _ \<Rightarrow> [])"

definition versionMatch :: "string \<Rightarrow> (string \<times> string \<times> string \<times> string) option" where
  "versionMatch s =
     Option.bind (takeNumber (TrimPrefix s ''v'')) (\<lambda>(a, s1).
     Option.bind (takeDot s1) (\<lambda>s2.
     Option.bind (takeNumber s2) (\<lambda>(b, s3).
     Option.bind (takeDot s3) (\<lambda>s4.
     Option.bind (takeNumber s4) (\<lambda>(c, s5).
     Some (a, b, c, takePre s5))))))"

definition parseVersion :: "string \<Rightarrow> parsedVersion option" where
  "parseVersion v =
     (case versionMatch (TrimSpace v) of None \<Rightarrow> None
      | Some (a, b, c, pre) \<Rightarrow>
          (case (Atoi a, Atoi b, Atoi c) of
             (Some x, Some y, Some z) \<Rightarrow> Some \<lparr>pv_numbers = (x, y, z), pv_pre = pre\<rparr>
           | _ \<Rightarrow> None))"

text \<open>Two different identifiers of a pre-release.\<close>

definition compareParts :: "string \<Rightarrow> string \<Rightarrow> int" where
  "compareParts l r =
     (case (Atoi l, Atoi r) of
        (Some ln, Some rn) \<Rightarrow> if ln > rn then 1 else -1
      | (Some _, None) \<Rightarrow> -1
      | (None, Some _) \<Rightarrow> 1
      | (None, None) \<Rightarrow> if l > r then 1 else -1)"

fun comparePreParts :: "string list \<Rightarrow> string list \<Rightarrow> int" where
  "comparePreParts [] [] = 0"
| "comparePreParts [] (r # rs) = -1"
| "comparePreParts (l # ls) [] = 1"
| "comparePreParts (l # ls) (r # rs) = (if l = r then comparePreParts ls rs else compareParts l r)"

definition comparePrerelease :: "string \<Rightarrow> string \<Rightarrow> int" where
  "comparePrerelease left right = comparePreParts (Split (CHR ''.'') left) (Split (CHR ''.'') right)"

definition compareNumbers :: "int \<times> int \<times> int \<Rightarrow> int \<times> int \<times> int \<Rightarrow> int" where
  "compareNumbers = (\<lambda>(a, b, c) (x, y, z).
     if a > x then 1 else if a < x then -1
     else if b > y then 1 else if b < y then -1
     else if c > z then 1 else if c < z then -1 else 0)"

definition compareVersions :: "string \<Rightarrow> string \<Rightarrow> int" where
  "compareVersions left right =
     (case (parseVersion left, parseVersion right) of
        (Some l, Some r) \<Rightarrow>
          let c = compareNumbers (pv_numbers l) (pv_numbers r)
          in if c \<noteq> 0 then c
             else if pv_pre l = pv_pre r then 0
             else if pv_pre l = [] then 1
             else if pv_pre r = [] then -1
             else comparePrerelease (pv_pre l) (pv_pre r)
      | _ \<Rightarrow> 0)"

section \<open>Precedence\<close>

text \<open>Precedence as Semantic Versioning 2.0.0 defines it, independently of the code. An identifier of a pre-release that
  consists of digits is a number, of any size; numbers come before texts and are compared as numbers, texts byte by byte.\<close>

datatype ident = Num nat | Alpha string

instantiation ident :: linorder
begin

fun less_eq_ident :: "ident \<Rightarrow> ident \<Rightarrow> bool" where
  "less_eq_ident (Num a) (Num b) = (a \<le> b)"
| "less_eq_ident (Num a) (Alpha t) = True"
| "less_eq_ident (Alpha s) (Num b) = False"
| "less_eq_ident (Alpha s) (Alpha t) = (s \<le> t)"

definition less_ident :: "ident \<Rightarrow> ident \<Rightarrow> bool" where
  "less_ident x y = (x \<le> y \<and> \<not> y \<le> x)"

instance
proof
  fix x y z :: ident
  show "(x < y) = (x \<le> y \<and> \<not> y \<le> x)" by (rule less_ident_def)
  show "x \<le> x" by (cases x) auto
  show "x \<le> y \<Longrightarrow> y \<le> z \<Longrightarrow> x \<le> z" by (cases x; cases y; cases z) auto
  show "x \<le> y \<Longrightarrow> y \<le> x \<Longrightarrow> x = y" by (cases x; cases y) auto
  show "x \<le> y \<or> y \<le> x" by (cases x; cases y) auto
qed

end

definition decimal :: "string \<Rightarrow> nat" where
  "decimal t = fold (\<lambda>c n. 10 * n + (byte c - 48)) t 0"

definition numeric :: "string \<Rightarrow> bool" where
  "numeric t = (t \<noteq> [] \<and> list_all is_digit t)"

definition identOf :: "string \<Rightarrow> ident" where
  "identOf t = (if numeric t then Num (decimal t) else Alpha t)"

text \<open>A release comes after its pre-releases.\<close>

definition precedence :: "parsedVersion \<Rightarrow> (int \<times> int \<times> int) \<times> bool \<times> ident list" where
  "precedence v = (pv_numbers v, pv_pre v = [], map identOf (Split (CHR ''.'') (pv_pre v)))"

text \<open>What the standard demands of an identifier: it is not empty, consists of letters, digits and hyphens, and a number has no leading
  zero. The code reads numbers with \<open>Atoi\<close>, which adds two limits: a number fits into an int, and a text is not a hyphen
  followed by digits.\<close>

definition semverIdent :: "string \<Rightarrow> bool" where
  "semverIdent t = (t \<noteq> [] \<and> list_all (\<lambda>c. is_alnum c \<or> c = CHR ''-'') t \<and> (numeric t \<longrightarrow> t = ''0'' \<or> hd t \<noteq> CHR ''0''))"

definition plainIdent :: "string \<Rightarrow> bool" where
  "plainIdent t = (semverIdent t \<and> (numeric t \<longrightarrow> decimal t < 2 ^ 63) \<and> \<not> (hd t = CHR ''-'' \<and> numeric (tl t)))"

definition plainVersion :: "parsedVersion \<Rightarrow> bool" where
  "plainVersion v = (pv_pre v = [] \<or> list_all plainIdent (Split (CHR ''.'') (pv_pre v)))"

definition three_way :: "'a :: linorder \<Rightarrow> 'a \<Rightarrow> int" where
  "three_way x y = (if x > y then 1 else if x < y then -1 else 0)"

lemma less_ident_simps [simp]:
  "Num a < Num b \<longleftrightarrow> a < b" "Num a < Alpha t" "\<not> Alpha s < Num b" "Alpha s < Alpha t \<longleftrightarrow> s < t"
  by (auto simp: less_ident_def)

lemma decimal_snoc: "decimal (s @ [c]) = 10 * decimal s + (byte c - 48)"
  by (simp add: decimal_def)

lemma digits_value_decimal:
  "list_all is_digit s \<Longrightarrow> digits_value 0 s = Some (int (decimal s))"
proof (induction s rule: rev_induct)
  case (snoc c s)
  then have "48 \<le> byte c" by (simp add: is_digit_def in_range_def)
  then show ?case using snoc by (simp add: digits_value_append decimal_snoc of_nat_diff)
qed (simp add: decimal_def)

lemma digits_value_None: "\<not> list_all is_digit s \<Longrightarrow> digits_value acc s = None"
  by (induction s arbitrary: acc) auto

lemma decimal_pos: "list_all is_digit s \<Longrightarrow> s \<noteq> [] \<Longrightarrow> hd s \<noteq> CHR ''0'' \<Longrightarrow> 0 < decimal s"
proof (induction s rule: rev_induct)
  case (snoc c s)
  show ?case
  proof (cases "s = []")
    case True
    have "byte c \<noteq> 48"
    proof
      assume "byte c = 48"
      then have "byte c = byte (CHR ''0'')" by simp
      then have "c = CHR ''0''" by (simp only: of_char_eq_iff)
      then show False using snoc.prems True by simp
    qed
    then show ?thesis using snoc.prems True by (simp add: decimal_def is_digit_def in_range_def)
  next
    case False
    then show ?thesis using snoc by (simp add: decimal_snoc)
  qed
qed simp

text \<open>A number has one spelling without leading zeros.\<close>

lemma decimal_inject:
  assumes "list_all is_digit s" "list_all is_digit t" "s = [] \<or> hd s \<noteq> CHR ''0''" "t = [] \<or> hd t \<noteq> CHR ''0''" "decimal s = decimal t"
  shows "s = t"
  using assms
proof (induction s arbitrary: t rule: rev_induct)
  case Nil
  then have "decimal t = 0" by (simp add: decimal_def)
  then show ?case using Nil decimal_pos [of t] by auto
next
  case (snoc c s)
  have t: "t \<noteq> []"
    using snoc.prems decimal_pos [of "s @ [c]"] by (auto simp: decimal_def)
  then obtain u d where u: "t = u @ [d]" by (metis rev_exhaust)
  have r: "48 \<le> byte c" "byte c \<le> 57" "48 \<le> byte d" "byte d \<le> 57"
    using snoc.prems u by (simp_all add: is_digit_def in_range_def)
  have e: "10 * decimal s + (byte c - 48) = 10 * decimal u + (byte d - 48)" using snoc.prems(5) u by (simp add: decimal_snoc)
  then have "byte c - 48 = byte d - 48" "decimal s = decimal u" using r by presburger+
  then have "byte c = byte d" using r by linarith
  then have "c = d" by (simp only: of_char_eq_iff)
  moreover have "s = u"
    using snoc.prems u \<open>decimal s = decimal u\<close> by (intro snoc.IH) (auto simp: hd_append split: if_splits)
  ultimately show ?case using u by simp
qed

lemma identOf_inject:
  assumes "plainIdent s" "plainIdent t" "identOf s = identOf t"
  shows "s = t"
proof (cases "numeric s")
  case True
  then have n: "numeric t" "decimal s = decimal t" using assms(3) by (auto simp: identOf_def split: if_splits)
  have z: "x = ''0'' \<or> hd x \<noteq> CHR ''0''" if "plainIdent x" "numeric x" for x
    using that by (simp add: plainIdent_def semverIdent_def)
  have zero: "x = ''0''" if "plainIdent x" "numeric x" "decimal x = 0" for x
    using z [OF that(1,2)] that(2,3) decimal_pos [of x] by (auto simp: numeric_def)
  show ?thesis
  proof (cases "decimal s = 0")
    case True
    then show ?thesis using zero assms(1,2) n \<open>numeric s\<close> by metis
  next
    case False
    have "decimal ''0'' = 0" by (simp add: decimal_def)
    then have "hd s \<noteq> CHR ''0''" "hd t \<noteq> CHR ''0''" using False n z assms(1,2) \<open>numeric s\<close> by metis+
    then show ?thesis using decimal_inject [of s t] n \<open>numeric s\<close> by (simp add: numeric_def)
  qed
next
  case False
  then show ?thesis using assms(3) by (auto simp: identOf_def split: if_splits)
qed

lemma Atoi_plain:
  assumes "plainIdent t"
  shows "Atoi t = (if numeric t then Some (int (decimal t)) else None)"
proof -
  obtain c s where t: "t = c # s" using assms by (cases t) (auto simp: plainIdent_def semverIdent_def)
  have plus: "c \<noteq> CHR ''+''" using assms t by (auto simp: plainIdent_def semverIdent_def is_alnum_def is_digit_def is_upper_def is_lower_def in_range_def)
  show ?thesis
  proof (cases "c = CHR ''-''")
    case True
    then have "\<not> numeric t" "\<not> numeric s" using assms t by (auto simp: plainIdent_def numeric_def is_digit_def in_range_def)
    then show ?thesis using True t digits_value_None [of s 0] by (auto simp: Atoi_def Let_def HasPrefix_def numeric_def)
  next
    case False
    then have "Atoi t = (case digits_value 0 t of None \<Rightarrow> None | Some n \<Rightarrow> if - (2 ^ 63) \<le> n \<and> n < 2 ^ 63 then Some n else None)"
      using plus t by (simp add: Atoi_def HasPrefix_def Let_def split: option.split)
    moreover have "int (decimal t) < 2 ^ 63" if "numeric t"
    proof -
      have "decimal t < 2 ^ 63" using assms that by (simp add: plainIdent_def)
      then have "int (decimal t) < int (2 ^ 63)" by (simp only: of_nat_less_iff)
      then show ?thesis by simp
    qed
    ultimately show ?thesis using t digits_value_decimal [of t] digits_value_None [of t 0] by (auto simp: numeric_def)
  qed
qed

lemma compareParts_three_way:
  "plainIdent l \<Longrightarrow> plainIdent r \<Longrightarrow> l \<noteq> r \<Longrightarrow> compareParts l r = three_way (identOf l) (identOf r)"
  using identOf_inject [of l r] by (auto simp: compareParts_def Atoi_plain identOf_def three_way_def)

lemma three_way_simps [simp]:
  "three_way x x = 0" "three_way (x # xs) (y # ys) = (if x = y then three_way xs ys else three_way x y)"
  "three_way [] (y # ys) = -1" "three_way (x # xs) [] = 1"
  by (auto simp: three_way_def)

lemma comparePreParts_three_way:
  assumes "list_all plainIdent ls" "list_all plainIdent rs"
  shows "comparePreParts ls rs = three_way (map identOf ls) (map identOf rs)"
  using assms
proof (induction ls rs rule: comparePreParts.induct)
  case (4 l ls r rs)
  then show ?case using compareParts_three_way [of l r] identOf_inject [of l r] by auto
qed auto

lemma compareNumbers_three_way: "compareNumbers x y = three_way x y"
  by (cases x; cases y) (auto simp: compareNumbers_def three_way_def less_prod_def)

lemma three_way_prod: "three_way (a, b) (c, d) = (if three_way a c \<noteq> 0 then three_way a c else three_way b d)"
  by (auto simp: three_way_def less_prod_def)

lemma three_way_0: "three_way x y = 0 \<longleftrightarrow> x = y"
  by (auto simp: three_way_def)

text \<open>C25. The comparison by which the Core offers updates is the precedence of Semantic Versioning on these versions: both
  parse, and every identifier of their pre-releases is one that the standard allows (not empty, a number without leading
  zeros), no number is 2^63 or more, and no text is a hyphen followed by digits. For them \<open>compareVersions\<close> is the three-way comparison
  in the linear order of major, minor, patch, release after pre-release, and the list of identifiers, where a number comes
  before a text, numbers are compared as numbers and texts byte by byte, and a list comes before its extensions.\<close>

theorem compareVersions_precedence:
  assumes "parseVersion left = Some l" "parseVersion right = Some r" "plainVersion l" "plainVersion r"
  shows "compareVersions left right = three_way (precedence l) (precedence r)"
proof (cases "pv_pre l = [] \<or> pv_pre r = []")
  case True
  then show ?thesis
    using assms by (auto simp: compareVersions_def Let_def precedence_def compareNumbers_three_way three_way_prod three_way_0)
      (auto simp: three_way_def)
next
  case False
  let ?ls = "Split (CHR ''.'') (pv_pre l)" and ?rs = "Split (CHR ''.'') (pv_pre r)"
  have pl: "list_all plainIdent ?ls" "list_all plainIdent ?rs" using assms(3,4) False by (auto simp: plainVersion_def)
  have "three_way (map identOf ?ls) (map identOf ?rs) = 0" if "pv_pre l = pv_pre r" using that by simp
  then show ?thesis
    using assms(1,2) False comparePreParts_three_way [OF pl]
    by (auto simp: compareVersions_def Let_def precedence_def compareNumbers_three_way three_way_prod three_way_0 comparePrerelease_def)
qed

theorem compareVersions_precedence_witness:
  "compareVersions ''v1.2.0-rc.2'' ''1.2.0-rc.10'' = -1"
proof -
  let ?l = "\<lparr>pv_numbers = (1, 2, 0), pv_pre = ''rc.2''\<rparr>" and ?r = "\<lparr>pv_numbers = (1, 2, 0), pv_pre = ''rc.10''\<rparr>"
  have "parseVersion ''v1.2.0-rc.2'' = Some ?l" "parseVersion ''1.2.0-rc.10'' = Some ?r" by code_simp+
  moreover have "plainVersion ?l" "plainVersion ?r"
    by (simp_all add: plainVersion_def plainIdent_def semverIdent_def numeric_def decimal_def byte_class_defs)
  ultimately have "compareVersions ''v1.2.0-rc.2'' ''1.2.0-rc.10'' = three_way (precedence ?l) (precedence ?r)"
    by (rule compareVersions_precedence)
  also have "\<dots> = -1"
    by (simp add: precedence_def three_way_prod identOf_def numeric_def decimal_def byte_class_defs) (simp add: three_way_def)
  finally show ?thesis .
qed

text \<open>The exceptions are real: for one number written in two ways each version is before the other; a hyphen with digits counts as
  a negative number, below zero, where the standard has a text, above it; and numbers beyond 64 bits are compared as texts.\<close>

lemma compareVersions_deviations:
  "compareVersions ''1.0.0-01'' ''1.0.0-1'' = -1" "compareVersions ''1.0.0-1'' ''1.0.0-01'' = -1"
  "compareVersions ''1.0.0--1'' ''1.0.0-0'' = -1"
  "compareVersions ''1.0.0-99999999999999999999'' ''1.0.0-100000000000000000000'' = 1"
  by code_simp+

end
