(* ===== verification/Core_Updater.thy ===== *)
theory Core_Updater
  imports Update_Engine Update_Version Agent_Filesystem
begin

text \<open>
  The Core's side of updates and backups (\<open>internal/core/updater/service.go\<close>) and the privileged
  worker behind it (\<open>cmd/cli/main.go\<close>). The Core never installs anything itself: it leaves one request
  in a file through the Agent's file manager, and the worker, started by systemd, reads the file, runs the
  operation and removes the file. The worker's backup engine is an argument.
\<close>

section \<open>The service\<close>

datatype 'e svc_error =
    AgentUnavailable
  | OnlyStable
  | RequestGitHub
  | GitHubHTTP nat
  | DecodeGitHub
  | NoStableRelease
  | MissingSigned string
  | UpToDate
  | BadTransactionID
  | BadReason
  | BadArchiveName
  | InvalidRequest
  | OperationQueued
  | AgentCall 'e
  | ReadHistory 'e
  | BadHistoryLine nat
  | WaitTimeout
  | MandatoryBackupFailed string

record latest_doc =
  ld_TagName :: string
  ld_HTMLURL :: string
  ld_PublishedAt :: int
  ld_Draft :: bool
  ld_Prerelease :: bool
  ld_Assets :: "string list"

record Status =
  st_CurrentVersion :: string
  st_CurrentCommit :: string
  st_LatestVersion :: string
  st_LatestCommit :: string
  st_UpdateAvailable :: bool
  st_ReleaseURL :: string
  st_UpdateURL :: string
  st_PublishedAt :: "int option"

record ('s, 'e) agentFiles =
  af_FileRead :: "string \<Rightarrow> ('s, 'e, string) action"
  af_FileWrite :: "string \<Rightarrow> string \<Rightarrow> 32 word \<Rightarrow> ('s, 'e, unit) action"

record Service =
  us_currentVersion :: string
  us_currentCommit :: string
  us_cached :: "Status option"
  us_cachedAt :: int

definition NewService :: "string \<Rightarrow> string \<Rightarrow> Service" where
  "NewService currentVersion currentCommit =
     \<lparr>us_currentVersion = currentVersion, us_currentCommit = currentCommit, us_cached = None, us_cachedAt = 0\<rparr>"

definition updateRequest :: string where
  "updateRequest = ''/var/lib/opendeploy/update.request''"

text \<open>The exchange with GitHub: None when the request fails, otherwise the status and the decoded body.\<close>

definition getGitHub :: "(nat \<times> latest_doc option) option \<Rightarrow> ('e svc_error, latest_doc) result" where
  "getGitHub answer =
     (case answer of None \<Rightarrow> Err RequestGitHub
      | Some (status, body) \<Rightarrow>
          if status \<noteq> 200 then Err (GitHubHTTP status)
          else (case body of None \<Rightarrow> Err DecodeGitHub | Some d \<Rightarrow> Ok d))"

text \<open>Times are in nanoseconds. \<open>order\<close> is the order in which the map of required assets is visited.\<close>

definition requiredAssets :: "string list" where
  "requiredAssets = [''release-manifest.json'', ''release-manifest.json.bundle'']"

definition svc_Check :: "(nat \<times> latest_doc option) option \<Rightarrow> string list \<Rightarrow> int \<Rightarrow> (Service, 'e svc_error, Status) action" where
  "svc_Check answer order now s =
     (case (us_cached s, now - us_cachedAt s < 60000000000) of
        (Some st, True) \<Rightarrow> (Ok st, s)
      | _ \<Rightarrow>
          (case getGitHub answer of
             Inl e \<Rightarrow> (Err e, s)
           | Inr latest \<Rightarrow>
               if ld_TagName latest = [] \<or> ld_Draft latest \<or> ld_Prerelease latest then (Err NoStableRelease, s)
               else
                 let newer = compareVersions (ld_TagName latest) (us_currentVersion s) > 0
                 in case find (\<lambda>name. name \<notin> set (ld_Assets latest) \<and> newer) order of
                      Some name \<Rightarrow> (Err (MissingSigned name), s)
                    | None \<Rightarrow>
                        let st = \<lparr>st_CurrentVersion = us_currentVersion s, st_CurrentCommit = us_currentCommit s,
                              st_LatestVersion = ld_TagName latest, st_LatestCommit = [], st_UpdateAvailable = newer,
                              st_ReleaseURL = ld_HTMLURL latest, st_UpdateURL = ld_HTMLURL latest, st_PublishedAt = Some (ld_PublishedAt latest)\<rparr>
                        in (Ok st, s\<lparr>us_cached := Some st, us_cachedAt := now\<rparr>)))"

definition newRequest :: "string \<Rightarrow> int \<Rightarrow> UpdateRequest" where
  "newRequest op now = \<lparr>ur_Schema = ''opendeploy.update-request/v1'', ur_Operation = op, ur_Tag = [], ur_TransactionID = [],
     ur_Archive = [], ur_Reason = [], ur_RequestedAt = Some now\<rparr>"

text \<open>The read is only looked at when it succeeds. \<open>enc\<close> is the JSON encoding. The two calls of the Agent are not
  protected by a lock, so that other calls may come between them.\<close>

definition checkSlot :: "('s, 'e) agentFiles \<Rightarrow> UpdateRequest \<Rightarrow> ('s, 'e svc_error, unit) action" where
  "checkSlot a request s =
     (if \<not> ValidateRequest request then (Err InvalidRequest, s)
      else (case af_FileRead a updateRequest s of
              (r, s1) \<Rightarrow>
                if (case r of Inr current \<Rightarrow> TrimSpace current \<noteq> [] | Inl _ \<Rightarrow> False) then (Err OperationQueued, s1)
                else (Ok (), s1)))"

definition storeRequest :: "('s, 'e) agentFiles \<Rightarrow> (UpdateRequest \<Rightarrow> string) \<Rightarrow> UpdateRequest \<Rightarrow> ('s, 'e svc_error, unit) action" where
  "storeRequest a enc request = wrapS AgentCall (af_FileWrite a updateRequest (enc request @ [NL]) 0x180)"

definition writeRequest :: "('s, 'e) agentFiles option \<Rightarrow> (UpdateRequest \<Rightarrow> string) \<Rightarrow> UpdateRequest \<Rightarrow> ('s, 'e svc_error, unit) action" where
  "writeRequest agent enc request =
     (case agent of None \<Rightarrow> failS AgentUnavailable
      | Some a \<Rightarrow> bindS (checkSlot a request) (\<lambda>_. storeRequest a enc request))"

text \<open>Apply works on the service and on what is behind the Agent.\<close>

definition svc_Apply ::
  "('s, 'e) agentFiles option \<Rightarrow> (UpdateRequest \<Rightarrow> string) \<Rightarrow> (nat \<times> latest_doc option) option \<Rightarrow> string list \<Rightarrow> int \<Rightarrow> string \<Rightarrow>
   (Service \<times> 's, 'e svc_error, unit) action" where
  "svc_Apply agent enc answer order now updateType = (\<lambda>(svc, s).
     if Option.is_none agent then (Err AgentUnavailable, svc, s)
     else if updateType \<noteq> [] \<and> updateType \<noteq> ''release'' \<and> updateType \<noteq> ''stable'' then (Err OnlyStable, svc, s)
     else case svc_Check answer order now svc of
       (Inl e, svc') \<Rightarrow> (Err e, svc', s)
     | (Inr st, svc') \<Rightarrow>
         if \<not> st_UpdateAvailable st then (Err UpToDate, svc', s)
         else (case writeRequest agent enc ((newRequest ''apply'' now)\<lparr>ur_Tag := st_LatestVersion st\<rparr>) s of
                 (r, s') \<Rightarrow> (r, svc', s')))"

definition svc_Rollback :: "('s, 'e) agentFiles option \<Rightarrow> (UpdateRequest \<Rightarrow> string) \<Rightarrow> int \<Rightarrow> string \<Rightarrow> ('s, 'e svc_error, unit) action" where
  "svc_Rollback agent enc now transactionID =
     bindS (guardS (Option.is_none agent) AgentUnavailable) (\<lambda>_.
     bindS (guardS (ContainsAny transactionID [SLASH, BACKSLASH, NUL, CR, NL] \<or> length transactionID > 128) BadTransactionID) (\<lambda>_.
     writeRequest agent enc ((newRequest ''rollback'' now)\<lparr>ur_TransactionID := transactionID\<rparr>)))"

definition svc_CreateBackup :: "('s, 'e) agentFiles option \<Rightarrow> (UpdateRequest \<Rightarrow> string) \<Rightarrow> int \<Rightarrow> string \<Rightarrow> ('s, 'e svc_error, unit) action" where
  "svc_CreateBackup agent enc now reason =
     bindS (guardS (length reason > 128 \<or> ContainsAny reason [NUL, CR, NL]) BadReason) (\<lambda>_.
     writeRequest agent enc ((newRequest ''backup'' now)\<lparr>ur_Reason := reason\<rparr>))"

definition svc_RestoreBackup :: "('s, 'e) agentFiles option \<Rightarrow> (UpdateRequest \<Rightarrow> string) \<Rightarrow> int \<Rightarrow> string \<Rightarrow> ('s, 'e svc_error, unit) action" where
  "svc_RestoreBackup agent enc now archive =
     (let request = (newRequest ''restore'' now)\<lparr>ur_Archive := archive\<rparr>
      in bindS (guardS (\<not> ValidateRequest request) BadArchiveName) (\<lambda>_. writeRequest agent enc request))"

section \<open>Histories\<close>

fun jsonLines :: "(string \<Rightarrow> 'h option) \<Rightarrow> nat \<Rightarrow> string list \<Rightarrow> ('e svc_error, 'h list) result" where
  "jsonLines dec index [] = Ok []"
| "jsonLines dec index (line # rest) =
     (if TrimSpace line = [] then jsonLines dec (Suc index) rest
      else case dec line of None \<Rightarrow> Err (BadHistoryLine (Suc index))
           | Some h \<Rightarrow> andThen (jsonLines dec (Suc index) rest) (\<lambda>hs. Ok (h # hs)))"

definition readLines :: "('s, 'e) agentFiles option \<Rightarrow> (string \<Rightarrow> 'h option) \<Rightarrow> string \<Rightarrow> ('s, 'e svc_error, 'h list) action" where
  "readLines agent dec path =
     (case agent of None \<Rightarrow> failS AgentUnavailable
      | Some a \<Rightarrow> bindS (wrapS ReadHistory (af_FileRead a path)) (\<lambda>data. liftS (jsonLines dec 0 (Split NL (TrimSpace data)))))"

definition svc_History :: "('s, 'e) agentFiles option \<Rightarrow> (string \<Rightarrow> HistoryEntry option) \<Rightarrow> ('s, 'e svc_error, HistoryEntry list) action" where
  "svc_History agent dec = readLines agent dec ''/var/lib/opendeploy/updates/history.jsonl''"

record Operation =
  bo_ID :: string
  bo_Type :: string
  bo_BackupID :: string
  bo_Archive :: string
  bo_Reason :: string
  bo_Status :: string
  bo_StartedAt :: int
  bo_FinishedAt :: int
  bo_Error :: string

definition svc_BackupHistory :: "('s, 'e) agentFiles option \<Rightarrow> (string \<Rightarrow> Operation option) \<Rightarrow> ('s, 'e svc_error, Operation list) action" where
  "svc_BackupHistory agent dec = readLines agent dec ''/var/lib/opendeploy/backup-state/history.jsonl''"

text \<open>The ticks of the wait loop: at each the history is read in the state the host is in then; the list
  ends with the timeout.\<close>

definition awaited :: "string \<Rightarrow> int \<Rightarrow> Operation \<Rightarrow> bool" where
  "awaited reason requestedAt entry = (bo_Type entry = ''create'' \<and> bo_Reason entry = reason \<and> \<not> bo_StartedAt entry < requestedAt)"

fun waitBackup :: "('s \<Rightarrow> ('e svc_error, Operation list) result) \<Rightarrow> string \<Rightarrow> int \<Rightarrow> 's list \<Rightarrow> ('e svc_error, unit) result" where
  "waitBackup history reason requestedAt [] = Err WaitTimeout"
| "waitBackup history reason requestedAt (s # ticks) =
     (case history s of Inl e \<Rightarrow> waitBackup history reason requestedAt ticks
      | Inr entries \<Rightarrow>
          (case find (awaited reason requestedAt) (rev entries) of
             None \<Rightarrow> waitBackup history reason requestedAt ticks
           | Some entry \<Rightarrow> if bo_Status entry \<noteq> ''succeeded'' then Err (MandatoryBackupFailed (bo_Error entry)) else Ok ()))"

definition svc_CreateBackupAndWait ::
  "('s, 'e) agentFiles option \<Rightarrow> (UpdateRequest \<Rightarrow> string) \<Rightarrow> (string \<Rightarrow> Operation option) \<Rightarrow> int \<Rightarrow> string \<Rightarrow> 's list \<Rightarrow> ('s, 'e svc_error, unit) action" where
  "svc_CreateBackupAndWait agent enc dec now reason ticks =
     bindS (svc_CreateBackup agent enc now reason) (\<lambda>_.
     liftS (waitBackup (\<lambda>s. fst (svc_BackupHistory agent dec s)) reason now ticks))"

section \<open>The worker\<close>

record 's cli_ops =
  co_Rollback :: "string \<Rightarrow> 's \<Rightarrow> bool \<times> 's"
  co_Backup :: "string \<Rightarrow> 's \<Rightarrow> bool \<times> 's"
  co_Restore :: "string \<Rightarrow> 's \<Rightarrow> bool \<times> 's"
  co_Apply :: "string \<Rightarrow> 's \<Rightarrow> bool \<times> 's"

text \<open>The update engine's operations with the release the worker is; the backup engine's are given.\<close>

definition engineOps ::
  "upd_env \<Rightarrow> Config \<Rightarrow> string \<Rightarrow> (string \<Rightarrow> os \<Rightarrow> bool \<times> os) \<Rightarrow> (string \<Rightarrow> os \<Rightarrow> bool \<times> os) \<Rightarrow> os cli_ops" where
  "engineOps env cfg version create unpack =
     \<lparr>co_Rollback = (\<lambda>tid s. case eng_Rollback env cfg tid s of ((_, err), s') \<Rightarrow> (err = None, s')),
      co_Backup = create, co_Restore = unpack,
      co_Apply = (\<lambda>tag s. case eng_Apply env cfg tag version s of ((_, err), s') \<Rightarrow> (err = None, s'))\<rparr>"

text \<open>The configuration and the verifier by the environment variables (empty when unset).\<close>

definition updateVerifier :: "string \<Rightarrow> string \<Rightarrow> Config \<times> (SigstoreVerifier + GPGVerifier)" where
  "updateVerifier cosignPath keyring =
     (if keyring \<noteq> [] then (DefaultConfig\<lparr>cf_Signature := ''release-manifest.json.asc''\<rparr>, Inr \<lparr>gv_GPGPath = [], gv_Keyring = keyring\<rparr>)
      else (DefaultConfig, Inl (if cosignPath \<noteq> [] then DefaultSigstoreVerifier\<lparr>sv_CosignPath := cosignPath\<rparr> else DefaultSigstoreVerifier)))"

definition cli_execute :: "'s cli_ops \<Rightarrow> UpdateRequest \<Rightarrow> 's \<Rightarrow> bool \<times> 's" where
  "cli_execute ops request =
     (if ur_Operation request = ''rollback'' then co_Rollback ops (ur_TransactionID request)
      else if ur_Operation request = ''backup'' then co_Backup ops (ur_Reason request)
      else if ur_Operation request = ''restore'' then co_Restore ops (PathJoin [''/var/lib/opendeploy/backups'', ur_Archive request])
      else co_Apply ops (ur_Tag request))"

datatype 'f served = ReadRequestFailed 'f | MalformedRequest | Executed UpdateRequest bool

definition pickRequest :: "('s, 'f, string) action \<Rightarrow> (string \<Rightarrow> UpdateRequest option) \<Rightarrow> ('s, 'f served, UpdateRequest) action" where
  "pickRequest readFile dec s =
     (case readFile s of
        (Inl e, s1) \<Rightarrow> (Err (ReadRequestFailed e), s1)
      | (Inr data, s1) \<Rightarrow>
          (case dec data of None \<Rightarrow> (Err MalformedRequest, s1)
           | Some request \<Rightarrow> if \<not> ValidateRequest request then (Err MalformedRequest, s1) else (Ok request, s1)))"

definition serveRequest :: "('s, 'f, string) action \<Rightarrow> ('s \<Rightarrow> 's) \<Rightarrow> 's cli_ops \<Rightarrow> (string \<Rightarrow> UpdateRequest option) \<Rightarrow> 's \<Rightarrow> 'f served \<times> 's" where
  "serveRequest readFile removeRequest ops dec s =
     (case pickRequest readFile dec s of
        (Inl x, s1) \<Rightarrow> (x, s1)
      | (Inr request, s1) \<Rightarrow> (case cli_execute ops request s1 of (ok, s2) \<Rightarrow> (Executed request ok, removeRequest s2)))"

definition runUpdateApply :: "os cli_ops \<Rightarrow> (string \<Rightarrow> UpdateRequest option) \<Rightarrow> os \<Rightarrow> os_error served \<times> os" where
  "runUpdateApply = serveRequest (os_ReadFile (path_comps updateRequest)) (os_RemoveFile (path_comps updateRequest))"

section \<open>The request as a queue of one place\<close>

text \<open>Calls of the Core that have passed the check but not yet written, the requests accepted (whose write has been
  reported as done), where the worker stands, the requests executed, and the host.\<close>

datatype worker_place = WorkerIdle | WorkerPicked UpdateRequest | WorkerExecuted

record 's queue =
  qu_passed :: "UpdateRequest list"
  qu_accepted :: "UpdateRequest list"
  qu_worker :: worker_place
  qu_executed :: "UpdateRequest list"
  qu_state :: 's

text \<open>Any number of calls of the Core and one worker, interleaved at their accesses to the request file.\<close>

inductive queue_step :: "('s, 'e) agentFiles \<Rightarrow> (UpdateRequest \<Rightarrow> string) \<Rightarrow> ('s, 'f, string) action \<Rightarrow> ('s \<Rightarrow> 's) \<Rightarrow>
    's cli_ops \<Rightarrow> (string \<Rightarrow> UpdateRequest option) \<Rightarrow> 's queue \<Rightarrow> 's queue \<Rightarrow> bool"
  for a enc readFile removeRequest ops dec where
  refused: "checkSlot a r (qu_state q) = (Inl e, s') \<Longrightarrow> queue_step a enc readFile removeRequest ops dec q (q\<lparr>qu_state := s'\<rparr>)"
| passed: "checkSlot a r (qu_state q) = (Inr u, s') \<Longrightarrow>
    queue_step a enc readFile removeRequest ops dec q (q\<lparr>qu_passed := qu_passed q @ [r], qu_state := s'\<rparr>)"
| written: "qu_passed q = xs @ r # ys \<Longrightarrow> storeRequest a enc r (qu_state q) = (Inr u, s') \<Longrightarrow>
    queue_step a enc readFile removeRequest ops dec q (q\<lparr>qu_passed := xs @ ys, qu_accepted := qu_accepted q @ [r], qu_state := s'\<rparr>)"
| unwritten: "qu_passed q = xs @ r # ys \<Longrightarrow> storeRequest a enc r (qu_state q) = (Inl e, s') \<Longrightarrow>
    queue_step a enc readFile removeRequest ops dec q (q\<lparr>qu_passed := xs @ ys, qu_state := s'\<rparr>)"
| idle: "qu_worker q = WorkerIdle \<Longrightarrow> pickRequest readFile dec (qu_state q) = (Inl x, s') \<Longrightarrow>
    queue_step a enc readFile removeRequest ops dec q (q\<lparr>qu_state := s'\<rparr>)"
| picked: "qu_worker q = WorkerIdle \<Longrightarrow> pickRequest readFile dec (qu_state q) = (Inr r, s') \<Longrightarrow>
    queue_step a enc readFile removeRequest ops dec q (q\<lparr>qu_worker := WorkerPicked r, qu_state := s'\<rparr>)"
| executed: "qu_worker q = WorkerPicked r \<Longrightarrow> cli_execute ops r (qu_state q) = (ok, s') \<Longrightarrow>
    queue_step a enc readFile removeRequest ops dec q (q\<lparr>qu_worker := WorkerExecuted, qu_executed := qu_executed q @ [r], qu_state := s'\<rparr>)"
| removed: "qu_worker q = WorkerExecuted \<Longrightarrow>
    queue_step a enc readFile removeRequest ops dec q (q\<lparr>qu_worker := WorkerIdle, qu_state := removeRequest (qu_state q)\<rparr>)"

text \<open>The Core makes one such call at a time.\<close>

definition serial_step :: "('s, 'e) agentFiles \<Rightarrow> (UpdateRequest \<Rightarrow> string) \<Rightarrow> ('s, 'f, string) action \<Rightarrow> ('s \<Rightarrow> 's) \<Rightarrow>
    's cli_ops \<Rightarrow> (string \<Rightarrow> UpdateRequest option) \<Rightarrow> 's queue \<Rightarrow> 's queue \<Rightarrow> bool" where
  "serial_step a enc readFile removeRequest ops dec q q' = (queue_step a enc readFile removeRequest ops dec q q' \<and> length (qu_passed q') \<le> 1)"

definition queueStart :: "'s \<Rightarrow> 's queue" where
  "queueStart s = \<lparr>qu_passed = [], qu_accepted = [], qu_worker = WorkerIdle, qu_executed = [], qu_state = s\<rparr>"

text \<open>A file store whose request file the worker reads and removes directly.\<close>

locale request_slot = file_store fread fwrite fdelete dom inv content
  for fread :: "string \<Rightarrow> ('s, 'e, string) action" and fwrite :: "string \<Rightarrow> string \<Rightarrow> ('s, 'e, unit) action"
    and fdelete :: "string \<Rightarrow> ('s, 'e, unit) action" and dom :: "string \<Rightarrow> bool" and inv :: "'s \<Rightarrow> bool"
    and content :: "'s \<Rightarrow> string \<Rightarrow> string option" +
  fixes readFile :: "('s, 'f, string) action" and removeRequest :: "'s \<Rightarrow> 's"
  assumes slot_dom: "dom updateRequest"
    and readFile_Some: "inv s \<Longrightarrow> content s updateRequest = Some c \<Longrightarrow> readFile s = (Ok c, s)"
    and readFile_None: "inv s \<Longrightarrow> content s updateRequest = None \<Longrightarrow> \<exists>e. readFile s = (Err e, s)"
    and remove_law: "inv s \<Longrightarrow> content s updateRequest \<noteq> None \<Longrightarrow> inv (removeRequest s) \<and> content (removeRequest s) updateRequest = None"
begin

lemma checkSlot_slot:
  assumes "af_FileRead a = fread" "inv s"
  shows "checkSlot a r s =
    (if \<not> ValidateRequest r then Err InvalidRequest
     else if (case content s updateRequest of Some c \<Rightarrow> TrimSpace c \<noteq> [] | None \<Rightarrow> False) then Err OperationQueued else Ok (), s)"
  using assms read_None [OF assms(2) slot_dom] read_Some [OF assms(2) slot_dom]
  by (cases "content s updateRequest") (auto simp: checkSlot_def)

lemma storeRequest_slot:
  assumes "\<And>p c. af_FileWrite a p c 0x180 = fwrite p c" "inv s"
  obtains s' where "storeRequest a enc r s = (Ok (), s')" "inv s'" "content s' updateRequest = Some (enc r @ [NL])"
proof -
  obtain s' where "fwrite updateRequest (enc r @ [NL]) s = (Ok (), s')" "inv s'" "content s' updateRequest = Some (enc r @ [NL])"
    by (rule writeE [OF assms(2) slot_dom])
  then show thesis using that assms(1) by (simp add: storeRequest_def wrapS_def)
qed

lemma pickRequest_slot:
  assumes "inv s"
  shows "content s updateRequest = None \<Longrightarrow> \<exists>e. pickRequest readFile dec s = (Err (ReadRequestFailed e), s)"
    and "content s updateRequest = Some c \<Longrightarrow> dec c = Some r \<Longrightarrow> ValidateRequest r \<Longrightarrow> pickRequest readFile dec s = (Ok r, s)"
  using readFile_None [OF assms] readFile_Some [OF assms] by (auto simp: pickRequest_def)

definition one_pending :: "(UpdateRequest \<Rightarrow> string) \<Rightarrow> 's queue \<Rightarrow> bool" where
  "one_pending enc q =
     (inv (qu_state q) \<and> length (qu_passed q) \<le> 1 \<and> list_all ValidateRequest (qu_passed q) \<and>
      (let pending = (\<lambda>r. ValidateRequest r \<and> content (qu_state q) updateRequest = Some (enc r @ [NL]) \<and> qu_passed q = [])
       in case qu_worker q of
            WorkerIdle \<Rightarrow> qu_accepted q = qu_executed q \<and> content (qu_state q) updateRequest = None \<or>
              (\<exists>r. qu_accepted q = qu_executed q @ [r] \<and> pending r)
          | WorkerPicked r \<Rightarrow> qu_accepted q = qu_executed q @ [r] \<and> pending r
          | WorkerExecuted \<Rightarrow> qu_accepted q = qu_executed q \<and> (\<exists>r. pending r)))"

lemma one_pending_step:
  assumes a: "af_FileRead a = fread" "\<And>p c. af_FileWrite a p c 0x180 = fwrite p c"
    and codec: "\<And>r. ValidateRequest r \<Longrightarrow> dec (enc r @ [NL]) = Some r \<and> TrimSpace (enc r @ [NL]) \<noteq> []"
    and frame: "\<And>r s. inv s \<Longrightarrow> inv (snd (cli_execute ops r s)) \<and> content (snd (cli_execute ops r s)) updateRequest = content s updateRequest"
    and st: "serial_step a enc readFile removeRequest ops dec q q'" and pend: "one_pending enc q"
  shows "one_pending enc q'"
proof -
  have inv: "inv (qu_state q)" and len: "length (qu_passed q') \<le> 1"
    using pend st by (simp_all add: one_pending_def serial_step_def)
  note chk = checkSlot_slot [OF a(1) inv] and pick = pickRequest_slot [OF inv, where dec = dec]
  from st have "queue_step a enc readFile removeRequest ops dec q q'" by (simp add: serial_step_def)
  then show ?thesis
  proof cases
    case (passed r u s')
    then have "ValidateRequest r" "s' = qu_state q" "\<And>c. content (qu_state q) updateRequest = Some c \<Longrightarrow> TrimSpace c = []"
      using chk [of r] by (auto split: if_splits)
    moreover have "qu_passed q = []" using len passed by (cases "qu_passed q") auto
    ultimately show ?thesis using pend passed codec by (auto simp: one_pending_def Let_def split: worker_place.splits)
  next
    case (written xs r ys u s')
    then have l: "qu_passed q = [r]" using pend by (cases xs; cases ys) (auto simp: one_pending_def)
    obtain s1 where "storeRequest a enc r (qu_state q) = (Ok (), s1)" "inv s1" "content s1 updateRequest = Some (enc r @ [NL])"
      by (rule storeRequest_slot [OF a(2) inv])
    then show ?thesis using pend written l by (auto simp: one_pending_def Let_def split: worker_place.splits)
  next
    case (unwritten xs r ys e s')
    obtain s1 where "storeRequest a enc r (qu_state q) = (Ok (), s1)" by (rule storeRequest_slot [OF a(2) inv])
    then show ?thesis using unwritten by simp
  next
    case (executed r ok s')
    then have "inv s'" "content s' updateRequest = content (qu_state q) updateRequest" using frame [OF inv, of r] by auto
    then show ?thesis using pend executed by (auto simp: one_pending_def Let_def)
  next
    case removed
    then have "inv (removeRequest (qu_state q)) \<and> content (removeRequest (qu_state q)) updateRequest = None"
      using remove_law [OF inv] pend by (auto simp: one_pending_def Let_def)
    then show ?thesis using pend removed by (auto simp: one_pending_def Let_def)
  next
    case (refused r e s')
    then have "q' = q" using chk [of r] by (cases q) simp
    then show ?thesis using pend by simp
  next
    case (idle x s')
    have "content (qu_state q) updateRequest = None"
    proof (rule ccontr)
      assume "content (qu_state q) updateRequest \<noteq> None"
      then obtain r where "ValidateRequest r" "content (qu_state q) updateRequest = Some (enc r @ [NL])"
        using pend idle(2) by (auto simp: one_pending_def Let_def)
      then show False using pick(2) codec idle(3) by force
    qed
    then have "q' = q" using idle pick(1) by (cases q) auto
    then show ?thesis using pend by simp
  next
    case (picked r s')
    then have "content (qu_state q) updateRequest \<noteq> None" using pick(1) by force
    then obtain r' where r': "qu_accepted q = qu_executed q @ [r']" "ValidateRequest r'"
      "content (qu_state q) updateRequest = Some (enc r' @ [NL])" "qu_passed q = []"
      using pend picked(2) by (auto simp: one_pending_def Let_def)
    then have "r = r'" "s' = qu_state q" using pick(2) [OF r'(3)] codec [OF r'(2)] picked(3) by auto
    then show ?thesis using pend picked r' by (auto simp: one_pending_def Let_def)
  qed
qed

lemma one_pending_reachable:
  assumes a: "af_FileRead a = fread" "\<And>p c. af_FileWrite a p c 0x180 = fwrite p c"
    and codec: "\<And>r. ValidateRequest r \<Longrightarrow> dec (enc r @ [NL]) = Some r \<and> TrimSpace (enc r @ [NL]) \<noteq> []"
    and frame: "\<And>r s. inv s \<Longrightarrow> inv (snd (cli_execute ops r s)) \<and> content (snd (cli_execute ops r s)) updateRequest = content s updateRequest"
    and run: "(serial_step a enc readFile removeRequest ops dec)\<^sup>*\<^sup>* q q'" and pend: "one_pending enc q"
  shows "one_pending enc q'"
  using run pend by (induction) (use one_pending_step [OF a codec frame] in blast)+

lemma serve_pending:
  assumes "dec (enc r @ [NL]) = Some r" "inv s" "ValidateRequest r" "content s updateRequest = Some (enc r @ [NL])"
    and frame: "\<And>r s. inv s \<Longrightarrow> inv (snd (cli_execute ops r s)) \<and> content (snd (cli_execute ops r s)) updateRequest = content s updateRequest"
  shows "\<exists>ok s'. serveRequest readFile removeRequest ops dec s = (Executed r ok, s') \<and> inv s' \<and> content s' updateRequest = None"
proof -
  obtain ok s2 where x: "cli_execute ops r s = (ok, s2)" by fastforce
  then have "inv s2" "content s2 updateRequest = Some (enc r @ [NL])" using frame [OF assms(2), of r] assms(4) by auto
  then have "inv (removeRequest s2) \<and> content (removeRequest s2) updateRequest = None" using remove_law by simp
  moreover have "pickRequest readFile dec s = (Ok r, s)"
    using pickRequest_slot(2) [where dec = dec and c = "enc r @ [NL]", OF assms(2,4,1,3)] .
  ultimately show ?thesis using x by (simp add: serveRequest_def)
qed

text \<open>Two calls of the Core that both check before either writes.\<close>

lemma overlap_loses:
  assumes a: "af_FileRead a = fread" "\<And>p c. af_FileWrite a p c 0x180 = fwrite p c"
    and codec: "\<And>r. ValidateRequest r \<Longrightarrow> dec (enc r @ [NL]) = Some r"
    and frame: "\<And>r s. inv s \<Longrightarrow> inv (snd (cli_execute ops r s)) \<and> content (snd (cli_execute ops r s)) updateRequest = content s updateRequest"
    and s: "inv s" "content s updateRequest = None" and r: "ValidateRequest r1" "ValidateRequest r2"
  shows "\<exists>s'. (queue_step a enc readFile removeRequest ops dec)\<^sup>*\<^sup>* (queueStart s)
      \<lparr>qu_passed = [], qu_accepted = [r1, r2], qu_worker = WorkerIdle, qu_executed = [r2], qu_state = s'\<rparr> \<and>
    inv s' \<and> content s' updateRequest = None"
proof -
  let ?step = "queue_step a enc readFile removeRequest ops dec"
  let ?q = "\<lambda>p acc w ex t. \<lparr>qu_passed = p, qu_accepted = acc, qu_worker = w, qu_executed = ex, qu_state = t\<rparr>"
  have chk: "checkSlot a x s = (Ok (), s)" if "ValidateRequest x" for x using checkSlot_slot [OF a(1) s(1)] that s(2) by simp
  obtain s1 where s1: "storeRequest a enc r1 s = (Ok (), s1)" "inv s1" by (rule storeRequest_slot [OF a(2) s(1)])
  obtain s2 where s2: "storeRequest a enc r2 s1 = (Ok (), s2)" "inv s2" "content s2 updateRequest = Some (enc r2 @ [NL])"
    by (rule storeRequest_slot [OF a(2) s1(2)])
  have pick: "pickRequest readFile dec s2 = (Ok r2, s2)"
    using pickRequest_slot(2) [where dec = dec and c = "enc r2 @ [NL]", OF s2(2,3) codec [OF r(2)] r(2)] .
  obtain ok s3 where x: "cli_execute ops r2 s2 = (ok, s3)" by fastforce
  then have s3: "inv s3" "content s3 updateRequest \<noteq> None" using frame [OF s2(2), of r2] s2(3) by auto
  note rtranclp.rtrancl_into_rtrancl [trans]
  have "?step\<^sup>*\<^sup>* (queueStart s) (queueStart s)" by simp
  also have "?step (queueStart s) (?q [r1] [] WorkerIdle [] s)" using queue_step.passed [of a r1 "queueStart s" "()" s enc readFile removeRequest ops dec] chk [OF r(1)] by (simp add: queueStart_def)
  also have "?step (?q [r1] [] WorkerIdle [] s) (?q [r1, r2] [] WorkerIdle [] s)"
    using queue_step.passed [of a r2 "?q [r1] [] WorkerIdle [] s" "()" s enc readFile removeRequest ops dec] chk [OF r(2)] by simp
  also have "?step (?q [r1, r2] [] WorkerIdle [] s) (?q [r2] [r1] WorkerIdle [] s1)"
    using queue_step.written [of "?q [r1, r2] [] WorkerIdle [] s" "[]" r1 "[r2]" a enc "()" s1 readFile removeRequest ops dec] s1 by simp
  also have "?step (?q [r2] [r1] WorkerIdle [] s1) (?q [] [r1, r2] WorkerIdle [] s2)"
    using queue_step.written [of "?q [r2] [r1] WorkerIdle [] s1" "[]" r2 "[]" a enc "()" s2 readFile removeRequest ops dec] s2 by simp
  also have "?step (?q [] [r1, r2] WorkerIdle [] s2) (?q [] [r1, r2] (WorkerPicked r2) [] s2)"
    using queue_step.picked [of "?q [] [r1, r2] WorkerIdle [] s2" readFile dec r2 s2 a enc removeRequest ops] pick by simp
  also have "?step (?q [] [r1, r2] (WorkerPicked r2) [] s2) (?q [] [r1, r2] WorkerExecuted [r2] s3)"
    using queue_step.executed [of "?q [] [r1, r2] (WorkerPicked r2) [] s2" r2 ops ok s3 a enc readFile removeRequest dec] x by simp
  also have "?step (?q [] [r1, r2] WorkerExecuted [r2] s3) (?q [] [r1, r2] WorkerIdle [r2] (removeRequest s3))"
    using queue_step.removed [of "?q [] [r1, r2] WorkerExecuted [r2] s3" a enc readFile removeRequest ops dec] by simp
  finally have "?step\<^sup>*\<^sup>* (queueStart s) (?q [] [r1, r2] WorkerIdle [r2] (removeRequest s3))" .
  then show ?thesis using remove_law [OF s3] by blast
qed

end


section \<open>The queue on the Agent's file manager\<close>

abbreviation slotDirs :: "path list" where
  "slotDirs \<equiv> [[''var'', ''lib'', ''opendeploy'']]"

abbreviation slotName :: "string \<Rightarrow> bool" where
  "slotName \<equiv> (\<lambda>x. x = ''update.request'')"

definition agentFilesOf :: "Manager \<Rightarrow> string \<Rightarrow> (os, fs_error) agentFiles" where
  "agentFilesOf m rnd = \<lparr>af_FileRead = fs_Read m, af_FileWrite = fs_Write m rnd\<rparr>"

lemma slot_path: "path_comps updateRequest = [''var'', ''lib'', ''opendeploy'', ''update.request'']"
  by code_simp

lemma slot_store_dom: "store_dom slotDirs slotName updateRequest"
proof -
  have "updateRequest = abs_path [''var'', ''lib'', ''opendeploy'', ''update.request'']" "\<not> Contains updateRequest ''..''" by code_simp+
  then show ?thesis by (simp add: store_dom_def Let_def slot_path)
qed

interpretation requests: request_slot "fs_Read m" "\<lambda>p c. fs_Write m rnd p c 0x180" "fs_Delete m"
    "store_dom slotDirs slotName" "store_inv m slotDirs slotName rnd" file_content
    "os_ReadFile (path_comps updateRequest)" "os_RemoveFile (path_comps updateRequest)"
  for m rnd
proof (intro request_slot.intro agent_file_store request_slot_axioms.intro)
  show "validateMode 0x180 = Ok ()" by (simp add: validateMode_def Perm_def)
  show "store_dom slotDirs slotName updateRequest" by (rule slot_store_dom)
next
  fix s c
  assume inv: "store_inv m slotDirs slotName rnd s"
  let ?p = "path_comps updateRequest"
  have q: "os_wf s" "faults s = []" "\<not> is_link s ?p" "\<not> is_dir s ?p"
    using inv by (simp_all add: store_inv_def slot_path)
  then have node: "nodes s ?p = None \<or> (\<exists>d mt. nodes s ?p = Some (FileN d mt))"
    by (auto simp: is_link_def is_dir_def is_dir_node_def split: option.splits node.splits)
  show "file_content s updateRequest = Some c \<Longrightarrow> os_ReadFile ?p s = (Ok c, s)"
    using q by (auto simp: os_ReadFile_def sys_quiet file_content_def split: option.splits node.splits)
  show "file_content s updateRequest = None \<Longrightarrow> \<exists>e. os_ReadFile ?p s = (Err e, s)"
    using q node by (auto simp: os_ReadFile_def sys_quiet file_content_def)
  assume "file_content s updateRequest \<noteq> None"
  then obtain d mt where f: "nodes s ?p = Some (FileN d mt)" using node by (auto simp: file_content_def)
  then have r: "os_RemoveFile ?p s = drop_nodes (\<lambda>x. x = ?p) s" using q by (simp add: os_RemoveFile_def os_Remove_def sys_quiet)
  then have n: "nodes (os_RemoveFile ?p s) = (nodes s)([''var'', ''lib'', ''opendeploy''] @ [''update.request''] := None)"
    by (auto simp: fun_eq_iff slot_path)
  have "os_wf (os_RemoveFile ?p s)"
    using keepsD [OF wf_Remove prod.collapse [symmetric]] q(1) by (simp add: os_RemoveFile_def wf_step_def)
  moreover have "faults (os_RemoveFile ?p s) = []" using r q by (simp add: drop_nodes_def)
  ultimately have "store_inv m slotDirs slotName rnd (os_RemoveFile ?p s)"
    using store_inv_update [OF inv _ _ _ _ n] by simp
  then show "store_inv m slotDirs slotName rnd (os_RemoveFile ?p s) \<and> file_content (os_RemoveFile ?p s) updateRequest = None"
    using n by (simp add: file_content_def slot_path)
qed

text \<open>C23. As long as the Core makes one call at a time, requests to the privileged worker are neither lost nor repeated. However the
  accesses of its calls and of the worker to the request file follow each other, the requests executed are exactly the
  requests accepted, in their order, except for at most one; that one is what the request file holds, it is valid, a run of an
  idle worker executes it and frees the place, and while it is there every further request is refused. Assumed are
  that no system call fails and no symbolic link is on the way to the file, that the JSON codec returns what was encoded, and
  that the operations the worker executes leave the request file alone.\<close>

theorem requests_executed_once_in_order:
  assumes "store_inv m slotDirs slotName rnd s0" "file_content s0 updateRequest = None"
    and "\<forall>r. ValidateRequest r \<longrightarrow> dec (enc r @ [NL]) = Some r \<and> TrimSpace (enc r @ [NL]) \<noteq> []"
    and "\<forall>r s. store_inv m slotDirs slotName rnd s \<longrightarrow> store_inv m slotDirs slotName rnd (snd (cli_execute ops r s)) \<and>
      file_content (snd (cli_execute ops r s)) updateRequest = file_content s updateRequest"
    and "(serial_step (agentFilesOf m rnd) enc (os_ReadFile (path_comps updateRequest)) (os_RemoveFile (path_comps updateRequest)) ops dec)\<^sup>*\<^sup>*
      (queueStart s0) q"
  shows "qu_accepted q = qu_executed q \<or>
    (\<exists>r. qu_accepted q = qu_executed q @ [r] \<and> ValidateRequest r \<and> file_content (qu_state q) updateRequest = Some (enc r @ [NL]) \<and>
       (\<exists>ok s'. runUpdateApply ops dec (qu_state q) = (Executed r ok, s') \<and> file_content s' updateRequest = None) \<and>
       (\<forall>r'. ValidateRequest r' \<longrightarrow> fst (writeRequest (Some (agentFilesOf m rnd)) enc r' (qu_state q)) = Err OperationQueued))"
proof -
  let ?a = "agentFilesOf m rnd"
  have a: "af_FileRead ?a = fs_Read m" "\<And>p c. af_FileWrite ?a p c 0x180 = fs_Write m rnd p c 0x180" by (simp_all add: agentFilesOf_def)
  have codec: "\<And>r. ValidateRequest r \<Longrightarrow> dec (enc r @ [NL]) = Some r \<and> TrimSpace (enc r @ [NL]) \<noteq> []" using assms(3) by blast
  have frame: "\<And>r s. store_inv m slotDirs slotName rnd s \<Longrightarrow> store_inv m slotDirs slotName rnd (snd (cli_execute ops r s)) \<and>
      file_content (snd (cli_execute ops r s)) updateRequest = file_content s updateRequest" using assms(4) by blast
  have "requests.one_pending m rnd enc (queueStart s0)" using assms(1,2) by (simp add: requests.one_pending_def queueStart_def)
  then have p: "requests.one_pending m rnd enc q"
    using requests.one_pending_reachable [OF a codec frame assms(5)] by blast
  then have inv: "store_inv m slotDirs slotName rnd (qu_state q)" by (simp add: requests.one_pending_def)
  have "fst (writeRequest (Some ?a) enc r' (qu_state q)) = Err OperationQueued"
    if "file_content (qu_state q) updateRequest = Some (enc r @ [NL])" "ValidateRequest r" "ValidateRequest r'" for r r'
    using that codec [of r] requests.checkSlot_slot [OF a(1) inv] by (simp add: writeRequest_def bindS_def)
  moreover have "\<exists>ok s'. runUpdateApply ops dec (qu_state q) = (Executed r ok, s') \<and> file_content s' updateRequest = None"
    if "ValidateRequest r" "file_content (qu_state q) updateRequest = Some (enc r @ [NL])" for r
    using requests.serve_pending [where dec = dec and enc = enc and ops = ops, OF conjunct1 [OF codec [OF that(1)]] inv that frame]
    unfolding runUpdateApply_def by blast
  ultimately show ?thesis using p unfolding requests.one_pending_def Let_def by (auto split: worker_place.splits)
qed

text \<open>C24. Calls of the Core that overlap can lose a request: nothing keeps a second call from checking the request file between the
  check and the write of a first one. From an empty request file, for any two valid requests, there is a course of events
  in which both calls are answered with success, the worker executes only the second request, and the file is empty again, with the first
  request gone. (No system call fails, and the codec and the operations are as before.)\<close>

theorem overlapping_calls_lose_request:
  assumes "store_inv m slotDirs slotName rnd s" "file_content s updateRequest = None"
    and "\<forall>r. ValidateRequest r \<longrightarrow> dec (enc r @ [NL]) = Some r"
    and "\<forall>r s. store_inv m slotDirs slotName rnd s \<longrightarrow> store_inv m slotDirs slotName rnd (snd (cli_execute ops r s)) \<and>
      file_content (snd (cli_execute ops r s)) updateRequest = file_content s updateRequest"
    and "ValidateRequest r1" "ValidateRequest r2"
  shows "\<exists>s'. (queue_step (agentFilesOf m rnd) enc (os_ReadFile (path_comps updateRequest)) (os_RemoveFile (path_comps updateRequest)) ops dec)\<^sup>*\<^sup>*
      (queueStart s) \<lparr>qu_passed = [], qu_accepted = [r1, r2], qu_worker = WorkerIdle, qu_executed = [r2], qu_state = s'\<rparr> \<and>
    file_content s' updateRequest = None"
proof -
  have "af_FileRead (agentFilesOf m rnd) = fs_Read m" "\<And>p c. af_FileWrite (agentFilesOf m rnd) p c 0x180 = fs_Write m rnd p c 0x180"
    by (simp_all add: agentFilesOf_def)
  from requests.overlap_loses [OF this _ _ assms(1,2,5,6)] assms(3,4) show ?thesis by blast
qed

section \<open>A sample queue\<close>

text \<open>An injective text for requests, in the place of JSON.\<close>

fun putText :: "string \<Rightarrow> string" where
  "putText [] = '';''"
| "putText (c # s) = CHR ''x'' # c # putText s"

fun getText :: "string \<Rightarrow> (string \<times> string) option" where
  "getText (t # s) =
     (if t = CHR '';'' then Some ([], s)
      else case s of [] \<Rightarrow> None | c # u \<Rightarrow> (case getText u of None \<Rightarrow> None | Some (a, v) \<Rightarrow> Some (c # a, v)))"
| "getText [] = None"

lemma getText_putText: "getText (putText s @ t) = Some (s, t)"
  by (induction s) auto

definition putTime :: "int option \<Rightarrow> string" where
  "putTime t = putText (case t of None \<Rightarrow> [] | Some i \<Rightarrow> (if i < 0 then CHR ''n'' else CHR ''p'') # replicate (nat \<bar>i\<bar>) (CHR ''1''))"

definition timeOf :: "string \<Rightarrow> int option" where
  "timeOf s = (case s of [] \<Rightarrow> None | c # u \<Rightarrow> Some (if c = CHR ''n'' then - int (length u) else int (length u)))"

definition textOf :: "UpdateRequest \<Rightarrow> string" where
  "textOf r = putText (ur_Schema r) @ putText (ur_Operation r) @ putText (ur_Tag r) @ putText (ur_TransactionID r) @
     putText (ur_Archive r) @ putText (ur_Reason r) @ putTime (ur_RequestedAt r)"

definition requestOf :: "string \<Rightarrow> UpdateRequest option" where
  "requestOf s =
     Option.bind (getText s) (\<lambda>(a, s). Option.bind (getText s) (\<lambda>(b, s). Option.bind (getText s) (\<lambda>(c, s).
     Option.bind (getText s) (\<lambda>(d, s). Option.bind (getText s) (\<lambda>(e, s). Option.bind (getText s) (\<lambda>(f, s).
     Option.bind (getText s) (\<lambda>(g, s). Some \<lparr>ur_Schema = a, ur_Operation = b, ur_Tag = c, ur_TransactionID = d,
       ur_Archive = e, ur_Reason = f, ur_RequestedAt = timeOf g\<rparr>)))))))"

lemma requestOf_textOf: "requestOf (textOf r @ t) = Some r"
proof -
  have "timeOf (case x of None \<Rightarrow> [] | Some i \<Rightarrow> (if i < 0 then CHR ''n'' else CHR ''p'') # replicate (nat \<bar>i\<bar>) (CHR ''1'')) = x" for x
    by (auto simp: timeOf_def split: option.splits)
  then show ?thesis by (simp add: requestOf_def textOf_def putTime_def getText_putText)
qed

text \<open>A text that starts with an ASCII byte other than a space is not all space.\<close>

lemma wide_bytes:
  "wide_space2 s \<Longrightarrow> 128 \<le> byte (hd s) \<and> 128 \<le> byte (last s)"
  "wide_space3 s \<Longrightarrow> 128 \<le> byte (hd s) \<and> 128 \<le> byte (last s)"
proof -
  show "wide_space2 s \<Longrightarrow> 128 \<le> byte (hd s) \<and> 128 \<le> byte (last s)" by (cases s rule: wide_space2.cases) auto
  show "wide_space3 s \<Longrightarrow> 128 \<le> byte (hd s) \<and> 128 \<le> byte (last s)"
    by (cases s rule: wide_space3.cases) (auto simp: in_range_def)
qed

lemma space_width_text: "\<not> ascii_space c \<Longrightarrow> byte c < 128 \<Longrightarrow> space_width (c # s) = 0"
  using wide_bytes(1) [of "take 2 (c # s)"] wide_bytes(2) [of "take 3 (c # s)"] by (auto simp: space_width_def)

lemma space_suffix_width_text: "\<not> ascii_space c \<Longrightarrow> byte c < 128 \<Longrightarrow> space_suffix_width (s @ [c]) = 0"
proof -
  assume c: "\<not> ascii_space c" "byte c < 128"
  have "last (drop (length (s @ [c]) - n) (s @ [c])) = c" if "0 < n" for n using that by (simp add: last_drop)
  from this [of 2] this [of 3] show ?thesis
    using c wide_bytes(1) [of "drop (length (s @ [c]) - 2) (s @ [c])"] wide_bytes(2) [of "drop (length (s @ [c]) - 3) (s @ [c])"]
    by (auto simp: space_suffix_width_def)
qed

lemma TrimSpace_line:
  assumes "\<not> ascii_space a" "byte a < 128" "\<not> ascii_space b" "byte b < 128"
  shows "TrimSpace (a # s @ [b, NL]) \<noteq> []"
proof -
  have "TrimLeftSpace (a # s @ [b, NL]) = (a # s @ [b]) @ [NL]"
    using space_width_text [OF assms(1,2)] by (subst TrimLeftSpace.simps) simp
  moreover have "space_suffix_width ((a # s @ [b]) @ [NL]) = 1" by (simp add: space_suffix_width_def ascii_space_def in_range_def)
  then have "TrimRightSpace ((a # s @ [b]) @ [NL]) = TrimRightSpace (a # s @ [b])" by (subst TrimRightSpace.simps) simp
  moreover have "TrimRightSpace (a # s @ [b]) = a # s @ [b]"
    using space_suffix_width_text [OF assms(3,4), of "a # s"] by (subst TrimRightSpace.simps) simp
  ultimately show ?thesis by (simp add: TrimSpace_def)
qed

lemma putText_ends: "putText s = butlast (putText s) @ '';''"
  by (induction s) auto

lemma textOf_not_blank:
  assumes "ValidateRequest r"
  shows "TrimSpace (textOf r @ [NL]) \<noteq> []"
proof -
  obtain u where u: "putTime (ur_RequestedAt r) = u @ '';''" using putText_ends by (metis putTime_def)
  obtain s where "textOf r @ [NL] = CHR ''x'' # s @ [CHR '';'', NL]"
    using assms by (simp add: ValidateRequest_def textOf_def u)
  then show ?thesis using TrimSpace_line [of "CHR ''x''" "CHR '';''" s] by (simp add: ascii_space_def in_range_def)
qed

definition slotManager :: Manager where
  "slotManager = \<lparr>allowedRoots = [''/var/lib/opendeploy'']\<rparr>"

definition slotOS :: os where
  "slotOS = \<lparr>tree = [([], sampleDir), ([''var''], sampleDir), ([''var'', ''lib''], sampleDir), ([''var'', ''lib'', ''opendeploy''], sampleDir)],
     umask = 0x12, faults = [], partial = 0\<rparr>"

definition idleOps :: "os cli_ops" where
  "idleOps = \<lparr>co_Rollback = (\<lambda>_ s. (True, s)), co_Backup = (\<lambda>_ s. (True, s)), co_Restore = (\<lambda>_ s. (True, s)), co_Apply = (\<lambda>_ s. (True, s))\<rparr>"

definition backupRequest :: UpdateRequest where
  "backupRequest = (newRequest ''backup'' 3)\<lparr>ur_Reason := ''daily''\<rparr>"

definition slotRun :: "(fs_error svc_error, unit) result \<times> os" where
  "slotRun = writeRequest (Some (agentFilesOf slotManager ''r'')) textOf backupRequest slotOS"

lemma slotOS_inv: "store_inv slotManager slotDirs slotName ''r'' slotOS"
proof -
  have p: "path_comps ''/var/lib/opendeploy'' = [''var'', ''lib'', ''opendeploy'']" "abs_path [''var'', ''lib'', ''opendeploy''] = ''/var/lib/opendeploy''" by code_simp+
  have "os_wf slotOS" by (rule os_wf_check) (simp_all add: slotOS_def sampleDir_def is_dir_def nodes_def is_dir_node_def)
  moreover have "link_free slotOS q" for q
    by (auto simp: link_free_def is_link_def slotOS_def nodes_def sampleDir_def split: if_splits)
  moreover have "\<not> is_link slotOS [''var'', ''lib'', ''opendeploy'', x] \<and> \<not> is_dir slotOS [''var'', ''lib'', ''opendeploy'', x] \<and>
      nodes slotOS [''var'', ''lib'', ''opendeploy'', x] = None" "is_dir slotOS [''var'', ''lib'', ''opendeploy'']" for x
    by (simp_all add: slotOS_def is_link_def is_dir_def nodes_def sampleDir_def is_dir_node_def)
  ultimately show ?thesis
    by (simp add: store_inv_def slotManager_def abs_roots_def p slotOS_def plain_comp_def)
qed

theorem requests_executed_once_in_order_witness:
  "file_content (snd slotRun) updateRequest = Some (textOf backupRequest @ [NL])"
proof -
  let ?a = "agentFilesOf slotManager ''r''" and ?rf = "os_ReadFile (path_comps updateRequest)" and ?rm = "os_RemoveFile (path_comps updateRequest)"
  let ?step = "serial_step ?a textOf ?rf ?rm idleOps requestOf"
  let ?q1 = "(queueStart slotOS)\<lparr>qu_passed := [backupRequest], qu_state := slotOS\<rparr>"
  have "ValidateRequest backupRequest" by code_simp
  moreover have none: "file_content slotOS updateRequest = None" by code_simp
  ultimately have c: "checkSlot ?a backupRequest slotOS = (Ok (), slotOS)"
    using requests.checkSlot_slot [of ?a slotManager "''r''" slotOS] slotOS_inv by (simp add: agentFilesOf_def)
  have "fst slotRun = Inr ()" by code_simp
  moreover have "slotRun = storeRequest ?a textOf backupRequest slotOS" using c by (simp add: slotRun_def writeRequest_def bindS_def)
  ultimately have w: "storeRequest ?a textOf backupRequest slotOS = (Inr (), snd slotRun)" by (metis prod.collapse)
  have "?step (queueStart slotOS) ?q1"
    using queue_step.passed [of ?a backupRequest "queueStart slotOS" "()" slotOS textOf ?rf ?rm idleOps requestOf] c by (simp add: serial_step_def queueStart_def)
  moreover have "?step ?q1 ((queueStart slotOS)\<lparr>qu_accepted := [backupRequest], qu_state := snd slotRun\<rparr>)"
    using queue_step.written [of ?q1 "[]" backupRequest "[]" ?a textOf "()" "snd slotRun" ?rf ?rm idleOps requestOf] w by (simp add: serial_step_def queueStart_def)
  ultimately have run: "?step\<^sup>*\<^sup>* (queueStart slotOS) ((queueStart slotOS)\<lparr>qu_accepted := [backupRequest], qu_state := snd slotRun\<rparr>)"
    by (meson converse_rtranclp_into_rtranclp rtranclp.rtrancl_refl)
  from requests_executed_once_in_order [OF slotOS_inv none _ _ run] show ?thesis
    by (auto simp: requestOf_textOf textOf_not_blank cli_execute_def idleOps_def queueStart_def)
qed

theorem overlapping_calls_lose_request_witness:
  "\<exists>s'. (queue_step (agentFilesOf slotManager ''r'') textOf (os_ReadFile (path_comps updateRequest)) (os_RemoveFile (path_comps updateRequest))
        idleOps requestOf)\<^sup>*\<^sup>* (queueStart slotOS)
      \<lparr>qu_passed = [], qu_accepted = [backupRequest, backupRequest\<lparr>ur_Reason := ''weekly''\<rparr>], qu_worker = WorkerIdle,
       qu_executed = [backupRequest\<lparr>ur_Reason := ''weekly''\<rparr>], qu_state = s'\<rparr> \<and>
    file_content s' updateRequest = None"
proof (rule overlapping_calls_lose_request [OF slotOS_inv])
  show "file_content slotOS updateRequest = None" "ValidateRequest backupRequest" "ValidateRequest (backupRequest\<lparr>ur_Reason := ''weekly''\<rparr>)"
    by code_simp+
qed (auto simp: requestOf_textOf cli_execute_def idleOps_def)

section \<open>Two consequences\<close>

text \<open>The mandatory backup is fail closed: the wait ends well only when some history read by a tick has, as its last
  entry for this reason since the request, one that succeeded.\<close>

lemma waitBackup_Ok:
  "waitBackup history reason now ticks = Ok () \<Longrightarrow>
    \<exists>s \<in> set ticks. \<exists>entries entry. history s = Ok entries \<and> find (awaited reason now) (rev entries) = Some entry \<and> bo_Status entry = ''succeeded''"
  by (induction ticks) (force split: sum.splits option.splits if_splits)+

text \<open>A read that fails for any reason counts as an empty place, so a pending request can be overwritten.\<close>

lemma unreadable_request_overwritten:
  "ValidateRequest r \<Longrightarrow> af_FileRead a updateRequest s = (Inl e, s1) \<Longrightarrow>
    writeRequest (Some a) enc r s = wrapS AgentCall (af_FileWrite a updateRequest (enc r @ [NL]) 0x180) s1"
  by (simp add: writeRequest_def checkSlot_def storeRequest_def bindS_def)

end
