(* ===== verification/Core_Auth.thy ===== *)
theory Core_Auth
  imports Go_Prelude
begin

text \<open>
  Users, roles, sessions and tokens of the Core (\<open>internal/core/auth\<close>), the authentication and permission
  middleware (\<open>internal/core/server/middleware/auth.go\<close>) and the routes under which the handlers are
  reached. The SQLite tables are lists of rows with the constraints of the schema, and every statement may
  fail. Password hashing, SHA-256, token signing and e-mail parsing are arguments, as are the clock and the
  random values of a call; the clock is read once per call. An audit row has the actor, the action, the resource and
  the time; its further columns are left out. Lower-casing an e-mail address maps the ASCII letters.
\<close>

section \<open>Roles and permissions\<close>

type_synonym Role = string
type_synonym Permission = string

definition RoleAdmin :: Role where "RoleAdmin = ''admin''"
definition RoleOperator :: Role where "RoleOperator = ''operator''"
definition RoleViewer :: Role where "RoleViewer = ''viewer''"

definition PermUserManage :: Permission where "PermUserManage = ''user:manage''"

definition viewerPermissions :: "Permission list" where
  "viewerPermissions = [''dashboard:view'', ''module:view'', ''site:view'', ''service:view'', ''server:view'', ''settings:view'', ''audit:view'']"

definition operatorPermissions :: "Permission list" where
  "operatorPermissions =
     [''dashboard:view'', ''process:manage'', ''module:view'', ''module:enable'', ''module:disable'', ''module:configure'',
      ''site:view'', ''site:create'', ''site:update'', ''site:delete'', ''service:view'', ''service:manage'',
      ''server:view'', ''server:manage'', ''settings:view'', ''audit:view'']"

definition adminPermissions :: "Permission list" where
  "adminPermissions =
     [''dashboard:view'', ''process:manage'', ''module:view'', ''module:install'', ''module:uninstall'',
      ''module:enable'', ''module:disable'', ''module:configure'', ''site:view'', ''site:create'', ''site:update'', ''site:delete'',
      ''service:view'', ''service:manage'', ''server:view'', ''server:manage'', ''settings:view'', ''settings:update'', ''settings:security'',
      ''audit:view'', PermUserManage]"

definition rolePermissions :: "(Role \<times> Permission list) list" where
  "rolePermissions = [(RoleAdmin, adminPermissions), (RoleOperator, operatorPermissions), (RoleViewer, viewerPermissions)]"

definition HasPermission :: "Role \<Rightarrow> Permission \<Rightarrow> bool" where
  "HasPermission r p = (case map_of rolePermissions r of None \<Rightarrow> False | Some ps \<Rightarrow> p \<in> set ps)"

definition validRole :: "Role \<Rightarrow> bool" where
  "validRole r = (r = RoleAdmin \<or> r = RoleOperator \<or> r = RoleViewer)"

section \<open>Rows\<close>

text \<open>Times are in nanoseconds; a stored time is cut to the second by its text form.\<close>

record User =
  u_ID :: string
  u_Username :: string
  u_Email :: string
  u_Password :: string
  u_Role :: Role
  u_IsActive :: bool
  u_CreatedAt :: int
  u_UpdatedAt :: int
  u_LastLogin :: "int option"

record Session =
  ss_ID :: string
  ss_UserID :: string
  ss_TokenHash :: string
  ss_IPAddress :: string
  ss_UserAgent :: string
  ss_ExpiresAt :: int
  ss_CreatedAt :: int

record audit_row =
  al_ID :: string
  al_UserID :: "string option"
  al_Action :: string
  al_Resource :: string
  al_CreatedAt :: int

record auth_db =
  db_users :: "User list"
  db_sessions :: "Session list"
  db_audit :: "audit_row list"
  db_faults :: "bool list"

definition rfc3339 :: "int \<Rightarrow> int" where
  "rfc3339 t = t - t mod 1000000000"

datatype auth_error =
    InvalidCredentials
  | TokenInvalid
  | TokenExpired
  | SessionNotFound
  | Unauthorized string
  | Forbidden string
  | InvalidInput string
  | NotFound string
  | AlreadyExists string
  | CapabilityUnavailable
  | Internal string
  | PlainError string

definition httpStatus :: "auth_error \<Rightarrow> nat" where
  "httpStatus e =
     (case e of InvalidCredentials \<Rightarrow> 401 | TokenInvalid \<Rightarrow> 401 | TokenExpired \<Rightarrow> 401 | SessionNotFound \<Rightarrow> 401 | Unauthorized _ \<Rightarrow> 401
      | Forbidden _ \<Rightarrow> 403 | InvalidInput _ \<Rightarrow> 400 | NotFound _ \<Rightarrow> 404 | AlreadyExists _ \<Rightarrow> 409 | CapabilityUnavailable \<Rightarrow> 501
      | Internal _ \<Rightarrow> 500 | PlainError _ \<Rightarrow> 500)"

type_synonym 'a auth = "(auth_db, auth_error, 'a) action"

text \<open>One SQL statement.\<close>

definition sql :: "'a auth \<Rightarrow> 'a auth" where
  "sql act s =
     (case db_faults s of [] \<Rightarrow> act s
      | f # fs \<Rightarrow> if f then (Err (PlainError ''database''), s\<lparr>db_faults := fs\<rparr>) else act (s\<lparr>db_faults := fs\<rparr>))"

text \<open>A call whose error is thrown away.\<close>

definition ignoreS :: "('s, 'e, 'a) action \<Rightarrow> ('s, 'e, unit) action" where
  "ignoreS act s = (Ok (), snd (act s))"

section \<open>Repositories\<close>

definition usr_find :: "(User \<Rightarrow> bool) \<Rightarrow> User auth" where
  "usr_find p = sql (\<lambda>s. case find p (db_users s) of None \<Rightarrow> (Err (NotFound ''user''), s) | Some u \<Rightarrow> (Ok u, s))"

definition usr_FindByID :: "string \<Rightarrow> User auth" where
  "usr_FindByID uid = usr_find (\<lambda>u. u_ID u = uid)"

definition usr_FindByUsername :: "string \<Rightarrow> User auth" where
  "usr_FindByUsername name = usr_find (\<lambda>u. u_Username u = name)"

definition usr_FindByEmail :: "string \<Rightarrow> User auth" where
  "usr_FindByEmail email = usr_find (\<lambda>u. u_Email u = email)"

definition clashes :: "User \<Rightarrow> User \<Rightarrow> bool" where
  "clashes u v = (u_ID u = u_ID v \<or> u_Username u = u_Username v \<or> u_Email u = u_Email v)"

definition usr_Create :: "User \<Rightarrow> unit auth" where
  "usr_Create u = sql (\<lambda>s.
     if list_ex (clashes u) (db_users s) then (Err (AlreadyExists ''user''), s)
     else if \<not> validRole (u_Role u) then (Err (PlainError ''create''), s)
     else (Ok (), s\<lparr>db_users := db_users s @
            [u\<lparr>u_CreatedAt := rfc3339 (u_CreatedAt u), u_UpdatedAt := rfc3339 (u_UpdatedAt u), u_LastLogin := None\<rparr>]\<rparr>))"

definition usr_set :: "User \<Rightarrow> User \<Rightarrow> User" where
  "usr_set u v = v\<lparr>u_Username := u_Username u, u_Email := u_Email u, u_Password := u_Password u, u_Role := u_Role u,
     u_IsActive := u_IsActive u, u_UpdatedAt := rfc3339 (u_UpdatedAt u), u_LastLogin := map_option rfc3339 (u_LastLogin u)\<rparr>"

definition usr_Update :: "User \<Rightarrow> unit auth" where
  "usr_Update u = sql (\<lambda>s.
     if \<not> list_ex (\<lambda>v. u_ID v = u_ID u) (db_users s) then (Err (NotFound ''user''), s)
     else if list_ex (\<lambda>v. u_ID v \<noteq> u_ID u \<and> (u_Username v = u_Username u \<or> u_Email v = u_Email u)) (db_users s) \<or> \<not> validRole (u_Role u)
     then (Err (PlainError ''update''), s)
     else (Ok (), s\<lparr>db_users := map (\<lambda>v. if u_ID v = u_ID u then usr_set u v else v) (db_users s)\<rparr>))"

text \<open>Deleting a user deletes the sessions and clears the references of the audit log (foreign keys).\<close>

definition usr_Delete :: "string \<Rightarrow> unit auth" where
  "usr_Delete uid = sql (\<lambda>s. (Ok (), s\<lparr>db_users := filter (\<lambda>u. u_ID u \<noteq> uid) (db_users s),
     db_sessions := filter (\<lambda>x. ss_UserID x \<noteq> uid) (db_sessions s),
     db_audit := map (\<lambda>a. if al_UserID a = Some uid then a\<lparr>al_UserID := None\<rparr> else a) (db_audit s)\<rparr>))"

definition usr_Count :: "nat auth" where
  "usr_Count = sql (\<lambda>s. (Ok (length (db_users s)), s))"

definition ses_Create :: "Session \<Rightarrow> unit auth" where
  "ses_Create x = sql (\<lambda>s.
     if list_ex (\<lambda>y. ss_ID y = ss_ID x \<or> ss_TokenHash y = ss_TokenHash x) (db_sessions s) \<or>
        \<not> list_ex (\<lambda>u. u_ID u = ss_UserID x) (db_users s) then (Err (PlainError ''create session''), s)
     else (Ok (), s\<lparr>db_sessions := db_sessions s @ [x\<lparr>ss_ExpiresAt := rfc3339 (ss_ExpiresAt x), ss_CreatedAt := rfc3339 (ss_CreatedAt x)\<rparr>]\<rparr>))"

definition ses_FindByTokenHash :: "string \<Rightarrow> Session auth" where
  "ses_FindByTokenHash h = sql (\<lambda>s.
     case find (\<lambda>x. ss_TokenHash x = h) (db_sessions s) of None \<Rightarrow> (Err SessionNotFound, s) | Some x \<Rightarrow> (Ok x, s))"

definition ses_remove :: "(Session \<Rightarrow> bool) \<Rightarrow> unit auth" where
  "ses_remove p = sql (\<lambda>s. (Ok (), s\<lparr>db_sessions := filter (\<lambda>x. \<not> p x) (db_sessions s)\<rparr>))"

definition ses_DeleteByID :: "string \<Rightarrow> unit auth" where
  "ses_DeleteByID sid = ses_remove (\<lambda>x. ss_ID x = sid)"

definition ses_DeleteExpired :: "int \<Rightarrow> unit auth" where
  "ses_DeleteExpired now = ses_remove (\<lambda>x. ss_ExpiresAt x < rfc3339 now)"

definition ses_DeleteByUserID :: "string \<Rightarrow> unit auth" where
  "ses_DeleteByUserID uid = ses_remove (\<lambda>x. ss_UserID x = uid)"

definition audit_Record :: "audit_row \<Rightarrow> unit auth" where
  "audit_Record a = sql (\<lambda>s.
     if list_ex (\<lambda>b. al_ID b = al_ID a) (db_audit s) \<or>
        (case al_UserID a of None \<Rightarrow> False | Some uid \<Rightarrow> \<not> list_ex (\<lambda>u. u_ID u = uid) (db_users s))
     then (Err (PlainError ''audit''), s)
     else (Ok (), s\<lparr>db_audit := db_audit s @ [a\<lparr>al_CreatedAt := rfc3339 (al_CreatedAt a)\<rparr>]\<rparr>))"


section \<open>Libraries and the values of a call\<close>

record Claims =
  cl_Issuer :: string
  cl_Subject :: string
  cl_IssuedAt :: int
  cl_ExpiresAt :: int
  cl_UserID :: string
  cl_Username :: string
  cl_Role :: string

text \<open>\<open>lb_hash\<close> and \<open>lb_check\<close> are bcrypt (None for a password it refuses), \<open>lb_sign\<close> and
  \<open>lb_parse\<close> the token library with the secret of the server; \<open>lb_parse\<close> is given the time.\<close>

record auth_lib =
  lb_hash :: "string \<Rightarrow> string option"
  lb_check :: "string \<Rightarrow> string \<Rightarrow> bool"
  lb_sha256 :: "string \<Rightarrow> string"
  lb_sign :: "Claims \<Rightarrow> string option"
  lb_parse :: "int \<Rightarrow> string \<Rightarrow> Claims option"
  lb_mail :: "string \<Rightarrow> bool"
  lb_accessTTL :: int
  lb_refreshTTL :: int

record auth_call =
  ac_now :: int
  ac_uuid :: string
  ac_auditID :: string
  ac_token :: "string option"
  ac_random :: "(nat \<Rightarrow> nat) option"

definition jwt_Generate :: "auth_lib \<Rightarrow> int \<Rightarrow> string \<Rightarrow> string \<Rightarrow> string \<Rightarrow> int \<Rightarrow> string option" where
  "jwt_Generate lib now userID username role ttl =
     lb_sign lib \<lparr>cl_Issuer = ''opendeploy'', cl_Subject = userID, cl_IssuedAt = rfc3339 now, cl_ExpiresAt = rfc3339 (now + ttl),
       cl_UserID = userID, cl_Username = username, cl_Role = role\<rparr>"

section \<open>Passwords\<close>

definition MinimumPasswordLength :: nat where "MinimumPasswordLength = 12"
definition DefaultGeneratedPasswordLength :: nat where "DefaultGeneratedPasswordLength = 20"

definition passwordAlphabet :: string where
  "passwordAlphabet = ''ABCDEFGHIJKLMNOPQRSTUVWXYZabcdefghijklmnopqrstuvwxyz0123456789-_''"

text \<open>The random bytes are an argument; None is a failing generator.\<close>

definition GeneratePassword :: "(nat \<Rightarrow> nat) option \<Rightarrow> nat \<Rightarrow> (auth_error, string) result" where
  "GeneratePassword random n =
     (if n < MinimumPasswordLength then Err (PlainError ''password length'')
      else case random of None \<Rightarrow> Err (PlainError ''entropy'')
           | Some bytes \<Rightarrow> Ok (map (\<lambda>index. passwordAlphabet ! (bytes index mod 64)) [0..<n]))"

section \<open>The service\<close>

record TokenPair =
  tp_AccessToken :: string
  tp_RefreshToken :: string
  tp_ExpiresAt :: int
  tp_TokenType :: string

definition IsExpired :: "int \<Rightarrow> Session \<Rightarrow> bool" where
  "IsExpired now x = (now > ss_ExpiresAt x)"

definition optionS :: "'e \<Rightarrow> 'a option \<Rightarrow> ('s, 'e, 'a) action" where
  "optionS e v = (case v of None \<Rightarrow> failS e | Some x \<Rightarrow> retS x)"

definition SeedAdminIfEmpty :: "auth_lib \<Rightarrow> auth_call \<Rightarrow> string \<Rightarrow> string \<Rightarrow> unit auth" where
  "SeedAdminIfEmpty lib call username password =
     bindS usr_Count (\<lambda>count.
     if count > 0 then retS ()
     else bindS (guardS (length password < MinimumPasswordLength) (PlainError ''initial password'')) (\<lambda>_.
          bindS (optionS (PlainError ''hash password'') (lb_hash lib password)) (\<lambda>hash.
          usr_Create \<lparr>u_ID = ac_uuid call, u_Username = username, u_Email = username @ ''@localhost'', u_Password = hash,
            u_Role = RoleAdmin, u_IsActive = True, u_CreatedAt = ac_now call, u_UpdatedAt = ac_now call, u_LastLogin = None\<rparr>)))"

text \<open>An application error passes through \<open>apperrors.Internal\<close> unchanged.\<close>

definition internalE :: "string \<Rightarrow> auth_error \<Rightarrow> auth_error" where
  "internalE msg e = (case e of PlainError _ \<Rightarrow> Internal msg | _ \<Rightarrow> e)"

text \<open>The end of Login and Refresh: an access token, a refresh token and its session.\<close>

definition issueTokens :: "string \<Rightarrow> auth_lib \<Rightarrow> auth_call \<Rightarrow> User \<Rightarrow> string \<Rightarrow> string \<Rightarrow> TokenPair auth" where
  "issueTokens what lib call user ip agent =
     bindS (optionS (Internal ''generate access token'')
       (jwt_Generate lib (ac_now call) (u_ID user) (u_Username user) (u_Role user) (lb_accessTTL lib))) (\<lambda>accessToken.
     bindS (optionS (Internal ''generate refresh token'') (ac_token call)) (\<lambda>rawRefresh.
     bindS (wrapS (internalE what) (ses_Create \<lparr>ss_ID = ac_uuid call, ss_UserID = u_ID user, ss_TokenHash = lb_sha256 lib rawRefresh,
       ss_IPAddress = ip, ss_UserAgent = agent, ss_ExpiresAt = ac_now call + lb_refreshTTL lib, ss_CreatedAt = ac_now call\<rparr>)) (\<lambda>_.
     retS \<lparr>tp_AccessToken = accessToken, tp_RefreshToken = rawRefresh, tp_ExpiresAt = ac_now call + lb_accessTTL lib, tp_TokenType = ''Bearer''\<rparr>)))"

definition auth_Login :: "auth_lib \<Rightarrow> auth_call \<Rightarrow> string \<Rightarrow> string \<Rightarrow> string \<Rightarrow> string \<Rightarrow> TokenPair auth" where
  "auth_Login lib call username password ip agent =
     bindS (wrapS (\<lambda>_. InvalidCredentials) (usr_FindByUsername username)) (\<lambda>user.
     bindS (guardS (\<not> lb_check lib (u_Password user) password) InvalidCredentials) (\<lambda>_.
     bindS (guardS (\<not> u_IsActive user) (Forbidden ''user account is blocked'')) (\<lambda>_.
     bindS (issueTokens ''create session'' lib call user ip agent) (\<lambda>pair.
     bindS (ignoreS (usr_Update (user\<lparr>u_LastLogin := Some (ac_now call), u_UpdatedAt := ac_now call\<rparr>))) (\<lambda>_. retS pair)))))"

definition auth_Refresh :: "auth_lib \<Rightarrow> auth_call \<Rightarrow> string \<Rightarrow> string \<Rightarrow> string \<Rightarrow> TokenPair auth" where
  "auth_Refresh lib call rawRefreshToken ip agent =
     bindS (wrapS (\<lambda>_. TokenInvalid) (ses_FindByTokenHash (lb_sha256 lib rawRefreshToken))) (\<lambda>session.
     if IsExpired (ac_now call) session
     then bindS (ignoreS (ses_DeleteByID (ss_ID session))) (\<lambda>_. failS TokenExpired)
     else bindS (wrapS (internalE ''find user for refresh'') (usr_FindByID (ss_UserID session))) (\<lambda>user.
          bindS (ignoreS (ses_DeleteByID (ss_ID session))) (\<lambda>_.
          issueTokens ''create refreshed session'' lib call user ip agent)))"

definition auth_Logout :: "string \<Rightarrow> unit auth" where
  "auth_Logout userID = wrapS (internalE ''logout: delete sessions'') (ses_DeleteByUserID userID)"

definition auth_GetUser :: "string \<Rightarrow> User auth" where
  "auth_GetUser userID = usr_FindByID userID"

record CreateUserInput =
  ci_Username :: string
  ci_Email :: string
  ci_Password :: string
  ci_Role :: Role

record UpdateUserInput =
  ui_Username :: string
  ui_Email :: string
  ui_Role :: Role

definition validateUserInput :: "auth_lib \<Rightarrow> string \<Rightarrow> string \<Rightarrow> Role \<Rightarrow> (auth_error, unit) result" where
  "validateUserInput lib username email role =
     andThen (guardE (length username < 3 \<or> length username > 64) (InvalidInput ''username'')) (\<lambda>_.
     andThen (guardE (\<not> lb_mail lib email) (InvalidInput ''email'')) (\<lambda>_.
     guardE (\<not> validRole role) (InvalidInput ''role'')))"

definition recordUserAudit :: "auth_call \<Rightarrow> string \<Rightarrow> string \<Rightarrow> string \<Rightarrow> unit auth" where
  "recordUserAudit call actorID action uid =
     ignoreS (audit_Record \<lparr>al_ID = ac_auditID call, al_UserID = Some actorID, al_Action = action, al_Resource = ''user:'' @ uid, al_CreatedAt = ac_now call\<rparr>)"

definition auth_CreateUser :: "auth_lib \<Rightarrow> auth_call \<Rightarrow> string \<Rightarrow> CreateUserInput \<Rightarrow> User auth" where
  "auth_CreateUser lib call actorID input =
     (let username = TrimSpace (ci_Username input); email = TrimSpace (ToLower (ci_Email input))
      in bindS (liftS (validateUserInput lib username email (ci_Role input))) (\<lambda>_.
         bindS (guardS (length (ci_Password input) < MinimumPasswordLength) (InvalidInput ''password'')) (\<lambda>_.
         bindS (optionS (Internal ''hash password'') (lb_hash lib (ci_Password input))) (\<lambda>hash.
         let user = \<lparr>u_ID = ac_uuid call, u_Username = username, u_Email = email, u_Password = hash, u_Role = ci_Role input,
               u_IsActive = True, u_CreatedAt = ac_now call, u_UpdatedAt = ac_now call, u_LastLogin = None\<rparr>
         in bindS (usr_Create user) (\<lambda>_.
            bindS (recordUserAudit call actorID ''user.create'' (u_ID user)) (\<lambda>_. retS user))))))"

definition auth_UpdateUser :: "auth_lib \<Rightarrow> auth_call \<Rightarrow> string \<Rightarrow> string \<Rightarrow> UpdateUserInput \<Rightarrow> User auth" where
  "auth_UpdateUser lib call actorID uid input =
     bindS (usr_FindByID uid) (\<lambda>user.
     let username = TrimSpace (ui_Username input); email = TrimSpace (ToLower (ui_Email input))
     in bindS (liftS (validateUserInput lib username email (ui_Role input))) (\<lambda>_.
        bindS (guardS (actorID = uid \<and> ui_Role input \<noteq> RoleAdmin) (InvalidInput ''own admin role'')) (\<lambda>_.
        let user' = user\<lparr>u_Username := username, u_Email := email, u_Role := ui_Role input, u_UpdatedAt := ac_now call\<rparr>
        in bindS (usr_Update user') (\<lambda>_.
           bindS (recordUserAudit call actorID ''user.update'' uid) (\<lambda>_. retS user')))))"

definition auth_SetPassword :: "auth_lib \<Rightarrow> auth_call \<Rightarrow> string \<Rightarrow> string \<Rightarrow> string \<Rightarrow> unit auth" where
  "auth_SetPassword lib call actorID uid password =
     bindS (guardS (length password < MinimumPasswordLength) (InvalidInput ''password'')) (\<lambda>_.
     bindS (usr_FindByID uid) (\<lambda>user.
     bindS (optionS (Internal ''hash password'') (lb_hash lib password)) (\<lambda>hash.
     bindS (usr_Update (user\<lparr>u_Password := hash, u_UpdatedAt := ac_now call\<rparr>)) (\<lambda>_.
     bindS (ignoreS (ses_DeleteByUserID uid)) (\<lambda>_.
     recordUserAudit call actorID ''user.password.change'' uid)))))"

definition auth_SetUserActive :: "auth_call \<Rightarrow> string \<Rightarrow> string \<Rightarrow> bool \<Rightarrow> User auth" where
  "auth_SetUserActive call actorID uid active =
     bindS (guardS (actorID = uid \<and> \<not> active) (InvalidInput ''own account'')) (\<lambda>_.
     bindS (usr_FindByID uid) (\<lambda>user.
     let user' = user\<lparr>u_IsActive := active, u_UpdatedAt := ac_now call\<rparr>
     in bindS (usr_Update user') (\<lambda>_.
        bindS (if \<not> active then ignoreS (ses_DeleteByUserID uid) else retS ()) (\<lambda>_.
        bindS (recordUserAudit call actorID (if active then ''user.unblock'' else ''user.block'') uid) (\<lambda>_. retS user')))))"

definition auth_DeleteUser :: "auth_call \<Rightarrow> string \<Rightarrow> string \<Rightarrow> unit auth" where
  "auth_DeleteUser call actorID uid =
     bindS (guardS (actorID = uid) (InvalidInput ''own account'')) (\<lambda>_.
     bindS (usr_FindByID uid) (\<lambda>_.
     bindS (wrapS (internalE ''delete user'') (usr_Delete uid)) (\<lambda>_.
     recordUserAudit call actorID ''user.delete'' uid)))"

definition PurgeExpiredSessions :: "auth_call \<Rightarrow> unit auth" where
  "PurgeExpiredSessions call = ses_DeleteExpired (ac_now call)"

definition ResetGeneratedPassword :: "auth_lib \<Rightarrow> auth_call \<Rightarrow> string \<Rightarrow> string auth" where
  "ResetGeneratedPassword lib call username =
     bindS (usr_FindByUsername username) (\<lambda>user.
     bindS (liftS (GeneratePassword (ac_random call) DefaultGeneratedPasswordLength)) (\<lambda>password.
     bindS (optionS (PlainError ''hash generated password'') (lb_hash lib password)) (\<lambda>hash.
     bindS (ses_DeleteByUserID (u_ID user)) (\<lambda>_.
     bindS (usr_Update (user\<lparr>u_Password := hash, u_IsActive := True, u_UpdatedAt := ac_now call\<rparr>)) (\<lambda>_.
     retS password)))))"

section \<open>Requests\<close>

record Principal =
  pr_ID :: string
  pr_Username :: string
  pr_Role :: Role

definition extractBearerToken :: "string \<Rightarrow> string" where
  "extractBearerToken header =
     (case SplitN2 (CHR '' '') header of
        [scheme, rest] \<Rightarrow> if EqualFold scheme ''bearer'' then TrimSpace rest else []
      | _ \<Rightarrow> [])"

definition mw_Auth :: "auth_lib \<Rightarrow> int \<Rightarrow> string \<Rightarrow> (auth_error, Principal) result" where
  "mw_Auth lib now header =
     (let tok = extractBearerToken header
      in if tok = [] then Err (Unauthorized ''missing or malformed Authorization header'')
         else case lb_parse lib now tok of None \<Rightarrow> Err TokenInvalid
              | Some claims \<Rightarrow> Ok \<lparr>pr_ID = cl_UserID claims, pr_Username = cl_Username claims, pr_Role = cl_Role claims\<rparr>)"

definition RequirePermission :: "Permission \<Rightarrow> Principal \<Rightarrow> (auth_error, unit) result" where
  "RequirePermission perm p = guardE (\<not> HasPermission (pr_Role p) perm) (Forbidden ''insufficient permissions'')"

text \<open>The requests of the package; a body is None when it is not well-formed JSON.\<close>

datatype auth_request =
    LoginReq "(string \<times> string) option"
  | RefreshReq "string option"
  | LogoutReq
  | MeReq
  | CreateUserReq "CreateUserInput option"
  | UpdateUserReq string "UpdateUserInput option"
  | PasswordReq string "string option"
  | ActiveReq string bool
  | DeleteUserReq string

datatype auth_response = PairResp TokenPair | UserResp User | MessageResp string | NoContent

record http_meta =
  hm_Authorization :: string
  hm_ServerID :: string
  hm_IP :: string
  hm_UserAgent :: string

text \<open>The routes: login and refresh are public, the others need a token, and the user routes need the local server and
  the permission to manage users; every protected route passes the test of the selected server.\<close>

definition userRoute :: "auth_request \<Rightarrow> bool" where
  "userRoute r = (case r of CreateUserReq _ \<Rightarrow> True | UpdateUserReq _ _ \<Rightarrow> True | PasswordReq _ _ \<Rightarrow> True | ActiveReq _ _ \<Rightarrow> True
     | DeleteUserReq _ \<Rightarrow> True | _ \<Rightarrow> False)"

definition requestMethod :: "auth_request \<Rightarrow> string" where
  "requestMethod r = (case r of MeReq \<Rightarrow> ''GET'' | UpdateUserReq _ _ \<Rightarrow> ''PUT'' | PasswordReq _ _ \<Rightarrow> ''PUT'' | DeleteUserReq _ \<Rightarrow> ''DELETE'' | _ \<Rightarrow> ''POST'')"

definition requestPath :: "auth_request \<Rightarrow> string" where
  "requestPath r = ''/api/v1'' @
     (case r of LoginReq _ \<Rightarrow> ''/auth/login'' | RefreshReq _ \<Rightarrow> ''/auth/refresh'' | LogoutReq \<Rightarrow> ''/auth/logout'' | MeReq \<Rightarrow> ''/auth/me''
      | CreateUserReq _ \<Rightarrow> ''/users'' | UpdateUserReq uid _ \<Rightarrow> ''/users/'' @ uid | PasswordReq uid _ \<Rightarrow> ''/users/'' @ uid @ ''/password''
      | ActiveReq uid active \<Rightarrow> ''/users/'' @ uid @ (if active then ''/unblock'' else ''/block'') | DeleteUserReq uid \<Rightarrow> ''/users/'' @ uid)"

text \<open>The selected server (\<open>servercontext\<close>): a remote one is served on some routes only.\<close>

definition serverID :: "http_meta \<Rightarrow> string" where
  "serverID h = (let i = TrimSpace (hm_ServerID h) in if i = [] then ''local'' else i)"

definition remotePathAvailable :: "string \<Rightarrow> string \<Rightarrow> bool" where
  "remotePathAvailable method p =
     (let path = TrimPrefix p ''/api/v1''
      in HasPrefix path ''/servers'' \<or> HasPrefix path ''/auth'' \<or> method = ''GET'' \<and> path = ''/dashboard'' \<or>
         HasPrefix path ''/system/processes'' \<or> HasPrefix path ''/services'' \<or> HasPrefix path ''/modules/firewall'' \<or> HasPrefix path ''/modules/cron'')"

definition RequireMigratedCapability :: "http_meta \<Rightarrow> string \<Rightarrow> string \<Rightarrow> (auth_error, unit) result" where
  "RequireMigratedCapability h method path =
     guardE (\<not> (serverID h = ''local'' \<or> remotePathAvailable method path)) CapabilityUnavailable"

definition mapS :: "('a \<Rightarrow> 'b) \<Rightarrow> ('s, 'e, 'a) action \<Rightarrow> ('s, 'e, 'b) action" where
  "mapS f m = bindS m (\<lambda>v. retS (f v))"

definition bodyS :: "'a option \<Rightarrow> 'a auth" where
  "bodyS b = optionS (InvalidInput ''malformed JSON body'') b"

definition handle_principal :: "auth_lib \<Rightarrow> auth_call \<Rightarrow> Principal \<Rightarrow> auth_request \<Rightarrow> auth_response auth" where
  "handle_principal lib call p r =
     (case r of
        LogoutReq \<Rightarrow> mapS (\<lambda>_. MessageResp ''logged out'') (auth_Logout (pr_ID p))
      | MeReq \<Rightarrow> mapS UserResp (auth_GetUser (pr_ID p))
      | CreateUserReq b \<Rightarrow> bindS (bodyS b) (\<lambda>input. mapS UserResp (auth_CreateUser lib call (pr_ID p) input))
      | UpdateUserReq uid b \<Rightarrow> bindS (bodyS b) (\<lambda>input. mapS UserResp (auth_UpdateUser lib call (pr_ID p) uid input))
      | PasswordReq uid b \<Rightarrow> bindS (bodyS b) (\<lambda>password. mapS (\<lambda>_. MessageResp ''password changed'') (auth_SetPassword lib call (pr_ID p) uid password))
      | ActiveReq uid active \<Rightarrow> mapS UserResp (auth_SetUserActive call (pr_ID p) uid active)
      | DeleteUserReq uid \<Rightarrow> mapS (\<lambda>_. NoContent) (auth_DeleteUser call (pr_ID p) uid)
      | _ \<Rightarrow> failS (NotFound ''route''))"

definition handle_auth :: "auth_lib \<Rightarrow> auth_call \<Rightarrow> http_meta \<Rightarrow> auth_request \<Rightarrow> auth_response auth" where
  "handle_auth lib call h r =
     (case r of
        LoginReq b \<Rightarrow> bindS (bodyS b) (\<lambda>(username, password).
          bindS (guardS (username = [] \<or> password = []) (InvalidInput ''username and password are required'')) (\<lambda>_.
          mapS PairResp (auth_Login lib call username password (hm_IP h) (hm_UserAgent h))))
      | RefreshReq b \<Rightarrow> bindS (bodyS b) (\<lambda>tok.
          bindS (guardS (tok = []) (InvalidInput ''refresh_token is required'')) (\<lambda>_.
          mapS PairResp (auth_Refresh lib call tok (hm_IP h) (hm_UserAgent h))))
      | _ \<Rightarrow>
          bindS (liftS (mw_Auth lib (ac_now call) (hm_Authorization h))) (\<lambda>p.
          bindS (liftS (RequireMigratedCapability h (requestMethod r) (requestPath r))) (\<lambda>_.
          bindS (liftS (if userRoute r then RequirePermission PermUserManage p else Ok ())) (\<lambda>_.
          handle_principal lib call p r))))"


section \<open>Invariants\<close>

text \<open>What an action makes of states with the invariant: it keeps it, and a result has the property.\<close>

definition yields :: "('s \<Rightarrow> bool) \<Rightarrow> ('s, 'e, 'a) action \<Rightarrow> ('a \<Rightarrow> bool) \<Rightarrow> bool" where
  "yields I m P = (\<forall>s. I s \<longrightarrow> I (snd (m s)) \<and> (\<forall>v. fst (m s) = Ok v \<longrightarrow> P v))"

named_theorems yields_intro \<open>rules that build up yields\<close>

lemma yieldsD: "yields I m P \<Longrightarrow> m s = (r, s') \<Longrightarrow> I s \<Longrightarrow> I s' \<and> (\<forall>v. r = Ok v \<longrightarrow> P v)"
  unfolding yields_def by (metis fst_conv snd_conv)

lemma yields_bindS [yields_intro]:
  assumes "yields I m P" "\<And>v. P v \<Longrightarrow> yields I (k v) Q"
  shows "yields I (bindS m k) Q"
  unfolding yields_def
proof (intro allI impI)
  fix s assume "I s"
  obtain r s1 where m: "m s = (r, s1)" by fastforce
  with \<open>I s\<close> assms(1) have s1: "I s1" "\<forall>v. r = Ok v \<longrightarrow> P v" using yieldsD [OF assms(1) m] by blast+
  show "I (snd (bindS m k s)) \<and> (\<forall>v. fst (bindS m k s) = Ok v \<longrightarrow> Q v)"
  proof (cases r)
    case (Inl e)
    then show ?thesis using m s1 by (simp add: bindS_def)
  next
    case (Inr v)
    then have "yields I (k v) Q" using s1 assms(2) by blast
    then show ?thesis using m s1(1) Inr unfolding yields_def by (simp add: bindS_def)
  qed
qed

lemma yields_basic [yields_intro]:
  "P v \<Longrightarrow> yields I (retS v) P" "yields I (failS e) P" "yields I (guardS b e) (\<lambda>_. \<not> b)" "yields I (liftS r) (\<lambda>v. r = Ok v)"
  "yields I (optionS e x) (\<lambda>v. x = Some v)"
  by (auto simp: yields_def guardS_def optionS_def split: option.splits)

lemma yields_wrapS [yields_intro]: "yields I m P \<Longrightarrow> yields I (wrapS f m) P"
  by (auto simp: yields_def wrapS_def split: prod.splits sum.splits)

lemma yields_ignoreS [yields_intro]: "yields I m P \<Longrightarrow> yields I (ignoreS m) (\<lambda>_. True)"
  by (auto simp: yields_def ignoreS_def)

lemma yields_mapS [yields_intro]: "yields I m P \<Longrightarrow> (\<And>v. P v \<Longrightarrow> Q (f v)) \<Longrightarrow> yields I (mapS f m) Q"
  unfolding mapS_def by (rule yields_bindS, assumption) (rule yields_basic, blast)

lemma yields_True: "yields I m P \<Longrightarrow> yields I m (\<lambda>_. True)"
  by (auto simp: yields_def)

lemma yields_sql:
  assumes "\<And>s fs. I (s\<lparr>db_faults := fs\<rparr>) = I s" "yields I m P"
  shows "yields I (sql m) P"
  using assms by (auto simp: yields_def sql_def split: list.splits)

text \<open>A stored user has a known role and the hash of a password that was long enough.\<close>

definition good_user :: "auth_lib \<Rightarrow> User \<Rightarrow> bool" where
  "good_user lib u = (validRole (u_Role u) \<and> (\<exists>p. MinimumPasswordLength \<le> length p \<and> lb_hash lib p = Some (u_Password u)))"

definition auth_inv :: "auth_lib \<Rightarrow> auth_db \<Rightarrow> bool" where
  "auth_inv lib s =
     (distinct (map u_ID (db_users s)) \<and> distinct (map u_Username (db_users s)) \<and> distinct (map u_Email (db_users s)) \<and>
      (\<forall>u \<in> set (db_users s). good_user lib u) \<and>
      distinct (map ss_ID (db_sessions s)) \<and> distinct (map ss_TokenHash (db_sessions s)) \<and>
      (\<forall>x \<in> set (db_sessions s). ss_UserID x \<in> u_ID ` set (db_users s)))"

lemma auth_inv_faults: "auth_inv lib (s\<lparr>db_faults := fs\<rparr>) = auth_inv lib s"
  by (simp add: auth_inv_def)

lemmas yields_stmt = yields_sql [where I = "auth_inv lib" for lib, OF auth_inv_faults]

lemma find_yields [yields_intro]:
  "yields (auth_inv lib) (usr_FindByID uid) (\<lambda>u. good_user lib u \<and> u_ID u = uid)"
  "yields (auth_inv lib) (usr_FindByUsername n) (good_user lib)"
  unfolding usr_FindByID_def usr_FindByUsername_def usr_find_def
  by (rule yields_stmt; force simp: yields_def auth_inv_def find_Some_iff split: option.splits)+

lemma usr_Create_yields [yields_intro]:
  assumes "good_user lib u"
  shows "yields (auth_inv lib) (usr_Create u) (\<lambda>_. True)"
  unfolding usr_Create_def
  by (rule yields_stmt) (use assms in \<open>auto simp: yields_def auth_inv_def clashes_def list_ex_iff good_user_def image_iff\<close>)

lemma map_update_distinct:
  assumes "distinct (map f xs)" "\<And>x. x \<in> set xs \<Longrightarrow> \<not> p x \<Longrightarrow> f x \<noteq> c" "\<And>x y. x \<in> set xs \<Longrightarrow> y \<in> set xs \<Longrightarrow> p x \<Longrightarrow> p y \<Longrightarrow> x = y"
    and "distinct xs"
  shows "distinct (map (\<lambda>x. if p x then c else f x) xs)"
  using assms
proof (induction xs)
  case (Cons x xs)
  have "c \<notin> (\<lambda>x. if p x then c else f x) ` set xs" if "p x"
    using Cons.prems that by (auto simp: image_iff)
  moreover have "f x \<notin> (\<lambda>x. if p x then c else f x) ` set xs" if "\<not> p x"
    using Cons.prems that by (auto simp: image_iff)
  ultimately show ?case using Cons by auto
qed simp

lemma usr_Update_yields [yields_intro]:
  assumes "good_user lib u"
  shows "yields (auth_inv lib) (usr_Update u) (\<lambda>_. True)"
  unfolding usr_Update_def
proof (rule yields_stmt)
  let ?f = "\<lambda>v. if u_ID v = u_ID u then usr_set u v else v"
  have "auth_inv lib (s\<lparr>db_users := map ?f (db_users s)\<rparr>)"
    if inv: "auth_inv lib s" and no: "\<not> list_ex (\<lambda>v. u_ID v \<noteq> u_ID u \<and> (u_Username v = u_Username u \<or> u_Email v = u_Email u)) (db_users s)" for s
  proof -
    let ?us = "db_users s"
    have d: "distinct (map u_ID ?us)" "distinct (map u_Username ?us)" "distinct (map u_Email ?us)" "distinct ?us"
      using inv by (auto simp: auth_inv_def distinct_map)
    have one: "x = y" if "x \<in> set ?us" "y \<in> set ?us" "u_ID x = u_ID u" "u_ID y = u_ID u" for x y
      using that d(1) by (metis distinct_map inj_onD)
    have "map u_ID (map ?f ?us) = map u_ID ?us" by (simp add: usr_set_def)
    moreover have "map u_Username (map ?f ?us) = map (\<lambda>v. if u_ID v = u_ID u then u_Username u else u_Username v) ?us"
      "map u_Email (map ?f ?us) = map (\<lambda>v. if u_ID v = u_ID u then u_Email u else u_Email v) ?us" by (auto simp: usr_set_def)
    moreover have "distinct (map (\<lambda>v. if u_ID v = u_ID u then u_Username u else u_Username v) ?us)"
      "distinct (map (\<lambda>v. if u_ID v = u_ID u then u_Email u else u_Email v) ?us)"
      by (rule map_update_distinct; use d one no in \<open>auto simp: list_ex_iff\<close>)+
    moreover have "\<forall>v \<in> set (map ?f ?us). good_user lib v"
      using inv assms by (auto simp: auth_inv_def good_user_def usr_set_def)
    moreover have "u_ID ` set (map ?f ?us) = u_ID ` set ?us" by (metis \<open>map u_ID (map ?f ?us) = map u_ID ?us\<close> list.set_map)
    ultimately show ?thesis using inv d(1) unfolding auth_inv_def by (simp del: map_map set_map)
  qed
  then show "yields (auth_inv lib) (\<lambda>s. if \<not> list_ex (\<lambda>v. u_ID v = u_ID u) (db_users s) then (Err (NotFound ''user''), s)
     else if list_ex (\<lambda>v. u_ID v \<noteq> u_ID u \<and> (u_Username v = u_Username u \<or> u_Email v = u_Email u)) (db_users s) \<or> \<not> validRole (u_Role u)
     then (Err (PlainError ''update''), s)
     else (Ok (), s\<lparr>db_users := map ?f (db_users s)\<rparr>)) (\<lambda>_. True)"
    by (auto simp: yields_def)
qed

lemma rest_yields [yields_intro]:
  "yields (auth_inv lib) usr_Count (\<lambda>_. True)" "yields (auth_inv lib) (usr_Delete uid) (\<lambda>_. True)"
  "yields (auth_inv lib) (ses_Create x) (\<lambda>_. True)" "yields (auth_inv lib) (ses_FindByTokenHash h) (\<lambda>_. True)"
  "yields (auth_inv lib) (ses_DeleteByID sid) (\<lambda>_. True)" "yields (auth_inv lib) (ses_DeleteByUserID uid) (\<lambda>_. True)"
  "yields (auth_inv lib) (ses_DeleteExpired now) (\<lambda>_. True)" "yields (auth_inv lib) (audit_Record a) (\<lambda>_. True)"
  unfolding usr_Count_def usr_Delete_def ses_Create_def ses_FindByTokenHash_def ses_DeleteByID_def ses_DeleteByUserID_def ses_DeleteExpired_def ses_remove_def audit_Record_def
  by (rule yields_stmt; force simp: yields_def auth_inv_def list_ex_iff distinct_map_filter image_iff split: option.splits)+


lemma issueTokens_yields [yields_intro]: "yields (auth_inv lib) (issueTokens what lib call u ip agent) (\<lambda>_. True)"
  unfolding issueTokens_def by (rule yields_intro TrueI)+

lemma good_user_changes:
  "good_user lib u \<Longrightarrow> good_user lib (u\<lparr>u_LastLogin := l, u_UpdatedAt := t\<rparr>)"
  "good_user lib u \<Longrightarrow> good_user lib (u\<lparr>u_IsActive := a, u_UpdatedAt := t\<rparr>)"
  "good_user lib u \<Longrightarrow> validRole r \<Longrightarrow> good_user lib (u\<lparr>u_Username := n, u_Email := e, u_Role := r, u_UpdatedAt := t\<rparr>)"
  "good_user lib u \<Longrightarrow> lb_hash lib p = Some h \<Longrightarrow> MinimumPasswordLength \<le> length p \<Longrightarrow> good_user lib (u\<lparr>u_Password := h, u_UpdatedAt := t\<rparr>)"
  "good_user lib u \<Longrightarrow> lb_hash lib p = Some h \<Longrightarrow> MinimumPasswordLength \<le> length p \<Longrightarrow>
    good_user lib (u\<lparr>u_Password := h, u_IsActive := a, u_UpdatedAt := t\<rparr>)"
  by (auto simp: good_user_def)

lemma good_user_new:
  "validRole r \<Longrightarrow> lb_hash lib p = Some h \<Longrightarrow> MinimumPasswordLength \<le> length p \<Longrightarrow>
    good_user lib \<lparr>u_ID = i, u_Username = n, u_Email = e, u_Password = h, u_Role = r, u_IsActive = a, u_CreatedAt = c, u_UpdatedAt = t, u_LastLogin = l\<rparr>"
  by (auto simp: good_user_def)

lemma validated_role: "validateUserInput lib n e r = Ok u \<Longrightarrow> validRole r"
  by (auto simp: validateUserInput_def guardE_def split: if_splits)

lemma GeneratePassword_length: "GeneratePassword random n = Ok p \<Longrightarrow> MinimumPasswordLength \<le> length p"
  by (auto simp: GeneratePassword_def split: if_splits option.splits)

lemma Seed_yields: "yields (auth_inv lib) (SeedAdminIfEmpty lib call n p) (\<lambda>_. True)"
proof -
  have "yields (auth_inv lib) (if 0 < count then retS () else
     bindS (guardS (length p < MinimumPasswordLength) (PlainError ''initial password'')) (\<lambda>_.
     bindS (optionS (PlainError ''hash password'') (lb_hash lib p)) (\<lambda>hash.
     usr_Create \<lparr>u_ID = ac_uuid call, u_Username = n, u_Email = n @ ''@localhost'', u_Password = hash,
            u_Role = RoleAdmin, u_IsActive = True, u_CreatedAt = ac_now call, u_UpdatedAt = ac_now call, u_LastLogin = None\<rparr>))) (\<lambda>_. True)" for count :: nat
    by (cases "0 < count"; simp) ((rule yields_intro TrueI)+, auto simp: good_user_def validRole_def intro!: exI [of _ p])+
  then show ?thesis unfolding SeedAdminIfEmpty_def by (rule yields_bindS [OF rest_yields(1)])
qed

lemma Login_yields: "yields (auth_inv lib) (auth_Login lib call n p ip agent) (\<lambda>_. True)"
  unfolding auth_Login_def by (rule yields_intro good_user_changes TrueI | assumption)+

lemma Refresh_yields: "yields (auth_inv lib) (auth_Refresh lib call tok ip agent) (\<lambda>_. True)"
proof -
  have "yields (auth_inv lib) (if IsExpired (ac_now call) session
     then bindS (ignoreS (ses_DeleteByID (ss_ID session))) (\<lambda>_. failS TokenExpired)
     else bindS (wrapS (internalE ''find user for refresh'') (usr_FindByID (ss_UserID session))) (\<lambda>user.
          bindS (ignoreS (ses_DeleteByID (ss_ID session))) (\<lambda>_.
          issueTokens ''create refreshed session'' lib call user ip agent))) (\<lambda>_. True)" for session
    by (cases "IsExpired (ac_now call) session"; simp) (rule yields_intro)+
  then show ?thesis unfolding auth_Refresh_def by (rule yields_bindS [OF yields_wrapS [OF rest_yields(4)]])
qed

lemma recordUserAudit_yields [yields_intro]: "yields (auth_inv lib) (recordUserAudit call a act uid) (\<lambda>_. True)"
  unfolding recordUserAudit_def by (rule yields_intro)+

lemma CreateUser_yields: "yields (auth_inv lib) (auth_CreateUser lib call a input) (\<lambda>_. True)"
  unfolding auth_CreateUser_def Let_def
  by (rule yields_intro TrueI | (rule good_user_new, rule validated_role, assumption, assumption, simp))+

lemma UpdateUser_yields: "yields (auth_inv lib) (auth_UpdateUser lib call a uid input) (\<lambda>_. True)"
  unfolding auth_UpdateUser_def Let_def
  by (rule yields_intro TrueI | (fastforce intro: good_user_changes dest: validated_role))+

lemma SetPassword_yields: "yields (auth_inv lib) (auth_SetPassword lib call a uid p) (\<lambda>_. True)"
  unfolding auth_SetPassword_def by (rule yields_intro TrueI | (fastforce intro: good_user_changes))+

lemma SetUserActive_yields: "yields (auth_inv lib) (auth_SetUserActive call a uid active) (\<lambda>_. True)"
proof -
  have del: "yields (auth_inv lib) (if \<not> active then ignoreS (ses_DeleteByUserID uid) else retS ()) (\<lambda>_. True)"
    by (cases active; simp) (rule yields_intro TrueI)+
  show ?thesis unfolding auth_SetUserActive_def Let_def
    by (rule yields_intro TrueI del | (fastforce intro: good_user_changes))+
qed

lemma DeleteUser_yields: "yields (auth_inv lib) (auth_DeleteUser call a uid) (\<lambda>_. True)"
  unfolding auth_DeleteUser_def by (rule yields_intro)+

lemma Reset_yields:
  "yields (auth_inv lib) (ResetGeneratedPassword lib call n) (\<lambda>_. True)"
  unfolding ResetGeneratedPassword_def
  by (rule yields_intro TrueI | (rule good_user_changes(5), assumption, assumption, rule GeneratePassword_length, assumption))+

lemmas service_yields = Seed_yields Login_yields Refresh_yields CreateUser_yields UpdateUser_yields SetPassword_yields
  SetUserActive_yields DeleteUser_yields

lemma handle_principal_yields: "yields (auth_inv lib) (handle_principal lib call p r) (\<lambda>_. True)"
proof -
  have "yields (auth_inv lib) (auth_Logout uid) (\<lambda>_. True)" "yields (auth_inv lib) (auth_GetUser uid) (\<lambda>_. True)" for uid
    unfolding auth_Logout_def auth_GetUser_def by (rule yields_intro, rule yields_intro, rule yields_True, rule yields_intro)
  then show ?thesis unfolding handle_principal_def bodyS_def
    by (cases r; simp) (rule yields_intro service_yields TrueI | assumption)+
qed

lemma handle_auth_yields: "yields (auth_inv lib) (handle_auth lib call h r) (\<lambda>_. True)"
proof -
  have body: "yields (auth_inv lib) (bindS (liftS (mw_Auth lib (ac_now call) (hm_Authorization h))) (\<lambda>p.
          bindS (liftS (RequireMigratedCapability h (requestMethod r) (requestPath r))) (\<lambda>_.
          bindS (liftS (if userRoute r then RequirePermission PermUserManage p else Ok ())) (\<lambda>_.
          handle_principal lib call p r)))) (\<lambda>_. True)" for r
    by (rule yields_intro handle_principal_yields)+
  show ?thesis
  proof (cases r)
    case (LoginReq b)
    have login: "yields (auth_inv lib) (case b of (username, password) \<Rightarrow>
        bindS (guardS (username = [] \<or> password = []) (InvalidInput ''username and password are required'')) (\<lambda>_.
        mapS PairResp (auth_Login lib call username password (hm_IP h) (hm_UserAgent h)))) (\<lambda>_. True)" for b
      by (cases b; simp) (rule yields_intro Login_yields TrueI)+
    show ?thesis unfolding handle_auth_def LoginReq bodyS_def auth_request.case by (rule yields_intro login)+
  next
    case (RefreshReq b)
    show ?thesis unfolding handle_auth_def RefreshReq bodyS_def auth_request.case by (rule yields_intro Refresh_yields TrueI)+
  qed (use body in \<open>simp_all add: handle_auth_def\<close>)
qed


section \<open>Histories of events\<close>

datatype auth_event =
    HttpEvent auth_call http_meta auth_request
  | SeedEvent auth_call string string
  | PurgeEvent auth_call
  | ResetEvent auth_call string

definition run_event :: "auth_lib \<Rightarrow> auth_event \<Rightarrow> auth_db \<Rightarrow> auth_db" where
  "run_event lib ev s =
     (case ev of
        HttpEvent call h r \<Rightarrow> snd (handle_auth lib call h r s)
      | SeedEvent call username password \<Rightarrow> snd (SeedAdminIfEmpty lib call username password s)
      | PurgeEvent call \<Rightarrow> snd (PurgeExpiredSessions call s)
      | ResetEvent call username \<Rightarrow> snd (ResetGeneratedPassword lib call username s))"

definition emptyDB :: "bool list \<Rightarrow> auth_db" where
  "emptyDB fs = \<lparr>db_users = [], db_sessions = [], db_audit = [], db_faults = fs\<rparr>"

lemma run_event_inv: "auth_inv lib s \<Longrightarrow> auth_inv lib (run_event lib ev s)"
  using handle_auth_yields Seed_yields Reset_yields rest_yields(7)
  by (cases ev) (auto simp: run_event_def yields_def PurgeExpiredSessions_def)

lemma emptyDB_inv: "auth_inv lib (emptyDB fs)"
  by (simp add: auth_inv_def emptyDB_def)

lemma run_events_inv: "auth_inv lib s \<Longrightarrow> auth_inv lib (fold (run_event lib) evs s)"
  by (induction evs arbitrary: s) (simp_all add: run_event_inv)

lemmas fold_run_inv = run_events_inv [OF emptyDB_inv]

text \<open>C26. Whatever requests, bootstraps, clean-ups and recoveries are served, in any order and with any failing SQL
  statements, the database of users and sessions keeps its invariant: identifiers, user names and e-mail addresses
  are unique, every role is one of the three, every stored password is the hash of a text of at least twelve bytes,
  refresh tokens are unique, and every session belongs to an existing user.\<close>

theorem auth_database_invariant:
  "auth_inv lib (fold (run_event lib) evs (emptyDB fs))"
  by (rule fold_run_inv)

section \<open>The acting administrator\<close>

definition admin_alive :: "string \<Rightarrow> auth_db \<Rightarrow> bool" where
  "admin_alive i s =
     (i \<in> u_ID ` set (db_users s) \<and> (\<forall>u \<in> set (db_users s). u_ID u = i \<longrightarrow> u_Role u = RoleAdmin \<and> u_IsActive u))"

lemma admin_alive_faults: "admin_alive i (s\<lparr>db_faults := fs\<rparr>) = admin_alive i s"
  by (simp add: admin_alive_def)

lemmas alive_stmt = yields_sql [where I = "admin_alive i" for i, OF admin_alive_faults]

lemma alive_rules:
  "yields (admin_alive i) (usr_FindByID uid) (\<lambda>u. u_ID u = uid \<and> (uid = i \<longrightarrow> u_Role u = RoleAdmin \<and> u_IsActive u))"
  "yields (admin_alive i) (usr_Create v) (\<lambda>_. True)"
  "u_ID v = i \<longrightarrow> u_Role v = RoleAdmin \<and> u_IsActive v \<Longrightarrow> yields (admin_alive i) (usr_Update v) (\<lambda>_. True)"
  "uid \<noteq> i \<Longrightarrow> yields (admin_alive i) (usr_Delete uid) (\<lambda>_. True)"
  "yields (admin_alive i) (ses_DeleteByUserID uid) (\<lambda>_. True)"
  "yields (admin_alive i) (audit_Record a) (\<lambda>_. True)"
proof -
  show "yields (admin_alive i) (usr_FindByID uid) (\<lambda>u. u_ID u = uid \<and> (uid = i \<longrightarrow> u_Role u = RoleAdmin \<and> u_IsActive u))"
    unfolding usr_FindByID_def usr_find_def
    by (rule alive_stmt) (auto simp: yields_def admin_alive_def find_Some_iff split: option.splits)
  show "yields (admin_alive i) (usr_Create v) (\<lambda>_. True)"
    unfolding usr_Create_def by (rule alive_stmt) (auto simp: yields_def admin_alive_def list_ex_iff clashes_def)
  show "yields (admin_alive i) (usr_Update v) (\<lambda>_. True)" if "u_ID v = i \<longrightarrow> u_Role v = RoleAdmin \<and> u_IsActive v"
  proof -
    let ?f = "\<lambda>w. if u_ID w = u_ID v then usr_set v w else w"
    have ids: "u_ID ` set (map ?f us) = u_ID ` set us" for us by (induction us) (simp_all add: usr_set_def)
    have alive: "\<forall>w \<in> set (map ?f us). u_ID w = i \<longrightarrow> u_Role w = RoleAdmin \<and> u_IsActive w"
      if "\<forall>w \<in> set us. u_ID w = i \<longrightarrow> u_Role w = RoleAdmin \<and> u_IsActive w" for us
      using that \<open>u_ID v = i \<longrightarrow> _\<close> by (auto simp: usr_set_def)
    show ?thesis unfolding usr_Update_def
      by (rule alive_stmt) (use ids alive in \<open>auto simp: yields_def admin_alive_def simp del: set_map\<close>)
  qed
  show "yields (admin_alive i) (usr_Delete uid) (\<lambda>_. True)" if "uid \<noteq> i"
    unfolding usr_Delete_def by (rule alive_stmt) (use that in \<open>auto simp: yields_def admin_alive_def list_ex_iff\<close>)
  show "yields (admin_alive i) (ses_DeleteByUserID uid) (\<lambda>_. True)" "yields (admin_alive i) (audit_Record a) (\<lambda>_. True)"
    unfolding ses_DeleteByUserID_def ses_remove_def audit_Record_def by (rule alive_stmt; simp add: yields_def admin_alive_def)+
qed

lemma alive_audit: "yields (admin_alive i) (recordUserAudit call a act uid) (\<lambda>_. True)"
  unfolding recordUserAudit_def by (rule yields_intro alive_rules)+

lemma alive_ops:
  "yields (admin_alive i) (auth_Logout i) (\<lambda>_. True)" "yields (admin_alive i) (auth_GetUser i) (\<lambda>_. True)"
  "yields (admin_alive i) (auth_CreateUser lib call i input) (\<lambda>_. True)"
  "yields (admin_alive i) (auth_UpdateUser lib call i uid inp) (\<lambda>_. True)"
  "yields (admin_alive i) (auth_SetPassword lib call i uid p) (\<lambda>_. True)"
  "yields (admin_alive i) (auth_SetUserActive call i uid active) (\<lambda>_. True)"
  "yields (admin_alive i) (auth_DeleteUser call i uid) (\<lambda>_. True)"
proof -
  have del: "yields (admin_alive i) (if \<not> active then ignoreS (ses_DeleteByUserID uid) else retS ()) (\<lambda>_. True)"
    by (cases active; simp) (rule yields_basic alive_rules yields_ignoreS TrueI)+
  note rules = yields_bindS yields_basic yields_wrapS yields_ignoreS alive_rules alive_audit del TrueI
  show "yields (admin_alive i) (auth_Logout i) (\<lambda>_. True)" unfolding auth_Logout_def by (rule rules)+
  show "yields (admin_alive i) (auth_GetUser i) (\<lambda>_. True)" unfolding auth_GetUser_def by (rule yields_True, rule alive_rules)
  show "yields (admin_alive i) (auth_CreateUser lib call i input) (\<lambda>_. True)" unfolding auth_CreateUser_def Let_def by (rule rules)+
  show "yields (admin_alive i) (auth_UpdateUser lib call i uid inp) (\<lambda>_. True)"
    unfolding auth_UpdateUser_def Let_def by (rule rules | (simp; fail) | force)+
  show "yields (admin_alive i) (auth_SetPassword lib call i uid p) (\<lambda>_. True)"
    unfolding auth_SetPassword_def by (rule rules | (simp; fail) | force)+
  show "yields (admin_alive i) (auth_SetUserActive call i uid active) (\<lambda>_. True)"
    unfolding auth_SetUserActive_def Let_def by (rule rules | (simp; fail) | force)+
  show "yields (admin_alive i) (auth_DeleteUser call i uid) (\<lambda>_. True)"
    unfolding auth_DeleteUser_def by (rule rules | (simp; fail) | force)+
qed

lemma handle_principal_alive:
  assumes "pr_ID p = i"
  shows "yields (admin_alive i) (handle_principal lib call p r) (\<lambda>_. True)"
  unfolding handle_principal_def bodyS_def assms
  by (cases r; simp) (rule yields_bindS yields_basic yields_mapS alive_ops TrueI)+

text \<open>C27. An administrator cannot lock the acting account out: whatever an authenticated request does, and whichever SQL
  statement of it fails, a caller whose account is an active administrator's is one afterwards.\<close>

theorem acting_admin_stays:
  assumes "auth_inv lib s" "u \<in> set (db_users s)" "u_ID u = pr_ID p" "u_Role u = RoleAdmin" "u_IsActive u"
    and "handle_principal lib call p r s = (q, s')"
  shows "\<exists>v \<in> set (db_users s'). u_ID v = pr_ID p \<and> u_Role v = RoleAdmin \<and> u_IsActive v"
proof -
  have "inj_on u_ID (set (db_users s))" using assms(1) by (simp add: auth_inv_def distinct_map)
  then have one: "v = u" if "v \<in> set (db_users s)" "u_ID v = pr_ID p" for v using that assms(2,3) unfolding inj_on_def by metis
  have "admin_alive (pr_ID p) s" unfolding admin_alive_def
  proof (intro conjI ballI impI)
    show "pr_ID p \<in> u_ID ` set (db_users s)" using imageI [OF assms(2), of u_ID] assms(3) by simp
    show "u_Role v = RoleAdmin" "u_IsActive v" if "v \<in> set (db_users s)" "u_ID v = pr_ID p" for v
      using one [OF that] assms(4,5) by simp_all
  qed
  then have "admin_alive (pr_ID p) s'" using yieldsD [OF handle_principal_alive [OF refl] assms(6)] by blast
  then show ?thesis by (auto simp: admin_alive_def)
qed


section \<open>Revocation\<close>

lemma sql_quiet: "db_faults s = [] \<Longrightarrow> sql act s = act s"
  by (simp add: sql_def)

lemma quiet_steps:
  assumes "db_faults s = []"
  shows "usr_FindByID uid s = (q, s1) \<Longrightarrow> s1 = s"
    "usr_Update u s = (r, s1) \<Longrightarrow> db_faults s1 = [] \<and> db_sessions s1 = db_sessions s"
    "recordUserAudit call a act uid s = (r, s1) \<Longrightarrow> db_faults s1 = [] \<and> db_sessions s1 = db_sessions s"
    "ses_DeleteByUserID uid s = (Ok (), s\<lparr>db_sessions := filter (\<lambda>x. ss_UserID x \<noteq> uid) (db_sessions s)\<rparr>)"
    "usr_Delete uid s = (r, s1) \<Longrightarrow> db_faults s1 = [] \<and> db_sessions s1 = filter (\<lambda>x. ss_UserID x \<noteq> uid) (db_sessions s)"
  using assms
  by (auto simp: usr_FindByID_def usr_find_def usr_Update_def recordUserAudit_def ignoreS_def audit_Record_def ses_DeleteByUserID_def
      ses_remove_def usr_Delete_def sql_quiet split: option.splits if_splits)

text \<open>The requests that end all sessions of a user.\<close>

definition revokes :: "Principal \<Rightarrow> auth_request \<Rightarrow> string \<Rightarrow> bool" where
  "revokes p r uid = (case r of LogoutReq \<Rightarrow> uid = pr_ID p | PasswordReq i _ \<Rightarrow> uid = i | ActiveReq i active \<Rightarrow> uid = i \<and> \<not> active
     | DeleteUserReq i \<Rightarrow> uid = i | _ \<Rightarrow> False)"

lemma mapS_Ok: "mapS f m s = (Ok v, s') \<longleftrightarrow> (\<exists>w. m s = (Ok w, s') \<and> v = f w)"
  by (auto simp: mapS_def bindS_Ok)

lemma optionS_Ok: "optionS e x s = (Ok v, s') \<longleftrightarrow> x = Some v \<and> s' = s"
  by (auto simp: optionS_def split: option.splits)

lemma update_then_revoke:
  assumes "db_faults s = []" "usr_FindByID uid s = (Ok u, s1)" "usr_Update w s1 = (Ok (), s2)"
    and "recordUserAudit call a act uid (snd (ses_DeleteByUserID uid s2)) = (Ok (), s')"
  shows "db_faults s' = [] \<and> db_sessions s' = filter (\<lambda>x. ss_UserID x \<noteq> uid) (db_sessions s)"
proof -
  have "s1 = s" by (rule quiet_steps(1) [OF assms(1,2)])
  then have s2: "db_faults s2 = []" "db_sessions s2 = db_sessions s" using quiet_steps(2) [of s, OF assms(1)] assms(3) by blast+
  then show ?thesis using quiet_steps(3) [OF _ assms(4)] quiet_steps(4) [OF s2(1)] by simp
qed

lemma revokes_sessions:
  assumes q: "db_faults s = []" and rv: "revokes p r uid" and ok: "handle_principal lib call p r s = (Ok v, s')"
  shows "db_faults s' = [] \<and> db_sessions s' = filter (\<lambda>x. ss_UserID x \<noteq> uid) (db_sessions s)"
proof (cases r)
  case LogoutReq
  then show ?thesis using rv ok quiet_steps(4) [OF q]
    by (auto simp: revokes_def handle_principal_def auth_Logout_def mapS_Ok wrapS_Ok q)
next
  case (PasswordReq i b)
  then obtain u s1 s2 where "usr_FindByID uid s = (Ok u, s1)" "\<exists>w. usr_Update w s1 = (Ok (), s2)"
    and "\<exists>a act. recordUserAudit call a act uid (snd (ses_DeleteByUserID uid s2)) = (Ok (), s')"
    using rv ok by (auto simp: revokes_def handle_principal_def auth_SetPassword_def bodyS_def mapS_Ok bindS_Ok optionS_Ok guardS_Ok ignoreS_def) blast
  then show ?thesis by (elim exE) (rule update_then_revoke [OF q])
next
  case (ActiveReq i active)
  then obtain u s1 s2 where "usr_FindByID uid s = (Ok u, s1)" "\<exists>w. usr_Update w s1 = (Ok (), s2)"
    and "\<exists>a act. recordUserAudit call a act uid (snd (ses_DeleteByUserID uid s2)) = (Ok (), s')"
    using rv ok by (auto simp: revokes_def handle_principal_def auth_SetUserActive_def mapS_Ok bindS_Ok guardS_Ok ignoreS_def Let_def) blast
  then show ?thesis by (elim exE) (rule update_then_revoke [OF q])
next
  case (DeleteUserReq i)
  then obtain u s1 s2 where "usr_FindByID uid s = (Ok u, s1)" and d: "usr_Delete uid s1 = (Ok (), s2)"
    and rest: "\<exists>a act. recordUserAudit call a act uid s2 = (Ok (), s')"
    using rv ok by (auto simp: revokes_def handle_principal_def auth_DeleteUser_def mapS_Ok bindS_Ok guardS_Ok wrapS_Ok) blast
  then have "s1 = s" using quiet_steps(1) q by blast
  then show ?thesis using quiet_steps(5) [OF q] d quiet_steps(3) [of s2] rest by auto
qed (use rv in \<open>simp_all add: revokes_def\<close>)

text \<open>C28. Logging out, changing a password, blocking and deleting a user end every session of the user, when the
  database works: a refresh token that was valid before is refused from then on, whoever presents it.\<close>

theorem revoked_tokens_refused:
  assumes "auth_inv lib s" "db_faults s = []" "revokes p r uid" "handle_principal lib call p r s = (Ok v, s')"
    and "x \<in> set (db_sessions s)" "ss_UserID x = uid" "ss_TokenHash x = lb_sha256 lib tok"
  shows "fst (auth_Refresh lib call' tok ip agent s') = Err TokenInvalid"
proof -
  have s': "db_faults s' = []" "db_sessions s' = filter (\<lambda>x. ss_UserID x \<noteq> uid) (db_sessions s)"
    using revokes_sessions [OF assms(2-4)] by simp_all
  have "inj_on ss_TokenHash (set (db_sessions s))" using assms(1) by (simp add: auth_inv_def distinct_map)
  then have "y = x" if "y \<in> set (db_sessions s)" "ss_TokenHash y = lb_sha256 lib tok" for y
    using that assms(5,7) unfolding inj_on_def by metis
  then have "find (\<lambda>y. ss_TokenHash y = lb_sha256 lib tok) (db_sessions s') = None"
    using s'(2) assms(6) by (auto simp: find_None_iff)
  then show ?thesis using s'(1) by (simp add: auth_Refresh_def bindS_def wrapS_def ses_FindByTokenHash_def sql_quiet)
qed


section \<open>What a token outlives\<close>

definition isAdmin :: "User \<Rightarrow> bool" where
  "isAdmin u = (u_Role u = RoleAdmin \<and> u_IsActive u)"

lemma handle_auth_user:
  assumes "mw_Auth lib (ac_now call) (hm_Authorization h) = Ok p" "userRoute r" "hm_ServerID h = []" "HasPermission (pr_Role p) PermUserManage"
  shows "handle_auth lib call h r s = handle_principal lib call p r s"
proof -
  have "TrimSpace [] = []" by code_simp
  with assms show ?thesis by (cases r) (simp_all add: handle_auth_def userRoute_def bindS_def liftS_def guardS_def guardE_def RequirePermission_def retS_def
      RequireMigratedCapability_def serverID_def)
qed

lemma find_unique:
  assumes "x \<in> set xs" "P x" "\<And>y. y \<in> set xs \<Longrightarrow> P y \<Longrightarrow> y = x"
  shows "find P xs = Some x"
proof (cases "find P xs")
  case None
  then show ?thesis using assms(1,2) by (auto simp: find_None_iff)
next
  case (Some y)
  then have "y \<in> set xs" "P y" by (auto simp: find_Some_iff)
  then show ?thesis using Some assms(3) by simp
qed

lemma find_someone: "x \<in> set xs \<Longrightarrow> P x \<Longrightarrow> \<exists>y \<in> set xs. find P xs = Some y"
  by (induction xs) auto

lemma token_principal:
  assumes "jwt_Generate lib t0 uid name role ttl = Some tok" "extractBearerToken (hm_Authorization h) = tok" "tok \<noteq> []"
    and "\<And>c tok now. lb_sign lib c = Some tok \<Longrightarrow> cl_IssuedAt c \<le> now \<Longrightarrow> now < cl_ExpiresAt c \<Longrightarrow> lb_parse lib now tok = Some c"
    and "rfc3339 t0 \<le> now" "now < rfc3339 (t0 + ttl)"
  shows "mw_Auth lib now (hm_Authorization h) = Ok \<lparr>pr_ID = uid, pr_Username = name, pr_Role = role\<rparr>"
  using assms(1-3,5,6) assms(4) [of _ tok now] unfolding jwt_Generate_def mw_Auth_def by simp

lemma admin_manages: "HasPermission RoleAdmin PermUserManage"
  by code_simp

text \<open>C29. The role is read from the token and not from the account. A token that was issued to an administrator keeps its
  authority until it expires: whatever has become of the account since, which may have been demoted, its bearer can delete the last
  active administrator.\<close>

theorem demoted_token_removes_last_admin:
  assumes "jwt_Generate lib t0 uid name RoleAdmin (lb_accessTTL lib) = Some tok"
    and "\<And>c tok now. lb_sign lib c = Some tok \<Longrightarrow> cl_IssuedAt c \<le> now \<Longrightarrow> now < cl_ExpiresAt c \<Longrightarrow> lb_parse lib now tok = Some c"
    and "extractBearerToken (hm_Authorization h) = tok" "tok \<noteq> []" "hm_ServerID h = []"
    and "rfc3339 t0 \<le> ac_now call" "ac_now call < rfc3339 (t0 + lb_accessTTL lib)"
    and "db_faults s = []" "v \<in> set (db_users s)" "u_ID v \<noteq> uid" "\<forall>w \<in> set (db_users s). isAdmin w \<longrightarrow> w = v"
  shows "\<exists>s'. handle_auth lib call h (DeleteUserReq (u_ID v)) s = (Ok NoContent, s') \<and> filter isAdmin (db_users s') = []"
proof -
  let ?p = "\<lparr>pr_ID = uid, pr_Username = name, pr_Role = RoleAdmin\<rparr>"
  have "mw_Auth lib (ac_now call) (hm_Authorization h) = Ok ?p" by (rule token_principal [OF assms(1,3,4,2,6,7)])
  then have e: "handle_auth lib call h (DeleteUserReq (u_ID v)) s = handle_principal lib call ?p (DeleteUserReq (u_ID v)) s"
    by (rule handle_auth_user) (simp_all add: userRoute_def assms(5) admin_manages)
  obtain u where "find (\<lambda>u. u_ID u = u_ID v) (db_users s) = Some u" using find_someone [OF assms(9), of "\<lambda>u. u_ID u = u_ID v"] by blast
  then have f: "usr_FindByID (u_ID v) s = (Ok u, s)" by (simp add: usr_FindByID_def usr_find_def sql_quiet assms(8))
  obtain d where d: "usr_Delete (u_ID v) s = (Ok (), d)" "db_users d = filter (\<lambda>u. u_ID u \<noteq> u_ID v) (db_users s)" "db_faults d = []"
    by (simp add: usr_Delete_def sql_quiet assms(8))
  obtain s' where a: "recordUserAudit call uid ''user.delete'' (u_ID v) d = (Ok (), s')" by (simp add: recordUserAudit_def ignoreS_def)
  have "db_users s' = db_users d" using a d(3) by (auto simp: recordUserAudit_def ignoreS_def audit_Record_def sql_quiet split: if_splits)
  moreover have "filter isAdmin (filter (\<lambda>u. u_ID u \<noteq> u_ID v) (db_users s)) = []" using assms(11) by (auto simp: filter_empty_conv)
  moreover have "handle_principal lib call ?p (DeleteUserReq (u_ID v)) s = (Ok NoContent, s')"
    using assms(10) f d(1) a by (simp add: handle_principal_def auth_DeleteUser_def mapS_def bindS_def guardS_def wrapS_def retS_def)
  ultimately show ?thesis using e d(2) by simp
qed

lemma refresh_succeeds:
  assumes "db_faults s = []" "x \<in> set (db_sessions s)" "distinct (map ss_TokenHash (db_sessions s))" "ss_UserID x \<in> u_ID ` set (db_users s)"
    and "ss_TokenHash x = lb_sha256 lib tok" "\<not> IsExpired (ac_now call) x" "\<And>c. lb_sign lib c \<noteq> None" "ac_token call = Some raw"
    and "ac_uuid call \<notin> ss_ID ` set (db_sessions s)" "lb_sha256 lib raw \<notin> ss_TokenHash ` set (db_sessions s)"
  shows "\<exists>pair s'. auth_Refresh lib call tok ip agent s = (Ok pair, s')"
proof -
  have "y = x" if "y \<in> set (db_sessions s)" "ss_TokenHash y = lb_sha256 lib tok" for y
    using that assms(2,3,5) by (metis distinct_map inj_onD)
  then have "find (\<lambda>y. ss_TokenHash y = lb_sha256 lib tok) (db_sessions s) = Some x"
    by (rule find_unique [where P = "\<lambda>y. ss_TokenHash y = lb_sha256 lib tok", OF assms(2,5)])
  then have f: "ses_FindByTokenHash (lb_sha256 lib tok) s = (Ok x, s)" by (simp add: ses_FindByTokenHash_def sql_quiet assms(1))
  obtain u where u: "find (\<lambda>u. u_ID u = ss_UserID x) (db_users s) = Some u" "u \<in> set (db_users s)"
  proof -
    obtain v where "v \<in> set (db_users s)" "u_ID v = ss_UserID x" using assms(4) by (metis imageE)
    then show ?thesis using find_someone [of v "db_users s" "\<lambda>u. u_ID u = ss_UserID x"] that by blast
  qed
  let ?d = "s\<lparr>db_sessions := filter (\<lambda>y. ss_ID y \<noteq> ss_ID x) (db_sessions s)\<rparr>"
  have d: "snd (ses_DeleteByID (ss_ID x) s) = ?d" by (simp add: ses_DeleteByID_def ses_remove_def sql_quiet assms(1))
  obtain acc where a: "jwt_Generate lib (ac_now call) (u_ID u) (u_Username u) (u_Role u) (lb_accessTTL lib) = Some acc"
    using assms(7) unfolding jwt_Generate_def by (metis not_Some_eq)
  have c: "\<not> list_ex (\<lambda>y. ss_ID y = ac_uuid call \<or> ss_TokenHash y = lb_sha256 lib raw) (db_sessions ?d)"
    using assms(9,10) by (auto simp: list_ex_iff image_iff)
  have "list_ex (\<lambda>v. u_ID v = u_ID u) (db_users ?d)" using u(2) by (auto simp: list_ex_iff)
  then have "\<exists>pair s'. issueTokens ''create refreshed session'' lib call u ip agent ?d = (Ok pair, s')"
    using a c assms(1,8) by (simp add: issueTokens_def bindS_def optionS_def retS_def wrapS_def ses_Create_def sql_def)
  then show ?thesis
    using f u(1) d assms(1,6) by (simp add: auth_Refresh_def bindS_def wrapS_def usr_FindByID_def usr_find_def sql_quiet ignoreS_def)
qed

text \<open>A user is blocked while the statement that deletes the sessions, the third one, fails.\<close>

lemma block_without_revocation:
  assumes inv: "auth_inv lib s" and s: "db_faults s = [False, False, True]" and u: "u \<in> set (db_users s)" "u_ID u \<noteq> pr_ID p"
  shows "\<exists>v s'. handle_principal lib call p (ActiveReq (u_ID u) False) s = (Ok v, s') \<and> db_sessions s' = db_sessions s \<and> db_faults s' = [] \<and>
    map u_ID (db_users s') = map u_ID (db_users s) \<and> (\<forall>w \<in> set (db_users s'). u_ID w = u_ID u \<longrightarrow> \<not> u_IsActive w)"
proof -
  let ?s1 = "s\<lparr>db_faults := [False, True]\<rparr>" and ?w = "u\<lparr>u_IsActive := False, u_UpdatedAt := ac_now call\<rparr>"
  let ?s2 = "s\<lparr>db_faults := [True], db_users := map (\<lambda>v. if u_ID v = u_ID u then usr_set ?w v else v) (db_users s)\<rparr>"
  have one: "v = u" if "v \<in> set (db_users s)" "u_ID v = u_ID u \<or> u_Username v = u_Username u \<or> u_Email v = u_Email u" for v
    using inv u(1) that unfolding auth_inv_def by (metis distinct_map inj_onD)
  then have "find (\<lambda>v. u_ID v = u_ID u) (db_users s) = Some u" using u(1) by (intro find_unique) auto
  then have f: "usr_FindByID (u_ID u) s = (Ok u, ?s1)" by (simp add: usr_FindByID_def usr_find_def sql_def s)
  have "\<not> list_ex (\<lambda>v. u_ID v \<noteq> u_ID u \<and> (u_Username v = u_Username u \<or> u_Email v = u_Email u)) (db_users s)" "list_ex (\<lambda>v. u_ID v = u_ID u) (db_users s)"
    using one u(1) by (auto simp: list_ex_iff)
  moreover have "validRole (u_Role u)" using inv u(1) by (simp add: auth_inv_def good_user_def)
  ultimately have w: "usr_Update ?w ?s1 = (Ok (), ?s2)" by (simp add: usr_Update_def sql_def)
  have d: "snd (ses_DeleteByUserID (u_ID u) ?s2) = ?s2\<lparr>db_faults := []\<rparr>" by (simp add: ses_DeleteByUserID_def ses_remove_def sql_def)
  obtain s' where a: "recordUserAudit call (pr_ID p) ''user.block'' (u_ID u) (?s2\<lparr>db_faults := []\<rparr>) = (Ok (), s')" by (simp add: recordUserAudit_def ignoreS_def)
  have s': "db_sessions s' = db_sessions s" "db_faults s' = []" "db_users s' = db_users ?s2"
    using a by (auto simp: recordUserAudit_def ignoreS_def audit_Record_def sql_quiet split: if_splits)
  have "map u_ID (db_users ?s2) = map u_ID (db_users s)" by (simp add: usr_set_def)
  moreover have "\<forall>w \<in> set (db_users ?s2). u_ID w = u_ID u \<longrightarrow> \<not> u_IsActive w" by (auto simp: usr_set_def)
  moreover have "handle_principal lib call p (ActiveReq (u_ID u) False) s = (Ok (UserResp ?w), s')"
    using f w d a u(2) by (simp add: handle_principal_def auth_SetUserActive_def mapS_def bindS_def guardS_def retS_def ignoreS_def Let_def)
  ultimately show ?thesis using s' by auto
qed

text \<open>C30. Blocking a user reports success when the statement that ends the sessions fails, and a refresh does not look at the
  blocked flag: every unexpired refresh token of the blocked user is still exchanged for a new pair of tokens.\<close>

theorem blocked_user_refreshes:
  assumes "auth_inv lib s" "db_faults s = [False, False, True]" "u \<in> set (db_users s)" "u_ID u \<noteq> pr_ID p"
    and "x \<in> set (db_sessions s)" "ss_UserID x = u_ID u" "ss_TokenHash x = lb_sha256 lib tok" "\<not> IsExpired (ac_now call') x"
    and "\<And>c. lb_sign lib c \<noteq> None" "ac_token call' = Some raw"
    and "ac_uuid call' \<notin> ss_ID ` set (db_sessions s)" "lb_sha256 lib raw \<notin> ss_TokenHash ` set (db_sessions s)"
  shows "\<exists>v s' pair s''. handle_principal lib call p (ActiveReq (u_ID u) False) s = (Ok v, s') \<and>
    (\<forall>w \<in> set (db_users s'). u_ID w = u_ID u \<longrightarrow> \<not> u_IsActive w) \<and> auth_Refresh lib call' tok ip agent s' = (Ok pair, s'')"
proof -
  obtain v s' where b: "handle_principal lib call p (ActiveReq (u_ID u) False) s = (Ok v, s')" "db_sessions s' = db_sessions s" "db_faults s' = []"
    "map u_ID (db_users s') = map u_ID (db_users s)" "\<forall>w \<in> set (db_users s'). u_ID w = u_ID u \<longrightarrow> \<not> u_IsActive w"
    using block_without_revocation [OF assms(1-4)] by blast
  have "ss_UserID x \<in> u_ID ` set (db_users s)" using assms(3,6) by simp
  then have "ss_UserID x \<in> u_ID ` set (db_users s')" using arg_cong [OF b(4), of set] by simp
  moreover have "distinct (map ss_TokenHash (db_sessions s'))" using assms(1) b(2) by (simp add: auth_inv_def)
  ultimately obtain pair s'' where "auth_Refresh lib call' tok ip agent s' = (Ok pair, s'')"
    using refresh_succeeds [of s' x lib tok call' raw ip agent] assms(5,7-12) b(2,3) by auto
  then show ?thesis using b(1,5) by blast
qed


section \<open>Sample runs\<close>

text \<open>A library for concrete runs: the hash is the password, a token is the user's identifier and role.\<close>

definition sampleLib :: auth_lib where
  "sampleLib = \<lparr>lb_hash = Some, lb_check = (=), lb_sha256 = (\<lambda>t. ''#'' @ t), lb_sign = (\<lambda>c. Some (cl_UserID c @ ''/'' @ cl_Role c)),
     lb_parse = (\<lambda>now tok. Some \<lparr>cl_Issuer = ''opendeploy'', cl_Subject = takeWhile (\<lambda>c. c \<noteq> CHR ''/'') tok, cl_IssuedAt = 0, cl_ExpiresAt = now,
       cl_UserID = takeWhile (\<lambda>c. c \<noteq> CHR ''/'') tok, cl_Username = [], cl_Role = drop 1 (dropWhile (\<lambda>c. c \<noteq> CHR ''/'') tok)\<rparr>),
     lb_mail = (\<lambda>_. True), lb_accessTTL = 900000000000, lb_refreshTTL = 604800000000000\<rparr>"

definition sampleCall :: "string \<Rightarrow> auth_call" where
  "sampleCall i = \<lparr>ac_now = 0, ac_uuid = i, ac_auditID = ''audit-'' @ i, ac_token = Some (''refresh-'' @ i), ac_random = None\<rparr>"

definition sampleMeta :: "string \<Rightarrow> http_meta" where
  "sampleMeta tok = \<lparr>hm_Authorization = ''Bearer '' @ tok, hm_ServerID = [], hm_IP = [], hm_UserAgent = []\<rparr>"

definition samplePrincipal :: "string \<Rightarrow> Principal" where
  "samplePrincipal i = \<lparr>pr_ID = i, pr_Username = [], pr_Role = RoleAdmin\<rparr>"

lemma sample_admin:
  assumes "i = ''1'' \<or> i = ''2''" "userRoute r"
  shows "handle_auth sampleLib (sampleCall j) (sampleMeta (i @ ''/admin'')) r s = handle_principal sampleLib (sampleCall j) (samplePrincipal i) r s"
proof (rule handle_auth_user [OF _ assms(2)])
  have "mw_Auth sampleLib 0 (''Bearer '' @ ''1'' @ ''/admin'') = Ok (samplePrincipal ''1'')"
    "mw_Auth sampleLib 0 (''Bearer '' @ ''2'' @ ''/admin'') = Ok (samplePrincipal ''2'')" by code_simp+
  then show "mw_Auth sampleLib (ac_now (sampleCall j)) (hm_Authorization (sampleMeta (i @ ''/admin''))) = Ok (samplePrincipal i)"
    using assms(1) by (auto simp: sampleCall_def sampleMeta_def)
  show "HasPermission (pr_Role (samplePrincipal i)) PermUserManage"
    by (simp add: samplePrincipal_def) code_simp
qed (simp add: sampleMeta_def)

lemma mapS_snd: "snd (mapS f m s) = snd (m s)"
  by (simp add: mapS_def bindS_def retS_def split: prod.splits sum.splits)

lemma sample_create:
  "run_event sampleLib (HttpEvent (sampleCall j) (sampleMeta (''1'' @ ''/admin'')) (CreateUserReq (Some input))) s =
    snd (auth_CreateUser sampleLib (sampleCall j) ''1'' input s)"
  using sample_admin [of "''1''" "CreateUserReq (Some input)"]
  by (simp add: run_event_def userRoute_def handle_principal_def bodyS_def optionS_def bindS_def retS_def mapS_snd samplePrincipal_def)

lemma run_login:
  "u \<noteq> [] \<Longrightarrow> q \<noteq> [] \<Longrightarrow> run_event lib (HttpEvent call h (LoginReq (Some (u, q)))) s =
    snd (auth_Login lib call u q (hm_IP h) (hm_UserAgent h) s)"
  by (simp add: run_event_def handle_auth_def bodyS_def optionS_def bindS_def retS_def guardS_def mapS_snd)

text \<open>The first administrator ann creates a second one, bob, who signs in.\<close>

definition sampleHistory :: "auth_event list" where
  "sampleHistory =
     [SeedEvent (sampleCall ''1'') ''ann'' ''correct horse'',
      HttpEvent (sampleCall ''2'') (sampleMeta ''1/admin'')
        (CreateUserReq (Some \<lparr>ci_Username = ''bob'', ci_Email = ''bob@x'', ci_Password = ''battery staple'', ci_Role = RoleAdmin\<rparr>)),
      HttpEvent (sampleCall ''4'') (sampleMeta []) (LoginReq (Some (''bob'', ''battery staple'')))]"

definition viewerInput :: "string \<Rightarrow> UpdateUserInput" where
  "viewerInput name = \<lparr>ui_Username = name, ui_Email = name @ ''@x'', ui_Role = RoleViewer\<rparr>"

definition demote :: "string \<Rightarrow> string \<Rightarrow> auth_request" where
  "demote uid name = UpdateUserReq uid (Some (viewerInput name))"

definition sampleDB :: auth_db where
  "sampleDB = fold (run_event sampleLib) sampleHistory (emptyDB [])"

lemma sampleDB_eq:
  "sampleDB = \<lparr>db_users =
       [\<lparr>u_ID = ''1'', u_Username = ''ann'', u_Email = ''ann@localhost'', u_Password = ''correct horse'', u_Role = ''admin'', u_IsActive = True,
          u_CreatedAt = 0, u_UpdatedAt = 0, u_LastLogin = None\<rparr>,
        \<lparr>u_ID = ''2'', u_Username = ''bob'', u_Email = ''bob@x'', u_Password = ''battery staple'', u_Role = ''admin'', u_IsActive = True,
          u_CreatedAt = 0, u_UpdatedAt = 0, u_LastLogin = Some 0\<rparr>],
     db_sessions =
       [\<lparr>ss_ID = ''4'', ss_UserID = ''2'', ss_TokenHash = ''#refresh-4'', ss_IPAddress = [], ss_UserAgent = [], ss_ExpiresAt = 604800000000000, ss_CreatedAt = 0\<rparr>],
     db_audit = [\<lparr>al_ID = ''audit-2'', al_UserID = Some ''1'', al_Action = ''user.create'', al_Resource = ''user:2'', al_CreatedAt = 0\<rparr>],
     db_faults = []\<rparr>"
proof -
  have "sampleDB = snd (auth_Login sampleLib (sampleCall ''4'') ''bob'' ''battery staple'' [] []
    (snd (auth_CreateUser sampleLib (sampleCall ''2'') ''1'' \<lparr>ci_Username = ''bob'', ci_Email = ''bob@x'', ci_Password = ''battery staple'', ci_Role = RoleAdmin\<rparr>
    (snd (SeedAdminIfEmpty sampleLib (sampleCall ''1'') ''ann'' ''correct horse'' (emptyDB []))))))"
    using sample_create [of "''2''"] by (simp add: sampleDB_def sampleHistory_def run_login sampleMeta_def) (simp add: run_event_def)
  then show ?thesis by (rule trans) code_simp
qed

lemma sampleDB_inv: "auth_inv sampleLib sampleDB"
  unfolding sampleDB_def by (rule fold_run_inv)

declare sampleDB_eq [code]

text \<open>A token library with one token, which was issued to bob when he was an administrator.\<close>

definition bobClaims :: Claims where
  "bobClaims = \<lparr>cl_Issuer = ''opendeploy'', cl_Subject = ''2'', cl_IssuedAt = 0, cl_ExpiresAt = 900000000000, cl_UserID = ''2'', cl_Username = ''bob'',
     cl_Role = RoleAdmin\<rparr>"

definition bobLib :: auth_lib where
  "bobLib = sampleLib\<lparr>lb_sign := (\<lambda>c. if c = bobClaims then Some ''token'' else None),
     lb_parse := (\<lambda>now tok. if tok = ''token'' \<and> now < 900000000000 then Some bobClaims else None)\<rparr>"

definition demotedDB :: auth_db where
  "demotedDB = sampleDB\<lparr>db_users := [hd (db_users sampleDB), (hd (tl (db_users sampleDB)))\<lparr>u_Role := RoleViewer\<rparr>]\<rparr>"

theorem demoted_token_removes_last_admin_witness:
  "length (filter isAdmin (db_users demotedDB)) = 1 \<and>
   (\<exists>s'. handle_auth bobLib (sampleCall ''5'') (sampleMeta ''token'') (DeleteUserReq (u_ID (hd (db_users demotedDB)))) demotedDB = (Ok NoContent, s') \<and>
      filter isAdmin (db_users s') = [])"
proof -
  have t: "jwt_Generate bobLib 0 ''2'' ''bob'' RoleAdmin (lb_accessTTL bobLib) = Some ''token''"
    "extractBearerToken (hm_Authorization (sampleMeta ''token'')) = ''token''" "''token'' \<noteq> []" "hm_ServerID (sampleMeta ''token'') = []"
    "rfc3339 0 \<le> ac_now (sampleCall ''5'')" "ac_now (sampleCall ''5'') < rfc3339 (0 + lb_accessTTL bobLib)" by code_simp+
  have d: "db_faults demotedDB = []" "length (db_users demotedDB) = 2" "u_ID (hd (db_users demotedDB)) \<noteq> ''2''"
    "map isAdmin (db_users demotedDB) = [True, False]" by code_simp+
  then have m: "hd (db_users demotedDB) \<in> set (db_users demotedDB)" "\<forall>w \<in> set (db_users demotedDB). isAdmin w \<longrightarrow> w = hd (db_users demotedDB)"
    by (cases "db_users demotedDB"; force)+
  have law: "lb_sign bobLib c = Some tok \<Longrightarrow> cl_IssuedAt c \<le> now \<Longrightarrow> now < cl_ExpiresAt c \<Longrightarrow> lb_parse bobLib now tok = Some c" for c tok now
    by (auto simp: bobLib_def bobClaims_def split: if_splits)
  have "length (filter isAdmin (db_users demotedDB)) = 1" by code_simp
  then show ?thesis using demoted_token_removes_last_admin [OF t(1) law t(2-6) d(1) m(1) d(3) m(2)] by blast
qed

theorem blocked_user_refreshes_witness:
  "\<exists>v s' pair s''. handle_principal sampleLib (sampleCall ''5'') (samplePrincipal ''1'') (ActiveReq ''2'' False) (sampleDB\<lparr>db_faults := [False, False, True]\<rparr>) = (Ok v, s') \<and>
     auth_Refresh sampleLib (sampleCall ''6'') ''refresh-4'' [] [] s' = (Ok pair, s'')"
proof -
  let ?s = "sampleDB\<lparr>db_faults := [False, False, True]\<rparr>"
  let ?u = "hd (tl (db_users ?s))" and ?x = "hd (db_sessions ?s)"
  have inv: "auth_inv sampleLib ?s" using sampleDB_inv by (simp add: auth_inv_faults)
  have "length (db_users ?s) = 2" "length (db_sessions ?s) = 1" by code_simp+
  then have "tl (db_users ?s) \<noteq> []" "db_sessions ?s \<noteq> []" by (metis length_tl One_nat_def diff_Suc_1 list.size(3) numeral_2_eq_2 zero_neq_one)+
  then have m: "?u \<in> set (db_users ?s)" "?x \<in> set (db_sessions ?s)" by (metis hd_in_set list.set_sel(2) tl_Nil)+
  have e: "u_ID ?u = ''2''" "u_ID ?u \<noteq> pr_ID (samplePrincipal ''1'')" "ss_UserID ?x = u_ID ?u" "ss_TokenHash ?x = lb_sha256 sampleLib ''refresh-4''"
    "\<not> IsExpired (ac_now (sampleCall ''6'')) ?x" "ac_token (sampleCall ''6'') = Some ''refresh-6''"
    "ac_uuid (sampleCall ''6'') \<notin> ss_ID ` set (db_sessions ?s)" "lb_sha256 sampleLib ''refresh-6'' \<notin> ss_TokenHash ` set (db_sessions ?s)" by code_simp+
  have g: "lb_sign sampleLib c \<noteq> None" for c by (simp add: sampleLib_def)
  have f: "db_faults ?s = [False, False, True]" by simp
  from blocked_user_refreshes [OF inv f m(1) e(2) m(2) e(3-5) g e(6-8), of "sampleCall ''5''" "[]" "[]"] show ?thesis unfolding e(1) by blast
qed

theorem acting_admin_stays_witness:
  "\<exists>v \<in> set (db_users (snd (handle_principal sampleLib (sampleCall ''5'') (samplePrincipal ''1'') (demote ''1'' ''ann'') sampleDB))).
     u_ID v = pr_ID (samplePrincipal ''1'') \<and> u_Role v = RoleAdmin \<and> u_IsActive v"
proof -
  let ?u = "hd (db_users sampleDB)"
  have "?u \<in> set (db_users sampleDB)" "u_ID ?u = pr_ID (samplePrincipal ''1'')" "u_Role ?u = RoleAdmin" "u_IsActive ?u" by code_simp+
  then show ?thesis using acting_admin_stays [OF sampleDB_inv] surjective_pairing by blast
qed

theorem revoked_tokens_refused_witness:
  "fst (auth_Refresh sampleLib (sampleCall ''6'') ''refresh-4'' [] []
     (snd (handle_principal sampleLib (sampleCall ''5'') (samplePrincipal ''1'') (ActiveReq ''2'' False) sampleDB))) = Err TokenInvalid"
proof -
  let ?x = "hd (db_sessions sampleDB)" and ?r = "ActiveReq ''2'' False"
  let ?q = "handle_principal sampleLib (sampleCall ''5'') (samplePrincipal ''1'') ?r sampleDB"
  have "db_faults sampleDB = []" "revokes (samplePrincipal ''1'') ?r ''2''" "?x \<in> set (db_sessions sampleDB)" "ss_UserID ?x = ''2''"
    "ss_TokenHash ?x = lb_sha256 sampleLib ''refresh-4''" "case fst ?q of Ok _ \<Rightarrow> True | Err _ \<Rightarrow> False" by code_simp+
  moreover obtain v where "?q = (Ok v, snd ?q)" by (cases ?q; cases "fst ?q") (use calculation in auto)
  ultimately show ?thesis using revoked_tokens_refused [OF sampleDB_inv] by blast
qed

end
