(* ===== verification/Backup_Engine.thy ===== *)
theory Backup_Engine
  imports Go_Links "HOL-Library.List_Lexorder" "HOL-Library.Char_ord"
begin

text \<open>
  System backups (\<open>internal/backup\<close>): an engine collects the configured sources into a compressed archive
  with a manifest, verifies archives, and restores them file by file with snapshots for a rollback. Source
  paths may run through symbolic links; the directories for backups and state are the engine's own and have
  none. Parameters are the codecs of JSON, tar and gzip, SHA-256, SQLite's \<open>VACUUM INTO\<close> with the integrity check,
  the runtime that stops and restarts the services, the clock and random names. An archive is read and
  written at once, and cancellation is left out.
\<close>

section \<open>Configuration\<close>

definition Schema :: string where "Schema = ''opendeploy.backup/v1''"

record Source =
  sr_ID :: string
  sr_Path :: string
  sr_Required :: bool
  sr_Database :: bool
  sr_File :: bool

record BackupConfig =
  bc_BackupDir :: string
  bc_StateDir :: string
  bc_Sources :: "Source list"
  bc_MaxEntries :: int
  bc_MaxBytes :: int

definition dirSource :: "string \<Rightarrow> string \<Rightarrow> Source" where
  "dirSource i p = \<lparr>sr_ID = i, sr_Path = p, sr_Required = False, sr_Database = False, sr_File = False\<rparr>"

definition fileSource :: "string \<Rightarrow> string \<Rightarrow> Source" where
  "fileSource i p = \<lparr>sr_ID = i, sr_Path = p, sr_Required = False, sr_Database = False, sr_File = True\<rparr>"

definition DefaultBackupConfig :: BackupConfig where
  "DefaultBackupConfig =
     \<lparr>bc_BackupDir = ''/var/lib/opendeploy/backups'', bc_StateDir = ''/var/lib/opendeploy/backup-state'',
      bc_Sources =
        [(dirSource ''panel'' ''/etc/opendeploy'')\<lparr>sr_Required := True\<rparr>,
         (dirSource ''database'' ''/var/lib/opendeploy/data.db'')\<lparr>sr_Required := True, sr_Database := True\<rparr>,
         dirSource ''sites'' ''/var/www'', dirSource ''ssl'' ''/etc/letsencrypt'', dirSource ''nginx'' ''/etc/nginx'',
         dirSource ''fail2ban'' ''/etc/fail2ban'', fileSource ''cron'' ''/etc/cron.d/opendeploy'',
         dirSource ''cron-state'' ''/var/lib/opendeploy/cron'', dirSource ''ufw'' ''/etc/ufw'', fileSource ''nftables'' ''/etc/nftables.conf'',
         dirSource ''apache'' ''/etc/apache2'', dirSource ''php'' ''/etc/php'', dirSource ''mysql'' ''/etc/mysql'',
         dirSource ''postgresql'' ''/etc/postgresql'', fileSource ''systemd-core'' ''/etc/systemd/system/opendeploy-core.service'',
         fileSource ''systemd-agent'' ''/etc/systemd/system/opendeploy-agent.service'',
         fileSource ''systemd-update'' ''/etc/systemd/system/opendeploy-update.service'',
         fileSource ''systemd-update-path'' ''/etc/systemd/system/opendeploy-update.path''],
      bc_MaxEntries = 1000000, bc_MaxBytes = 500 * 2 ^ 30\<rparr>"

record Entry =
  en_SourceID :: string
  en_Path :: string
  en_SHA256 :: string
  en_Size :: int
  en_Mode :: "32 word"

record BackupManifest =
  bm_Schema :: string
  bm_ID :: string
  bm_CreatedAt :: "int option"
  bm_Reason :: string
  bm_OpenDeploy :: string
  bm_Entries :: "Entry list"
  bm_TotalBytes :: int

definition emptyManifest :: BackupManifest where
  "emptyManifest = \<lparr>bm_Schema = [], bm_ID = [], bm_CreatedAt = None, bm_Reason = [], bm_OpenDeploy = [], bm_Entries = [], bm_TotalBytes = 0\<rparr>"

datatype bk_error =
    DirsRelative
  | BadSource string
  | BadLimits
  | BOS os_error
  | DatabaseSource os_error
  | DatabaseSnapshot
  | Inspect string os_error
  | SourceIsLink string
  | Collect string bk_error
  | ArchiveShort string
  | VerifyNew bk_error
  | OpenGzip
  | ManifestFirst
  | ParseManifestFailed
  | InvalidManifest
  | InvalidEntry string
  | DeclaredSize
  | RequiredMissing string
  | ReadArchive
  | ForbiddenEntry string
  | UnexpectedEntry string
  | Integrity string
  | Incomplete
  | MappingMissing string
  | PrepareServices
  | TargetNotRegular path
  | SnapshotCurrent path os_error
  | RolledBack string os_error "bk_error list"
  | HealthGate "bk_error list" bool
  | WithAfterRestore bk_error
  | RemoveNonRegular path
  | CorruptHistory nat

type_synonym 'a bk = "(os, bk_error, 'a) action"

record BackupOperation =
  bo_ID :: string
  bo_Type :: string
  bo_BackupID :: string
  bo_Archive :: string
  bo_Reason :: string
  bo_Status :: string
  bo_StartedAt :: int
  bo_FinishedAt :: int
  bo_Error :: "bk_error option"

definition safeSourceID :: "string \<Rightarrow> bool" where
  "safeSourceID v = (v \<noteq> [] \<and> list_all (\<lambda>c. is_lower c \<or> is_digit c \<or> c = CHR ''-'' \<or> c = CHR ''_'') v)"

fun validSources :: "string list \<Rightarrow> Source list \<Rightarrow> (bk_error, unit) result" where
  "validSources seen [] = Ok ()"
| "validSources seen (x # xs) =
     (if \<not> safeSourceID (sr_ID x) \<or> sr_ID x \<in> set seen \<or> \<not> IsAbs (sr_Path x) then Err (BadSource (sr_ID x))
      else validSources (sr_ID x # seen) xs)"

definition bk_validate :: "BackupConfig \<Rightarrow> (bk_error, unit) result" where
  "bk_validate cfg =
     (if \<not> IsAbs (bc_BackupDir cfg) \<or> \<not> IsAbs (bc_StateDir cfg) then Err DirsRelative
      else andThen (validSources [] (bc_Sources cfg)) (\<lambda>_.
           guardE (bc_MaxEntries cfg \<le> 0 \<or> bc_MaxBytes cfg \<le> 0) BadLimits))"

section \<open>Environment\<close>

record arc_entry =
  ae_Name :: string
  ae_Regular :: bool
  ae_Size :: int
  ae_Mode :: "32 word"
  ae_Data :: string

text \<open>\<open>be_untar\<close> is None for bytes that are not compressed; otherwise the entries that can be read, and whether
  the archive ends properly after them. \<open>be_runtime\<close> are BeforeRestore and AfterRestore.\<close>

record bk_env =
  be_Now :: int
  be_stamp :: string
  be_Finished :: int
  be_Version :: string
  be_rnd :: string
  be_sha256 :: "string \<Rightarrow> string"
  be_encode :: "BackupManifest \<Rightarrow> string"
  be_decode :: "string \<Rightarrow> BackupManifest option"
  be_tar :: "arc_entry list \<Rightarrow> string"
  be_untar :: "string \<Rightarrow> (arc_entry list \<times> bool) option"
  be_vacuum :: "string \<Rightarrow> string option"
  be_encodeOp :: "BackupOperation \<Rightarrow> string"
  be_decodeOp :: "string \<Rightarrow> BackupOperation option"
  be_runtime :: "((os \<Rightarrow> bool) \<times> (os \<Rightarrow> bool)) option"

definition bk_stateDir :: "BackupConfig \<Rightarrow> path" where "bk_stateDir cfg = path_comps (bc_StateDir cfg)"
definition bk_backupDir :: "BackupConfig \<Rightarrow> path" where "bk_backupDir cfg = path_comps (bc_BackupDir cfg)"

definition manifestName :: string where "manifestName = ''manifest.json''"

definition bk_prepare :: "BackupConfig \<Rightarrow> unit bk" where
  "bk_prepare cfg =
     bindS (liftS (bk_validate cfg)) (\<lambda>_.
     bindS (wrapS BOS (os_MkdirAll (bk_backupDir cfg) 0x1C0)) (\<lambda>_.
     wrapS BOS (os_MkdirAll (bk_stateDir cfg) 0x1C0)))"

definition bk_historyPath :: "BackupConfig \<Rightarrow> path" where
  "bk_historyPath cfg = bk_stateDir cfg @ [''history.jsonl'']"

definition bk_appendHistory :: "bk_env \<Rightarrow> BackupConfig \<Rightarrow> BackupOperation \<Rightarrow> unit bk" where
  "bk_appendHistory env cfg op =
     wrapS BOS (bindS (os_MkdirAll (bk_stateDir cfg) 0x1C0) (\<lambda>_.
       bindS (os_OpenCreate (bk_historyPath cfg) 0x180) (\<lambda>_.
       bindS (os_AppendData (bk_historyPath cfg) (be_encodeOp env op @ [NL])) (\<lambda>_. os_Sync))))"

fun decodeOps :: "(string \<Rightarrow> BackupOperation option) \<Rightarrow> nat \<Rightarrow> string list \<Rightarrow> (bk_error, BackupOperation list) result" where
  "decodeOps dec n [] = Ok []"
| "decodeOps dec n (line # rest) =
     (if line = [] then decodeOps dec (Suc n) rest
      else case dec line of None \<Rightarrow> Err (CorruptHistory (Suc n))
           | Some e \<Rightarrow> andThen (decodeOps dec (Suc n) rest) (\<lambda>es. Ok (e # es)))"

definition bk_History :: "bk_env \<Rightarrow> BackupConfig \<Rightarrow> BackupOperation list bk" where
  "bk_History env cfg s =
     (case os_ReadFile (bk_historyPath cfg) s of
        (Inl e, s') \<Rightarrow> (if e = ENOENT then Ok [] else Err (BOS e), s')
      | (Inr data, s') \<Rightarrow> (decodeOps (be_decodeOp env) 0 (Split NL (TrimSpace data)), s'))"


section \<open>Collecting\<close>

record collectedFile =
  cf_entry :: Entry
  cf_path :: path

text \<open>The snapshot of a database: its file is read, rewritten by SQLite and checked.\<close>

definition snapshotSQLite :: "bk_env \<Rightarrow> path \<Rightarrow> path \<Rightarrow> unit bk" where
  "snapshotSQLite env source destination =
     bindS (wrapS DatabaseSource (statNode source)) (\<lambda>_.
     bindS (wrapS (\<lambda>_. DatabaseSnapshot) (readContent source)) (\<lambda>c.
     case be_vacuum env c of None \<Rightarrow> failS DatabaseSnapshot
     | Some copy \<Rightarrow>
         bindS (wrapS (\<lambda>_. DatabaseSnapshot) (os_OpenExcl destination 0x1A4)) (\<lambda>_.
         wrapS (\<lambda>_. DatabaseSnapshot) (os_WriteData destination copy))))"

definition collectOne :: "bk_env \<Rightarrow> string \<Rightarrow> string \<Rightarrow> path \<Rightarrow> meta \<Rightarrow> collectedFile io" where
  "collectOne env sourceID relative p info =
     bindS (readContent p) (\<lambda>c.
     retS \<lparr>cf_entry = \<lparr>en_SourceID = sourceID, en_Path = relative, en_SHA256 = be_sha256 env c, en_Size = int (length c),
                          en_Mode = perm info AND 0x1FF\<rparr>,
            cf_path = p\<rparr>)"

text \<open>What \<open>filepath.Walk\<close> visits below a directory, in its order.\<close>

definition walkPaths :: "os \<Rightarrow> path \<Rightarrow> path list" where
  "walkPaths s root = sort (filter (strict_prefix root) (remdups (map fst (tree s))))"

text \<open>One visited path: a link is followed when it stays below the source and leads to a regular file.\<close>

definition visitPath :: "bk_env \<Rightarrow> string \<Rightarrow> path \<Rightarrow> path \<Rightarrow> path \<Rightarrow> collectedFile list io" where
  "visitPath env sourceID sourcePath root current =
     (let relative = Join ''/'' (drop (length root) current)
      in bindS (os_Open current) (\<lambda>info.
         case info of
           FileN _ m \<Rightarrow> bindS (collectOne env sourceID relative current m) (\<lambda>f. retS [f])
         | DirN _ \<Rightarrow> retS []
         | LinkN _ \<Rightarrow> (\<lambda>s.
             case EvalSymlinks current s of
               (Inl _, s1) \<Rightarrow> (Ok [], s1)
             | (Inr resolved, s1) \<Rightarrow>
                 if \<not> prefix sourcePath resolved then (Ok [], s1)
                 else bindS (statNode resolved) (\<lambda>info.
                      case info of FileN _ m \<Rightarrow> bindS (collectOne env sourceID relative resolved m) (\<lambda>f. retS [f])
                      | _ \<Rightarrow> retS []) s1)))"

fun visitAll :: "(path \<Rightarrow> collectedFile list io) \<Rightarrow> path list \<Rightarrow> collectedFile list io" where
  "visitAll visit [] s = (Ok [], s)"
| "visitAll visit (p # ps) s = bindS (visit p) (\<lambda>fs. bindS (visitAll visit ps) (\<lambda>gs. retS (fs @ gs))) s"

definition collectTree :: "bk_env \<Rightarrow> Source \<Rightarrow> path \<Rightarrow> collectedFile list io" where
  "collectTree env source sourcePath =
     inDir sourcePath (\<lambda>root s. visitAll (visitPath env (sr_ID source) sourcePath root) (walkPaths s root) s)"

definition collectPath :: "bk_env \<Rightarrow> Source \<Rightarrow> path \<Rightarrow> collectedFile list bk" where
  "collectPath env source p s =
     (case lstatNode p s of
        (Inl e, s1) \<Rightarrow> (if e = ENOENT \<and> \<not> sr_Required source then Ok [] else Err (Inspect (sr_ID source) e), s1)
      | (Inr (LinkN _), s1) \<Rightarrow> (Err (SourceIsLink (sr_ID source)), s1)
      | (Inr (FileN _ m), s1) \<Rightarrow>
          bindS (wrapS BOS (collectOne env (sr_ID source) (Base (sr_Path source)) p m)) (\<lambda>f. retS [f]) s1
      | (Inr (DirN _), s1) \<Rightarrow> wrapS (\<lambda>e. Collect (sr_ID source) (BOS e)) (collectTree env source p) s1)"

definition collectSource :: "bk_env \<Rightarrow> path \<Rightarrow> Source \<Rightarrow> collectedFile list bk" where
  "collectSource env stage source s =
     (let p = path_comps (sr_Path source)
      in if sr_Database source then
           let snapshot = stage @ [sr_ID source @ ''.db'']
           in (case snapshotSQLite env p snapshot s of
                 (Inl e, s1) \<Rightarrow> (if sr_Required source then Err e else Ok [], s1)
               | (Inr _, s1) \<Rightarrow> collectPath env source snapshot s1)
         else collectPath env source p s)"

fun collectSources :: "bk_env \<Rightarrow> path \<Rightarrow> Source list \<Rightarrow> collectedFile list bk" where
  "collectSources env stage [] s = (Ok [], s)"
| "collectSources env stage (x # xs) s =
     bindS (collectSource env stage x) (\<lambda>fs. bindS (collectSources env stage xs) (\<lambda>gs. retS (fs @ gs))) s"

definition entryKey :: "Entry \<Rightarrow> string" where
  "entryKey e = en_SourceID e @ ''/'' @ en_Path e"

definition bk_collect :: "bk_env \<Rightarrow> BackupConfig \<Rightarrow> path \<Rightarrow> collectedFile list bk" where
  "bk_collect env cfg stage =
     bindS (collectSources env stage (bc_Sources cfg)) (\<lambda>files. retS (sort_key (\<lambda>f. entryKey (cf_entry f)) files))"

section \<open>Writing an archive\<close>

definition writeTarFile :: "collectedFile \<Rightarrow> arc_entry bk" where
  "writeTarFile item =
     (let name = ''data/'' @ entryKey (cf_entry item)
      in bindS (wrapS BOS (readContent (cf_path item))) (\<lambda>c.
         bindS (guardS (int (length c) \<noteq> en_Size (cf_entry item)) (ArchiveShort name)) (\<lambda>_.
         retS \<lparr>ae_Name = name, ae_Regular = True, ae_Size = en_Size (cf_entry item), ae_Mode = en_Mode (cf_entry item), ae_Data = c\<rparr>)))"

fun writeTarFiles :: "collectedFile list \<Rightarrow> arc_entry list bk" where
  "writeTarFiles [] s = (Ok [], s)"
| "writeTarFiles (f # fs) s = bindS (writeTarFile f) (\<lambda>e. bindS (writeTarFiles fs) (\<lambda>es. retS (e # es))) s"

definition manifestEntry :: "bk_env \<Rightarrow> BackupManifest \<Rightarrow> arc_entry" where
  "manifestEntry env m =
     (let data = be_encode env m
      in \<lparr>ae_Name = manifestName, ae_Regular = True, ae_Size = int (length data), ae_Mode = 0x180, ae_Data = data\<rparr>)"

definition writeArchive :: "bk_env \<Rightarrow> path \<Rightarrow> BackupManifest \<Rightarrow> collectedFile list \<Rightarrow> unit bk" where
  "writeArchive env output m files =
     bindS (writeTarFiles files) (\<lambda>entries.
     wrapS BOS (os_WriteData output (be_tar env (manifestEntry env m # entries))))"

section \<open>Verified extraction\<close>

definition safeRelative :: "string \<Rightarrow> bool" where
  "safeRelative p = (p \<noteq> [] \<and> BACKSLASH \<notin> set p \<and> \<not> IsAbs p \<and> Clean p = p \<and> p \<noteq> ''..'' \<and> \<not> HasPrefix p ''../'')"

text \<open>Arithmetic of int64.\<close>

definition wrap64 :: "int \<Rightarrow> int" where
  "wrap64 x = (x + 2 ^ 63) mod 2 ^ 64 - 2 ^ 63"

definition badEntry :: "int \<Rightarrow> (string \<times> Entry) list \<Rightarrow> int \<Rightarrow> Entry \<Rightarrow> bool" where
  "badEntry maxBytes expected declared e =
     (map_of expected (entryKey e) \<noteq> None \<or> \<not> safeSourceID (en_SourceID e) \<or> \<not> safeRelative (en_Path e) \<or>
      length (en_SHA256 e) \<noteq> 64 \<or> en_Size e < 0 \<or> en_Size e > wrap64 (maxBytes - declared) \<or> en_Mode e > 0x1FF)"

fun checkEntries :: "int \<Rightarrow> (string \<times> Entry) list \<Rightarrow> int \<Rightarrow> Entry list \<Rightarrow> (bk_error, (string \<times> Entry) list \<times> int) result" where
  "checkEntries maxBytes expected declared [] = Ok (expected, declared)"
| "checkEntries maxBytes expected declared (e # es) =
     (if badEntry maxBytes expected declared e then Err (InvalidEntry (entryKey e))
      else checkEntries maxBytes ((entryKey e, e) # expected) (wrap64 (declared + en_Size e)) es)"

definition checkManifest :: "BackupConfig \<Rightarrow> BackupManifest \<Rightarrow> (bk_error, (string \<times> Entry) list) result" where
  "checkManifest cfg m =
     (if bm_Schema m \<noteq> Schema \<or> bm_ID m = [] \<or> bm_CreatedAt m = None \<or> int (length (bm_Entries m)) > bc_MaxEntries cfg
      then Err InvalidManifest
      else andThen (checkEntries (bc_MaxBytes cfg) [] 0 (bm_Entries m)) (\<lambda>(expected, declared).
           if declared \<noteq> bm_TotalBytes m \<or> declared > bc_MaxBytes cfg then Err DeclaredSize
           else case find (\<lambda>x. sr_Required x \<and> sr_ID x \<notin> en_SourceID ` set (bm_Entries m)) (bc_Sources cfg) of
                  Some x \<Rightarrow> Err (RequiredMissing (sr_ID x))
                | None \<Rightarrow> Ok expected))"

text \<open>Storing the data of one entry; without a destination it is only hashed.\<close>

definition storeEntry :: "path option \<Rightarrow> string \<Rightarrow> string \<Rightarrow> (bool \<times> path) bk" where
  "storeEntry destination key data =
     (case destination of None \<Rightarrow> retS (True, [])
      | Some d \<Rightarrow>
          let target = path_comps (PathJoin [abs_path d, key])
          in bindS (wrapS BOS (os_MkdirAll (butlast target) 0x1C0)) (\<lambda>_.
             bindS (wrapS BOS (os_OpenExcl target 0x180)) (\<lambda>_ s.
             case os_WriteData target data s of
               (w, s1) \<Rightarrow> (case os_Sync s1 of (c, s2) \<Rightarrow> (Ok (is_ok w \<and> is_ok c, target), s2)))))"

fun extractAll :: "bk_env \<Rightarrow> path option \<Rightarrow> bool \<Rightarrow> (string \<times> Entry) list \<Rightarrow> (string \<times> path) list \<Rightarrow> arc_entry list \<Rightarrow> (string \<times> path) list bk" where
  "extractAll env destination complete expected extracted [] s =
     (if \<not> complete then Err ReadArchive else if expected \<noteq> [] then Err Incomplete else Ok extracted, s)"
| "extractAll env destination complete expected extracted (h # hs) s =
     (if \<not> ae_Regular h \<or> \<not> HasPrefix (ae_Name h) ''data/'' then (Err (ForbiddenEntry (ae_Name h)), s)
      else let key = TrimPrefix (ae_Name h) ''data/''
           in case map_of expected key of None \<Rightarrow> (Err (UnexpectedEntry key), s)
              | Some e \<Rightarrow>
                  if ae_Size h \<noteq> en_Size e then (Err (UnexpectedEntry key), s)
                  else let data = take (nat (en_Size e)) (ae_Data h)
                       in bindS (storeEntry destination key data) (\<lambda>(stored, target).
                          bindS (guardS (\<not> stored \<or> int (length data) \<noteq> en_Size e \<or> be_sha256 env data \<noteq> en_SHA256 e) (Integrity key)) (\<lambda>_.
                          extractAll env destination complete (filter (\<lambda>(k, _). k \<noteq> key) expected) ((key, target) # extracted) hs)) s)"

definition withManifest :: "BackupManifest \<Rightarrow> 'a bk \<Rightarrow> (os, BackupManifest \<times> bk_error, 'a) action" where
  "withManifest m act = wrapS (Pair m) act"

definition readManifest :: "bk_env \<Rightarrow> arc_entry list \<Rightarrow> (bk_error, BackupManifest \<times> arc_entry list) result" where
  "readManifest env entries =
     (case entries of [] \<Rightarrow> Err ManifestFirst
      | h # hs \<Rightarrow>
          if ae_Name h \<noteq> manifestName \<or> \<not> ae_Regular h \<or> ae_Size h > 16 * 2 ^ 20 then Err ManifestFirst
          else case be_decode env (take (nat (ae_Size h)) (ae_Data h)) of None \<Rightarrow> Err ParseManifestFailed
               | Some m \<Rightarrow> Ok (m, hs))"

definition openArchive :: "bk_env \<Rightarrow> BackupConfig \<Rightarrow> path \<Rightarrow> (BackupManifest \<times> arc_entry list \<times> bool) bk" where
  "openArchive env cfg archivePath =
     bindS (liftS (bk_validate cfg)) (\<lambda>_.
     bindS (wrapS BOS (readContent archivePath)) (\<lambda>data.
     case be_untar env data of None \<Rightarrow> failS OpenGzip
     | Some (entries, complete) \<Rightarrow>
         bindS (liftS (readManifest env entries)) (\<lambda>(m, rest). retS (m, rest, complete))))"

definition extractVerified ::
  "bk_env \<Rightarrow> BackupConfig \<Rightarrow> path \<Rightarrow> path option \<Rightarrow> (os, BackupManifest \<times> bk_error, BackupManifest \<times> (string \<times> path) list) action" where
  "extractVerified env cfg archivePath destination =
     bindS (withManifest emptyManifest (openArchive env cfg archivePath)) (\<lambda>(m, rest, complete).
     withManifest m (
       bindS (liftS (checkManifest cfg m)) (\<lambda>expected.
       bindS (extractAll env destination complete expected [] rest) (\<lambda>extracted.
       retS (m, extracted)))))"


section \<open>Create and Verify\<close>

definition finishOp :: "bk_env \<Rightarrow> BackupConfig \<Rightarrow> BackupOperation \<Rightarrow> bk_error option \<Rightarrow> os \<Rightarrow> os" where
  "finishOp env cfg op err s =
     snd (bk_appendHistory env cfg (op\<lparr>bo_FinishedAt := be_Finished env, bo_Status := (if err = None then ''succeeded'' else ''failed''),
       bo_Error := err\<rparr>) s)"

definition newManifest :: "bk_env \<Rightarrow> string \<Rightarrow> BackupManifest" where
  "newManifest env reason =
     (let r = TrimSpace reason
      in emptyManifest\<lparr>bm_Schema := Schema, bm_ID := be_stamp env, bm_CreatedAt := Some (be_Now env),
           bm_Reason := (if r = [] then ''manual'' else r), bm_OpenDeploy := be_Version env\<rparr>)"

definition withFiles :: "BackupManifest \<Rightarrow> collectedFile list \<Rightarrow> BackupManifest" where
  "withFiles m files =
     m\<lparr>bm_Entries := map cf_entry files, bm_TotalBytes := fold (\<lambda>f t. wrap64 (t + en_Size (cf_entry f))) files 0\<rparr>"

definition archivePathOf :: "BackupConfig \<Rightarrow> BackupManifest \<Rightarrow> path" where
  "archivePathOf cfg m = bk_backupDir cfg @ [''opendeploy-'' @ bm_ID m @ ''.tar.gz'']"

text \<open>The temporary archive is written, closed and renamed, and removed when it is still there at the end.\<close>

definition publish :: "bk_env \<Rightarrow> BackupConfig \<Rightarrow> BackupManifest \<Rightarrow> collectedFile list \<Rightarrow> unit bk" where
  "publish env cfg m files =
     bindS (wrapS BOS (os_CreateTemp (bk_backupDir cfg) ''.backup-'' (be_rnd env @ ''.tar.gz''))) (\<lambda>temp.
     deferS (os_RemoveFile temp) (
       bindS (writeArchive env temp m files) (\<lambda>_.
       bindS (wrapS BOS os_Sync) (\<lambda>_.
       bindS (wrapS BOS os_Sync) (\<lambda>_.
       bindS (wrapS BOS (os_Rename temp (archivePathOf cfg m))) (\<lambda>_ s.
       case extractVerified env cfg (archivePathOf cfg m) None s of
         (Inl (_, e), s1) \<Rightarrow> (Err (VerifyNew e), os_RemoveFile (archivePathOf cfg m) s1)
       | (Inr _, s1) \<Rightarrow> (Ok (), s1)))))))"

definition createBody :: "bk_env \<Rightarrow> BackupConfig \<Rightarrow> BackupManifest \<Rightarrow> BackupManifest bk" where
  "createBody env cfg m =
     bindS (wrapS BOS (os_MkdirTemp (bk_stateDir cfg) ''create-'' (be_rnd env))) (\<lambda>stage.
     deferS (\<lambda>s. snd (os_RemoveAll stage s)) (
       bindS (bk_collect env cfg stage) (\<lambda>files.
       bindS (publish env cfg (withFiles m files) files) (\<lambda>_. retS (withFiles m files)))))"

definition bk_Create :: "bk_env \<Rightarrow> BackupConfig \<Rightarrow> string \<Rightarrow> os \<Rightarrow> (bk_error, BackupManifest \<times> path) result \<times> os" where
  "bk_Create env cfg reason s =
     (case bk_prepare cfg s of
        (Inl e, s1) \<Rightarrow> (Err e, s1)
      | (Inr _, s1) \<Rightarrow>
          let m = newManifest env reason;
              op = \<lparr>bo_ID = ''create-'' @ bm_ID m, bo_Type = ''create'', bo_BackupID = bm_ID m, bo_Archive = [], bo_Reason = bm_Reason m,
                    bo_Status = ''running'', bo_StartedAt = be_Now env, bo_FinishedAt = 0, bo_Error = None\<rparr>
          in (case createBody env cfg m s1 of
                (Inl e, s2) \<Rightarrow> (Err e, finishOp env cfg op (Some e) s2)
              | (Inr m', s2) \<Rightarrow>
                  (Ok (m', archivePathOf cfg m'), finishOp env cfg (op\<lparr>bo_Archive := abs_path (archivePathOf cfg m')\<rparr>) None s2)))"

definition bk_CreateBackup :: "bk_env \<Rightarrow> BackupConfig \<Rightarrow> string \<Rightarrow> os \<Rightarrow> (bk_error, path) result \<times> os" where
  "bk_CreateBackup env cfg reason s = (case bk_Create env cfg reason s of (r, s') \<Rightarrow> (map_sum id snd r, s'))"

definition newOperation :: "bk_env \<Rightarrow> string \<Rightarrow> string \<Rightarrow> BackupOperation" where
  "newOperation env kind archivePath =
     \<lparr>bo_ID = kind @ ''-'' @ be_stamp env, bo_Type = kind, bo_BackupID = [], bo_Archive = archivePath, bo_Reason = [],
      bo_Status = ''running'', bo_StartedAt = be_Now env, bo_FinishedAt = 0, bo_Error = None\<rparr>"

text \<open>The end of Verify and Restore: the manifest that was read, and the entry in the history.\<close>

definition concludeOp ::
  "bk_env \<Rightarrow> BackupConfig \<Rightarrow> BackupOperation \<Rightarrow> (BackupManifest \<times> bk_error, BackupManifest) result \<times> os \<Rightarrow>
   (BackupManifest \<times> bk_error option) \<times> os" where
  "concludeOp env cfg op outcome =
     (case outcome of
        (Inl (m, e), s) \<Rightarrow> ((m, Some e), finishOp env cfg (op\<lparr>bo_BackupID := bm_ID m\<rparr>) (Some e) s)
      | (Inr m, s) \<Rightarrow> ((m, None), finishOp env cfg (op\<lparr>bo_BackupID := bm_ID m\<rparr>) None s))"

definition bk_Verify :: "bk_env \<Rightarrow> BackupConfig \<Rightarrow> string \<Rightarrow> os \<Rightarrow> (BackupManifest \<times> bk_error option) \<times> os" where
  "bk_Verify env cfg archivePath s =
     (case bk_prepare cfg s of
        (Inl e, s1) \<Rightarrow> ((emptyManifest, Some e), s1)
      | (Inr _, s1) \<Rightarrow>
          concludeOp env cfg (newOperation env ''verify'' archivePath)
            (bindS (extractVerified env cfg (path_comps archivePath) None) (\<lambda>(m, _). retS m) s1))"

section \<open>Restore\<close>

text \<open>None is the empty name, which cannot be opened.\<close>

definition bk_atomicCopy :: "bk_env \<Rightarrow> path option \<Rightarrow> path \<Rightarrow> 32 word \<Rightarrow> unit io" where
  "bk_atomicCopy env source destination mode =
     bindS (MkdirAllFollow (butlast destination) 0x1E8) (\<lambda>_.
     bindS (case source of None \<Rightarrow> failS ENOENT | Some p \<Rightarrow> follow p os_Open) (\<lambda>input.
     bindS (follow (butlast destination) (\<lambda>d. os_CreateTemp d (''.'' @ Base (abs_path destination) @ ''.restore-'') (be_rnd env))) (\<lambda>temp.
     deferS (os_RemoveFile temp) (
       bindS (copyNode input temp) (\<lambda>_.
       bindS (os_Chmod temp (mode AND 0x1FF)) (\<lambda>_.
       bindS os_Sync (\<lambda>_.
       bindS os_Sync (\<lambda>_.
       inDir destination (os_Rename temp)))))))))"

definition removeRegular :: "path \<Rightarrow> unit bk" where
  "removeRegular p s =
     (case lstatNode p s of
        (Inl e, s1) \<Rightarrow> (if e = ENOENT then Ok () else Err (BOS e), s1)
      | (Inr (FileN _ _), s1) \<Rightarrow> wrapS BOS (inDir p os_Remove) s1
      | (Inr _, s1) \<Rightarrow> (Err (RemoveNonRegular p), s1))"

record restoreTarget =
  rt_path :: path
  rt_snapshot :: path
  rt_hadOriginal :: bool
  rt_mode :: "32 word"

definition undoTarget :: "bk_env \<Rightarrow> restoreTarget \<Rightarrow> unit bk" where
  "undoTarget env item =
     (if rt_hadOriginal item then wrapS BOS (bk_atomicCopy env (Some (rt_snapshot item)) (rt_path item) (rt_mode item))
      else removeRegular (rt_path item))"

text \<open>The rollback goes backwards and joins the errors; the list is given in that order.\<close>

fun rollbackWith :: "('i \<Rightarrow> ('s, 'e, unit) action) \<Rightarrow> 'i list \<Rightarrow> 's \<Rightarrow> 'e list \<times> 's" where
  "rollbackWith undo [] s = ([], s)"
| "rollbackWith undo (item # rest) s =
     (case undo item s of
        (r, s1) \<Rightarrow> (case rollbackWith undo rest s1 of (es, s2) \<Rightarrow> ((case r of Inl e \<Rightarrow> e # es | Inr _ \<Rightarrow> es), s2)))"

definition bk_rollback :: "bk_env \<Rightarrow> restoreTarget list \<Rightarrow> os \<Rightarrow> bk_error list \<times> os" where
  "bk_rollback env = rollbackWith (undoTarget env)"

definition targetOf :: "Source \<Rightarrow> Entry \<Rightarrow> path" where
  "targetOf source e =
     (if sr_Database source \<or> sr_File source then path_comps (sr_Path source) else path_comps (PathJoin [sr_Path source, en_Path e]))"

definition snapshotTarget :: "bk_env \<Rightarrow> path \<Rightarrow> path \<Rightarrow> meta \<Rightarrow> restoreTarget bk" where
  "snapshotTarget env snapshot target m =
     bindS (wrapS (SnapshotCurrent target) (bk_atomicCopy env (Some target) snapshot (perm m))) (\<lambda>_.
     retS \<lparr>rt_path = target, rt_snapshot = snapshot, rt_hadOriginal = True, rt_mode = perm m\<rparr>)"

definition prepareTarget :: "bk_env \<Rightarrow> path \<Rightarrow> nat \<Rightarrow> path \<Rightarrow> restoreTarget bk" where
  "prepareTarget env stage n target s =
     (let snapshot = stage @ [''rollback'', nat_digits n]
      in case lstatNode target s of
           (Inl e, s1) \<Rightarrow>
             (if e = ENOENT then Ok \<lparr>rt_path = target, rt_snapshot = [], rt_hadOriginal = False, rt_mode = 0\<rparr> else Err (BOS e), s1)
         | (Inr (FileN _ m), s1) \<Rightarrow> snapshotTarget env snapshot target m s1
         | (Inr (DirN _), s1) \<Rightarrow> (Err (TargetNotRegular target), s1)
         | (Inr (LinkN _), s1) \<Rightarrow>
             (case statNode target s1 of
                (Inr (FileN _ m), s2) \<Rightarrow> snapshotTarget env snapshot target m s2
              | (_, s2) \<Rightarrow> (Err (TargetNotRegular target), s2)))"

fun restoreEntries ::
  "bk_env \<Rightarrow> Source list \<Rightarrow> path \<Rightarrow> (string \<times> path) list \<Rightarrow> restoreTarget list \<Rightarrow> Entry list \<Rightarrow> restoreTarget list bk" where
  "restoreEntries env sources stage extracted changed [] s = (Ok changed, s)"
| "restoreEntries env sources stage extracted changed (e # es) s =
     (case find (\<lambda>x. sr_ID x = en_SourceID e) sources of
        None \<Rightarrow> (Err (MappingMissing (en_SourceID e)), s)
      | Some source \<Rightarrow>
          let target = targetOf source e
          in bindS (prepareTarget env stage (length changed) target) (\<lambda>item s1.
             case bk_atomicCopy env (map_of extracted (entryKey e)) target (en_Mode e) s1 of
               (Inl err, s2) \<Rightarrow>
                 (case bk_rollback env (item # changed) s2 of (errs, s3) \<Rightarrow> (Err (RolledBack (entryKey e) err errs), s3))
             | (Inr _, s2) \<Rightarrow> restoreEntries env sources stage extracted (item # changed) es s2) s)"

text \<open>\<open>changed\<close> is kept with the latest target first.\<close>

definition applyRestore :: "bk_env \<Rightarrow> BackupConfig \<Rightarrow> path \<Rightarrow> BackupManifest \<Rightarrow> (string \<times> path) list \<Rightarrow> unit bk" where
  "applyRestore env cfg stage m extracted s =
     (case find (\<lambda>e. en_SourceID e \<notin> sr_ID ` set (bc_Sources cfg)) (bm_Entries m) of
        Some e \<Rightarrow> (Err (MappingMissing (en_SourceID e)), s)
      | None \<Rightarrow>
          (case be_runtime env of
             None \<Rightarrow> bindS (restoreEntries env (bc_Sources cfg) stage extracted [] (bm_Entries m)) (\<lambda>_. retS ()) s
           | Some (before, after) \<Rightarrow>
               if \<not> before s then (Err PrepareServices, s)
               else (case restoreEntries env (bc_Sources cfg) stage extracted [] (bm_Entries m) s of
                       (Inl e, s1) \<Rightarrow> (Err (if after s1 then e else WithAfterRestore e), s1)
                     | (Inr changed, s1) \<Rightarrow>
                         if after s1 then (Ok (), s1)
                         else (case bk_rollback env changed s1 of (errs, s2) \<Rightarrow> (Err (HealthGate errs (after s2)), s2)))))"

definition restoreBody :: "bk_env \<Rightarrow> BackupConfig \<Rightarrow> path \<Rightarrow> (os, BackupManifest \<times> bk_error, BackupManifest) action" where
  "restoreBody env cfg archivePath =
     bindS (withManifest emptyManifest (wrapS BOS (os_MkdirTemp (bk_stateDir cfg) ''restore-'' (be_rnd env)))) (\<lambda>stage.
     deferS (\<lambda>s. snd (os_RemoveAll stage s)) (
       bindS (extractVerified env cfg archivePath (Some stage)) (\<lambda>(m, extracted).
       withManifest m (bindS (applyRestore env cfg stage m extracted) (\<lambda>_. retS m)))))"

definition bk_Restore :: "bk_env \<Rightarrow> BackupConfig \<Rightarrow> string \<Rightarrow> os \<Rightarrow> (BackupManifest \<times> bk_error option) \<times> os" where
  "bk_Restore env cfg archivePath s =
     (case bk_prepare cfg s of
        (Inl e, s1) \<Rightarrow> ((emptyManifest, Some e), s1)
      | (Inr _, s1) \<Rightarrow>
          concludeOp env cfg (newOperation env ''restore'' archivePath) (restoreBody env cfg (path_comps archivePath) s1))"

section \<open>The runtime of the worker\<close>

text \<open>\<open>systemctl\<close> says whether a command succeeds; the commands run until one fails.\<close>

definition BeforeRestore :: "(string list \<Rightarrow> os \<Rightarrow> bool) \<Rightarrow> os \<Rightarrow> bool" where
  "BeforeRestore systemctl s =
     list_all (\<lambda>u. systemctl [''stop'', u] s) [''opendeploy-core.service'', ''opendeploy-agent.service'']"

definition AfterRestore :: "(string list \<Rightarrow> os \<Rightarrow> bool) \<Rightarrow> os \<Rightarrow> bool" where
  "AfterRestore systemctl s =
     (systemctl [''daemon-reload''] s \<and>
      list_all (\<lambda>u. systemctl [''restart'', u] s \<and> systemctl [''is-active'', ''--quiet'', u] s)
        [''opendeploy-agent.service'', ''opendeploy-core.service''])"

end
