(* ===== verification/Backup_Restore.thy ===== *)
theory Backup_Restore
  imports Backup_Engine
begin

text \<open>
  What Restore leaves behind. A copy replaces one file and touches nothing else; the locale \<open>undo_log\<close> says what a
  rollback over such steps does, and is interpreted on the copies of the engine.
\<close>

section \<open>One copy\<close>

definition tempOf :: "bk_env \<Rightarrow> path \<Rightarrow> path" where
  "tempOf env dst = butlast dst @ [''.'' @ Base (abs_path dst) @ ''.restore-'' @ be_rnd env]"

lemma tempOf_neq: "plain_comps dst \<Longrightarrow> dst \<noteq> [] \<Longrightarrow> tempOf env dst \<noteq> dst"
  using Base_abs_path [of dst] by (auto simp: tempOf_def dest!: arg_cong [of _ _ "length \<circ> last"])

text \<open>The part of the copy after the temporary file exists.\<close>

lemma fill_rename_result:
  assumes wf: "os_wf t" and tmp: "nodes t tmp = Some (FileN [] m)" and dst: "plain_comps dst" "link_free t dst" "tmp \<noteq> dst"
    and run: "bindS (copyNode n tmp) (\<lambda>_. bindS (os_Chmod tmp mode) (\<lambda>_. bindS os_Sync (\<lambda>_. bindS os_Sync (\<lambda>_. inDir dst (os_Rename tmp))))) t = (r, t')"
  shows "os_wf t' \<and> calm t t' \<and> cframe (\<lambda>x. x = tmp \<or> x = dst) t t' \<and>
    (if is_ok r then \<exists>c k. n = FileN c k \<and> content_at t' dst = Some c else nodes t' dst = nodes t dst)"
proof -
  let ?D = "\<lambda>x. x = tmp"
  have step: "os_wf u' \<and> calm u u' \<and> only ?D u u'" if "keeps wf_step a" "keeps calm a" "keeps (only ?D) a" "a u = (q, u')" "os_wf u"
    for a :: "unit io" and u q u'
    using that keepsD by (metis wf_step_def)
  have fin: "os_wf u \<and> calm t u \<and> cframe (\<lambda>x. x = tmp \<or> x = dst) t u \<and> nodes u dst = nodes t dst"
    if "os_wf u" "calm t u" "only ?D t u" for u
    using that dst(3) cframe_mono [OF cframe_only [OF that(3)], of "\<lambda>x. x = tmp \<or> x = dst"] unfolding only_def by blast
  have k: "keeps wf_step (copyNode n tmp)" "keeps calm (copyNode n tmp)" "keeps (only ?D) (copyNode n tmp)"
    unfolding copyNode_def by (cases n; simp add: keeps_intro)+
  from run show ?thesis
  proof (cases rule: bindS_cases)
    case (err e)
    then show ?thesis using step [OF k err(1) wf] fin by simp
  next
    case (ok u t1)
    from step [OF k ok(1) wf] have t1: "os_wf t1" "calm t t1" "only ?D t t1" by auto
    from copyNode_result [OF ok(1) tmp] obtain c kk where n: "n = FileN c kk" "nodes t1 tmp = Some (FileN c m)" by auto
    from ok(2) show ?thesis
    proof (cases rule: bindS_cases)
      case (err e)
      from step [OF wf_writes(2) calm_calls(6) only_writes(3) err(1) t1(1)] have "os_wf t'" "calm t1 t'" "only ?D t1 t'" by auto
      then show ?thesis using err(2) fin [of t'] t1 only_chain transpD [OF calm_order(2)] by auto
    next
      case (ok u t2)
      from step [OF wf_writes(2) calm_calls(6) only_writes(3) ok(1) t1(1)] have t2: "os_wf t2" "calm t1 t2" "only ?D t1 t2" by auto
      have n2: "nodes t2 tmp = Some (FileN c (m\<lparr>perm := mode\<rparr>))" using Chmod_result [OF ok(1) n(2)] by simp
      from ok(2) obtain t3 where n3: "nodes t3 = nodes t2" "nodes t' = nodes t3 \<and> \<not> is_ok r \<or> inDir dst (os_Rename tmp) t3 = (r, t')"
      proof -
        obtain q1 a1 where a1: "os_Sync t2 = (q1, a1)" by fastforce
        obtain q2 a2 where a2: "os_Sync a1 = (q2, a2)" by fastforce
        note same = Sync_nodes [OF a1] Sync_nodes [OF a2]
        show thesis
          using ok(2) a1 a2 same that [of t'] that [of a2] by (cases q1; cases q2) (auto simp: bindS_def)
      qed
      have c3: "calm t t3" using t1(2) t2(2) calm_nodes [OF n3(1)] transpD [OF calm_order(2)] by blast
      have o3: "only ?D t t3" using only_chain [OF t1(3) only_chain [OF t2(3) only_same [OF n3(1)]]] .
      have w3: "os_wf t3" using t2(1) wf_nodes [OF n3(1)] by (simp add: wf_step_def)
      have stop: ?thesis if "nodes t' = nodes t3" "\<not> is_ok r"
        using that fin [of t'] w3 c3 o3 wf_nodes [OF that(1)] calm_nodes [OF that(1)] only_chain [OF o3 only_same] transpD [OF calm_order(2), of t t3 t']
        by (simp add: wf_step_def)
      from n3(2) show ?thesis
      proof
        assume "inDir dst (os_Rename tmp) t3 = (r, t')"
        from inDir_free [OF this dst(1) calm_link_free [OF c3 dst(2)]]
        consider (err) e where "r = Err e" "t' = t3" | (run) "os_Rename tmp dst t3 = (r, t')" by blast
        then show ?thesis
        proof cases
          case err
          then show ?thesis using stop by simp
        next
          case run
          show ?thesis
          proof (cases r)
            case (Inl e)
            then show ?thesis using stop Rename_fails run by simp
          next
            case (Inr v)
            have f: "nodes t3 tmp = Some (FileN c (m\<lparr>perm := mode\<rparr>))" using n2 n3(1) by simp
            note mv = Rename_over_file [OF w3 f dst(3)] Rename_file_calm [OF w3 f run]
            have "cframe (\<lambda>x. x = tmp \<or> x = dst) t t'"
              using mv(1) run Inr cframe_chain [OF cframe_mono [OF cframe_only [OF o3]] cframe_only] by simp
            moreover have "os_wf t'" using keepsD [OF wf_Rename run] w3 by (simp add: wf_step_def)
            ultimately show ?thesis
              using mv run Inr n(1) c3 transpD [OF calm_order(2)] by (auto simp: content_at_def)
          qed
        qed
      qed (use stop in blast)
    qed
  qed
qed


lemma bindS_step: "m s = (Ok v, s1) \<Longrightarrow> bindS m k s = k v s1"
  by (simp add: bindS_def)

lemma bk_copy_result:
  assumes wf: "os_wf s" and dst: "plain_comps dst" "dst \<noteq> []" "link_free s dst"
    and src: "\<And>p. source = Some p \<Longrightarrow> plain_comps p \<and> link_free s p"
    and run: "bk_atomicCopy env source dst mode s = (r, s')"
  shows "os_wf s' \<and> calm s s' \<and> cframe (\<lambda>x. x = tempOf env dst \<or> x = dst) s s' \<and>
    (if is_ok r then \<exists>p. source = Some p \<and> content_at s p \<noteq> None \<and> content_at s' dst = content_at s p
     else content_at s' dst = content_at s dst)"
proof -
  let ?tmp = "tempOf env dst" and ?par = "butlast dst"
  let ?D = "\<lambda>x. x = ?tmp \<or> x = dst"
  define opened where "opened = (case source of None \<Rightarrow> failS ENOENT | Some p \<Rightarrow> follow p os_Open)"
  have stop: "os_wf u \<and> calm s u \<and> cframe ?D s u \<and> content_at u dst = content_at s dst" if "os_wf u" "calm s u" "cframe (\<lambda>x. False) s u" for u
    using that by (auto simp: cframe_def)
  have mk: "MkdirAllFollow ?par 0x1E8 s = os_MkdirAll ?par 0x1E8 s" by (rule MkdirAllFollow_free [OF link_free_butlast [OF dst(3)]])
  obtain q1 s1 where m1: "os_MkdirAll ?par 0x1E8 s = (q1, s1)" by fastforce
  have s1: "os_wf s1" "calm s s1" "cframe (\<lambda>x. False) s s1"
    using keepsD [OF wf_MkdirAll m1] keepsD [OF calm_MkdirAll m1] keepsD [OF cframe_MkdirAll m1] wf by (auto simp: wf_step_def)
  show ?thesis
  proof (cases q1)
    case (Inl e)
    then show ?thesis using run m1 mk stop [OF s1] by (auto simp: bk_atomicCopy_def bindS_def)
  next
    case (Inr v)
    obtain q2 s2 where m2: "opened s1 = (q2, s2)" by fastforce
    have s2: "nodes s2 = nodes s1" and o2: "\<And>n. q2 = Ok n \<Longrightarrow> \<exists>p. source = Some p \<and> nodes s1 p = Some n"
    proof -
      have "nodes s2 = nodes s1 \<and> (\<forall>n. q2 = Ok n \<longrightarrow> (\<exists>p. source = Some p \<and> nodes s1 p = Some n))"
      proof (cases source)
        case (Some p)
        have "follow p os_Open s1 = (q2, s2)" using m2 Some by (simp add: opened_def)
        from follow_free [OF this] src [OF Some] calm_link_free [OF s1(2)] have "(\<exists>e. q2 = Err e \<and> s2 = s1) \<or> os_Open p s1 = (q2, s2)" by blast
        then show ?thesis using Open_Ok Some keepsD [OF same_fs_reads(5), of p s1 q2 s2] same_fs_nodes by auto
      qed (use m2 in \<open>auto simp: opened_def\<close>)
      then show "nodes s2 = nodes s1" "\<And>n. q2 = Ok n \<Longrightarrow> \<exists>p. source = Some p \<and> nodes s1 p = Some n" by auto
    qed
    have s2': "os_wf s2" "calm s s2" "cframe (\<lambda>x. False) s s2"
      using s1 wf_nodes [OF s2] calm_nodes [OF s2] cframe_nodes [OF s2] cframe_chain transpD [OF calm_order(2)] by (auto simp: wf_step_def)
    show ?thesis
    proof (cases q2)
      case (Inl e)
      then show ?thesis using run m1 mk Inr m2 stop [OF s2'] by (auto simp: bk_atomicCopy_def bindS_def opened_def)
    next
      case (Inr n)
      from o2 [OF Inr] obtain p where p: "source = Some p" "nodes s1 p = Some n" by blast
      let ?ct = "follow ?par (\<lambda>d. os_CreateTemp d (''.'' @ Base (abs_path dst) @ ''.restore-'') (be_rnd env))"
      obtain q3 s3 where m3: "?ct s2 = (q3, s3)" by fastforce
      have "(\<exists>e. q3 = Err e \<and> s3 = s2) \<or> os_CreateTemp ?par (''.'' @ Base (abs_path dst) @ ''.restore-'') (be_rnd env) s2 = (q3, s3)"
        using follow_free [OF m3 plain_comps_butlast [OF dst(1)] calm_link_free [OF s2'(2) link_free_butlast [OF dst(3)]]] by blast
      then consider (bad) e where "q3 = Err e" "nodes s3 = nodes s2"
        | (good) m where "q3 = Ok ?tmp" "nodes s2 ?tmp = None" "nodes s3 = (nodes s2)(?tmp \<mapsto> FileN [] m)" "os_wf s3"
        using CreateTemp_result [of ?par "''.'' @ Base (abs_path dst) @ ''.restore-''" "be_rnd env" s2 q3 s3] keepsD [OF wf_CreateTemp] s2'(1)
        by (fastforce simp: tempOf_def wf_step_def)
      then show ?thesis
      proof cases
        case bad
        have "os_wf s3" "calm s s3" "cframe (\<lambda>x. False) s s3"
          using s2' wf_nodes [OF bad(2)] calm_nodes [OF bad(2)] cframe_nodes [OF bad(2)] cframe_chain transpD [OF calm_order(2)] by (auto simp: wf_step_def)
        then show ?thesis using run m1 mk \<open>q1 = Inr v\<close> m2 Inr m3 bad stop by (auto simp: bk_atomicCopy_def bindS_def opened_def)
      next
        case good
        have c3: "calm s s3" using s2'(2) good(3) by (auto simp: calm_def is_link_iff split: if_splits)
        have f3: "cframe (\<lambda>x. x = ?tmp) s s3" using s2'(3) good(3) by (auto simp: cframe_def content_at_def)
        have ne: "?tmp \<noteq> dst" using tempOf_neq [OF dst(1,2)] .
        obtain s4 where m4: "bindS (copyNode n ?tmp) (\<lambda>_. bindS (os_Chmod ?tmp (mode AND 0x1FF)) (\<lambda>_. bindS os_Sync (\<lambda>_. bindS os_Sync (\<lambda>_.
            inDir dst (os_Rename ?tmp))))) s3 = (r, s4)" and s': "s' = os_RemoveFile ?tmp s4"
        proof -
          have r1: "MkdirAllFollow ?par 0x1E8 s = (Ok v, s1)" using mk m1 \<open>q1 = Inr v\<close> by simp
          have r2: "(case source of None \<Rightarrow> failS ENOENT | Some p \<Rightarrow> follow p os_Open) s1 = (Ok n, s2)" using m2 Inr by (simp add: opened_def)
          have r3: "?ct s2 = (Ok ?tmp, s3)" using m3 good(1) by simp
          show thesis
            using run that unfolding bk_atomicCopy_def bindS_step [of "MkdirAllFollow ?par 0x1E8" s, OF r1]
              bindS_step [of "case source of None \<Rightarrow> failS ENOENT | Some p \<Rightarrow> follow p os_Open" s1, OF r2] bindS_step [of ?ct s2, OF r3]
            by (auto simp: deferS_def split: prod.splits)
        qed
        have t3: "nodes s3 ?tmp = Some (FileN [] m)" using good(3) by simp
        note body = fill_rename_result [OF good(4) t3 dst(1) calm_link_free [OF c3 dst(3)] ne m4]
        have o5: "only (\<lambda>x. x = ?tmp) s4 s'" unfolding s' by (rule only_RemoveFile) simp
        have "os_wf s'" using body wf_RemoveFile s' by blast
        moreover have "calm s s'"
        proof -
          have "calm s3 s4" using body by blast
          then have "calm s s4" by (rule transpD [OF calm_order(2) c3])
          moreover have "calm s4 s'" unfolding s' by (rule calm_RemoveFile)
          ultimately show ?thesis by (rule transpD [OF calm_order(2)])
        qed
        moreover have "cframe ?D s s'"
        proof -
          have "cframe ?D s s3" by (rule cframe_mono [OF f3]) simp
          moreover have "cframe ?D s3 s4" using body by blast
          moreover have "cframe ?D s4 s'" by (rule cframe_mono [OF cframe_only [OF o5]]) simp
          ultimately show ?thesis using cframe_chain by blast
        qed
        moreover have "content_at s' dst = content_at s4 dst" using cframe_only [OF o5] ne by (auto simp: cframe_def)
        moreover have "content_at s3 dst = content_at s dst" using f3 ne by (auto simp: cframe_def)
        moreover have "content_at s p = content_at s1 p" using s1(3) by (simp add: cframe_def)
        ultimately show ?thesis using body p by (auto simp: content_at_def split: if_splits)
      qed
    qed
  qed
qed


section \<open>Removing a restored file\<close>

lemma dirs_above:
  assumes "os_wf s" "nodes s p \<noteq> None" "strict_prefix q p"
  shows "is_dir s q"
proof -
  from assms(3) obtain d z where p: "p = (q @ [d]) @ z" by (auto elim: strict_prefixE')
  have "nodes s (q @ [d]) \<noteq> None"
  proof
    assume "nodes s (q @ [d]) = None"
    then have "nodes s p = None" by (rule os_wf_missing [OF assms(1)]) (simp add: p)
    with assms(2) show False by simp
  qed
  then show ?thesis using os_wf_parent [OF assms(1), of "q @ [d]"] by auto
qed

lemma inDir_runs:
  assumes "os_wf s" "plain_comps p" "link_free s p" "nodes s p \<noteq> None" "p \<noteq> []"
  shows "inDir p f s = f p s"
proof -
  have par: "strict_prefix (butlast p) p" using assms(5) by (metis append_butlast_last_id prefixeq_butlast strict_prefix_def butlast_neq)
  have "walk 40 s True [] (butlast p) = Ok ([] @ butlast p)"
  proof (rule walk_link_free [OF plain_comps_butlast [OF assms(2)]])
    show "\<forall>q. strict_prefix [] q \<and> strict_prefix q ([] @ butlast p) \<longrightarrow> is_dir s q"
      using dirs_above [OF assms(1,4)] prefix_order.less_trans [OF _ par] by auto
    show "nodes s ([] @ butlast p) \<noteq> None \<and> \<not> is_link s ([] @ butlast p)"
      using dirs_above [OF assms(1,4) par] is_dir_not_link by auto
  qed
  then show ?thesis using dirs_above [OF assms(1,4) par] assms(5) by (simp add: inDir_def)
qed

lemma removeRegular_result:
  assumes wf: "os_wf s" and p: "plain_comps p" "p \<noteq> []" "link_free s p" and r: "removeRegular p s = (r, s')"
  shows "os_wf s' \<and> calm s s' \<and> cframe (\<lambda>x. x = p) s s' \<and> content_at s' p = (if is_ok r then None else content_at s p)"
proof (cases "nodes s p")
  case None
  obtain q s1 where q: "lstatNode p s = (q, s1)" by fastforce
  from inDir_free [OF q [unfolded lstatNode_def] p(1,3)]
  consider (err) e where "q = Err e" "s1 = s" | (run) "os_Open p s = (q, s1)" by blast
  then have "(\<exists>e. q = Err e) \<and> nodes s1 = nodes s"
  proof cases
    case run
    have "nodes s1 = nodes s" by (rule same_fs_nodes [OF keepsD [OF same_fs_reads(5) run]])
    moreover have "\<exists>e. q = Err e" using Open_Ok [of p s _ s1] run None by (cases q) auto
    ultimately show ?thesis by blast
  qed simp
  then have n: "nodes s' = nodes s" using r q by (auto simp: removeRegular_def split: if_splits)
  have "content_at s' p = None" "content_at s p = None" using None n by (simp_all add: content_at_def)
  moreover have "os_wf s'" using wf wf_nodes [OF n] by (simp add: wf_step_def)
  ultimately show ?thesis using calm_nodes [OF n] cframe_nodes [OF n] by simp
next
  case (Some n)
  have run: "inDir p os_Open s = os_Open p s" by (rule inDir_runs [OF wf p(1,3) _ p(2)]) (simp add: Some)
  obtain q s1 where q: "os_Open p s = (q, s1)" by fastforce
  have same: "nodes s1 = nodes s" using keepsD [OF same_fs_reads(5) q] same_fs_nodes by blast
  have lift: ?thesis if "nodes s' = nodes s" "\<not> is_ok r"
    using that wf wf_nodes [OF that(1)] calm_nodes [OF that(1)] cframe_nodes [OF that(1)] content_same [OF that(1)] by (simp add: wf_step_def)
  show ?thesis
  proof (cases "\<exists>c m. q = Ok (FileN c m)")
    case True
    then obtain c m where c: "q = Ok (FileN c m)" by blast
    have n: "n = FileN c m" using Open_Ok [of p s "FileN c m" s1] q c Some by simp
    have w1: "os_wf s1" using wf wf_nodes [OF same] by (simp add: wf_step_def)
    have run1: "inDir p os_Remove s1 = os_Remove p s1"
      by (rule inDir_runs [OF w1 p(1) calm_link_free [OF calm_nodes [OF same] p(3)] _ p(2)]) (simp add: same Some)
    obtain q2 s2 where rm: "os_Remove p s1 = (q2, s2)" by fastforce
    have s': "s' = s2" "is_ok r = is_ok q2"
      using r q c run rm run1 by (auto simp: removeRegular_def lstatNode_def wrapS_def split: sum.splits)
    have gone: "content_at s2 p = (if is_ok q2 then None else content_at s1 p)"
      using rm Some n same unfolding os_Remove_def by (auto elim!: sys_cases simp: content_at_def)
    have "cframe (\<lambda>x. x = p) s1 s2" by (rule keepsD [OF cframe_keeps [OF only_Remove] rm]) simp
    moreover have "calm s1 s2" by (rule keepsD [OF calm_calls(7) rm])
    moreover have "os_wf s2" using keepsD [OF wf_Remove rm] w1 by (simp add: wf_step_def)
    ultimately show ?thesis
      using gone s' content_same [OF same] cframe_chain [OF cframe_nodes [OF same]] transpD [OF calm_order(2) calm_nodes [OF same]] by auto
  next
    case False
    have "os_Open p s = (Err ENOENT, s1) \<Longrightarrow> False" using Some unfolding os_Open_def by (auto elim!: sys_cases)
    then have "q \<noteq> Err ENOENT" using q by auto
    then have "s' = s1 \<and> \<not> is_ok r"
      using r q False by (cases q) (auto simp: removeRegular_def lstatNode_def run split: node.splits)
    then show ?thesis using lift same by blast
  qed
qed

section \<open>Undo logs\<close>

text \<open>A log of places with what was saved of them. Undoing an item puts back what was saved or, when it fails, leaves the
  place alone; it changes no other watched place and nothing that is saved.\<close>

locale undo_log =
  fixes inv :: "'s \<Rightarrow> bool" and content :: "'s \<Rightarrow> 'k \<Rightarrow> 'v option" and watched :: "'k set"
    and valid :: "'i \<Rightarrow> bool" and place :: "'i \<Rightarrow> 'k" and saved :: "'s \<Rightarrow> 'i \<Rightarrow> 'v option" and undo :: "'i \<Rightarrow> ('s, 'e, unit) action"
  assumes watched: "valid i \<Longrightarrow> place i \<in> watched"
    and undo: "inv s \<Longrightarrow> valid i \<Longrightarrow> undo i s = (r, s') \<Longrightarrow>
      inv s' \<and> (\<forall>k \<in> watched. k \<noteq> place i \<longrightarrow> content s' k = content s k) \<and>
      content s' (place i) = (if is_ok r then saved s i else content s (place i)) \<and> (\<forall>j. valid j \<longrightarrow> saved s' j = saved s j)"
begin

lemma rollback:
  assumes "inv s" "\<forall>i \<in> set is. valid i" "distinct (map place is)" "rollbackWith undo is s = (es, s')"
  shows "inv s' \<and> (\<forall>k \<in> watched. k \<notin> place ` set is \<longrightarrow> content s' k = content s k) \<and>
    (\<forall>i \<in> set is. content s' (place i) = saved s i \<or> es \<noteq> [] \<and> content s' (place i) = content s (place i))"
  using assms
proof (induction "is" arbitrary: s es)
  case (Cons i rest)
  obtain r s1 where u: "undo i s = (r, s1)" by fastforce
  obtain es1 where rb: "rollbackWith undo rest s1 = (es1, s')" and es: "es1 \<noteq> [] \<or> \<not> is_ok r \<Longrightarrow> es \<noteq> []"
    using Cons.prems(4) u by (cases r) (auto split: prod.splits)
  have v: "valid i" "\<forall>j \<in> set rest. valid j" "place i \<notin> place ` set rest" "place i \<in> watched" using Cons.prems(2,3) watched by auto
  from undo [OF Cons.prems(1) v(1) u] have 1: "inv s1" "\<forall>k \<in> watched. k \<noteq> place i \<longrightarrow> content s1 k = content s k"
    "content s1 (place i) = (if is_ok r then saved s i else content s (place i))" "\<forall>j. valid j \<longrightarrow> saved s1 j = saved s j" by auto
  have 2: "inv s' \<and> (\<forall>k \<in> watched. k \<notin> place ` set rest \<longrightarrow> content s' k = content s1 k) \<and>
    (\<forall>i \<in> set rest. content s' (place i) = saved s1 i \<or> es1 \<noteq> [] \<and> content s' (place i) = content s1 (place i))"
    by (rule Cons.IH [OF 1(1) v(2) _ rb]) (use Cons.prems(3) in simp)
  have "content s' (place i) = saved s i \<or> es \<noteq> [] \<and> content s' (place i) = content s (place i)"
    using 2 1(3) v es by (auto split: if_splits)
  moreover have "content s' (place j) = saved s j \<or> es \<noteq> [] \<and> content s' (place j) = content s (place j)" if "j \<in> set rest" for j
  proof -
    have "place j \<in> place ` set rest" using that by (rule imageI)
    then have "place j \<noteq> place i" using v(3) by metis
    moreover have "place j \<in> watched" using that v(2) watched by blast
    ultimately have "place j \<noteq> place i" "place j \<in> watched" by simp_all
    then have "content s1 (place j) = content s (place j)" using 1(2) by blast
    moreover have "saved s1 j = saved s j" using that v(2) 1(4) by blast
    moreover have "content s' (place j) = saved s1 j \<or> es1 \<noteq> [] \<and> content s' (place j) = content s1 (place j)" using 2 that by blast
    ultimately show ?thesis using es by auto
  qed
  ultimately show ?case using 2 1(2) by auto
qed simp

end


section \<open>The places of a restore\<close>

text \<open>The targets, the snapshots and the extracted files; no temporary name is among them.\<close>

definition placed :: "bk_env \<Rightarrow> path set \<Rightarrow> path set \<Rightarrow> path set \<Rightarrow> bool" where
  "placed env T S X =
     ((\<forall>p \<in> T \<union> S \<union> X. plain_comps p \<and> p \<noteq> []) \<and> (\<forall>p \<in> T \<union> S. tempOf env p \<notin> T \<union> S \<union> X) \<and> S \<inter> (T \<union> X) = {} \<and> T \<inter> X = {})"

definition bk_inv :: "bk_env \<Rightarrow> path set \<Rightarrow> path set \<Rightarrow> path set \<Rightarrow> os \<Rightarrow> bool" where
  "bk_inv env T S X s = (placed env T S X \<and> os_wf s \<and> (\<forall>p \<in> T \<union> S \<union> X. link_free s p))"

definition loggedItem :: "path set \<Rightarrow> path set \<Rightarrow> restoreTarget \<Rightarrow> bool" where
  "loggedItem T S i = (rt_path i \<in> T \<and> (rt_hadOriginal i \<longrightarrow> rt_snapshot i \<in> S))"

definition savedContent :: "os \<Rightarrow> restoreTarget \<Rightarrow> string option" where
  "savedContent s i = (if rt_hadOriginal i then content_at s (rt_snapshot i) else None)"

lemma bk_inv_step:
  assumes "bk_inv env T S X s" "os_wf s'" "calm s s'"
  shows "bk_inv env T S X s'"
  using assms calm_link_free by (auto simp: bk_inv_def)

lemma copy_step:
  assumes i: "bk_inv env T S X s" and d: "dst \<in> T \<union> S" and src: "\<And>p. source = Some p \<Longrightarrow> p \<in> T \<union> S \<union> X"
    and run: "bk_atomicCopy env source dst mode s = (r, s')"
  shows "bk_inv env T S X s' \<and> (\<forall>x \<in> T \<union> S \<union> X. x \<noteq> dst \<longrightarrow> content_at s' x = content_at s x) \<and>
    (if is_ok r then \<exists>p. source = Some p \<and> content_at s' dst = content_at s p \<and> content_at s p \<noteq> None else content_at s' dst = content_at s dst)"
proof -
  have pl: "plain_comps dst" "dst \<noteq> []" "link_free s dst" and t: "tempOf env dst \<notin> T \<union> S \<union> X" and wf: "os_wf s"
    using i d by (auto simp: bk_inv_def placed_def)
  have "plain_comps p \<and> link_free s p" if "source = Some p" for p using src [OF that] i by (auto simp: bk_inv_def placed_def)
  from bk_copy_result [OF wf pl this run] have c: "os_wf s'" "calm s s'" "cframe (\<lambda>x. x = tempOf env dst \<or> x = dst) s s'"
    "if is_ok r then \<exists>p. source = Some p \<and> content_at s p \<noteq> None \<and> content_at s' dst = content_at s p else content_at s' dst = content_at s dst"
    by blast+
  have "content_at s' x = content_at s x" if "x \<in> T \<union> S \<union> X" "x \<noteq> dst" for x
    using c(3) that t unfolding cframe_def by metis
  then show ?thesis using bk_inv_step [OF i c(1,2)] c(4) by (simp split: if_splits) blast
qed

lemma undoTarget_step:
  assumes "bk_inv env T S X s" "loggedItem T S i" "undoTarget env i s = (r, s')"
  shows "bk_inv env T S X s' \<and> (\<forall>k \<in> T \<union> S \<union> X. k \<noteq> rt_path i \<longrightarrow> content_at s' k = content_at s k) \<and>
    content_at s' (rt_path i) = (if is_ok r then savedContent s i else content_at s (rt_path i))"
proof (cases "rt_hadOriginal i")
  case True
  then obtain q where q: "bk_atomicCopy env (Some (rt_snapshot i)) (rt_path i) (rt_mode i) s = (q, s')" "is_ok r = is_ok q"
    using assms(3) by (auto simp: undoTarget_def wrapS_def split: prod.splits sum.splits)
  show ?thesis
    using copy_step [OF assms(1) _ _ q(1)] assms(2) True q(2) by (auto simp: loggedItem_def savedContent_def split: if_splits)
next
  case False
  have p: "plain_comps (rt_path i)" "rt_path i \<noteq> []" "link_free s (rt_path i)" "os_wf s"
    using assms(1,2) by (auto simp: bk_inv_def placed_def loggedItem_def)
  have "removeRegular (rt_path i) s = (r, s')" using assms(3) False by (simp add: undoTarget_def)
  from removeRegular_result [OF p(4,1-3) this] show ?thesis
    using bk_inv_step [OF assms(1)] False by (auto simp: cframe_def savedContent_def)
qed

lemma savedContent_kept:
  assumes "placed env T S X" "loggedItem T S i" "loggedItem T S j" "\<forall>k \<in> T \<union> S \<union> X. k \<noteq> rt_path i \<longrightarrow> content_at s' k = content_at s k"
  shows "savedContent s' j = savedContent s j"
proof (cases "rt_hadOriginal j")
  case True
  then have "rt_snapshot j \<in> S" "rt_path i \<in> T" using assms(2,3) by (auto simp: loggedItem_def)
  then have "rt_snapshot j \<noteq> rt_path i" using assms(1) by (auto simp: placed_def)
  then show ?thesis using assms(4) \<open>rt_snapshot j \<in> S\<close> by (simp add: savedContent_def)
qed (simp add: savedContent_def)

interpretation restores: undo_log "bk_inv env T S X" content_at "T \<union> S \<union> X" "loggedItem T S" rt_path savedContent "undoTarget env" for env T S X
proof (unfold_locales, goal_cases)
  case (1 i)
  then show ?case by (simp add: loggedItem_def)
next
  case (2 s i r s')
  note u = undoTarget_step [OF 2]
  have "placed env T S X" using 2(1) by (simp add: bk_inv_def)
  with u show ?case using savedContent_kept [OF _ 2(2)] by blast
qed

definition snapOf :: "path \<Rightarrow> nat \<Rightarrow> path" where
  "snapOf stage n = stage @ [''rollback'', nat_digits n]"

lemma snapOf_inject: "snapOf stage m = snapOf stage n \<longleftrightarrow> m = n"
proof
  assume "snapOf stage m = snapOf stage n"
  then have "digits_value 0 (nat_digits m) = digits_value 0 (nat_digits n)" by (simp add: snapOf_def)
  then show "m = n" by (simp add: digits_value_nat_digits)
qed simp

lemma lstat_place:
  assumes "os_wf s" "plain_comps p" "p \<noteq> []" "link_free s p" "lstatNode p s = (r, s')"
  shows "nodes s' = nodes s \<and> (r = Err ENOENT \<longrightarrow> nodes s p = None) \<and> (\<forall>n. r = Ok n \<longrightarrow> nodes s p = Some n \<and> (\<nexists>t. n = LinkN t))"
proof (cases "nodes s p")
  case None
  from inDir_free [OF assms(5) [unfolded lstatNode_def] assms(2,4)]
  consider (err) e where "r = Err e" "s' = s" | (run) "os_Open p s = (r, s')" by blast
  then show ?thesis
  proof cases
    case run
    then show ?thesis using same_fs_nodes [OF keepsD [OF same_fs_reads(5) run]] Open_Ok [of p s _ s'] None by auto
  qed (use None in simp)
next
  case (Some n)
  have run: "os_Open p s = (r, s')" using assms(5) inDir_runs [OF assms(1,2,4) _ assms(3), of os_Open] Some by (simp add: lstatNode_def)
  have "\<not> is_link s p" using assms(4) by (simp add: link_free_def)
  then have "\<nexists>t. n = LinkN t" using Some by (auto simp: is_link_iff)
  moreover have "r \<noteq> Err ENOENT" using run Some unfolding os_Open_def by (auto elim!: sys_cases)
  ultimately show ?thesis using same_fs_nodes [OF keepsD [OF same_fs_reads(5) run]] Open_Ok [of p s _ s'] run Some by auto
qed

lemma prepareTarget_result:
  assumes inv: "bk_inv env T S X s" and t: "target \<in> T" "snapOf stage n \<in> S" and r: "prepareTarget env stage n target s = (r, s')"
  shows "bk_inv env T S X s' \<and> (\<forall>x \<in> T \<union> S \<union> X. x \<noteq> snapOf stage n \<longrightarrow> content_at s' x = content_at s x) \<and>
    (\<forall>i. r = Ok i \<longrightarrow> rt_path i = target \<and> loggedItem T S i \<and> savedContent s' i = content_at s target \<and>
       (rt_hadOriginal i \<longrightarrow> rt_snapshot i = snapOf stage n))"
proof -
  have p: "os_wf s" "plain_comps target" "target \<noteq> []" "link_free s target" using inv t by (auto simp: bk_inv_def placed_def)
  obtain q s1 where q: "lstatNode target s = (q, s1)" by fastforce
  note l = lstat_place [OF p q]
  have i1: "bk_inv env T S X s1" using bk_inv_step [OF inv] l wf_nodes [of s1 s] calm_nodes [of s1 s] p(1) by (simp add: wf_step_def)
  have c1: "content_at s1 = content_at s" using l content_same by blast
  show ?thesis
  proof (cases "\<exists>c m. q = Ok (FileN c m)")
    case True
    then obtain c m where c: "q = Ok (FileN c m)" by blast
    then have run: "bindS (wrapS (SnapshotCurrent target) (bk_atomicCopy env (Some target) (snapOf stage n) (perm m))) (\<lambda>_.
        retS \<lparr>rt_path = target, rt_snapshot = snapOf stage n, rt_hadOriginal = True, rt_mode = perm m\<rparr>) s1 = (r, s')"
      using r q by (simp add: prepareTarget_def snapshotTarget_def snapOf_def Let_def)
    obtain q2 where q2: "bk_atomicCopy env (Some target) (snapOf stage n) (perm m) s1 = (q2, s')"
      and res: "\<And>i. r = Ok i \<Longrightarrow> is_ok q2 \<and> i = \<lparr>rt_path = target, rt_snapshot = snapOf stage n, rt_hadOriginal = True, rt_mode = perm m\<rparr>"
      using run by (cases "bk_atomicCopy env (Some target) (snapOf stage n) (perm m) s1"; cases "fst (bk_atomicCopy env (Some target) (snapOf stage n) (perm m) s1)")
        (auto simp: bindS_def wrapS_def)
    note k = copy_step [OF i1 _ _ q2]
    show ?thesis using k t c1 res by (auto simp: loggedItem_def savedContent_def)
  next
    case False
    have "s' = s1" "\<And>i. r = Ok i \<Longrightarrow> q = Err ENOENT \<and> i = \<lparr>rt_path = target, rt_snapshot = [], rt_hadOriginal = False, rt_mode = 0\<rparr>"
      using r q False l by (auto simp: prepareTarget_def Let_def split: sum.splits node.splits if_splits)
    then show ?thesis using i1 c1 t(1) l by (auto simp: loggedItem_def savedContent_def content_at_def)
  qed
qed


section \<open>The loop over the entries\<close>

definition entryTarget :: "Source list \<Rightarrow> Entry \<Rightarrow> path" where
  "entryTarget sources e = (case find (\<lambda>x. sr_ID x = en_SourceID e) sources of Some x \<Rightarrow> targetOf x e | None \<Rightarrow> [])"

text \<open>The errors after which a part of the files may be the new ones.\<close>

fun halfway :: "bk_error \<Rightarrow> bool" where
  "halfway (TargetNotRegular _) = True"
| "halfway (SnapshotCurrent _ _) = True"
| "halfway (BOS _) = True"
| "halfway (RolledBack _ _ errs) = (errs \<noteq> [])"
| "halfway (HealthGate errs _) = (errs \<noteq> [])"
| "halfway (WithAfterRestore e) = halfway e"
| "halfway _ = False"

definition logged :: "path set \<Rightarrow> path set \<Rightarrow> (path \<Rightarrow> string option) \<Rightarrow> (path \<Rightarrow> string option) \<Rightarrow> os \<Rightarrow> restoreTarget list \<Rightarrow> bool" where
  "logged T S old new s log =
     (\<forall>i \<in> set log. loggedItem T S i \<and> savedContent s i = old (rt_path i) \<and> content_at s (rt_path i) = new (rt_path i))"

definition pending ::
  "path set \<Rightarrow> path set \<Rightarrow> Source list \<Rightarrow> (string \<times> path) list \<Rightarrow> (path \<Rightarrow> string option) \<Rightarrow> (path \<Rightarrow> string option) \<Rightarrow> os \<Rightarrow> Entry list \<Rightarrow> bool" where
  "pending T X sources extracted old new s es =
     (\<forall>e \<in> set es. find (\<lambda>x. sr_ID x = en_SourceID e) sources \<noteq> None \<and> entryTarget sources e \<in> T \<and>
        content_at s (entryTarget sources e) = old (entryTarget sources e) \<and>
        (\<exists>x \<in> X. map_of extracted (entryKey e) = Some x \<and> content_at s x = new (entryTarget sources e)))"

lemma rollback_log:
  assumes inv: "bk_inv env T S X s" and lg: "\<forall>i \<in> set log. loggedItem T S i \<and> savedContent s i = old (rt_path i) \<and>
      (content_at s (rt_path i) = old (rt_path i) \<or> content_at s (rt_path i) = new (rt_path i))"
    and d: "distinct (map rt_path log)" and r: "bk_rollback env log s = (errs, s')"
  shows "(\<forall>x \<in> T. x \<notin> rt_path ` set log \<longrightarrow> content_at s' x = content_at s x) \<and>
    (\<forall>i \<in> set log. content_at s' (rt_path i) = old (rt_path i) \<or> errs \<noteq> [] \<and> content_at s' (rt_path i) = new (rt_path i))"
proof -
  note rb = restores.rollback [OF inv _ d r [unfolded bk_rollback_def]]
  have a: "\<forall>k \<in> T \<union> S \<union> X. k \<notin> rt_path ` set log \<longrightarrow> content_at s' k = content_at s k"
    and b: "\<forall>i \<in> set log. content_at s' (rt_path i) = savedContent s i \<or> errs \<noteq> [] \<and> content_at s' (rt_path i) = content_at s (rt_path i)"
    using rb lg by blast+
  show ?thesis
  proof (intro conjI ballI)
    fix i assume i: "i \<in> set log"
    then have "savedContent s i = old (rt_path i)" "content_at s (rt_path i) = old (rt_path i) \<or> content_at s (rt_path i) = new (rt_path i)"
      using lg by blast+
    then show "content_at s' (rt_path i) = old (rt_path i) \<or> errs \<noteq> [] \<and> content_at s' (rt_path i) = new (rt_path i)"
      using b i by fastforce
  qed (use a in blast)
qed

lemma logged_kept:
  assumes "logged T S old new s log" "placed env T S X" "\<forall>x \<in> T \<union> S \<union> X. x \<notin> D \<longrightarrow> content_at s' x = content_at s x"
    "\<forall>i \<in> set log. rt_path i \<notin> D \<and> (rt_hadOriginal i \<longrightarrow> rt_snapshot i \<notin> D)"
  shows "logged T S old new s' log"
  using assms by (auto simp: logged_def savedContent_def loggedItem_def)

lemma pending_kept:
  assumes "pending T X sources extracted old new s es" "\<forall>x \<in> T \<union> S \<union> X. x \<notin> D \<longrightarrow> content_at s' x = content_at s x"
    "\<forall>e \<in> set es. entryTarget sources e \<notin> D" "D \<inter> X = {}"
  shows "pending T X sources extracted old new s' es"
  using assms unfolding pending_def by (metis IntI Un_iff empty_iff)

lemma restoreEntries_result:
  assumes "bk_inv env T S X s" "logged T S old new s changed"
    "\<forall>i \<in> set changed. rt_hadOriginal i \<longrightarrow> (\<exists>k < length changed. rt_snapshot i = snapOf stage k)"
    "distinct (map rt_path changed @ map (entryTarget sources) es)" "pending T X sources extracted old new s es" "\<forall>k. snapOf stage k \<in> S"
    and "restoreEntries env sources stage extracted changed es s = (r, s')"
  shows "case r of
      Inr log \<Rightarrow> bk_inv env T S X s' \<and> logged T S old new s' log \<and> distinct (map rt_path log) \<and>
        set (map rt_path log) = set (map rt_path changed @ map (entryTarget sources) es)
    | Inl e \<Rightarrow> (\<forall>t \<in> set (map rt_path changed @ map (entryTarget sources) es). content_at s' t = old t \<or> halfway e \<and> content_at s' t = new t)"
  using assms
proof (induction es arbitrary: changed s)
  case Nil
  then show ?case by auto
next
  case (Cons e es)
  let ?t = "entryTarget sources e" and ?n = "length changed"
  let ?sn = "snapOf stage ?n"
  have pl: "placed env T S X" using Cons.prems(1) by (simp add: bk_inv_def)
  from Cons.prems(5) obtain src x where src: "find (\<lambda>x. sr_ID x = en_SourceID e) sources = Some src" and tgt: "targetOf src e = ?t" "?t \<in> T"
    "content_at s ?t = old ?t" and x: "x \<in> X" "map_of extracted (entryKey e) = Some x" "content_at s x = new ?t"
    by (auto simp: pending_def entryTarget_def)
  have rest: "pending T X sources extracted old new s es" using Cons.prems(5) by (simp add: pending_def)
  have sn: "?sn \<in> S" "?sn \<notin> T" "?sn \<notin> X" using Cons.prems(6) pl by (auto simp: placed_def)
  have old_sn: "\<forall>i \<in> set changed. rt_path i \<notin> {?sn} \<and> (rt_hadOriginal i \<longrightarrow> rt_snapshot i \<notin> {?sn})"
    using Cons.prems(2,3) sn snapOf_inject by (fastforce simp: logged_def loggedItem_def)
  obtain q s1 where q: "prepareTarget env stage ?n ?t s = (q, s1)" by fastforce
  note pr = prepareTarget_result [OF Cons.prems(1) tgt(2) sn(1) q]
  have f1: "\<forall>y \<in> T \<union> S \<union> X. y \<notin> {?sn} \<longrightarrow> content_at s1 y = content_at s y" using pr by simp
  have lg1: "logged T S old new s1 changed" by (rule logged_kept [OF Cons.prems(2) pl f1 old_sn])
  have pd1: "pending T X sources extracted old new s1 (e # es)"
    by (rule pending_kept [OF Cons.prems(5) f1]) (use Cons.prems(5) sn in \<open>auto simp: pending_def\<close>)
  have t1: "content_at s1 ?t = old ?t" "content_at s1 x = new ?t" using f1 tgt(2,3) x sn by (metis Un_iff singletonD)+
  show ?case
  proof (cases q)
    case (Inl err)
    have r: "r = Err err" "s' = s1" using Cons.prems(7) src tgt(1) q Inl by (auto simp: bindS_def Let_def)
    have "halfway err"
      using q Inl by (auto simp: prepareTarget_def snapshotTarget_def bindS_def wrapS_def Let_def split: prod.splits sum.splits node.splits if_splits)
    moreover have "\<forall>t \<in> set (map (entryTarget sources) (e # es)). content_at s1 t = old t" using pd1 by (auto simp: pending_def)
    moreover have "\<forall>i \<in> set changed. content_at s1 (rt_path i) = new (rt_path i)" using lg1 by (simp add: logged_def)
    ultimately show ?thesis using r by auto
  next
    case (Inr item)
    have it: "rt_path item = ?t" "loggedItem T S item" "savedContent s1 item = old ?t" "rt_hadOriginal item \<longrightarrow> rt_snapshot item = ?sn"
      using pr Inr tgt(3) by auto
    have i1: "bk_inv env T S X s1" using pr by blast
    obtain q2 s2 where c: "bk_atomicCopy env (Some x) ?t (en_Mode e) s1 = (q2, s2)" by fastforce
    have cp: "bk_inv env T S X s2" "\<forall>y \<in> T \<union> S \<union> X. y \<notin> {?t} \<longrightarrow> content_at s2 y = content_at s1 y"
      "if is_ok q2 then content_at s2 ?t = content_at s1 x else content_at s2 ?t = content_at s1 ?t"
      using copy_step [OF i1 _ _ c] tgt(2) x(1) by auto
    have fresh: "?t \<notin> entryTarget sources ` set es" using Cons.prems(4) by simp
    have dst: "?t \<notin> rt_path ` set changed" "\<forall>e' \<in> set es. entryTarget sources e' \<noteq> ?t"
      using Cons.prems(4) fresh by (auto simp: image_iff)
    have snt: "rt_snapshot i \<noteq> ?t" if "rt_hadOriginal i" "i \<in> set changed" for i
    proof -
      have "rt_snapshot i \<in> S" using Cons.prems(3,6) that by fastforce
      then show ?thesis using pl tgt(2) by (auto simp: placed_def)
    qed
    have lg2: "logged T S old new s2 changed"
      by (rule logged_kept [OF lg1 pl cp(2)]) (use dst(1) snt in \<open>auto simp: image_iff\<close>)
    have "?sn \<noteq> ?t" using sn(2) tgt(2) by metis
    then have "content_at s2 ?sn = content_at s1 ?sn" using cp(2) sn(1) by blast
    then have it2: "savedContent s2 item = old ?t" using it by (auto simp: savedContent_def split: if_splits)
    have pd2: "pending T X sources extracted old new s2 es"
      by (rule pending_kept [OF _ cp(2)]) (use pd1 dst(2) pl tgt(2) in \<open>auto simp: pending_def placed_def\<close>)
    have step: "restoreEntries env sources stage extracted changed (e # es) s =
        (case bk_atomicCopy env (Some x) ?t (en_Mode e) s1 of
               (Inl err, s2) \<Rightarrow> (case bk_rollback env (item # changed) s2 of (errs, s3) \<Rightarrow> (Err (RolledBack (entryKey e) err errs), s3))
             | (Inr _, s2) \<Rightarrow> restoreEntries env sources stage extracted (item # changed) es s2)"
      using src tgt(1) q Inr x(2) by (simp add: bindS_def Let_def)
    show ?thesis
    proof (cases q2)
      case (Inl err)
      obtain errs s3 where rb: "bk_rollback env (item # changed) s2 = (errs, s3)" by fastforce
      have r: "r = Err (RolledBack (entryKey e) err errs)" "s' = s3" using Cons.prems(7) step c Inl rb by auto
      have "\<forall>i \<in> set (item # changed). loggedItem T S i \<and> savedContent s2 i = old (rt_path i) \<and>
          (content_at s2 (rt_path i) = old (rt_path i) \<or> content_at s2 (rt_path i) = new (rt_path i))"
        using lg2 it it2 cp(3) t1(1) Inl by (auto simp: logged_def)
      moreover have "distinct (map rt_path (item # changed))" using Cons.prems(4) it(1) by auto
      ultimately have b: "(\<forall>y \<in> T. y \<notin> rt_path ` set (item # changed) \<longrightarrow> content_at s3 y = content_at s2 y) \<and>
          (\<forall>i \<in> set (item # changed). content_at s3 (rt_path i) = old (rt_path i) \<or> errs \<noteq> [] \<and> content_at s3 (rt_path i) = new (rt_path i))"
        using rollback_log [OF cp(1) _ _ rb] by blast
      have "content_at s3 (entryTarget sources e') = old (entryTarget sources e')" if "e' \<in> set es" for e'
      proof -
        have "entryTarget sources e' \<in> T" "content_at s2 (entryTarget sources e') = old (entryTarget sources e')" using pd2 that by (auto simp: pending_def)
        moreover have "entryTarget sources e' \<in> entryTarget sources ` set es" using that by (rule imageI)
        then have "entryTarget sources e' \<notin> rt_path ` set changed" "entryTarget sources e' \<noteq> ?t" using Cons.prems(4) by auto
        then have "entryTarget sources e' \<notin> rt_path ` set (item # changed)" using it(1) by simp
        ultimately show ?thesis using b by simp
      qed
      then show ?thesis using r b it(1) by auto
    next
      case (Inr u)
      have run: "restoreEntries env sources stage extracted (item # changed) es s2 = (r, s')" using Cons.prems(7) step c Inr by simp
      have "logged T S old new s2 (item # changed)" using lg2 it it2 cp(3) t1(2) Inr by (simp add: logged_def)
      moreover have "\<forall>i \<in> set (item # changed). rt_hadOriginal i \<longrightarrow> (\<exists>k < length (item # changed). rt_snapshot i = snapOf stage k)"
      proof (intro ballI impI)
        fix i assume i: "i \<in> set (item # changed)" "rt_hadOriginal i"
        show "\<exists>k < length (item # changed). rt_snapshot i = snapOf stage k"
        proof (cases "i = item")
          case True
          then show ?thesis using it(4) i(2) by auto
        next
          case False
          then obtain k where "k < ?n" "rt_snapshot i = snapOf stage k" using Cons.prems(3) i by auto
          then show ?thesis by (intro exI [of _ k]) simp
        qed
      qed
      moreover have "distinct (map rt_path (item # changed) @ map (entryTarget sources) es)" using Cons.prems(4) it(1) by auto
      ultimately show ?thesis using Cons.IH [OF cp(1) _ _ _ pd2 Cons.prems(6) run] it(1) by (cases r) auto
    qed
  qed
qed


lemma applyRestore_result:
  assumes inv: "bk_inv env T S X s" and d: "distinct (map (entryTarget (bc_Sources cfg)) (bm_Entries m))"
    and p: "pending T X (bc_Sources cfg) extracted old new s (bm_Entries m)" and sn: "\<forall>k. snapOf stage k \<in> S"
    and run: "applyRestore env cfg stage m extracted s = (r, s')"
  shows "\<forall>t \<in> entryTarget (bc_Sources cfg) ` set (bm_Entries m).
    case r of Inr _ \<Rightarrow> content_at s' t = new t | Inl x \<Rightarrow> content_at s' t = old t \<or> halfway x \<and> content_at s' t = new t"
proof -
  let ?go = "restoreEntries env (bc_Sources cfg) stage extracted [] (bm_Entries m)" and ?P = "entryTarget (bc_Sources cfg) ` set (bm_Entries m)"
  have same: "\<forall>t \<in> ?P. content_at s t = old t" using p by (auto simp: pending_def)
  obtain q s1 where q: "?go s = (q, s1)" by fastforce
  have res: "case q of Inr log \<Rightarrow> bk_inv env T S X s1 \<and> logged T S old new s1 log \<and> distinct (map rt_path log) \<and> set (map rt_path log) = ?P
      | Inl e \<Rightarrow> (\<forall>t \<in> ?P. content_at s1 t = old t \<or> halfway e \<and> content_at s1 t = new t)"
    using restoreEntries_result [OF inv _ _ _ p sn q] d by (cases q) (simp_all add: logged_def)
  show ?thesis
  proof (cases q)
    case (Inl e)
    then show ?thesis using run q same res
      by (auto simp: applyRestore_def bindS_def split: option.splits if_splits prod.splits)
  next
    case (Inr log)
    obtain errs s2 where rb: "bk_rollback env log s1 = (errs, s2)" by fastforce
    have lg: "logged T S old new s1 log" "distinct (map rt_path log)" "rt_path ` set log = ?P" using res Inr by simp_all
    have "\<forall>t \<in> rt_path ` set log. content_at s1 t = new t" using lg(1) by (simp add: logged_def)
    then have n: "\<forall>t \<in> ?P. content_at s1 t = new t" unfolding lg(3) .
    have "\<forall>i \<in> set log. content_at s2 (rt_path i) = old (rt_path i) \<or> errs \<noteq> [] \<and> content_at s2 (rt_path i) = new (rt_path i)"
      using rollback_log [of env T S X s1 log old new errs s2] res Inr lg rb by (auto simp: logged_def)
    then have "\<forall>t \<in> rt_path ` set log. content_at s2 t = old t \<or> errs \<noteq> [] \<and> content_at s2 t = new t" by blast
    then have "\<forall>t \<in> ?P. content_at s2 t = old t \<or> errs \<noteq> [] \<and> content_at s2 t = new t" unfolding lg(3) .
    then show ?thesis using run q Inr same n rb
      by (auto simp: applyRestore_def bindS_def split: option.splits if_splits prod.splits)
  qed
qed

section \<open>Keys and paths\<close>

lemma clean_fold_relative:
  assumes "\<forall>x \<in> set xs. SLASH \<notin> set x" "plain_comps ps"
  shows "\<exists>n ps'. fold (clean_step False) xs (rev ps @ replicate n0 ''..'') = rev ps' @ replicate n ''..'' \<and> plain_comps ps'"
  using assms
proof (induction xs arbitrary: ps n0)
  case (Cons x xs)
  have "\<exists>m qs. clean_step False x (rev ps @ replicate n0 ''..'') = rev qs @ replicate m ''..'' \<and> plain_comps qs"
  proof (cases "x = [] \<or> x = ''.''")
    case False
    show ?thesis
    proof (cases "x = ''..''")
      case True
      show ?thesis
      proof (cases ps rule: rev_cases)
        case Nil
        then have "clean_step False x (rev ps @ replicate n0 ''..'') = rev [] @ replicate (Suc n0) ''..''" using True False by (cases n0) auto
        then show ?thesis using plain_comps_simps by blast
      next
        case (snoc qs y)
        then have "y \<noteq> ''..''" "plain_comps qs" using Cons.prems(2) by (auto simp: plain_comps_def plain_comp_def)
        then show ?thesis using True snoc False by auto
      qed
    next
      case nd: False
      then have "plain_comp x" using False Cons.prems(1) by (simp add: plain_comp_def)
      then have "clean_step False x (rev ps @ replicate n0 ''..'') = rev (ps @ [x]) @ replicate n0 ''..'' \<and> plain_comps (ps @ [x])"
        using False nd Cons.prems(2) by simp
      then show ?thesis by blast
    qed
  qed (use Cons.prems(2) in auto)
  then obtain m qs where "clean_step False x (rev ps @ replicate n0 ''..'') = rev qs @ replicate m ''..''" "plain_comps qs" by blast
  then show ?case using Cons.IH [of qs m] Cons.prems(1) by simp
qed auto

definition relComps :: "string \<Rightarrow> string list" where
  "relComps p = (if p = ''.'' then [] else Split SLASH p)"

lemma safeRelative_comps:
  assumes "safeRelative p"
  shows "plain_comps (relComps p)"
proof -
  have s: "p \<noteq> []" "\<not> IsAbs p" "Clean p = p" "p \<noteq> ''..''" "\<not> HasPrefix p ''../''" using assms by (auto simp: safeRelative_def)
  obtain n ps where f: "fold (clean_step False) (Split SLASH p) [] = rev ps @ replicate n ''..''" "plain_comps ps"
    using clean_fold_relative [of "Split SLASH p" "[]" 0] Split_no_sep [of _ SLASH p] by auto
  then have c: "path_comps p = replicate n ''..'' @ ps" using s(2) by (simp add: path_comps_def)
  have "n = 0"
  proof (rule ccontr)
    assume "n \<noteq> 0"
    then obtain k where k: "path_comps p = ''..'' # replicate k ''..'' @ ps" using c by (cases n) auto
    moreover have "Join ''/'' (''..'' # replicate k ''..'' @ ps) \<noteq> []" by (cases "replicate k ''..'' @ ps") simp_all
    ultimately have "p = Join ''/'' (''..'' # replicate k ''..'' @ ps)" using s(2,3) by (simp add: Clean_def Let_def)
    then show False using s(4,5) by (cases "replicate k ''..'' @ ps") (auto simp: HasPrefix_iff)
  qed
  then have "path_comps p = ps" using c by simp
  then have "p = (if Join ''/'' ps = [] then ''.'' else Join ''/'' ps)" using s(2,3) by (simp add: Clean_def Let_def)
  then show ?thesis using f(2) Split_Join [of ps SLASH] plain_comps_no_slash [OF f(2)] by (cases "ps = []") (auto simp: relComps_def split: if_splits)
qed

lemma safeSourceID_plain: "safeSourceID a \<Longrightarrow> plain_comp a"
  by (auto simp: safeSourceID_def plain_comp_def list_all_iff is_lower_def is_digit_def in_range_def)

definition stagedAt :: "path \<Rightarrow> string \<Rightarrow> path" where
  "stagedAt d key = path_comps (PathJoin [abs_path d, key])"

lemma stagedAt_entry:
  assumes "plain_comps d" "safeSourceID (en_SourceID e)" "safeRelative (en_Path e)"
  shows "stagedAt d (entryKey e) = d @ en_SourceID e # relComps (en_Path e)"
proof (cases "en_Path e = ''.''")
  case False
  then have j: "entryKey e = Join ''/'' (en_SourceID e # relComps (en_Path e))"
    by (simp add: entryKey_def relComps_def)
      (metis Join_Split Join.simps(3) Split_not_Nil append_Cons append_Nil neq_Nil_conv)
  show ?thesis unfolding stagedAt_def j
    by (rule path_comps_PathJoin(1)) (use assms safeSourceID_plain safeRelative_comps in auto)
next
  case True
  have a: "plain_comp (en_SourceID e)" using assms(2) by (rule safeSourceID_plain)
  have "PathJoin [abs_path d, entryKey e] = PathJoin [abs_path d, en_SourceID e]"
  proof -
    have "path_comps (abs_path d @ ''/'' @ en_SourceID e @ ''/.'') = path_comps (abs_path d @ ''/'' @ en_SourceID e)"
      by (simp add: path_comps_def abs_path_def Split_append_gen)
    then show ?thesis using a by (simp add: PathJoin_def entryKey_def True abs_path_def Clean_def plain_comp_def)
  qed
  then show ?thesis using path_comps_PathJoin(1) [of d "[en_SourceID e]"] assms(1) a by (simp add: stagedAt_def True relComps_def)
qed


section \<open>The manifest\<close>

lemma wrap64_id: "- (2 ^ 63) \<le> x \<Longrightarrow> x < 2 ^ 63 \<Longrightarrow> wrap64 x = x"
  by (simp add: wrap64_def)

lemma checkEntries_Ok:
  assumes "checkEntries maxBytes expected declared es = Ok (expected', declared')"
  shows "(\<forall>e \<in> set es. safeSourceID (en_SourceID e) \<and> safeRelative (en_Path e) \<and> 0 \<le> en_Size e \<and> map_of expected' (entryKey e) = Some e) \<and>
    distinct (map entryKey es) \<and> (\<forall>k \<in> entryKey ` set es. map_of expected k = None) \<and>
    (\<forall>k. k \<notin> entryKey ` set es \<longrightarrow> map_of expected' k = map_of expected k)"
  using assms
proof (induction es arbitrary: expected declared)
  case (Cons e es)
  have ok: "\<not> badEntry maxBytes expected declared e"
    and rest: "checkEntries maxBytes ((entryKey e, e) # expected) (wrap64 (declared + en_Size e)) es = Ok (expected', declared')"
    using Cons.prems by (auto split: if_splits)
  note ih = Cons.IH [OF rest]
  have "entryKey e \<notin> entryKey ` set es" using ih by fastforce
  then have "map_of expected' (entryKey e) = Some e" using ih by simp
  moreover have "map_of expected (entryKey e) = None" using ok by (auto simp: badEntry_def)
  moreover have "\<forall>k \<in> entryKey ` set es. map_of expected k = None" using ih by (auto split: if_splits)
  ultimately show ?case using ih ok \<open>entryKey e \<notin> entryKey ` set es\<close> by (auto simp: badEntry_def)
qed simp

lemma checkEntries_sum:
  assumes "checkEntries maxBytes expected declared es = Ok (expected', declared')" "0 \<le> declared" "declared \<le> maxBytes" "maxBytes < 2 ^ 63"
  shows "declared' = declared + sum_list (map en_Size es) \<and> declared' \<le> maxBytes \<and>
    (\<forall>k. 0 \<le> sum_list (map en_Size (take k es)) \<and> declared + sum_list (map en_Size (take k es)) \<le> maxBytes)"
  using assms
proof (induction es arbitrary: expected declared)
  case (Cons e es)
  have ok: "0 \<le> en_Size e" "en_Size e \<le> wrap64 (maxBytes - declared)"
    and rest: "checkEntries maxBytes ((entryKey e, e) # expected) (wrap64 (declared + en_Size e)) es = Ok (expected', declared')"
    using Cons.prems(1) by (auto simp: badEntry_def split: if_splits)
  have w: "wrap64 (maxBytes - declared) = maxBytes - declared" "wrap64 (declared + en_Size e) = declared + en_Size e"
    using ok Cons.prems(2-4) wrap64_id [of "maxBytes - declared"] by (auto intro!: wrap64_id)
  have "0 \<le> declared + en_Size e" "declared + en_Size e \<le> maxBytes" using ok w Cons.prems(2) by auto
  from Cons.IH [OF rest [unfolded w(2)] this Cons.prems(4)]
  have ih: "declared' = declared + en_Size e + sum_list (map en_Size es)" "declared' \<le> maxBytes"
    "\<And>k. 0 \<le> sum_list (map en_Size (take k es)) \<and> declared + en_Size e + sum_list (map en_Size (take k es)) \<le> maxBytes" by blast+
  have "0 \<le> sum_list (map en_Size (take k (e # es))) \<and> declared + sum_list (map en_Size (take k (e # es))) \<le> maxBytes" for k
  proof (cases k)
    case (Suc j)
    then show ?thesis using ih(3) [of j] ok(1) by auto
  qed (use Cons.prems(3) in simp)
  then show ?case using ih(1,2) by simp
qed simp

section \<open>Extraction\<close>

lemma storeEntry_result:
  assumes "storeEntry (Some d) key data s = (r, s')"
  shows "cframe (\<lambda>x. x = stagedAt d key) s s' \<and> files_grow s s' \<and> wf_step s s' \<and> calm s s' \<and>
    (\<forall>st t. r = Ok (st, t) \<longrightarrow> t = stagedAt d key \<and> (st \<longrightarrow> content_at s' t = Some data))"
proof -
  let ?t = "stagedAt d key"
  let ?fill = "\<lambda>_ s. case os_WriteData ?t data s of (w, s1) \<Rightarrow> (case os_Sync s1 of (c, s2) \<Rightarrow> (Ok (is_ok w \<and> is_ok c, ?t) :: (bk_error, bool \<times> path) result, s2))"
  have run: "bindS (wrapS BOS (os_MkdirAll (butlast ?t) 0x1C0)) (\<lambda>_. bindS (wrapS BOS (os_OpenExcl ?t 0x180)) ?fill) s = (r, s')"
    using assms by (simp add: storeEntry_def stagedAt_def Let_def)
  have k: "keeps R (bindS (wrapS BOS (os_MkdirAll (butlast ?t) 0x1C0)) (\<lambda>_. bindS (wrapS BOS (os_OpenExcl ?t 0x180)) ?fill))"
    if "reflp R" "transp R" "keeps R (os_MkdirAll (butlast ?t) 0x1C0)" "keeps R (os_OpenExcl ?t 0x180)" "keeps R (os_WriteData ?t data)" "keeps R os_Sync"
    for R :: "os \<Rightarrow> os \<Rightarrow> bool"
  proof -
    have "keeps R (?fill u)" for u
    proof (rule keepsI)
      fix s
      obtain w s1 where w: "os_WriteData ?t data s = (w, s1)" by fastforce
      obtain c s2 where c: "os_Sync s1 = (c, s2)" by fastforce
      show "R s (snd (?fill u s))" using transpD [OF that(2) keepsD [OF that(5) w] keepsD [OF that(6) c]] w c by simp
    qed
    then show ?thesis using that by (intro keeps_intro) auto
  qed
  have wf: "wf_step s s'" by (rule keepsD [OF k run]) (intro keeps_intro wf_step_order)+
  have cl: "calm s s'" by (rule keepsD [OF k run]) (intro keeps_intro calm_order)+
  have f: "keeps (cframe (\<lambda>x. x = ?t)) (os_OpenExcl ?t 0x180)" "keeps (cframe (\<lambda>x. x = ?t)) (os_WriteData ?t data)" "keeps (cframe (\<lambda>x. x = ?t)) os_Sync"
    by (rule cframe_keeps, (intro keeps_intro; simp))+
  have cf: "cframe (\<lambda>x. x = ?t) s s'" by (rule keepsD [OF k [OF cframe_order(1,2) cframe_MkdirAll f] run])
  from run have "files_grow s s' \<and> (\<forall>st t. r = Ok (st, t) \<longrightarrow> t = ?t \<and> (st \<longrightarrow> content_at s' t = Some data))"
  proof (cases rule: wrap_bindS_cases)
    case (err e)
    then show ?thesis using keepsD [OF outside_MkdirAll err(1)] by simp
  next
    case (ok u s1)
    note g1 = keepsD [OF outside_MkdirAll ok(1), of "\<lambda>_. False"]
    from ok(2) show ?thesis
    proof (cases rule: wrap_bindS_cases)
      case (err e)
      then have "nodes s' = nodes s1" using OpenExcl_result [OF err(1)] by auto
      then show ?thesis using outside_chain [OF g1 outside_same] err(2) by simp
    next
      case (ok u s2)
      from OpenExcl_result [OF ok(1)] obtain m where new: "nodes s1 ?t = None" "nodes s2 = (nodes s1)(?t \<mapsto> FileN [] m)" by auto
      obtain w s3 where w: "os_WriteData ?t data s2 = (w, s3)" by fastforce
      obtain c where c: "os_Sync s3 = (c, s')" and r: "r = Ok (is_ok w \<and> is_ok c, ?t)"
        using ok(2) w by (auto split: prod.splits)
      have o: "only (\<lambda>x. x = ?t) s2 s3 \<and> (\<forall>u. w = Ok u \<longrightarrow> nodes s3 ?t = Some (FileN data m))"
        using WriteData_result [OF w, of "[]" m] new(2) by simp
      have n: "nodes s' = nodes s3" by (rule Sync_nodes [OF c])
      have "files_grow s1 s'" unfolding outside_kept_def
      proof (intro allI impI)
        fix x assume x: "nodes s1 x \<noteq> None"
        then have "x \<noteq> ?t" using new(1) by auto
        then show "nodes s' x = nodes s1 x" using o n new(2) unfolding only_def by (metis fun_upd_other)
      qed
      moreover have "content_at s' ?t = Some data" if "is_ok w" using that o n by (cases w) (auto simp: content_at_def)
      ultimately show ?thesis using outside_chain [OF g1] r by auto
    qed
  qed
  then show ?thesis using wf cl cf by blast
qed

lemma extractAll_frame:
  assumes "extractAll env (Some d) complete expected extracted hs s = (r, s')" "\<And>k. map_of expected k \<noteq> None \<Longrightarrow> D (stagedAt d k)"
  shows "cframe D s s' \<and> files_grow s s' \<and> wf_step s s' \<and> calm s s'"
  using assms
proof (induction hs arbitrary: expected extracted s)
  case Nil
  then show ?case by (auto simp: wf_step_def outside_kept_def)
next
  case (Cons h hs)
  let ?key = "TrimPrefix (ae_Name h) ''data/''"
  consider (bad) "s' = s" | (go) e q s1 where "map_of expected ?key = Some e" "storeEntry (Some d) ?key (take (nat (en_Size e)) (ae_Data h)) s = (q, s1)"
      "s' = s1 \<or> (\<exists>ex. extractAll env (Some d) complete (filter (\<lambda>(k, _). k \<noteq> ?key) expected) ex hs s1 = (r, s'))"
    using Cons.prems(1)
    by (auto simp: Let_def bindS_def guardS_def split: if_splits option.splits prod.splits sum.splits)
  then show ?case
  proof cases
    case go
    note st = storeEntry_result [OF go(2)]
    have "cframe D s s1" by (rule cframe_mono [of "\<lambda>x. x = stagedAt d ?key"]) (use st go(1) Cons.prems(2) [of ?key] in auto)
    moreover have "cframe D s1 s' \<and> files_grow s1 s' \<and> wf_step s1 s' \<and> calm s1 s'"
    proof (cases "s' = s1")
      case False
      then obtain ex where ex: "extractAll env (Some d) complete (filter (\<lambda>(k, _). k \<noteq> ?key) expected) ex hs s1 = (r, s')" using go(3) by blast
      show ?thesis by (rule Cons.IH [OF ex]) (use Cons.prems(2) in \<open>auto simp: map_of_filter_key split: if_splits\<close>)
    qed (simp add: wf_step_def outside_kept_def)
    ultimately show ?thesis
      using st cframe_chain outside_chain transpD [OF wf_step_order(2)] transpD [OF calm_order(2)] by blast
  qed (simp add: wf_step_def outside_kept_def)
qed

lemma extractAll_Ok:
  assumes "extractAll env (Some d) complete expected extracted hs s = (Ok ex', s')"
  shows "(\<forall>k e. map_of expected k = Some e \<longrightarrow> (\<exists>c. be_sha256 env c = en_SHA256 e \<and> int (length c) = en_Size e \<and>
      map_of ex' k = Some (stagedAt d k) \<and> content_at s' (stagedAt d k) = Some c)) \<and>
    (\<forall>k. map_of expected k = None \<longrightarrow> map_of ex' k = map_of extracted k)"
  using assms
proof (induction hs arbitrary: expected extracted s)
  case Nil
  then show ?case by (auto split: if_splits)
next
  case (Cons h hs)
  let ?key = "TrimPrefix (ae_Name h) ''data/''"
  from Cons.prems obtain e t s1 where e: "map_of expected ?key = Some e"
    and st: "storeEntry (Some d) ?key (take (nat (en_Size e)) (ae_Data h)) s = (Ok (True, t), s1)"
    and ok: "int (length (take (nat (en_Size e)) (ae_Data h))) = en_Size e" "be_sha256 env (take (nat (en_Size e)) (ae_Data h)) = en_SHA256 e"
    and rest: "extractAll env (Some d) complete (filter (\<lambda>(k, _). k \<noteq> ?key) expected) ((?key, t) # extracted) hs s1 = (Ok ex', s')"
    by (auto simp: Let_def bindS_Ok guardS_Ok split: if_splits option.splits)
  have t: "t = stagedAt d ?key" "content_at s1 t = Some (take (nat (en_Size e)) (ae_Data h))" using storeEntry_result [OF st] by auto
  have "files_grow s1 s'" using extractAll_frame [OF rest, of "\<lambda>_. True"] by simp
  then have "content_at s' t = Some (take (nat (en_Size e)) (ae_Data h))" using t(2) grows_content by blast
  moreover note ih = Cons.IH [OF rest, unfolded map_of_filter_key]
  have mine: "map_of ex' ?key = Some t" using ih by (auto split: if_splits)
  ultimately have here: "\<exists>c. be_sha256 env c = en_SHA256 e \<and> int (length c) = en_Size e \<and> map_of ex' ?key = Some (stagedAt d ?key) \<and>
      content_at s' (stagedAt d ?key) = Some c" using ok t(1) by blast
  show ?case
  proof (intro conjI allI impI)
    fix k e' assume k: "map_of expected k = Some e'"
    show "\<exists>c. be_sha256 env c = en_SHA256 e' \<and> int (length c) = en_Size e' \<and> map_of ex' k = Some (stagedAt d k) \<and> content_at s' (stagedAt d k) = Some c"
    proof (cases "k = ?key")
      case True
      then show ?thesis using here k e by simp
    next
      case False
      then show ?thesis using conjunct1 [OF ih] k by simp
    qed
  next
    fix k assume "map_of expected k = None"
    moreover from this have "k \<noteq> ?key" using e by auto
    ultimately show "map_of ex' k = map_of extracted k" using conjunct2 [OF ih] by simp
  qed
qed


section \<open>Restore\<close>

lemma keeps_follow [keeps_intro]: "reflp R \<Longrightarrow> (\<And>q. keeps R (f q)) \<Longrightarrow> keeps R (follow p f)"
  by (rule keepsI) (auto simp: follow_def keeps_def reflp_def split: sum.split)

lemma readContent_same [keeps_intro]: "keeps same_fs (readContent p)"
proof -
  have "keeps same_fs (case n of FileN c _ \<Rightarrow> retS c | _ \<Rightarrow> failS EISDIR)" for n
    by (cases n) (auto intro: keeps_intro)
  then show ?thesis unfolding readContent_def by (intro keeps_intro same_fs_order)
qed

lemma openArchive_same: "keeps same_fs (openArchive env cfg p)"
proof -
  have "keeps same_fs (case be_untar env data of None \<Rightarrow> failS OpenGzip
     | Some (entries, complete) \<Rightarrow> bindS (liftS (readManifest env entries)) (\<lambda>(m, rest). retS (m, rest, complete)))" for data
    by (cases "be_untar env data") (auto intro!: keeps_intro split: prod.split)
  then show ?thesis unfolding openArchive_def by (intro keeps_intro same_fs_order)
qed

lemma validSources_Ok: "validSources seen xs = Ok u \<Longrightarrow> \<forall>x \<in> set xs. safeSourceID (sr_ID x) \<and> IsAbs (sr_Path x)"
  by (induction xs arbitrary: seen) (auto split: if_splits)

lemma bk_validate_Ok:
  assumes "bk_validate cfg = Ok u"
  shows "IsAbs (bc_StateDir cfg)" "IsAbs (bc_BackupDir cfg)" "\<forall>x \<in> set (bc_Sources cfg). safeSourceID (sr_ID x) \<and> IsAbs (sr_Path x)"
    "0 < bc_MaxEntries cfg" "0 < bc_MaxBytes cfg"
  using assms validSources_Ok [of "[]" "bc_Sources cfg" "()"] by (auto simp: bk_validate_def andThen_Ok split: if_splits)

lemma targetOf_plain:
  assumes "IsAbs (sr_Path x)"
  shows "plain_comps (targetOf x e)"
proof -
  obtain t where t: "sr_Path x = SLASH # t" using assms by (cases "sr_Path x") auto
  have "IsAbs (PathJoin [sr_Path x, en_Path e])" by (auto simp: PathJoin_def t)
  then show ?thesis using assms by (auto simp: targetOf_def intro!: path_comps_plain)
qed

lemma entryTarget_plain:
  assumes "bk_validate cfg = Ok u"
  shows "plain_comps (entryTarget (bc_Sources cfg) e)"
  using bk_validate_Ok(3) [OF assms] targetOf_plain [of _ e] by (auto simp: entryTarget_def find_Some_iff split: option.split)

text \<open>When Restore can promise anything: the targets are distinct files outside the directory of the engine, reached without
  symbolic links, and none is a temporary name of another.\<close>

definition restorable :: "bk_env \<Rightarrow> BackupConfig \<Rightarrow> BackupManifest \<Rightarrow> os \<Rightarrow> bool" where
  "restorable env cfg m s =
     (SLASH \<notin> set (be_rnd env) \<and> link_free s (bk_stateDir cfg) \<and> ''rollback'' \<notin> sr_ID ` set (bc_Sources cfg) \<and>
      (let ts = map (entryTarget (bc_Sources cfg)) (bm_Entries m)
       in distinct ts \<and> (\<forall>t \<in> set ts. t \<noteq> [] \<and> link_free s t \<and> \<not> prefix (bk_stateDir cfg) t \<and> tempOf env t \<notin> set ts)))"

text \<open>The file holds bytes with the size and checksum that the manifest gives for the entry.\<close>

definition restoredTo :: "bk_env \<Rightarrow> Entry \<Rightarrow> string option \<Rightarrow> bool" where
  "restoredTo env e v = (\<exists>c. v = Some c \<and> be_sha256 env c = en_SHA256 e \<and> int (length c) = en_Size e)"

definition restoreOutcome :: "bk_env \<Rightarrow> BackupConfig \<Rightarrow> BackupManifest \<Rightarrow> bk_error option \<Rightarrow> os \<Rightarrow> os \<Rightarrow> bool" where
  "restoreOutcome env cfg m err s s' =
     (\<forall>e \<in> set (bm_Entries m). let t = entryTarget (bc_Sources cfg) e
        in case err of None \<Rightarrow> restoredTo env e (content_at s' t)
           | Some x \<Rightarrow> content_at s' t = content_at s t \<or> halfway x \<and> restoredTo env e (content_at s' t))"

lemma outcome_frame:
  assumes "restoreOutcome env cfg m err s1 s2" "cframe D s s1" "cframe D s2 s'"
    "\<forall>t \<in> entryTarget (bc_Sources cfg) ` set (bm_Entries m). \<not> D t"
  shows "restoreOutcome env cfg m err s s'"
  using assms unfolding restoreOutcome_def cframe_def Let_def by (cases err) simp_all

lemma outcome_same: "cframe D s s' \<Longrightarrow> \<forall>t \<in> entryTarget (bc_Sources cfg) ` set (bm_Entries m). \<not> D t \<Longrightarrow> restoreOutcome env cfg m (Some x) s s'"
  by (simp add: restoreOutcome_def cframe_def Let_def)

lemma checkManifest_Ok:
  assumes "checkManifest cfg m = Ok expected"
  shows "\<exists>d. checkEntries (bc_MaxBytes cfg) [] 0 (bm_Entries m) = Ok (expected, d) \<and> d = bm_TotalBytes m \<and>
    int (length (bm_Entries m)) \<le> bc_MaxEntries cfg"
  using assms by (auto simp: checkManifest_def andThen_Ok split: if_splits option.splits)

lemma restore_places:
  assumes v: "bk_validate cfg = Ok u" and r: "restorable env cfg m s" and ck: "checkManifest cfg m = Ok expected"
    and st: "stage = bk_stateDir cfg @ [''restore-'' @ be_rnd env]"
    and src: "\<forall>e \<in> set (bm_Entries m). en_SourceID e \<in> sr_ID ` set (bc_Sources cfg)"
  shows "placed env (entryTarget (bc_Sources cfg) ` set (bm_Entries m)) (range (snapOf stage)) ((\<lambda>e. stagedAt stage (entryKey e)) ` set (bm_Entries m))"
proof -
  let ?T = "entryTarget (bc_Sources cfg) ` set (bm_Entries m)" and ?S = "range (snapOf stage)" and ?X = "(\<lambda>e. stagedAt stage (entryKey e)) ` set (bm_Entries m)"
  have pst: "plain_comps stage" using r path_comps_plain [OF bk_validate_Ok(1) [OF v]]
    by (auto simp: st restorable_def bk_stateDir_def plain_comp_def)
  from checkManifest_Ok [OF ck] checkEntries_Ok have
    safe: "\<forall>e \<in> set (bm_Entries m). safeSourceID (en_SourceID e) \<and> safeRelative (en_Path e)" by blast
  have X: "\<exists>a z. x = stage @ a # z \<and> plain_comps (a # z) \<and> a \<noteq> ''rollback''" if "x \<in> ?X" for x
  proof -
    from that obtain e where e: "e \<in> set (bm_Entries m)" "x = stagedAt stage (entryKey e)" by blast
    have "en_SourceID e \<noteq> ''rollback''" using src e(1) r unfolding restorable_def by metis
    then show ?thesis
      using stagedAt_entry [OF pst, of e] safe e safeSourceID_plain safeRelative_comps by auto
  qed
  have dg: "plain_comp (nat_digits k)" for k
  proof -
    have "SLASH \<notin> set (nat_digits k)" "CHR ''.'' \<notin> set (nat_digits k)"
      using nat_digits_chars [of SLASH k] nat_digits_chars [of "CHR ''.''" k] by (auto simp: is_digit_def in_range_def)
    then show ?thesis by (auto simp: plain_comp_def)
  qed
  have S: "\<exists>k. x = stage @ [''rollback'', nat_digits k]" if "x \<in> ?S" for x using that by (auto simp: snapOf_def)
  have T: "plain_comps t" "t \<noteq> []" "\<not> prefix (bk_stateDir cfg) t" "tempOf env t \<notin> ?T" if "t \<in> ?T" for t
    using that r entryTarget_plain [OF v] by (auto simp: restorable_def Let_def)
  have out: "\<not> prefix stage t" if "t \<in> ?T" for t using T(3) [OF that] by (auto simp: st prefix_def)
  have tmpT: "tempOf env t \<notin> ?S \<union> ?X" if t: "t \<in> ?T" for t
  proof
    assume "tempOf env t \<in> ?S \<union> ?X"
    then obtain y ys where "tempOf env t = stage @ y # ys" using S X by blast
    then have "butlast (stage @ y # ys) = butlast t" unfolding tempOf_def by (metis butlast_snoc)
    then have "prefix stage (butlast t)" by (metis butlast_append list.discI prefixI)
    then show False using out [OF t] prefix_order.trans [OF _ prefixeq_butlast] by blast
  qed
  have base: "Base (abs_path (snapOf stage k)) = nat_digits k" for k
    using Base_abs_path [of "snapOf stage k"] pst dg by (simp add: snapOf_def plain_comp_def)
  have tmpS: "tempOf env (snapOf stage k) \<notin> ?T \<union> ?S \<union> ?X" for k
  proof -
    have t: "tempOf env (snapOf stage k) = stage @ [''rollback'', ''.'' @ nat_digits k @ ''.restore-'' @ be_rnd env]"
      using base by (simp add: tempOf_def) (simp add: snapOf_def butlast_append)
    have "\<not> is_digit (CHR ''.'')" by (simp add: is_digit_def in_range_def)
    then have "nat_digits j \<noteq> ''.'' @ z" for j z using nat_digits_chars [of "CHR ''.''" j] by auto
    from this [symmetric] have "tempOf env (snapOf stage k) \<noteq> snapOf stage j" for j unfolding t by (simp add: snapOf_def)
    then have "tempOf env (snapOf stage k) \<notin> ?S" by blast
    moreover have "tempOf env (snapOf stage k) \<notin> ?X"
    proof
      assume "tempOf env (snapOf stage k) \<in> ?X"
      from X [OF this] show False unfolding t by simp
    qed
    moreover have "tempOf env (snapOf stage k) \<notin> ?T" using out [of "tempOf env (snapOf stage k)"] t by auto
    ultimately show ?thesis by blast
  qed
  have SX: "p \<notin> ?X" if "p \<in> ?S" for p
    using S [OF that] X [of p] by auto
  have below: "prefix stage p" if "p \<in> ?S \<union> ?X" for p
    using that S [of p] X [of p] by (metis Un_iff prefixI)
  have pl: "plain_comps p \<and> p \<noteq> []" if "p \<in> ?T \<union> ?S \<union> ?X" for p
  proof -
    consider "p \<in> ?T" | "p \<in> ?S" | "p \<in> ?X" using \<open>p \<in> ?T \<union> ?S \<union> ?X\<close> by blast
    then show ?thesis
    proof cases
      case 1 then show ?thesis using T(1,2) by blast
    next
      case 2 with S obtain k where "p = stage @ [''rollback'', nat_digits k]" by blast
      then show ?thesis using pst dg by (simp add: plain_comp_def)
    next
      case 3 from X [OF this] show ?thesis using pst by auto
    qed
  qed
  have "tempOf env p \<notin> ?T \<union> ?S \<union> ?X" if TS: "p \<in> ?T \<union> ?S" for p
  proof (cases "p \<in> ?T")
    case True then show ?thesis using T(4) tmpT by blast
  next
    case False
    then obtain k where "p = snapOf stage k" using TS by blast
    then show ?thesis using tmpS [of k] by metis
  qed
  moreover have "?S \<inter> (?T \<union> ?X) = {}"
  proof (rule equals0I)
    fix p assume "p \<in> ?S \<inter> (?T \<union> ?X)"
    then show False using SX [of p] below [of p] out [of p] by blast
  qed
  moreover have "?T \<inter> ?X = {}"
  proof (rule equals0I)
    fix p assume "p \<in> ?T \<inter> ?X"
    then show False using below [of p] out [of p] by blast
  qed
  ultimately show ?thesis unfolding placed_def using pl by (intro conjI ballI) simp_all
qed


text \<open>A step that keeps the file system well formed, makes no link and changes file contents in one region only.\<close>

definition quiet :: "(path \<Rightarrow> bool) \<Rightarrow> os \<Rightarrow> os \<Rightarrow> bool" where
  "quiet D s s' = (wf_step s s' \<and> calm s s' \<and> cframe D s s')"

lemma quiet_chain: "quiet D s s1 \<Longrightarrow> quiet D s1 s2 \<Longrightarrow> quiet D s s2"
  unfolding quiet_def using transpD [OF wf_step_order(2)] transpD [OF calm_order(2)] cframe_chain by blast

lemma quiet_mono: "quiet D s s' \<Longrightarrow> (\<And>x. D x \<Longrightarrow> E x) \<Longrightarrow> quiet E s s'"
  using cframe_mono by (auto simp: quiet_def)

lemma quiet_same: "nodes s' = nodes s \<Longrightarrow> quiet D s s'"
  by (simp add: quiet_def wf_nodes calm_nodes cframe_nodes)

lemma keeps_quiet: "keeps wf_step m \<Longrightarrow> keeps calm m \<Longrightarrow> keeps (cframe D) m \<Longrightarrow> keeps (quiet D) m"
  by (simp add: keeps_def quiet_def)

lemma prepare_quiet: "keeps (quiet D) (bk_prepare cfg)"
  unfolding bk_prepare_def
  by (intro keeps_quiet; intro keeps_intro wf_step_order calm_order cframe_order)

lemma stage_quiet: "D (d @ [pre @ rnd]) \<Longrightarrow> keeps (quiet D) (os_MkdirTemp d pre rnd)"
  by (intro keeps_quiet cframe_keeps keeps_intro)

lemma finishOp_frame: "cframe (prefix (bk_stateDir cfg)) s (finishOp env cfg op err s)"
proof -
  have "keeps (cframe (prefix (bk_stateDir cfg))) (bk_appendHistory env cfg op')" for op'
    unfolding bk_appendHistory_def
    by (intro keeps_intro cframe_order) (auto intro!: cframe_keeps keeps_intro simp: bk_historyPath_def)
  then show ?thesis by (simp add: finishOp_def keeps_def)
qed

lemma RemoveAll_frame: "cframe (prefix p) s (snd (os_RemoveAll p s))"
  using cframe_keeps [OF only_RemoveAll [of p "prefix p"]] by (simp add: keeps_def)

text \<open>Nothing is below a directory that has just been made.\<close>

lemma MkdirTemp_below:
  assumes "os_wf s" "os_MkdirTemp d pre rnd s = (Ok p, s')" "link_free s d" "prefix p x"
  shows "link_free s' x"
  unfolding link_free_def
proof (intro allI impI)
  fix q assume q: "prefix q x"
  have p: "p = d @ [pre @ rnd]" using assms(2) by (rule MkdirTemp_Ok)
  from assms(2) have "os_Mkdir p 0x1C0 s = (Ok (), s')" by (auto simp: os_MkdirTemp_def bindS_Ok)
  then obtain fs m where new: "nodes s p = None" "s' = set_node p (DirN m) (s\<lparr>faults := fs\<rparr>)"
    unfolding os_Mkdir_def by (rule sys_cases) (auto split: if_splits)
  consider "q = p" | "strict_prefix q p" | "strict_prefix p q"
    using prefix_same_cases [OF q assms(4)] by (auto simp: strict_prefix_def)
  then show "\<not> is_link s' q"
  proof cases
    case 2
    then have "prefix q d" "q \<noteq> p" by (auto simp: p strict_prefix_def)
    then show ?thesis using assms(3) new(2) by (auto simp: link_free_def is_link_iff)
  next
    case 3
    then have "nodes s q = None" "q \<noteq> p" using os_wf_missing [OF assms(1) new(1)] by (auto simp: strict_prefix_def)
    then show ?thesis using new(2) by (auto simp: is_link_iff)
  qed (simp add: new(2) is_link_iff)
qed

lemma restorable_calm: "calm s s' \<Longrightarrow> restorable env cfg m s \<Longrightarrow> restorable env cfg m s'"
  unfolding restorable_def Let_def using calm_link_free by blast

lemma stage_plain:
  assumes "bk_validate cfg = Ok u" "restorable env cfg m s"
  shows "plain_comps (bk_stateDir cfg @ [''restore-'' @ be_rnd env])"
  using assms(2) path_comps_plain [OF bk_validate_Ok(1) [OF assms(1)]] by (auto simp: restorable_def bk_stateDir_def plain_comp_def)

lemma extractVerified_result:
  assumes st: "plain_comps stage" and run: "extractVerified env cfg archive (Some stage) s = (r, s')"
  shows "quiet (prefix stage) s s' \<and> (\<forall>m x. r = Err (m, x) \<longrightarrow> m = emptyManifest \<or> bk_validate cfg = Ok ()) \<and>
    (\<forall>m extracted. r = Ok (m, extracted) \<longrightarrow> (\<exists>expected. checkManifest cfg m = Ok expected) \<and>
       (\<forall>e \<in> set (bm_Entries m). \<exists>c. be_sha256 env c = en_SHA256 e \<and> int (length c) = en_Size e \<and>
          map_of extracted (entryKey e) = Some (stagedAt stage (entryKey e)) \<and> content_at s' (stagedAt stage (entryKey e)) = Some c))"
proof -
  obtain q s1 where q: "openArchive env cfg archive s = (q, s1)" by fastforce
  have n1: "nodes s1 = nodes s" by (rule same_fs_nodes [OF keepsD [OF openArchive_same q]])
  show ?thesis
  proof (cases q)
    case (Inl x)
    then show ?thesis using run q n1 quiet_same by (auto simp: extractVerified_def withManifest_def wrapS_def bindS_def)
  next
    case (Inr v)
    then obtain m rest complete where v: "q = Ok (m, rest, complete)" by (cases v) auto
    have valid: "bk_validate cfg = Ok ()" using q v by (auto simp: openArchive_def bindS_Ok)
    show ?thesis
    proof (cases "checkManifest cfg m")
      case (Inl x)
      then show ?thesis using run q v n1 quiet_same valid
        by (auto simp: extractVerified_def withManifest_def wrapS_def bindS_def)
    next
      case (Inr expected)
      obtain z s2 where z: "extractAll env (Some stage) complete expected [] rest s1 = (z, s2)" by fastforce
      have s': "s' = s2" "r = (case z of Inl x \<Rightarrow> Err (m, x) | Inr ex \<Rightarrow> Ok (m, ex))"
        using run q v Inr z by (auto simp: extractVerified_def withManifest_def wrapS_def bindS_def split: sum.splits)
      obtain d where ce: "checkEntries (bc_MaxBytes cfg) [] 0 (bm_Entries m) = Ok (expected, d)" using checkManifest_Ok [OF Inr] by blast
      from checkEntries_Ok [OF ce] have es: "\<And>e. e \<in> set (bm_Entries m) \<Longrightarrow> safeSourceID (en_SourceID e) \<and> safeRelative (en_Path e) \<and> map_of expected (entryKey e) = Some e"
        and only: "\<And>k. k \<notin> entryKey ` set (bm_Entries m) \<Longrightarrow> map_of expected k = None" by simp_all
      have "prefix stage (stagedAt stage k)" if "map_of expected k \<noteq> None" for k
      proof -
        have "k \<in> entryKey ` set (bm_Entries m)" using only [of k] that by blast
        then obtain e where e: "e \<in> set (bm_Entries m)" "k = entryKey e" by blast
        show ?thesis using stagedAt_entry [OF st, of e] es [OF e(1)] e(2) by simp
      qed
      then have "cframe (prefix stage) s1 s2 \<and> files_grow s1 s2 \<and> wf_step s1 s2 \<and> calm s1 s2" by (rule extractAll_frame [OF z])
      then have "quiet (prefix stage) s s2"
        using quiet_chain [OF quiet_same [OF n1]] by (auto simp: quiet_def)
      moreover have "\<forall>e \<in> set (bm_Entries m). \<exists>c. be_sha256 env c = en_SHA256 e \<and> int (length c) = en_Size e \<and>
          map_of ex (entryKey e) = Some (stagedAt stage (entryKey e)) \<and> content_at s' (stagedAt stage (entryKey e)) = Some c" if "z = Ok ex" for ex
        using conjunct1 [OF extractAll_Ok [OF z [unfolded that]]] es s'(1) by simp
      ultimately show ?thesis using s' Inr valid by (auto split: sum.splits)
    qed
  qed
qed

lemma applyRestore_outcome:
  assumes valid: "bk_validate cfg = Ok u" and r: "restorable env cfg m s" and ck: "checkManifest cfg m = Ok expected" and wf: "os_wf s"
    and st: "stage = bk_stateDir cfg @ [''restore-'' @ be_rnd env]" and below: "\<And>x. prefix stage x \<Longrightarrow> link_free s x"
    and ex: "\<forall>e \<in> set (bm_Entries m). \<exists>c. be_sha256 env c = en_SHA256 e \<and> int (length c) = en_Size e \<and>
          map_of extracted (entryKey e) = Some (stagedAt stage (entryKey e)) \<and> content_at s (stagedAt stage (entryKey e)) = Some c"
    and run: "applyRestore env cfg stage m extracted s = (q, s')"
  shows "restoreOutcome env cfg m (case q of Inl x \<Rightarrow> Some x | Inr _ \<Rightarrow> None) s s'"
proof (cases "find (\<lambda>e. en_SourceID e \<notin> sr_ID ` set (bc_Sources cfg)) (bm_Entries m)")
  case (Some e)
  then have "q = Err (MappingMissing (en_SourceID e))" "s' = s" using run by (auto simp: applyRestore_def)
  then show ?thesis by (simp add: restoreOutcome_def)
next
  case None
  let ?tgt = "entryTarget (bc_Sources cfg)" and ?at = "\<lambda>e. stagedAt stage (entryKey e)"
  let ?T = "?tgt ` set (bm_Entries m)" and ?S = "range (snapOf stage)" and ?X = "?at ` set (bm_Entries m)"
  have src: "\<forall>e \<in> set (bm_Entries m). en_SourceID e \<in> sr_ID ` set (bc_Sources cfg)" using None by (simp add: find_None_iff)
  have d: "distinct (map ?tgt (bm_Entries m))" and lf: "\<And>t. t \<in> ?T \<Longrightarrow> link_free s t" using r by (auto simp: restorable_def Let_def)
  have pst: "plain_comps stage" using stage_plain [OF valid r] st by simp
  obtain d0 where ce: "checkEntries (bc_MaxBytes cfg) [] 0 (bm_Entries m) = Ok (expected, d0)" using checkManifest_Ok [OF ck] by blast
  have under: "prefix stage (?at e)" if "e \<in> set (bm_Entries m)" for e
    using stagedAt_entry [OF pst, of e] checkEntries_Ok [OF ce] that by simp
  have links: "\<forall>p \<in> ?T \<union> ?S \<union> ?X. link_free s p" using lf under below by (auto simp: snapOf_def)
  have inv: "bk_inv env ?T ?S ?X s" unfolding bk_inv_def using restore_places [OF valid r ck st src] wf links by blast
  define new where "new t = content_at s (?at (the_inv_into (set (bm_Entries m)) ?tgt t))" for t
  have inj: "inj_on ?tgt (set (bm_Entries m))" using d by (simp add: distinct_map)
  have new: "new (?tgt e) = content_at s (?at e)" if "e \<in> set (bm_Entries m)" for e
    using the_inv_into_f_f [OF inj that] by (simp add: new_def)
  have "find (\<lambda>x. sr_ID x = en_SourceID e) (bc_Sources cfg) \<noteq> None" if "e \<in> set (bm_Entries m)" for e
  proof -
    have "en_SourceID e \<in> sr_ID ` set (bc_Sources cfg)" using src that by blast
    then show ?thesis by (auto simp: find_None_iff)
  qed
  then have p: "pending ?T ?X (bc_Sources cfg) extracted (content_at s) new s (bm_Entries m)"
    unfolding pending_def using ex new by (auto intro!: bexI)
  have "\<forall>k. snapOf stage k \<in> ?S" by blast
  note res = applyRestore_result [OF inv d p this run]
  have "restoredTo env e (new (?tgt e))" if "e \<in> set (bm_Entries m)" for e
    using ex new [OF that] that by (auto simp: restoredTo_def)
  then show ?thesis using res unfolding restoreOutcome_def Let_def by (cases q) auto
qed

lemma restoreBody_result:
  assumes wf: "os_wf s" and valid: "bk_validate cfg = Ok u" and run: "restoreBody env cfg archive s = (r, s')"
    and rm: "(m, err) = (case r of Inl (m, x) \<Rightarrow> (m, Some x) | Inr m \<Rightarrow> (m, None))" and rs: "restorable env cfg m s"
  shows "restoreOutcome env cfg m err s s'"
proof -
  let ?stage = "bk_stateDir cfg @ [''restore-'' @ be_rnd env]"
  have out: "\<forall>t \<in> entryTarget (bc_Sources cfg) ` set (bm_Entries m). \<not> prefix ?stage t"
    using rs by (auto simp: restorable_def Let_def prefix_def)
  obtain q1 s1 where mk: "os_MkdirTemp (bk_stateDir cfg) ''restore-'' (be_rnd env) s = (q1, s1)" by fastforce
  have k1: "quiet (prefix ?stage) s s1" by (rule keepsD [OF stage_quiet mk]) simp
  show ?thesis
  proof (cases q1)
    case (Inl e)
    then have "m = emptyManifest" using run mk rm by (auto simp: restoreBody_def withManifest_def wrapS_def bindS_def)
    then show ?thesis by (simp add: restoreOutcome_def emptyManifest_def)
  next
    case (Inr p)
    have p: "p = ?stage" using MkdirTemp_Ok mk Inr by blast
    obtain q2 s2 where ex: "extractVerified env cfg archive (Some ?stage) s1 = (q2, s2)" by fastforce
    note exr = extractVerified_result [OF stage_plain [OF valid rs] ex]
    have k2: "quiet (prefix ?stage) s s2" using quiet_chain [OF k1] exr by blast
    then have wf2: "os_wf s2" and rs2: "restorable env cfg m s2" and f2: "cframe (prefix ?stage) s s2"
      using wf rs restorable_calm by (auto simp: quiet_def wf_step_def)
    have below: "link_free s2 x" if "prefix ?stage x" for x
      using MkdirTemp_below [OF wf, of "bk_stateDir cfg" "''restore-''" "be_rnd env" p s1 x] mk Inr p that rs exr calm_link_free
      by (auto simp: restorable_def quiet_def)
    show ?thesis
    proof (cases q2)
      case (Inl mx)
      then have "s' = snd (os_RemoveAll ?stage s2)" "\<exists>x. err = Some x" 
        using run mk Inr p ex rm by (auto simp: restoreBody_def withManifest_def wrapS_def bindS_def deferS_def split: prod.splits)
      then show ?thesis using outcome_same [OF cframe_chain [OF f2 RemoveAll_frame] out] by auto
    next
      case (Inr mx)
      obtain m' extracted where mx: "mx = (m', extracted)" by (cases mx)
      obtain q3 s3 where ap: "applyRestore env cfg ?stage m' extracted s2 = (q3, s3)" by fastforce
      have fin: "s' = snd (os_RemoveAll ?stage s3)" "m' = m" "err = (case q3 of Inl x \<Rightarrow> Some x | Inr _ \<Rightarrow> None)"
        using run mk \<open>q1 = Inr p\<close> p ex Inr mx ap rm
        by (auto simp: restoreBody_def withManifest_def wrapS_def bindS_def deferS_def split: prod.splits sum.splits)
      from exr Inr mx fin(2) obtain expected where ck: "checkManifest cfg m = Ok expected" by blast
      have "restoreOutcome env cfg m err s2 s3" unfolding fin(3)
        by (rule applyRestore_outcome [OF valid rs2 ck wf2 refl below _ ap [unfolded fin(2)]]) (use exr Inr mx fin(2) in simp_all)
      from outcome_frame [OF this f2 RemoveAll_frame out] show ?thesis using fin(1) by simp
    qed
  qed
qed

lemma bk_Restore_outcome:
  assumes "os_wf s" "bk_Restore env cfg archive s = ((m, err), s')" "restorable env cfg m s"
  shows "restoreOutcome env cfg m err s s'"
proof -
  obtain q s1 where p: "bk_prepare cfg s = (q, s1)" by fastforce
  have k: "quiet (\<lambda>_. False) s s1" by (rule keepsD [OF prepare_quiet p])
  let ?D = "prefix (bk_stateDir cfg)"
  have out: "\<forall>t \<in> entryTarget (bc_Sources cfg) ` set (bm_Entries m). \<not> ?D t" using assms(3) by (auto simp: restorable_def Let_def)
  show ?thesis
  proof (cases q)
    case (Inl e)
    then have "m = emptyManifest" using assms(2) p by (simp add: bk_Restore_def)
    then show ?thesis by (simp add: restoreOutcome_def emptyManifest_def)
  next
    case (Inr u)
    have valid: "bk_validate cfg = Ok ()" using p Inr by (auto simp: bk_prepare_def bindS_Ok)
    obtain r s2 where b: "restoreBody env cfg (path_comps archive) s1 = (r, s2)" by fastforce
    have e: "(m, err) = (case r of Inl (m, x) \<Rightarrow> (m, Some x) | Inr m \<Rightarrow> (m, None))" and s': "\<exists>op. s' = finishOp env cfg op err s2"
      using assms(2) p Inr b by (auto simp: bk_Restore_def concludeOp_def split: sum.splits prod.splits)
    have "os_wf s1" "restorable env cfg m s1" "cframe ?D s s1"
      using k assms(1,3) restorable_calm cframe_mono [of "\<lambda>_. False"] by (auto simp: quiet_def wf_step_def)
    from outcome_frame [OF restoreBody_result [OF this(1) valid b e this(2)] this(3) _ out] s' finishOp_frame show ?thesis by blast
  qed
qed


section \<open>Verify\<close>

lemma extractAll_exact:
  assumes "extractAll env destination complete expected extracted hs s = (Ok ex', s')" "distinct (map fst expected)"
  shows "complete \<and> distinct (map ae_Name hs) \<and> ae_Name ` set hs = (\<lambda>k. ''data/'' @ k) ` fst ` set expected \<and>
    (\<forall>h \<in> set hs. ae_Regular h \<and> (\<exists>e. map_of expected (TrimPrefix (ae_Name h) ''data/'') = Some e \<and> ae_Size h = en_Size e \<and>
       be_sha256 env (take (nat (en_Size e)) (ae_Data h)) = en_SHA256 e \<and> int (length (take (nat (en_Size e)) (ae_Data h))) = en_Size e))"
  using assms
proof (induction hs arbitrary: expected extracted s)
  case Nil
  then show ?case by (auto split: if_splits)
next
  case (Cons h hs)
  let ?key = "TrimPrefix (ae_Name h) ''data/''" and ?rest = "filter (\<lambda>(k, _). k \<noteq> TrimPrefix (ae_Name h) ''data/'') expected"
  from Cons.prems(1) obtain e t s1 where h: "ae_Regular h" "HasPrefix (ae_Name h) ''data/''" and e: "map_of expected ?key = Some e" "ae_Size h = en_Size e"
    and ok: "int (length (take (nat (en_Size e)) (ae_Data h))) = en_Size e" "be_sha256 env (take (nat (en_Size e)) (ae_Data h)) = en_SHA256 e"
    and rest: "extractAll env destination complete ?rest ((?key, t) # extracted) hs s1 = (Ok ex', s')"
    by (auto simp: Let_def bindS_Ok guardS_def failS_def retS_def split: if_splits option.splits prod.splits)
  have d: "distinct (map fst ?rest)" using Cons.prems(2) by (rule distinct_map_filter)
  note ih = Cons.IH [OF rest d]
  define key where "key = ?key"
  have name: "ae_Name h = ''data/'' @ key" using h(2) by (auto simp: key_def HasPrefix_iff TrimPrefix_def)
  have keys: "fst ` set expected = insert key (fst ` set ?rest)" using map_of_SomeD [OF e(1)] unfolding key_def by force
  have names: "ae_Name ` set hs = (\<lambda>k. ''data/'' @ k) ` fst ` set ?rest" using ih by blast
  have "key \<notin> fst ` set ?rest" by (auto simp: key_def)
  then have n1: "ae_Name h \<notin> ae_Name ` set hs" unfolding names name by (simp add: image_iff)
  have n2: "ae_Name ` set (h # hs) = (\<lambda>k. ''data/'' @ k) ` fst ` set expected"
    unfolding keys by (simp add: names name)
  have n3: "\<exists>e. map_of expected (TrimPrefix (ae_Name x) ''data/'') = Some e \<and> ae_Size x = en_Size e \<and>
       be_sha256 env (take (nat (en_Size e)) (ae_Data x)) = en_SHA256 e \<and> int (length (take (nat (en_Size e)) (ae_Data x))) = en_Size e"
    if "x \<in> set (h # hs)" for x
  proof (cases "x = h")
    case True
    then show ?thesis using e ok by blast
  next
    case False
    then have "x \<in> set hs" using that by simp
    with ih obtain e' where "map_of ?rest (TrimPrefix (ae_Name x) ''data/'') = Some e'" "ae_Size x = en_Size e'"
       "be_sha256 env (take (nat (en_Size e')) (ae_Data x)) = en_SHA256 e'" "int (length (take (nat (en_Size e')) (ae_Data x))) = en_Size e'" by blast
    moreover from this(1) have "map_of expected (TrimPrefix (ae_Name x) ''data/'') = Some e'"
      unfolding map_of_filter_key by (simp split: if_splits)
    ultimately show ?thesis by blast
  qed
  from ih have "complete" "distinct (map ae_Name hs)" "\<forall>x \<in> set hs. ae_Regular x" by blast+
  then show ?case using n1 n2 n3 h(1) by (metis (no_types, lifting) distinct.simps(2) list.set_map list.simps(9) set_ConsD)
qed

text \<open>The bytes of the archive that the path names.\<close>

definition archiveAt :: "path \<Rightarrow> os \<Rightarrow> string \<Rightarrow> bool" where
  "archiveAt p s data = (\<exists>s'. readContent p s = (Ok data, s'))"

lemma checkEntries_list:
  "checkEntries maxBytes expected declared es = Ok (expected', declared') \<Longrightarrow> expected' = rev (map (\<lambda>e. (entryKey e, e)) es) @ expected"
  by (induction es arbitrary: expected declared) (auto split: if_splits)

lemma extractVerified_Ok:
  assumes "extractVerified env cfg archive destination s = (Ok (m, ex), s')"
  obtains data h hs expected s1 s2 where "archiveAt archive s data" "be_untar env data = Some (h # hs, True)" "ae_Name h = manifestName"
    "be_decode env (take (nat (ae_Size h)) (ae_Data h)) = Some m" "checkManifest cfg m = Ok expected" "bk_validate cfg = Ok ()"
    "extractAll env destination True expected [] hs s1 = (Ok ex, s2)"
proof -
  from assms obtain rest complete expected s1 s2 where o: "openArchive env cfg archive s = (Ok (m, rest, complete), s1)"
    and ck: "checkManifest cfg m = Ok expected" and x: "extractAll env destination complete expected [] rest s1 = (Ok ex, s2)"
    by (auto simp: extractVerified_def withManifest_def bindS_Ok wrapS_Ok split: prod.splits)
  from o obtain data entries s3 where v: "bk_validate cfg = Ok ()" and d: "readContent archive s = (Ok data, s3)"
    and u: "be_untar env data = Some (entries, complete)" and r: "readManifest env entries = Ok (m, rest)"
  proof -
    from o obtain data s3 where "bk_validate cfg = Ok ()" "readContent archive s = (Ok data, s3)" and
      c: "(case be_untar env data of None \<Rightarrow> failS OpenGzip
         | Some (entries, complete) \<Rightarrow> bindS (liftS (readManifest env entries)) (\<lambda>(m, rest). retS (m, rest, complete))) s3 = (Ok (m, rest, complete), s1)"
      unfolding openArchive_def bindS_Ok wrapS_Ok by auto
    moreover from c obtain entries where "be_untar env data = Some (entries, complete)" "readManifest env entries = Ok (m, rest)"
      by (cases "be_untar env data") (auto simp: bindS_Ok split: prod.splits)
    ultimately show thesis using that by blast
  qed
  from r obtain h where h: "entries = h # rest" "ae_Name h = manifestName" "be_decode env (take (nat (ae_Size h)) (ae_Data h)) = Some m"
    by (auto simp: readManifest_def split: list.splits if_splits option.splits)
  obtain d where "checkEntries (bc_MaxBytes cfg) [] 0 (bm_Entries m) = Ok (expected, d)" using checkManifest_Ok [OF ck] by blast
  from checkEntries_list [OF this] checkEntries_Ok [OF this] have "distinct (map fst expected)" by (simp add: rev_map [symmetric] comp_def)
  from extractAll_exact [OF x this] have complete by blast
  then show thesis using that [of data h rest expected s1 s2] v d u h ck x by (auto simp: archiveAt_def)
qed

text \<open>C32. Verify accepts an archive only when it is exactly what its manifest says: the manifest is the first entry and
  within the limits of the configuration, the sizes in it add up to the total without overflow of \<open>int64\<close>, no name
  leaves the directory it is extracted to, and the other entries are the declared ones, each once, with
  the declared size and checksum, up to a proper end of the archive.
\<close>

theorem verified_archive:
  assumes "bk_Verify env cfg archive s = ((m, None), s')" "bc_MaxBytes cfg < 2 ^ 63"
  shows "\<exists>s1 data h hs. bk_prepare cfg s = (Ok (), s1) \<and> archiveAt (path_comps archive) s1 data \<and> be_untar env data = Some (h # hs, True) \<and>
    ae_Name h = manifestName \<and> be_decode env (take (nat (ae_Size h)) (ae_Data h)) = Some m \<and>
    int (length (bm_Entries m)) \<le> bc_MaxEntries cfg \<and> bm_TotalBytes m = sum_list (map en_Size (bm_Entries m)) \<and> bm_TotalBytes m \<le> bc_MaxBytes cfg \<and>
    distinct (map ae_Name hs) \<and> ae_Name ` set hs = (\<lambda>e. ''data/'' @ entryKey e) ` set (bm_Entries m) \<and>
    list_all (\<lambda>e. safeSourceID (en_SourceID e) \<and> safeRelative (en_Path e) \<and> list_ex (\<lambda>x. ae_Regular x \<and> ae_Name x = ''data/'' @ entryKey e \<and>
      int (length (take (nat (en_Size e)) (ae_Data x))) = en_Size e \<and> be_sha256 env (take (nat (en_Size e)) (ae_Data x)) = en_SHA256 e) hs) (bm_Entries m)"
proof -
  from assms(1) obtain s1 ex s2 where p: "bk_prepare cfg s = (Ok (), s1)" and r: "extractVerified env cfg (path_comps archive) None s1 = (Ok (m, ex), s2)"
    by (auto simp: bk_Verify_def concludeOp_def bindS_def split: prod.splits sum.splits)
  from r obtain data h hs expected s3 s4 where a: "archiveAt (path_comps archive) s1 data" "be_untar env data = Some (h # hs, True)"
      "ae_Name h = manifestName" "be_decode env (take (nat (ae_Size h)) (ae_Data h)) = Some m"
    and ck: "checkManifest cfg m = Ok expected" and v: "bk_validate cfg = Ok ()" and x: "extractAll env None True expected [] hs s3 = (Ok ex, s4)"
    by (rule extractVerified_Ok)
  from checkManifest_Ok [OF ck] have ce: "checkEntries (bc_MaxBytes cfg) [] 0 (bm_Entries m) = Ok (expected, bm_TotalBytes m)"
    and n: "int (length (bm_Entries m)) \<le> bc_MaxEntries cfg" by auto
  note es = checkEntries_Ok [OF ce]
  have keys: "fst ` set expected = entryKey ` set (bm_Entries m)" "distinct (map fst expected)"
    using checkEntries_list [OF ce] es by (auto simp: rev_map [symmetric] comp_def image_iff)
  note exact = extractAll_exact [OF x keys(2)]
  have "list_ex (\<lambda>x. ae_Regular x \<and> ae_Name x = ''data/'' @ entryKey e \<and>
      int (length (take (nat (en_Size e)) (ae_Data x))) = en_Size e \<and> be_sha256 env (take (nat (en_Size e)) (ae_Data x)) = en_SHA256 e) hs"
    if e: "e \<in> set (bm_Entries m)" for e
  proof -
    have "''data/'' @ entryKey e \<in> ae_Name ` set hs" using exact keys(1) e by simp
    then obtain y where y: "y \<in> set hs" "ae_Name y = ''data/'' @ entryKey e" by (metis imageE)
    have "TrimPrefix (ae_Name y) ''data/'' = entryKey e" "map_of expected (entryKey e) = Some e" using y(2) es e by (simp_all add: TrimPrefix_def HasPrefix_iff)
    then show ?thesis using exact y unfolding list_ex_iff by (intro bexI [of _ y]) auto
  qed
  moreover have "ae_Name ` set hs = (\<lambda>e. ''data/'' @ entryKey e) ` set (bm_Entries m)" using exact keys(1) by (simp add: image_image)
  moreover have "bm_TotalBytes m = sum_list (map en_Size (bm_Entries m))" "bm_TotalBytes m \<le> bc_MaxBytes cfg"
    using checkEntries_sum [OF ce _ _ assms(2)] bk_validate_Ok(5) [OF v] by auto
  ultimately show ?thesis using p a n exact es unfolding list_all_iff by (intro exI conjI ballI) auto
qed


section \<open>The outcome of a restore\<close>

text \<open>C31. Let the targets of the entries be distinct files outside the directory of the engine, reached without symbolic links, and none
  a temporary name of another. After Restore has reported success every file of the manifest holds bytes with the size and the checksum of its
  entry. After an error each file is the one that was there before, except after an error that
  stops the replacement of the files or after a failed rollback, when it may be the file of the backup. No third content is ever
  left behind, whatever call fails.
\<close>

theorem restore_outcome:
  assumes "os_wf s" "bk_Restore env cfg archive s = ((m, err), s')" "restorable env cfg m s" "e \<in> set (bm_Entries m)"
  shows "case err of
      None \<Rightarrow> restoredTo env e (content_at s' (entryTarget (bc_Sources cfg) e))
    | Some x \<Rightarrow> content_at s' (entryTarget (bc_Sources cfg) e) = content_at s (entryTarget (bc_Sources cfg) e) \<or>
        halfway x \<and> restoredTo env e (content_at s' (entryTarget (bc_Sources cfg) e))"
  using bk_Restore_outcome [OF assms(1-3)] assms(4) unfolding restoreOutcome_def Let_def by (cases err) auto

lemma restoreEntries_append:
  "restoreEntries env sources stage extracted changed (es @ fs) s =
   bindS (restoreEntries env sources stage extracted changed es) (\<lambda>changed'. restoreEntries env sources stage extracted changed' fs) s"
proof (induction es arbitrary: changed s)
  case (Cons e es)
  show ?case
  proof (cases "find (\<lambda>x. sr_ID x = en_SourceID e) sources")
    case (Some source)
    then show ?thesis using Cons
      by (auto simp: Let_def bindS_def split: prod.splits sum.splits)
  qed (simp add: bindS_def)
qed (simp add: bindS_def)

text \<open>C33. A target that is a directory stops Restore after the files before it have been replaced: the error returns at
  once, without the rollback that a failed copy gets, and those files stay the ones of the backup.
\<close>

theorem restore_stops_half_way:
  assumes "restoreEntries env sources stage extracted [] es s = (Ok changed, s1)"
    "find (\<lambda>x. sr_ID x = en_SourceID e) sources = Some source" "lstatNode (targetOf source e) s1 = (Ok (DirN mt), s2)"
  shows "restoreEntries env sources stage extracted [] (es @ e # fs) s = (Err (TargetNotRegular (targetOf source e)), s2) \<and> nodes s2 = nodes s1"
proof -
  have "keeps same_fs (lstatNode p)" for p
    unfolding lstatNode_def inDir_def by (rule keepsI) (auto simp: same_fs_reads(5) [unfolded keeps_def] split: sum.split prod.split)
  from same_fs_nodes [OF keepsD [OF this assms(3)]] show ?thesis
    using assms by (simp add: restoreEntries_append bindS_def prepareTarget_def Let_def)
qed

definition bkMeta :: meta where "bkMeta = \<lparr>perm = 0x1A4, uid = 0, gid = 0\<rparr>"

definition bkHash :: "string \<Rightarrow> string" where "bkHash c = replicate (64 - length c) CHR ''0'' @ c"

definition bkEntry :: "string \<Rightarrow> Entry" where
  "bkEntry i = \<lparr>en_SourceID = i, en_Path = i, en_SHA256 = bkHash (''new '' @ i), en_Size = 5, en_Mode = 0x1A4\<rparr>"

definition bkManifest :: BackupManifest where
  "bkManifest = \<lparr>bm_Schema = Schema, bm_ID = ''1'', bm_CreatedAt = Some 1, bm_Reason = ''manual'', bm_OpenDeploy = ''1'',
     bm_Entries = [bkEntry ''a'', bkEntry ''b''], bm_TotalBytes = 10\<rparr>"

definition bkArc :: "string \<Rightarrow> string \<Rightarrow> arc_entry" where
  "bkArc name data = \<lparr>ae_Name = name, ae_Regular = True, ae_Size = int (length data), ae_Mode = 0x180, ae_Data = data\<rparr>"

definition bkEnv :: bk_env where
  "bkEnv = \<lparr>be_Now = 1, be_stamp = ''1'', be_Finished = 2, be_Version = ''1'', be_rnd = ''r'', be_sha256 = bkHash, be_encode = (\<lambda>_. ''m''),
     be_decode = (\<lambda>t. if t = ''m'' then Some bkManifest else None), be_tar = (\<lambda>_. ''x''),
     be_untar = (\<lambda>t. if t = ''x'' then Some ([bkArc manifestName ''m'', bkArc ''data/a/a'' ''new a'', bkArc ''data/b/b'' ''new b''], True) else None),
     be_vacuum = Some, be_encodeOp = (\<lambda>_. ''op''), be_decodeOp = (\<lambda>_. None), be_runtime = None\<rparr>"

definition bkConfig :: BackupConfig where
  "bkConfig = \<lparr>bc_BackupDir = ''/bk'', bc_StateDir = ''/st'', bc_Sources = [fileSource ''a'' ''/etc/a'', fileSource ''b'' ''/etc/b''],
     bc_MaxEntries = 9, bc_MaxBytes = 100\<rparr>"

definition bkOS :: "node option \<Rightarrow> os" where
  "bkOS b = \<lparr>tree = [([], DirN bkMeta), ([''etc''], DirN bkMeta), ([''etc'', ''a''], FileN ''old'' bkMeta), ([''bk''], DirN bkMeta),
       ([''bk'', ''f''], FileN ''x'' bkMeta)] @ (case b of None \<Rightarrow> [] | Some n \<Rightarrow> [([''etc'', ''b''], n)]),
     umask = 0x12, faults = [], partial = 0\<rparr>"

lemma bkOS_wf: "os_wf (bkOS None)"
  by (rule os_wf_check) (simp_all add: bkOS_def bkMeta_def is_dir_def nodes_def is_dir_node_def)

lemma link_free_check: "list_all (\<lambda>q. \<not> is_link s q) (prefixes p) \<Longrightarrow> link_free s p"
  by (simp add: link_free_def list_all_iff)

lemma bk_sample_run: "bk_Verify bkEnv bkConfig ''/bk/f'' (bkOS None) = ((bkManifest, None), snd (bk_Verify bkEnv bkConfig ''/bk/f'' (bkOS None)))"
  "fst (bk_Restore bkEnv bkConfig ''/bk/f'' (bkOS None)) = (bkManifest, None)"
  by code_simp+

lemma bk_sample_restorable: "restorable bkEnv bkConfig bkManifest (bkOS None)"
proof -
  have "entryTarget (bc_Sources bkConfig) (bkEntry ''a'') = [''etc'', ''a'']" "entryTarget (bc_Sources bkConfig) (bkEntry ''b'') = [''etc'', ''b'']"
    "bk_stateDir bkConfig = [''st'']" by code_simp+
  moreover have "list_all (\<lambda>p. list_all (\<lambda>q. \<not> is_link (bkOS None) q) (prefixes p)) [[''st''], [''etc'', ''a''], [''etc'', ''b'']]"
    "tempOf bkEnv [''etc'', ''a''] = [''etc'', ''.a.restore-r'']" "tempOf bkEnv [''etc'', ''b''] = [''etc'', ''.b.restore-r'']" by code_simp+
  ultimately show ?thesis using link_free_check
    by (simp add: restorable_def bkManifest_def bkEnv_def bkConfig_def fileSource_def del: append.simps)
qed

theorem restore_outcome_witness:
  "\<exists>s'. bk_Restore bkEnv bkConfig ''/bk/f'' (bkOS None) = ((bkManifest, None), s') \<and> content_at s' [''etc'', ''a''] = Some ''new a'' \<and>
    restoredTo bkEnv (bkEntry ''a'') (content_at s' [''etc'', ''a''])"
proof -
  let ?s' = "snd (bk_Restore bkEnv bkConfig ''/bk/f'' (bkOS None))"
  have run: "bk_Restore bkEnv bkConfig ''/bk/f'' (bkOS None) = ((bkManifest, None), ?s')" using bk_sample_run(2) by (metis prod.collapse)
  have "bkEntry ''a'' \<in> set (bm_Entries bkManifest)" by (simp add: bkManifest_def)
  note r = restore_outcome [OF bkOS_wf run bk_sample_restorable this]
  moreover have "entryTarget (bc_Sources bkConfig) (bkEntry ''a'') = [''etc'', ''a'']" "content_at ?s' [''etc'', ''a''] = Some ''new a''" by code_simp+
  ultimately show ?thesis using run by auto
qed

theorem verified_archive_witness:
  "\<exists>s1 data h hs. bk_prepare bkConfig (bkOS None) = (Ok (), s1) \<and> be_untar bkEnv data = Some (h # hs, True) \<and>
    be_decode bkEnv (take (nat (ae_Size h)) (ae_Data h)) = Some bkManifest \<and> bm_TotalBytes bkManifest \<le> bc_MaxBytes bkConfig"
proof -
  have "bc_MaxBytes bkConfig < 2 ^ 63" by (simp add: bkConfig_def)
  from verified_archive [OF bk_sample_run(1) this] show ?thesis by blast
qed

theorem restore_stops_half_way_witness:
  "\<exists>s2. restoreEntries bkEnv (bc_Sources bkConfig) [''st''] [(''a/a'', [''bk'', ''f''])] [] [bkEntry ''a'', bkEntry ''b''] (bkOS (Some (DirN bkMeta))) =
     (Err (TargetNotRegular [''etc'', ''b'']), s2) \<and> content_at (bkOS (Some (DirN bkMeta))) [''etc'', ''a''] = Some ''old'' \<and>
     content_at s2 [''etc'', ''a''] = Some ''x''"
proof -
  let ?run = "restoreEntries bkEnv (bc_Sources bkConfig) [''st''] [(''a/a'', [''bk'', ''f''])] [] [bkEntry ''a''] (bkOS (Some (DirN bkMeta)))"
  let ?src = "fileSource ''b'' ''/etc/b''"
  have "is_ok (fst ?run)" by code_simp
  then obtain changed where run: "?run = (Ok changed, snd ?run)" by (cases "fst ?run") (simp_all add: prod_eq_iff del: restoreEntries.simps)
  have src: "find (\<lambda>x. sr_ID x = en_SourceID (bkEntry ''b'')) (bc_Sources bkConfig) = Some ?src" and tgt: "targetOf ?src (bkEntry ''b'') = [''etc'', ''b'']"
    and l: "fst (lstatNode (targetOf ?src (bkEntry ''b'')) (snd ?run)) = Ok (DirN bkMeta)" by code_simp+
  obtain s2 where s2: "lstatNode (targetOf ?src (bkEntry ''b'')) (snd ?run) = (Ok (DirN bkMeta), s2)" using l by (metis prod.collapse)
  note restore_stops_half_way [OF run src s2, of "[]", unfolded tgt append.simps]
  moreover have "content_at (snd ?run) [''etc'', ''a''] = Some ''x''" "content_at (bkOS (Some (DirN bkMeta))) [''etc'', ''a''] = Some ''old''" by code_simp+
  ultimately show ?thesis by (intro exI [of _ s2]) (simp add: content_at_def del: restoreEntries.simps)
qed

end
