(* ===== verification/Core_Modules.thy ===== *)
theory Core_Modules
  imports Go_Prelude "HOL-Library.List_Lexorder" "HOL-Library.Char_ord"
begin

text \<open>
  The module service of the Core (\<open>internal/core/module\<close>): the registry, the tables of modules and jobs, the lifecycle
  operations, and the background workers that install and remove software. A module is a record of
  functions on a world, the part of the server that modules change. Every row belongs to a server, the one that
  the request selects. Any SQL statement may fail; times are seconds, as the stored
  texts are. A request runs without interruption up to the start of its worker and, for a
  cancellation, up to the call of the cancel function; the rest of it is a tail that runs later, between the steps of the workers.
  A module's functions return; how long they take shows in the contexts, which may be over at any step.
\<close>

section \<open>Rows\<close>

datatype mod_state = StateAvailable | StateInstalling | StateInstalled | StateEnabled | StateDisabled | StateRemoving | StateError

record ModuleRecord =
  mr_ID :: string
  mr_Server :: string
  mr_Name :: string
  mr_State :: mod_state
  mr_Version :: "string option"
  mr_Config :: string
  mr_InstalledAt :: "int option"
  mr_UpdatedAt :: int

datatype job_state = JobPending | JobRunning | JobSuccess | JobError | JobCanceled

type_synonym JobType = string

definition JobInstall :: JobType where "JobInstall = ''install_module''"
definition JobUninstall :: JobType where "JobUninstall = ''uninstall_module''"

record ModuleJob =
  jb_ID :: string
  jb_Server :: string
  jb_Name :: string
  jb_Type :: JobType
  jb_Payload :: string
  jb_State :: job_state
  jb_Progress :: int
  jb_Output :: string
  jb_Error :: "string option"
  jb_CreatedAt :: int
  jb_StartedAt :: "int option"
  jb_FinishedAt :: "int option"

record JobFilter =
  jf_Query :: string
  jf_State :: "job_state option"
  jf_Type :: JobType
  jf_Limit :: int
  jf_Offset :: int

record JobPage =
  jp_Items :: "ModuleJob list"
  jp_Total :: nat
  jp_Limit :: int
  jp_Offset :: int

section \<open>Modules and the state of the service\<close>

datatype work_error = WorkCanceled | WorkFailed string

datatype mod_error =
    ModuleNotFound string
  | ModuleInstalled
  | ModuleBusy
  | ModuleNotInstalled
  | JobNotFound
  | RecordNotFound
  | Conflict string
  | InvalidTask string
  | InternalError string
  | PlainError string
  | DatabaseError

text \<open>What a worker's context says: alive, cancelled by a user, or past its deadline.\<close>

datatype ctx_state = CtxLive | CtxCanceled | CtxExpired

record RuntimeStatus =
  rs_PackageInstalled :: bool
  rs_ServiceRunning :: bool
  rs_SoftwareVersion :: string
  rs_Health :: string

type_synonym 'w op = "'w \<Rightarrow> (work_error, unit) result \<times> 'w"

text \<open>The optional interfaces of a module; settings, payloads and answers are JSON texts.\<close>

record 'w DataGridProvider =
  dg_Schema :: "string \<Rightarrow> 'w \<Rightarrow> (work_error, string) result \<times> 'w"
  dg_Data :: "string \<Rightarrow> 'w \<Rightarrow> (work_error, string) result \<times> 'w"
  dg_Action :: "string \<Rightarrow> string \<Rightarrow> string \<Rightarrow> 'w op"

record 'w PresetProvider =
  pp_List :: "'w \<Rightarrow> (work_error, string) result \<times> 'w"
  pp_Preview :: "string \<Rightarrow> string \<Rightarrow> 'w \<Rightarrow> (work_error, string) result \<times> 'w"
  pp_Save :: "string \<Rightarrow> string \<Rightarrow> 'w op"
  pp_Reset :: "string \<Rightarrow> 'w op"
  pp_SetEnabled :: "string \<Rightarrow> bool \<Rightarrow> 'w op"

record 'w LogProvider =
  lp_Read :: "string \<Rightarrow> int \<Rightarrow> 'w \<Rightarrow> (work_error, string) result \<times> 'w"
  lp_Clear :: "string \<Rightarrow> 'w op"

record 'w contract_module =
  cm_ID :: string
  cm_Name :: string
  cm_SupportsService :: bool
  cm_Bootstrap :: "'w op"
  cm_Install :: "ctx_state \<Rightarrow> 'w op"
  cm_Uninstall :: "ctx_state \<Rightarrow> 'w op"
  cm_Enable :: "'w op"
  cm_Disable :: "'w op"
  cm_Restart :: "'w op"
  cm_Status :: "'w \<Rightarrow> (work_error, RuntimeStatus option) result \<times> 'w"
  cm_HealthCheck :: "'w \<Rightarrow> (work_error, string option) result \<times> 'w"
  cm_ExecuteAction :: "string \<Rightarrow> 'w op"
  cm_DataGrid :: "'w DataGridProvider option"
  cm_SaveSettings :: "(string \<Rightarrow> 'w op) option"
  cm_Presets :: "'w PresetProvider option"
  cm_LogProvider :: "'w LogProvider option"

text \<open>What remains to be done after a worker has succeeded: for the jobs of Install and Uninstall, for the retried ones,
  which publish no event and do not ask for the version, and for the tasks of the modules.\<close>

datatype completion = InstalledBy string string | UninstalledBy string | RetriedInstall string string | RetriedUninstall string | TaskDone

text \<open>Where a worker stands: before it marks the job as running, before the work, before the check of its output and error,
  and, after a success, before the module is asked for its version, before the module is recorded, before the job is marked, and
  before the deferred function.\<close>

datatype worker_pc = AtStart | AtWork | AtCheck string "work_error option" | AtSuccess | AtRecord "string option" | AtDone | AtExit

text \<open>The last statements of a worker have a context of their own, which lives for five seconds; \<open>wk_Late\<close> says that it is over.\<close>

record 'w worker =
  wk_Job :: string
  wk_Server :: string
  wk_Work :: "ctx_state \<Rightarrow> 'w \<Rightarrow> (string \<times> work_error option) \<times> 'w"
  wk_Then :: completion
  wk_Ctx :: ctx_state
  wk_Late :: bool
  wk_PC :: worker_pc

datatype tail =
    MarkState string string mod_state string string
  | MarkCanceled string string string

record 'w core =
  co_modules :: "ModuleRecord list"
  co_jobs :: "ModuleJob list"
  co_audit :: "(string \<times> string \<times> string \<times> bool) list"
  co_events :: "(string \<times> string) list"
  co_faults :: "bool list"
  co_workers :: "'w worker list"
  co_tails :: "tail list"
  co_world :: 'w

type_synonym ('w, 'a) md = "('w core, mod_error, 'a) action"

text \<open>One SQL statement.\<close>

definition stmt :: "('w, 'a) md \<Rightarrow> ('w, 'a) md" where
  "stmt act s =
     (case co_faults s of [] \<Rightarrow> act s
      | f # fs \<Rightarrow> if f then (Err DatabaseError, s\<lparr>co_faults := fs\<rparr>) else act (s\<lparr>co_faults := fs\<rparr>))"

text \<open>A call into a module.\<close>

definition callM :: "('w \<Rightarrow> (work_error, 'a) result \<times> 'w) \<Rightarrow> ('w core, work_error, 'a) action" where
  "callM f s = (case f (co_world s) of (r, w) \<Rightarrow> (r, s\<lparr>co_world := w\<rparr>))"

text \<open>A statement whose error is thrown away.\<close>

definition quietly :: "('w, 'a) md \<Rightarrow> 'w core \<Rightarrow> 'w core" where
  "quietly act s = snd (act s)"

section \<open>The table of modules\<close>

definition sameModule :: "string \<Rightarrow> string \<Rightarrow> ModuleRecord \<Rightarrow> bool" where
  "sameModule srv mid r = (mr_ID r = mid \<and> mr_Server r = srv)"

definition mod_FindByID :: "string \<Rightarrow> string \<Rightarrow> ('w, ModuleRecord) md" where
  "mod_FindByID srv mid = stmt (\<lambda>s. case find (sameModule srv mid) (co_modules s) of None \<Rightarrow> (Err RecordNotFound, s) | Some r \<Rightarrow> (Ok r, s))"

definition mod_ListAll :: "string \<Rightarrow> ('w, ModuleRecord list) md" where
  "mod_ListAll srv = stmt (\<lambda>s. (Ok (sort_key mr_Name (filter (\<lambda>r. mr_Server r = srv) (co_modules s))), s))"

definition mod_Upsert :: "string \<Rightarrow> ModuleRecord \<Rightarrow> ('w, unit) md" where
  "mod_Upsert srv rec = stmt (\<lambda>s.
     (Ok (), s\<lparr>co_modules :=
        (if list_ex (sameModule srv (mr_ID rec)) (co_modules s)
         then map (\<lambda>r. if sameModule srv (mr_ID rec) r then rec\<lparr>mr_Server := srv\<rparr> else r) (co_modules s)
         else co_modules s @ [rec\<lparr>mr_Server := srv\<rparr>])\<rparr>))"

definition mod_UpdateState :: "int \<Rightarrow> string \<Rightarrow> string \<Rightarrow> mod_state \<Rightarrow> ('w, unit) md" where
  "mod_UpdateState now srv mid st = stmt (\<lambda>s.
     (Ok (), s\<lparr>co_modules := map (\<lambda>r. if sameModule srv mid r then r\<lparr>mr_State := st, mr_UpdatedAt := now\<rparr> else r) (co_modules s)\<rparr>))"

section \<open>The table of jobs\<close>

definition sameJob :: "string \<Rightarrow> string \<Rightarrow> ModuleJob \<Rightarrow> bool" where
  "sameJob srv jid j = (jb_ID j = jid \<and> jb_Server j = srv)"

definition job_Create :: "string \<Rightarrow> ModuleJob \<Rightarrow> ('w, unit) md" where
  "job_Create srv job = stmt (\<lambda>s.
     if list_ex (\<lambda>j. jb_ID j = jb_ID job) (co_jobs s) then (Err DatabaseError, s)
     else (Ok (), s\<lparr>co_jobs := co_jobs s @
       [job\<lparr>jb_Server := srv, jb_Output := [], jb_Error := None, jb_StartedAt := None, jb_FinishedAt := None\<rparr>]\<rparr>))"

definition job_FindByID :: "string \<Rightarrow> string \<Rightarrow> ('w, ModuleJob) md" where
  "job_FindByID srv jid = stmt (\<lambda>s. case find (sameJob srv jid) (co_jobs s) of None \<Rightarrow> (Err JobNotFound, s) | Some j \<Rightarrow> (Ok j, s))"

definition setJob :: "int \<Rightarrow> job_state \<Rightarrow> string \<Rightarrow> string \<Rightarrow> ModuleJob \<Rightarrow> ModuleJob" where
  "setJob now st output err j =
     (case st of
        JobRunning \<Rightarrow> j\<lparr>jb_State := st, jb_Progress := 10, jb_StartedAt := Some now\<rparr>
      | JobSuccess \<Rightarrow> j\<lparr>jb_State := st, jb_Progress := 100, jb_Output := output, jb_Error := Some err, jb_FinishedAt := Some now\<rparr>
      | JobPending \<Rightarrow> j\<lparr>jb_State := st\<rparr>
      | _ \<Rightarrow> j\<lparr>jb_State := st, jb_Output := output, jb_Error := Some err, jb_FinishedAt := Some now\<rparr>)"

definition job_UpdateState :: "int \<Rightarrow> string \<Rightarrow> string \<Rightarrow> job_state \<Rightarrow> string \<Rightarrow> string \<Rightarrow> ('w, unit) md" where
  "job_UpdateState now srv jid st output err = stmt (\<lambda>s.
     (Ok (), s\<lparr>co_jobs := map (\<lambda>j. if sameJob srv jid j then setJob now st output err j else j) (co_jobs s)\<rparr>))"

definition job_AppendOutput :: "string \<Rightarrow> string \<Rightarrow> string \<Rightarrow> ('w, unit) md" where
  "job_AppendOutput srv jid line = stmt (\<lambda>s.
     (Ok (), s\<lparr>co_jobs := map (\<lambda>j. if sameJob srv jid j then j\<lparr>jb_Output := jb_Output j @ line @ [NL]\<rparr> else j) (co_jobs s)\<rparr>))"

text \<open>\<open>ORDER BY created_at DESC\<close>; equal times keep the order of the table.\<close>

definition newestFirst :: "ModuleJob list \<Rightarrow> ModuleJob list" where
  "newestFirst = sort_key (\<lambda>j. - jb_CreatedAt j)"

definition job_ListByState :: "string \<Rightarrow> job_state \<Rightarrow> ('w, ModuleJob list) md" where
  "job_ListByState srv st = stmt (\<lambda>s. (Ok (take 100 (newestFirst (filter (\<lambda>j. jb_State j = st \<and> jb_Server j = srv) (co_jobs s)))), s))"

text \<open>The operator LIKE, which ignores the case of letters.\<close>

fun like :: "string \<Rightarrow> string \<Rightarrow> bool" where
  "like [] t = (t = [])"
| "like (p # ps) [] = (p = CHR ''%'' \<and> like ps [])"
| "like (p # ps) (c # cs) =
     (if p = CHR ''%'' then like ps (c # cs) \<or> like (p # ps) cs
      else if p = CHR ''_'' then like ps cs else lower_byte p = lower_byte c \<and> like ps cs)"

definition jobMatches :: "JobFilter \<Rightarrow> string \<Rightarrow> ModuleJob \<Rightarrow> bool" where
  "jobMatches f srv j =
     (jb_Server j = srv \<and>
      (jf_Query f = [] \<or> (let q = ''%'' @ ToLower (jf_Query f) @ ''%'' in like q (map lower_byte (jb_Name j)) \<or> like q (map lower_byte (jb_ID j)))) \<and>
      (case jf_State f of None \<Rightarrow> True | Some st \<Rightarrow> jb_State j = st) \<and> (jf_Type f = [] \<or> jb_Type j = jf_Type f))"

definition job_List :: "string \<Rightarrow> JobFilter \<Rightarrow> ('w, JobPage) md" where
  "job_List srv f =
     bindS (stmt (\<lambda>s. (Ok (length (filter (jobMatches f srv) (co_jobs s))), s))) (\<lambda>total.
     stmt (\<lambda>s. (Ok \<lparr>jp_Items = take (nat (jf_Limit f)) (drop (nat (jf_Offset f)) (newestFirst (filter (jobMatches f srv) (co_jobs s)))),
       jp_Total = total, jp_Limit = jf_Limit f, jp_Offset = jf_Offset f\<rparr>, s)))"

definition finished :: "ModuleJob \<Rightarrow> bool" where
  "finished j = (jb_State j = JobSuccess \<or> jb_State j = JobError \<or> jb_State j = JobCanceled)"

definition job_Delete :: "string \<Rightarrow> string \<Rightarrow> ('w, unit) md" where
  "job_Delete srv jid = stmt (\<lambda>s.
     if list_ex (\<lambda>j. sameJob srv jid j \<and> finished j) (co_jobs s)
     then (Ok (), s\<lparr>co_jobs := filter (\<lambda>j. \<not> (sameJob srv jid j \<and> finished j)) (co_jobs s)\<rparr>)
     else (Err (Conflict ''only completed task history can be deleted''), s))"

section \<open>The service\<close>

text \<open>\<open>me_payload\<close> and \<open>me_moduleOf\<close> are the JSON of a payload and the module in it (None when it cannot be parsed).\<close>

record 'w mod_env =
  me_registry :: "'w contract_module list"
  me_backup :: "(string \<Rightarrow> 'w op) option"
  me_payload :: "string \<Rightarrow> string"
  me_moduleOf :: "string \<Rightarrow> string option"

record mod_call =
  mc_now :: int
  mc_stamp :: string
  mc_uuid :: string
  mc_server :: string
  mc_user :: string
  mc_ip :: string

definition reg_Register :: "'w contract_module \<Rightarrow> 'w contract_module list \<Rightarrow> 'w contract_module list option" where
  "reg_Register m reg = (if list_ex (\<lambda>x. cm_ID x = cm_ID m) reg then None else Some (reg @ [m]))"

definition reg_Find :: "'w mod_env \<Rightarrow> string \<Rightarrow> 'w contract_module option" where
  "reg_Find env mid = find (\<lambda>m. cm_ID m = mid) (me_registry env)"

definition findModule :: "'w mod_env \<Rightarrow> string \<Rightarrow> ('w, 'w contract_module) md" where
  "findModule env mid = (case reg_Find env mid of None \<Rightarrow> failS (ModuleNotFound mid) | Some m \<Rightarrow> retS m)"

definition publishEvent :: "string \<Rightarrow> string \<Rightarrow> 'w core \<Rightarrow> 'w core" where
  "publishEvent kind value s = s\<lparr>co_events := co_events s @ [(kind, value)]\<rparr>"

definition mod_recordAudit :: "string \<Rightarrow> string \<Rightarrow> string \<Rightarrow> bool \<Rightarrow> 'w core \<Rightarrow> 'w core" where
  "mod_recordAudit user action resource success =
     quietly (stmt (\<lambda>s. (Ok (), s\<lparr>co_audit := co_audit s @ [(user, action, resource, success)]\<rparr>)))"

text \<open>A step of the state without a result.\<close>

definition effect :: "('w core \<Rightarrow> 'w core) \<Rightarrow> ('w, unit) md" where
  "effect f s = (Ok (), f s)"

definition mod_backupCritical :: "'w mod_env \<Rightarrow> mod_call \<Rightarrow> string \<Rightarrow> string \<Rightarrow> ('w, unit) md" where
  "mod_backupCritical env call operation mid =
     (case me_backup env of None \<Rightarrow> retS ()
      | Some backup \<Rightarrow>
          wrapS (\<lambda>_. InternalError ''mandatory pre-change backup'')
            (callM (backup (''critical-module-'' @ operation @ ''-'' @ mid @ ''-'' @ mc_stamp call))))"

definition noOutput :: "(ctx_state \<Rightarrow> 'w op) \<Rightarrow> ctx_state \<Rightarrow> 'w \<Rightarrow> (string \<times> work_error option) \<times> 'w" where
  "noOutput f c w = (case f c w of (r, w') \<Rightarrow> (([], case r of Inl e \<Rightarrow> Some e | Inr _ \<Rightarrow> None), w'))"

definition startJob ::
  "'w mod_env \<Rightarrow> mod_call \<Rightarrow> JobType \<Rightarrow> string \<Rightarrow> (ctx_state \<Rightarrow> 'w op) \<Rightarrow> completion \<Rightarrow> ('w, string) md" where
  "startJob env call kind mid work done =
     bindS (wrapS (\<lambda>_. InternalError ''create job'')
       (job_Create (mc_server call) \<lparr>jb_ID = mc_uuid call, jb_Server = mc_server call, jb_Name = kind @ '' '' @ mid, jb_Type = kind,
          jb_Payload = me_payload env mid, jb_State = JobPending, jb_Progress = 0, jb_Output = [], jb_Error = None,
          jb_CreatedAt = mc_now call, jb_StartedAt = None, jb_FinishedAt = None\<rparr>)) (\<lambda>_.
     bindS (effect (\<lambda>s. s\<lparr>co_workers := co_workers s @
       [\<lparr>wk_Job = mc_uuid call, wk_Server = mc_server call, wk_Work = noOutput work, wk_Then = done, wk_Ctx = CtxLive, wk_Late = False, wk_PC = AtStart\<rparr>]\<rparr>)) (\<lambda>_.
     retS (mc_uuid call)))"

definition StartTask ::
  "mod_call \<Rightarrow> string \<Rightarrow> JobType \<Rightarrow> string \<Rightarrow> (ctx_state \<Rightarrow> 'w \<Rightarrow> (string \<times> work_error option) \<times> 'w) \<Rightarrow> ('w, string) md" where
  "StartTask call name kind payload work =
     bindS (job_Create (mc_server call) \<lparr>jb_ID = mc_uuid call, jb_Server = mc_server call, jb_Name = name, jb_Type = kind,
          jb_Payload = payload, jb_State = JobPending, jb_Progress = 0, jb_Output = [], jb_Error = None,
          jb_CreatedAt = mc_now call, jb_StartedAt = None, jb_FinishedAt = None\<rparr>) (\<lambda>_.
     bindS (effect (\<lambda>s. s\<lparr>co_workers := co_workers s @
       [\<lparr>wk_Job = mc_uuid call, wk_Server = mc_server call, wk_Work = work, wk_Then = TaskDone, wk_Ctx = CtxLive, wk_Late = False, wk_PC = AtStart\<rparr>]\<rparr>)) (\<lambda>_.
     retS (mc_uuid call)))"

definition later :: "tail \<Rightarrow> ('w, unit) md" where
  "later t = effect (\<lambda>s. s\<lparr>co_tails := co_tails s @ [t]\<rparr>)"

text \<open>The state of a module, None when the row cannot be read.\<close>

definition recordedState :: "string \<Rightarrow> string \<Rightarrow> ('w, mod_state option) md" where
  "recordedState srv mid s =
     (case mod_FindByID srv mid s of (r, s') \<Rightarrow> (Ok (case r of Inr rec \<Rightarrow> Some (mr_State rec) | Inl _ \<Rightarrow> None), s'))"

definition mod_Install :: "'w mod_env \<Rightarrow> mod_call \<Rightarrow> string \<Rightarrow> ('w, string) md" where
  "mod_Install env call mid =
     bindS (findModule env mid) (\<lambda>m.
     bindS (recordedState (mc_server call) mid) (\<lambda>st.
     bindS (guardS (st = Some StateInstalled \<or> st = Some StateEnabled) ModuleInstalled) (\<lambda>_.
     bindS (guardS (st = Some StateInstalling \<or> st = Some StateRemoving) ModuleBusy) (\<lambda>_.
     bindS (mod_backupCritical env call ''install'' mid) (\<lambda>_.
     bindS (startJob env call JobInstall mid (cm_Install m) (InstalledBy mid (cm_Name m))) (\<lambda>jid.
     bindS (later (MarkState (mc_server call) mid StateInstalling (mc_user call) ''module.install'')) (\<lambda>_.
     retS jid)))))))"

definition mod_Uninstall :: "'w mod_env \<Rightarrow> mod_call \<Rightarrow> string \<Rightarrow> ('w, string) md" where
  "mod_Uninstall env call mid =
     bindS (findModule env mid) (\<lambda>m.
     bindS (recordedState (mc_server call) mid) (\<lambda>st.
     bindS (guardS (st = None \<or> st = Some StateAvailable) ModuleNotInstalled) (\<lambda>_.
     bindS (mod_backupCritical env call ''uninstall'' mid) (\<lambda>_.
     bindS (startJob env call JobUninstall mid (cm_Uninstall m) (UninstalledBy mid)) (\<lambda>jid.
     bindS (later (MarkState (mc_server call) mid StateRemoving (mc_user call) ''module.uninstall'')) (\<lambda>_.
     retS jid))))))"

definition mod_switch :: "'w mod_env \<Rightarrow> mod_call \<Rightarrow> string \<Rightarrow> string \<Rightarrow> 'w op \<Rightarrow> mod_state \<Rightarrow> ('w, unit) md" where
  "mod_switch env call verb mid work st =
     bindS (mod_backupCritical env call verb mid) (\<lambda>_.
     bindS (wrapS (\<lambda>_. InternalError (verb @ '' module'')) (callM work)) (\<lambda>_.
     bindS (wrapS (\<lambda>_. InternalError ''update module state'') (mod_UpdateState (mc_now call) (mc_server call) mid st)) (\<lambda>_.
     bindS (effect (publishEvent (''module.'' @ verb @ ''d'') mid)) (\<lambda>_.
     effect (mod_recordAudit (mc_user call) (''module.'' @ verb) mid True)))))"

definition mod_Enable :: "'w mod_env \<Rightarrow> mod_call \<Rightarrow> string \<Rightarrow> ('w, unit) md" where
  "mod_Enable env call mid =
     bindS (findModule env mid) (\<lambda>m.
     bindS (recordedState (mc_server call) mid) (\<lambda>st.
     bindS (guardS (st \<noteq> Some StateInstalled \<and> st \<noteq> Some StateDisabled) ModuleNotInstalled) (\<lambda>_.
     mod_switch env call ''enable'' mid (cm_Enable m) StateEnabled)))"

definition mod_Disable :: "'w mod_env \<Rightarrow> mod_call \<Rightarrow> string \<Rightarrow> ('w, unit) md" where
  "mod_Disable env call mid = bindS (findModule env mid) (\<lambda>m. mod_switch env call ''disable'' mid (cm_Disable m) StateDisabled)"

definition mod_Restart :: "'w mod_env \<Rightarrow> mod_call \<Rightarrow> string \<Rightarrow> ('w, unit) md" where
  "mod_Restart env call mid =
     bindS (findModule env mid) (\<lambda>m.
     bindS (wrapS (\<lambda>_. InternalError ''restart module'') (callM (cm_Restart m))) (\<lambda>_.
     effect (mod_recordAudit (mc_user call) ''module.restart'' mid True)))"

definition mod_ExecuteAction :: "'w mod_env \<Rightarrow> mod_call \<Rightarrow> string \<Rightarrow> string \<Rightarrow> ('w, unit) md" where
  "mod_ExecuteAction env call mid actionID =
     bindS (findModule env mid) (\<lambda>m.
     bindS (wrapS (\<lambda>_. InternalError (''execute action '' @ actionID @ '' on module '' @ mid)) (callM (cm_ExecuteAction m actionID))) (\<lambda>_.
     effect (mod_recordAudit (mc_user call) (''module.action.'' @ actionID) mid True)))"

text \<open>A missing status with a health report is a nil dereference.\<close>

definition setHealth :: "string \<Rightarrow> RuntimeStatus option \<Rightarrow> (mod_error, RuntimeStatus option) result" where
  "setHealth health status = (case status of None \<Rightarrow> Err (PlainError ''panic'') | Some x \<Rightarrow> Ok (Some (x\<lparr>rs_Health := health\<rparr>)))"

definition mod_Status :: "'w mod_env \<Rightarrow> string \<Rightarrow> ('w, RuntimeStatus option) md" where
  "mod_Status env mid =
     bindS (findModule env mid) (\<lambda>m.
     bindS (wrapS (\<lambda>_. InternalError ''failed to fetch status'') (callM (cm_Status m))) (\<lambda>status s.
     case callM (cm_HealthCheck m) s of
       (Inl _, s1) \<Rightarrow> (setHealth ''error'' status, s1)
     | (Inr None, s1) \<Rightarrow> (Ok status, s1)
     | (Inr (Some health), s1) \<Rightarrow> (setHealth health status, s1)))"

text \<open>The row of a module and what is shown of it; the texts and lists that the module itself describes are left out.\<close>

record ModuleView =
  mv_ID :: string
  mv_Name :: string
  mv_SoftwareVersion :: string
  mv_State :: mod_state
  mv_InstalledAt :: "int option"

definition moduleView :: "'w contract_module \<Rightarrow> ModuleRecord option \<Rightarrow> ModuleView" where
  "moduleView m rec =
     (case rec of
        None \<Rightarrow> \<lparr>mv_ID = cm_ID m, mv_Name = cm_Name m, mv_SoftwareVersion = [], mv_State = StateAvailable, mv_InstalledAt = None\<rparr>
      | Some r \<Rightarrow> \<lparr>mv_ID = cm_ID m, mv_Name = cm_Name m, mv_SoftwareVersion = (case mr_Version r of None \<Rightarrow> [] | Some v \<Rightarrow> v),
                 mv_State = mr_State r, mv_InstalledAt = mr_InstalledAt r\<rparr>)"

definition mod_List :: "'w mod_env \<Rightarrow> mod_call \<Rightarrow> ('w, ModuleView list) md" where
  "mod_List env call =
     bindS (mod_ListAll (mc_server call)) (\<lambda>records.
     retS (map (\<lambda>m. moduleView m (find (\<lambda>r. mr_ID r = cm_ID m) records)) (me_registry env)))"

definition mod_Get :: "'w mod_env \<Rightarrow> mod_call \<Rightarrow> string \<Rightarrow> ('w, ModuleView) md" where
  "mod_Get env call mid =
     bindS (findModule env mid) (\<lambda>m s.
     case mod_FindByID (mc_server call) mid s of
       (r, s1) \<Rightarrow> (Ok (moduleView m (case r of Inr rec \<Rightarrow> Some rec | Inl _ \<Rightarrow> None)), s1))"

section \<open>Optional interfaces\<close>

definition provider :: "'w mod_env \<Rightarrow> ('w contract_module \<Rightarrow> 'p option) \<Rightarrow> string \<Rightarrow> ('w, 'p) md" where
  "provider env sel mid =
     (case reg_Find env mid of
        None \<Rightarrow> failS (PlainError (''module '' @ mid @ '' not found''))
      | Some m \<Rightarrow> (case sel m of None \<Rightarrow> failS (PlainError (''module '' @ mid @ '' does not support this'')) | Some p \<Rightarrow> retS p))"

definition plainCall :: "('w \<Rightarrow> (work_error, 'a) result \<times> 'w) \<Rightarrow> ('w, 'a) md" where
  "plainCall f = wrapS (\<lambda>e. PlainError (case e of WorkCanceled \<Rightarrow> ''context canceled'' | WorkFailed t \<Rightarrow> t)) (callM f)"

definition GetDataGridSchema :: "'w mod_env \<Rightarrow> string \<Rightarrow> string \<Rightarrow> ('w, string) md" where
  "GetDataGridSchema env mid page = bindS (provider env cm_DataGrid mid) (\<lambda>p. plainCall (dg_Schema p page))"

definition GetDataGridData :: "'w mod_env \<Rightarrow> string \<Rightarrow> string \<Rightarrow> ('w, string) md" where
  "GetDataGridData env mid page = bindS (provider env cm_DataGrid mid) (\<lambda>p. plainCall (dg_Data p page))"

definition ExecuteDataGridAction :: "'w mod_env \<Rightarrow> string \<Rightarrow> string \<Rightarrow> string \<Rightarrow> string \<Rightarrow> ('w, unit) md" where
  "ExecuteDataGridAction env mid page action payload =
     bindS (provider env cm_DataGrid mid) (\<lambda>p. plainCall (dg_Action p page action payload))"

definition SaveModuleSettings :: "'w mod_env \<Rightarrow> string \<Rightarrow> string \<Rightarrow> ('w, unit) md" where
  "SaveModuleSettings env mid settings = bindS (provider env cm_SaveSettings mid) (\<lambda>save. plainCall (save settings))"

definition ProtectionPresets :: "'w mod_env \<Rightarrow> string \<Rightarrow> ('w, string) md" where
  "ProtectionPresets env mid = bindS (provider env cm_Presets mid) (\<lambda>p. plainCall (pp_List p))"

definition PreviewProtectionPreset :: "'w mod_env \<Rightarrow> string \<Rightarrow> string \<Rightarrow> string \<Rightarrow> ('w, string) md" where
  "PreviewProtectionPreset env mid preset settings = bindS (provider env cm_Presets mid) (\<lambda>p. plainCall (pp_Preview p preset settings))"

text \<open>A change of a preset is audited with its outcome.\<close>

definition auditedPreset :: "mod_call \<Rightarrow> string \<Rightarrow> string \<Rightarrow> string \<Rightarrow> 'w op \<Rightarrow> ('w, unit) md" where
  "auditedPreset call verb mid preset work s =
     (case plainCall work s of
        (Inl e, s1) \<Rightarrow> (Err e, mod_recordAudit (mc_user call) (''module.preset.'' @ verb @ ''.error'') (mid @ '':'' @ preset) False s1)
      | (Inr _, s1) \<Rightarrow> (Ok (), mod_recordAudit (mc_user call) (''module.preset.'' @ verb) (mid @ '':'' @ preset) True s1))"

definition SaveProtectionPreset :: "'w mod_env \<Rightarrow> mod_call \<Rightarrow> string \<Rightarrow> string \<Rightarrow> string \<Rightarrow> ('w, unit) md" where
  "SaveProtectionPreset env call mid preset settings =
     bindS (provider env cm_Presets mid) (\<lambda>p. auditedPreset call ''save'' mid preset (pp_Save p preset settings))"

definition ResetProtectionPreset :: "'w mod_env \<Rightarrow> mod_call \<Rightarrow> string \<Rightarrow> string \<Rightarrow> ('w, unit) md" where
  "ResetProtectionPreset env call mid preset =
     bindS (provider env cm_Presets mid) (\<lambda>p. auditedPreset call ''reset'' mid preset (pp_Reset p preset))"

definition SetProtectionPresetEnabled :: "'w mod_env \<Rightarrow> mod_call \<Rightarrow> string \<Rightarrow> string \<Rightarrow> bool \<Rightarrow> ('w, unit) md" where
  "SetProtectionPresetEnabled env call mid preset enabled =
     bindS (provider env cm_Presets mid) (\<lambda>p. auditedPreset call ''toggle'' mid preset (pp_SetEnabled p preset enabled))"

definition ReadModuleLog :: "'w mod_env \<Rightarrow> string \<Rightarrow> string \<Rightarrow> int \<Rightarrow> ('w, string) md" where
  "ReadModuleLog env mid logID lines = bindS (provider env cm_LogProvider mid) (\<lambda>p. plainCall (lp_Read p logID lines))"

definition ClearModuleLog :: "'w mod_env \<Rightarrow> string \<Rightarrow> string \<Rightarrow> ('w, unit) md" where
  "ClearModuleLog env mid logID = bindS (provider env cm_LogProvider mid) (\<lambda>p. plainCall (lp_Clear p logID))"

section \<open>Jobs\<close>

definition mod_ListJobs :: "mod_call \<Rightarrow> JobFilter \<Rightarrow> ('w, JobPage) md" where
  "mod_ListJobs call f =
     job_List (mc_server call) (f\<lparr>jf_Limit := (if jf_Limit f \<le> 0 \<or> jf_Limit f > 100 then 25 else jf_Limit f),
       jf_Offset := (if jf_Offset f < 0 then 0 else jf_Offset f)\<rparr>)"

definition cancelWorker :: "string \<Rightarrow> 'w worker \<Rightarrow> 'w worker" where
  "cancelWorker jid w = (if wk_Job w = jid \<and> wk_Ctx w = CtxLive then w\<lparr>wk_Ctx := CtxCanceled\<rparr> else w)"

definition CancelJob :: "mod_call \<Rightarrow> string \<Rightarrow> ('w, unit) md" where
  "CancelJob call jid =
     bindS (job_FindByID (mc_server call) jid) (\<lambda>job.
     bindS (guardS (jb_State job \<noteq> JobPending \<and> jb_State job \<noteq> JobRunning) (Conflict ''only pending or running tasks can be canceled'')) (\<lambda>_ s.
     if \<not> list_ex (\<lambda>w. wk_Job w = jid) (co_workers s) then (Err (Conflict ''task is no longer attached to this process''), s)
     else bindS (effect (\<lambda>s. s\<lparr>co_workers := map (cancelWorker jid) (co_workers s)\<rparr>)) (\<lambda>_.
          later (MarkCanceled (mc_server call) jid (jb_Output job))) s))"

definition DeleteJob :: "mod_call \<Rightarrow> string \<Rightarrow> ('w, unit) md" where
  "DeleteJob call jid = bindS (job_FindByID (mc_server call) jid) (\<lambda>_. job_Delete (mc_server call) jid)"

definition RetryJob :: "'w mod_env \<Rightarrow> mod_call \<Rightarrow> string \<Rightarrow> ('w, string) md" where
  "RetryJob env call jid =
     bindS (job_FindByID (mc_server call) jid) (\<lambda>job.
     bindS (guardS (jb_State job \<noteq> JobError \<and> jb_State job \<noteq> JobCanceled) (Conflict ''only failed or canceled tasks can be retried'')) (\<lambda>_.
     case me_moduleOf env (jb_Payload job) of
       None \<Rightarrow> failS (InvalidTask ''task payload cannot be retried'')
     | Some mid \<Rightarrow>
         if mid = [] then failS (InvalidTask ''task payload cannot be retried'')
         else bindS (findModule env mid) (\<lambda>m.
           if jb_Type job = JobInstall then startJob env call JobInstall mid (cm_Install m) (RetriedInstall mid (cm_Name m))
           else if jb_Type job = JobUninstall then startJob env call JobUninstall mid (cm_Uninstall m) (RetriedUninstall mid)
           else failS (InvalidTask ''task type does not support retry''))))"

definition interruptedMessage :: string where
  "interruptedMessage = ''operation interrupted by Core restart; runtime state will be reconciled''"

fun markInterrupted :: "int \<Rightarrow> string \<Rightarrow> ModuleJob list \<Rightarrow> ('w, unit) md" where
  "markInterrupted now srv [] s = (Ok (), s)"
| "markInterrupted now srv (j # js) s =
     bindS (job_UpdateState now srv (jb_ID j) JobError (jb_Output j) interruptedMessage) (\<lambda>_. markInterrupted now srv js) s"

definition RecoverInterruptedJobs :: "int \<Rightarrow> string \<Rightarrow> ('w, unit) md" where
  "RecoverInterruptedJobs now srv =
     bindS (bindS (job_ListByState srv JobPending) (markInterrupted now srv)) (\<lambda>_.
     bindS (job_ListByState srv JobRunning) (markInterrupted now srv))"

section \<open>Requests\<close>

text \<open>The HTTP handlers. A body that is not JSON is None; the limit of ListJobs is 0 when it is not a number.\<close>

datatype mod_request =
    RList | RGet string | RStatus string | RInstall string | RUninstall string | REnable string | RDisable string | RRestart string
  | RAction string string | RGetJob string | RListJobs JobFilter | RCancelJob string | RRetryJob string | RDeleteJob string
  | RGridSchema string string | RGridData string string | RGridAction string string string "string option"
  | RSaveSettings string "string option" | RPresets string | RPreview string string "string option" | RSavePreset string string "string option"
  | RResetPreset string string | RTogglePreset string string "bool option" | RReadLog string string string | RClearLog string string

definition mod_status :: "mod_error \<Rightarrow> nat" where
  "mod_status e =
     (case e of ModuleNotFound _ \<Rightarrow> 404 | JobNotFound \<Rightarrow> 404 | RecordNotFound \<Rightarrow> 404 | ModuleInstalled \<Rightarrow> 409 | ModuleBusy \<Rightarrow> 409
      | ModuleNotInstalled \<Rightarrow> 409 | Conflict _ \<Rightarrow> 409 | InvalidTask _ \<Rightarrow> 400 | InternalError _ \<Rightarrow> 500 | PlainError _ \<Rightarrow> 500 | DatabaseError \<Rightarrow> 500)"

definition logLines :: "string \<Rightarrow> int" where
  "logLines text =
     (let n = (case Atoi text of Some k \<Rightarrow> if k > 0 then k else 100 | None \<Rightarrow> 100)
      in if n > 5000 then 5000 else n)"

definition answer :: "nat \<Rightarrow> ('w, 'a) md \<Rightarrow> 'w core \<Rightarrow> nat \<times> 'w core" where
  "answer ok act s = (case act s of (Inl e, s') \<Rightarrow> (mod_status e, s') | (Inr _, s') \<Rightarrow> (ok, s'))"

definition withBody :: "'b option \<Rightarrow> ('b \<Rightarrow> ('w, unit) md) \<Rightarrow> ('w, unit) md" where
  "withBody body f = (case body of None \<Rightarrow> failS (InvalidTask ''malformed JSON body'') | Some b \<Rightarrow> f b)"

definition handle_dynamic :: "'w mod_env \<Rightarrow> mod_call \<Rightarrow> mod_request \<Rightarrow> ('w core \<Rightarrow> nat \<times> 'w core) option" where
  "handle_dynamic env call req =
     (case req of
        RGridSchema mid page \<Rightarrow> Some (answer 200 (GetDataGridSchema env mid page))
      | RGridData mid page \<Rightarrow> Some (answer 200 (GetDataGridData env mid page))
      | RGridAction mid page a body \<Rightarrow> Some (answer 200 (withBody body (ExecuteDataGridAction env mid page a)))
      | RSaveSettings mid body \<Rightarrow> Some (answer 200 (withBody body (SaveModuleSettings env mid)))
      | RPresets mid \<Rightarrow> Some (answer 200 (ProtectionPresets env mid))
      | RPreview mid p body \<Rightarrow> Some (answer 200 (withBody body (\<lambda>b. bindS (PreviewProtectionPreset env mid p b) (\<lambda>_. retS ()))))
      | RSavePreset mid p body \<Rightarrow> Some (answer 200 (withBody body (SaveProtectionPreset env call mid p)))
      | RResetPreset mid p \<Rightarrow> Some (answer 200 (ResetProtectionPreset env call mid p))
      | RTogglePreset mid p body \<Rightarrow> Some (answer 200 (withBody body (SetProtectionPresetEnabled env call mid p)))
      | RReadLog mid l n \<Rightarrow> Some (answer 200 (ReadModuleLog env mid l (logLines n)))
      | RClearLog mid l \<Rightarrow> Some (answer 200 (ClearModuleLog env mid l))
      | _ \<Rightarrow> None)"

definition handle_jobs :: "'w mod_env \<Rightarrow> mod_call \<Rightarrow> mod_request \<Rightarrow> ('w core \<Rightarrow> nat \<times> 'w core) option" where
  "handle_jobs env call req =
     (case req of
        RGetJob jid \<Rightarrow> Some (answer 200 (job_FindByID (mc_server call) jid))
      | RListJobs f \<Rightarrow> Some (answer 200 (mod_ListJobs call f))
      | RCancelJob jid \<Rightarrow> Some (answer 200 (CancelJob call jid))
      | RRetryJob jid \<Rightarrow> Some (answer 202 (RetryJob env call jid))
      | RDeleteJob jid \<Rightarrow> Some (answer 204 (DeleteJob call jid))
      | _ \<Rightarrow> None)"

definition handle_module :: "'w mod_env \<Rightarrow> mod_call \<Rightarrow> mod_request \<Rightarrow> 'w core \<Rightarrow> nat \<times> 'w core" where
  "handle_module env call req =
     (case handle_dynamic env call req of Some h \<Rightarrow> h | None \<Rightarrow>
      case handle_jobs env call req of Some h \<Rightarrow> h | None \<Rightarrow>
      case req of
        RList \<Rightarrow> answer 200 (mod_List env call)
      | RGet mid \<Rightarrow> answer 200 (mod_Get env call mid)
      | RStatus mid \<Rightarrow> answer 200 (mod_Status env mid)
      | RInstall mid \<Rightarrow> answer 202 (mod_Install env call mid)
      | RUninstall mid \<Rightarrow> answer 202 (mod_Uninstall env call mid)
      | REnable mid \<Rightarrow> answer 200 (mod_Enable env call mid)
      | RDisable mid \<Rightarrow> answer 200 (mod_Disable env call mid)
      | RRestart mid \<Rightarrow> answer 200 (mod_Restart env call mid)
      | RAction mid a \<Rightarrow> answer 200 (mod_ExecuteAction env call mid a)
      | _ \<Rightarrow> answer 404 (retS ()))"

section \<open>The tails and the workers\<close>

definition runTail :: "int \<Rightarrow> tail \<Rightarrow> 'w core \<Rightarrow> 'w core" where
  "runTail now t =
     (case t of
        MarkState srv mid st user action \<Rightarrow> mod_recordAudit user action mid True \<circ> quietly (mod_UpdateState now srv mid st)
      | MarkCanceled srv jid output \<Rightarrow> quietly (job_UpdateState now srv jid JobCanceled output ''canceled by user''))"

definition detectedVersion :: "'w mod_env \<Rightarrow> string \<Rightarrow> ('w, string option) md" where
  "detectedVersion env mid s =
     (case reg_Find env mid of None \<Rightarrow> (Ok None, s)
      | Some m \<Rightarrow>
          (case callM (cm_Status m) s of
             (Inr (Some status), s1) \<Rightarrow> (Ok (if rs_SoftwareVersion status = [] then None else Some (rs_SoftwareVersion status)), s1)
           | (_, s1) \<Rightarrow> (Ok None, s1)))"

definition installedRecord :: "int \<Rightarrow> string \<Rightarrow> string \<Rightarrow> string option \<Rightarrow> ModuleRecord" where
  "installedRecord now mid name version =
     \<lparr>mr_ID = mid, mr_Server = [], mr_Name = name, mr_State = StateInstalled, mr_Version = version, mr_Config = [],
      mr_InstalledAt = Some now, mr_UpdatedAt = now\<rparr>"

text \<open>The function that startJob calls after a success, in two parts: the question for the version, which only the jobs of
  Install ask, and the statement, which is not executed when its context is over.\<close>

definition askVersion :: "'w mod_env \<Rightarrow> completion \<Rightarrow> 'w core \<Rightarrow> string option \<times> 'w core" where
  "askVersion env done s =
     (case done of
        InstalledBy mid name \<Rightarrow> (case detectedVersion env mid s of (r, s1) \<Rightarrow> (case r of Inr v \<Rightarrow> v | Inl _ \<Rightarrow> None, s1))
      | _ \<Rightarrow> (None, s))"

definition onSuccess :: "int \<Rightarrow> string \<Rightarrow> bool \<Rightarrow> completion \<Rightarrow> string option \<Rightarrow> 'w core \<Rightarrow> 'w core" where
  "onSuccess now srv late done version s =
     (let exec = (\<lambda>act :: ('w, unit) md. if late then s else quietly act s)
      in case done of
        InstalledBy mid name \<Rightarrow> publishEvent ''module.installed'' mid (exec (mod_Upsert srv (installedRecord now mid name version)))
      | UninstalledBy mid \<Rightarrow> publishEvent ''module.uninstalled'' mid (exec (mod_UpdateState now srv mid StateAvailable))
      | RetriedInstall mid name \<Rightarrow> exec (mod_Upsert srv (installedRecord now mid name None))
      | RetriedUninstall mid \<Rightarrow> exec (mod_UpdateState now srv mid StateAvailable)
      | TaskDone \<Rightarrow> s)"

definition errorText :: "work_error \<Rightarrow> string" where
  "errorText e = (case e of WorkCanceled \<Rightarrow> ''context canceled'' | WorkFailed t \<Rightarrow> t)"

definition ctxError :: "ctx_state \<Rightarrow> string" where
  "ctxError c = (case c of CtxExpired \<Rightarrow> ''context deadline exceeded'' | _ \<Rightarrow> ''context canceled'')"

definition notify :: "'w worker \<Rightarrow> string \<Rightarrow> 'w core \<Rightarrow> 'w core" where
  "notify w kind s = (if wk_Then w = TaskDone then s else publishEvent kind (wk_Job w) s)"

text \<open>One step of a worker, and where it stands afterwards. A statement with a dead context is not executed. The
  deferred function at the end removes the worker.\<close>

definition worker_step :: "'w mod_env \<Rightarrow> int \<Rightarrow> 'w worker \<Rightarrow> 'w core \<Rightarrow> worker_pc \<times> 'w core" where
  "worker_step env now w s =
     (let update = (\<lambda>st out err. quietly (job_UpdateState now (wk_Server w) (wk_Job w) st out err))
      in case wk_PC w of
           AtStart \<Rightarrow> (AtWork, if wk_Ctx w = CtxLive then update JobRunning [] [] s else s)
         | AtWork \<Rightarrow> (case wk_Work w (wk_Ctx w) (co_world s) of ((out, err), w') \<Rightarrow> (AtCheck out err, s\<lparr>co_world := w'\<rparr>))
         | AtCheck out (Some e) \<Rightarrow> (AtExit, notify w ''job.error'' (update (if e = WorkCanceled then JobCanceled else JobError) out (errorText e) s))
         | AtCheck out None \<Rightarrow>
             if wk_Then w = TaskDone then (AtExit, update JobSuccess out [] s)
             else if wk_Ctx w \<noteq> CtxLive then (AtExit, notify w ''job.canceled'' (update JobCanceled [] (ctxError (wk_Ctx w)) s))
             else (AtSuccess, s)
         | AtSuccess \<Rightarrow> (case askVersion env (wk_Then w) s of (v, s') \<Rightarrow> (AtRecord v, s'))
         | AtRecord v \<Rightarrow> (AtDone, onSuccess now (wk_Server w) (wk_Late w) (wk_Then w) v s)
         | AtDone \<Rightarrow> (AtExit, notify w ''job.done'' (if wk_Late w then s else update JobSuccess [] [] s))
         | AtExit \<Rightarrow> (AtExit, s))"

definition setPC :: "string \<Rightarrow> worker_pc \<Rightarrow> 'w worker \<Rightarrow> 'w worker" where
  "setPC jid pc w = (if wk_Job w = jid then w\<lparr>wk_PC := pc\<rparr> else w)"

definition advance :: "'w mod_env \<Rightarrow> int \<Rightarrow> string \<Rightarrow> 'w core \<Rightarrow> 'w core" where
  "advance env now jid s =
     (case find (\<lambda>w. wk_Job w = jid) (co_workers s) of
        None \<Rightarrow> s
      | Some w \<Rightarrow>
          if wk_PC w = AtExit then s\<lparr>co_workers := filter (\<lambda>w. wk_Job w \<noteq> jid) (co_workers s)\<rparr>
          else (case worker_step env now w s of (pc, s') \<Rightarrow> s'\<lparr>co_workers := map (setPC jid pc) (co_workers s')\<rparr>))"

section \<open>Starting the Core\<close>

definition sortedModules :: "'w mod_env \<Rightarrow> 'w contract_module list" where
  "sortedModules env = sort_key cm_ID (me_registry env)"

definition bootstrapOne :: "int \<Rightarrow> string \<Rightarrow> 'w contract_module \<Rightarrow> ('w, unit) md" where
  "bootstrapOne now srv m s =
     (case mod_FindByID srv (cm_ID m) s of
        (found, s1) \<Rightarrow>
          bindS (case found of
              Inr _ \<Rightarrow> retS ()
            | Inl e \<Rightarrow>
                if e \<noteq> RecordNotFound then failS e
                else mod_Upsert srv \<lparr>mr_ID = cm_ID m, mr_Server = srv, mr_Name = cm_Name m, mr_State = StateAvailable, mr_Version = None,
                       mr_Config = ''{}'', mr_InstalledAt = None, mr_UpdatedAt = now\<rparr>) (\<lambda>_ s.
          case callM (cm_Bootstrap m) s of
            (Inl _, s2) \<Rightarrow> (Ok (), quietly (mod_UpdateState now srv (cm_ID m) StateError) s2)
          | (Inr _, s2) \<Rightarrow> (Ok (), s2)) s1)"

fun bootstrapAll :: "int \<Rightarrow> string \<Rightarrow> 'w contract_module list \<Rightarrow> ('w, unit) md" where
  "bootstrapAll now srv [] s = (Ok (), s)"
| "bootstrapAll now srv (m # ms) s = bindS (bootstrapOne now srv m) (\<lambda>_. bootstrapAll now srv ms) s"

definition Loader_Bootstrap :: "'w mod_env \<Rightarrow> int \<Rightarrow> string \<Rightarrow> ('w, unit) md" where
  "Loader_Bootstrap env now srv = bootstrapAll now srv (sortedModules env)"

definition detectedState :: "'w contract_module \<Rightarrow> RuntimeStatus \<Rightarrow> mod_state" where
  "detectedState m status =
     (if \<not> rs_PackageInstalled status then StateAvailable
      else if \<not> cm_SupportsService m then StateInstalled
      else if rs_ServiceRunning status then StateEnabled else StateDisabled)"

definition syncRuntimeState :: "string \<Rightarrow> 'w contract_module \<Rightarrow> 'w core \<Rightarrow> 'w core" where
  "syncRuntimeState srv m s =
     (case mod_FindByID srv (cm_ID m) s of
        (Inl _, s1) \<Rightarrow> s1
      | (Inr rec, s1) \<Rightarrow>
          if mr_State rec = StateAvailable \<or> mr_Version rec = None \<or> mr_Version rec = Some [] then
            (case callM (cm_Status m) s1 of
               (Inr (Some status), s2) \<Rightarrow>
                 if detectedState m status = StateAvailable then s2
                 else quietly (mod_Upsert srv (rec\<lparr>mr_State := detectedState m status,
                        mr_Version := (if rs_SoftwareVersion status \<noteq> [] then Some (rs_SoftwareVersion status) else mr_Version rec)\<rparr>)) s2
             | (_, s2) \<Rightarrow> s2)
          else s1)"

definition SyncRuntimeStates :: "'w mod_env \<Rightarrow> string \<Rightarrow> 'w core \<Rightarrow> 'w core" where
  "SyncRuntimeStates env srv = fold (syncRuntimeState srv) (sortedModules env)"

definition LocalID :: string where "LocalID = ''local''"

text \<open>A restart loses the workers and the tails; the start-up context selects no server, which means the local one.\<close>

definition restartCore :: "'w mod_env \<Rightarrow> int \<Rightarrow> 'w core \<Rightarrow> 'w core" where
  "restartCore env now s =
     quietly (bindS (RecoverInterruptedJobs now LocalID) (\<lambda>_. Loader_Bootstrap env now LocalID)) (s\<lparr>co_workers := [], co_tails := []\<rparr>)"

end
