(* ===== verification/Core_Jobs.thy ===== *)
theory Core_Jobs
  imports Core_Modules
begin

text \<open>
  The background jobs of the module service as a transition system: requests, the tails of requests, the steps of the workers,
  expiring contexts, the detection of software and restarts of the Core in any order, with any failing
  statements. The invariant of the tables, what cannot happen to a job that has ended, that every
  worker ends, which rows a request may change, and which jobs are stranded by restarts and late workers.
\<close>

lemmas handle_defs = handle_module_def handle_dynamic_def handle_jobs_def

section \<open>The transition system\<close>

definition fresh :: "string \<Rightarrow> 'w core \<Rightarrow> bool" where
  "fresh uuid s =
     (uuid \<notin> jb_ID ` set (co_jobs s) \<and> uuid \<notin> wk_Job ` set (co_workers s) \<and>
      (\<forall>t \<in> set (co_tails s). case t of MarkCanceled _ jid _ \<Rightarrow> jid \<noteq> uuid | MarkState _ _ _ _ _ \<Rightarrow> True))"

definition expire :: "string \<Rightarrow> 'w worker \<Rightarrow> 'w worker" where
  "expire jid w = (if wk_Job w = jid \<and> wk_Ctx w = CtxLive then w\<lparr>wk_Ctx := CtxExpired\<rparr> else w)"

text \<open>The five seconds of the last statements are over.\<close>

definition late :: "string \<Rightarrow> 'w worker \<Rightarrow> 'w worker" where
  "late jid w = (if wk_Job w = jid \<and> (case wk_PC w of AtSuccess \<Rightarrow> True | AtRecord _ \<Rightarrow> True | AtDone \<Rightarrow> True | _ \<Rightarrow> False) then w\<lparr>wk_Late := True\<rparr> else w)"

inductive core_step :: "'w mod_env \<Rightarrow> 'w core \<Rightarrow> 'w core \<Rightarrow> bool" for env where
  Request: "fresh (mc_uuid call) s \<Longrightarrow> core_step env s (snd (handle_module env call req s))"
| Task: "fresh (mc_uuid call) s \<Longrightarrow> core_step env s (snd (StartTask call name kind payload work s))"
| Tail: "co_tails s = ts @ t # us \<Longrightarrow> core_step env s (runTail now t (s\<lparr>co_tails := ts @ us\<rparr>))"
| Work: "core_step env s (advance env now jid s)"
| Expire: "core_step env s (s\<lparr>co_workers := map (expire jid) (co_workers s)\<rparr>)"
| Late: "core_step env s (s\<lparr>co_workers := map (late jid) (co_workers s)\<rparr>)"
| Sync: "core_step env s (syncRuntimeState LocalID m s)"
| Restart: "core_step env s (restartCore env now s)"

definition core_start :: "'w core \<Rightarrow> bool" where
  "core_start s = (co_jobs s = [] \<and> co_workers s = [] \<and> co_tails s = [])"

section \<open>Operations that leave the jobs alone\<close>

definition jobless :: "'w core \<Rightarrow> 'w core \<Rightarrow> bool" where
  "jobless s s' = (co_jobs s' = co_jobs s \<and> co_workers s' = co_workers s \<and> co_tails s' = co_tails s)"

lemma jobless_order [intro, simp]: "reflp jobless" "transp jobless" "jobless s s"
  by (auto simp: jobless_def reflp_def transp_def)

lemma keeps_stmt: "keeps R act \<Longrightarrow> transp R \<Longrightarrow> (\<And>s fs. R s (s\<lparr>co_faults := fs\<rparr>)) \<Longrightarrow> keeps R (stmt act)"
  unfolding keeps_def stmt_def by (auto split: list.split) (metis transpD)

lemma jobless_stmt: "keeps jobless act \<Longrightarrow> keeps jobless (stmt act)"
  by (rule keeps_stmt) (auto simp: jobless_def)

lemma keeps_effect: "(\<And>s. R s (f s)) \<Longrightarrow> keeps R (effect f)"
  by (simp add: keeps_def effect_def)

lemma jobless_modules [keeps_intro]:
  "keeps jobless (mod_FindByID srv mid)" "keeps jobless (mod_ListAll srv)" "keeps jobless (mod_Upsert srv rec)"
  "keeps jobless (mod_UpdateState now srv mid st)" "keeps jobless (job_FindByID srv jid)"
  unfolding mod_FindByID_def mod_ListAll_def mod_Upsert_def mod_UpdateState_def job_FindByID_def
  by (rule jobless_stmt; rule keepsI; simp add: jobless_def split: option.split)+

lemma jobless_callM [keeps_intro]: "keeps jobless (callM f)"
  by (rule keepsI) (simp add: callM_def jobless_def split: prod.split)

lemma jobless_quietly: "keeps jobless act \<Longrightarrow> jobless s (quietly act s)"
  by (simp add: keeps_def quietly_def)

lemma jobless_audit: "jobless s (mod_recordAudit user action resource ok s)"
  unfolding mod_recordAudit_def
  by (rule jobless_quietly, rule jobless_stmt, rule keepsI) (simp add: jobless_def)

lemma jobless_publish: "jobless s (publishEvent kind v s)"
  by (simp add: publishEvent_def jobless_def)

lemma jobless_effects [keeps_intro]:
  "keeps jobless (effect (publishEvent kind v))" "keeps jobless (effect (mod_recordAudit user action resource ok))"
  by (auto intro: keeps_effect jobless_publish jobless_audit)

lemma jobless_option [keeps_intro]: "(\<And>x. v = Some x \<Longrightarrow> keeps R (f x)) \<Longrightarrow> (v = None \<Longrightarrow> keeps R g) \<Longrightarrow> keeps R (case v of None \<Rightarrow> g | Some x \<Rightarrow> f x)"
  by (cases v) auto

lemma jobless_findModule [keeps_intro]: "keeps jobless (findModule env mid)"
  unfolding findModule_def by (intro keeps_intro jobless_order)

lemma jobless_recorded [keeps_intro]: "keeps jobless (recordedState srv mid)"
proof (rule keepsI)
  show "jobless s (snd (recordedState srv mid s))" for s
    using keepsD [OF jobless_modules(1)] by (auto simp: recordedState_def split: prod.split)
qed

lemma jobless_backup [keeps_intro]: "keeps jobless (mod_backupCritical env call operation mid)"
  unfolding mod_backupCritical_def by (intro keeps_intro jobless_order)

lemma jobless_provider [keeps_intro]: "keeps jobless (provider env sel mid)"
  unfolding provider_def by (intro keeps_intro jobless_order)

lemma jobless_plainCall [keeps_intro]: "keeps jobless (plainCall f)"
  unfolding plainCall_def by (intro keeps_intro)

lemma jobless_preset [keeps_intro]: "keeps jobless (auditedPreset call verb mid preset work)"
proof (rule keepsI)
  fix s
  obtain r s1 where p: "plainCall work s = (r, s1)" by fastforce
  have "jobless s s1" by (rule keepsD [OF jobless_plainCall p])
  then show "jobless s (snd (auditedPreset call verb mid preset work s))"
    using p jobless_audit transpD [OF jobless_order(2)] by (cases r) (auto simp: auditedPreset_def, blast+)
qed

lemma jobless_dynamic [keeps_intro]:
  "keeps jobless (GetDataGridSchema env mid page)" "keeps jobless (GetDataGridData env mid page)"
  "keeps jobless (ExecuteDataGridAction env mid page a payload)" "keeps jobless (SaveModuleSettings env mid settings)"
  "keeps jobless (ProtectionPresets env mid)" "keeps jobless (PreviewProtectionPreset env mid preset settings)"
  "keeps jobless (SaveProtectionPreset env call mid preset settings)" "keeps jobless (ResetProtectionPreset env call mid preset)"
  "keeps jobless (SetProtectionPresetEnabled env call mid preset on)" "keeps jobless (ReadModuleLog env mid l n)" "keeps jobless (ClearModuleLog env mid l)"
  unfolding GetDataGridSchema_def GetDataGridData_def ExecuteDataGridAction_def SaveModuleSettings_def ProtectionPresets_def
    PreviewProtectionPreset_def SaveProtectionPreset_def ResetProtectionPreset_def SetProtectionPresetEnabled_def ReadModuleLog_def ClearModuleLog_def
  by (intro keeps_intro jobless_order)+

lemma jobless_lifecycle [keeps_intro]:
  "keeps jobless (mod_List env call)" "keeps jobless (mod_Enable env call mid)" "keeps jobless (mod_Disable env call mid)"
  "keeps jobless (mod_Restart env call mid)" "keeps jobless (mod_ExecuteAction env call mid a)"
  unfolding mod_List_def mod_Enable_def mod_Disable_def mod_Restart_def mod_ExecuteAction_def mod_switch_def
  by (intro keeps_intro jobless_order)+

lemma jobless_queries [keeps_intro]: "keeps jobless (mod_Get env call mid)" "keeps jobless (mod_Status env mid)" "keeps jobless (mod_ListJobs call f)"
proof -
  have "keeps jobless (\<lambda>s. case mod_FindByID srv mid s of (r, s1) \<Rightarrow> (Ok (g r), s1))" for srv and g :: "(mod_error, ModuleRecord) result \<Rightarrow> ModuleView"
    using keepsD [OF jobless_modules(1)] by (auto intro!: keepsI split: prod.split)
  then show "keeps jobless (mod_Get env call mid)" unfolding mod_Get_def by (intro keeps_intro jobless_order)
  have "keeps jobless (\<lambda>s. case callM (cm_HealthCheck m) s of (Inl _, s1) \<Rightarrow> (setHealth ''error'' st, s1) | (Inr None, s1) \<Rightarrow> (Ok st, s1)
      | (Inr (Some health), s1) \<Rightarrow> (setHealth health st, s1))" for m :: "'a contract_module" and st
    using keepsD [OF jobless_callM] by (auto intro!: keepsI split: prod.split sum.split option.split)
  then show "keeps jobless (mod_Status env mid)" unfolding mod_Status_def by (intro keeps_intro jobless_order)
  show "keeps jobless (mod_ListJobs call f)" unfolding mod_ListJobs_def job_List_def
    by (intro keeps_intro jobless_order jobless_stmt) (simp_all add: keeps_def)
qed

lemma jobless_onSuccess: "jobless s (onSuccess now srv lt c v s)"
proof (cases c)
  case (InstalledBy mid name)
  then show ?thesis using jobless_publish jobless_quietly [OF jobless_modules(3)] transpD [OF jobless_order(2)]
    by (auto simp: onSuccess_def) blast
next
  case (UninstalledBy mid)
  then show ?thesis using jobless_publish jobless_quietly [OF jobless_modules(4)] transpD [OF jobless_order(2)] by (auto simp: onSuccess_def) blast
qed (auto simp: onSuccess_def intro: jobless_quietly jobless_modules)

lemma jobless_askVersion: "askVersion env c s = (v, s') \<Longrightarrow> jobless s s'"
  using keepsD [OF jobless_callM]
  by (auto simp: askVersion_def detectedVersion_def split: completion.splits option.splits prod.splits sum.splits)

lemma jobless_sync: "jobless s (syncRuntimeState srv m s)"
proof -
  obtain r s1 where f: "mod_FindByID srv (cm_ID m) s = (r, s1)" by fastforce
  obtain q s2 where c: "callM (cm_Status m) s1 = (q, s2)" by fastforce
  have "jobless s s1" "jobless s1 s2" using keepsD [OF jobless_modules(1) f] keepsD [OF jobless_callM c] by auto
  then have "jobless s s2" "jobless s s1" using transpD [OF jobless_order(2)] by blast+
  moreover have "jobless s (quietly (mod_Upsert srv rec) s2)" for rec
    using \<open>jobless s s2\<close> jobless_quietly [OF jobless_modules(3)] transpD [OF jobless_order(2)] by blast
  ultimately show ?thesis by (auto simp: syncRuntimeState_def f c split: sum.split option.split)
qed

lemma keeps_bootstrapOne:
  assumes o: "reflp R" "transp (R :: 'w core \<Rightarrow> 'w core \<Rightarrow> bool)" and r: "keeps R (mod_FindByID srv (cm_ID m))" "\<And>rec. keeps R (mod_Upsert srv rec)"
    "keeps R (mod_UpdateState now srv (cm_ID m) StateError)" "keeps R (callM (cm_Bootstrap m))"
  shows "keeps R (bootstrapOne now srv m)"
proof (rule keepsI)
  fix s :: "'w core"
  let ?after = "\<lambda>s. case callM (cm_Bootstrap m) s of (Inl _, s2) \<Rightarrow> (Ok (), quietly (mod_UpdateState now srv (cm_ID m) StateError) s2)
      | (Inr _, s2) \<Rightarrow> (Ok () :: (mod_error, unit) result, s2)"
  have a: "keeps R ?after"
  proof (rule keepsI)
    fix t :: "'w core"
    obtain q t1 where c: "callM (cm_Bootstrap m) t = (q, t1)" by fastforce
    have "R t1 (quietly (mod_UpdateState now srv (cm_ID m) StateError) t1)" using r(3) by (simp add: keeps_def quietly_def)
    then show "R t (snd (?after t))" using c keepsD [OF r(4) c] transpD [OF o(2)] by (cases q) auto
  qed
  obtain q s1 where f: "mod_FindByID srv (cm_ID m) s = (q, s1)" by fastforce
  let ?first = "case q of Inr _ \<Rightarrow> retS () | Inl e \<Rightarrow> if e \<noteq> RecordNotFound then failS e
     else mod_Upsert srv \<lparr>mr_ID = cm_ID m, mr_Server = srv, mr_Name = cm_Name m, mr_State = StateAvailable, mr_Version = None,
                   mr_Config = ''{}'', mr_InstalledAt = None, mr_UpdatedAt = now\<rparr>"
  have "keeps R ?first" using o r(2) by (cases q) (auto intro: keeps_intro)
  then have "keeps R (bindS ?first (\<lambda>_. ?after))" using a o by (intro keeps_intro)
  then have "R s1 (snd (bootstrapOne now srv m s))" by (simp add: bootstrapOne_def f keeps_def)
  then show "R s (snd (bootstrapOne now srv m s))" by (rule transpD [OF o(2) keepsD [OF r(1) f]])
qed

lemma keeps_bootstrap:
  assumes o: "reflp R" "transp R" and r: "\<And>mid. keeps R (mod_FindByID srv mid)" "\<And>rec. keeps R (mod_Upsert srv rec)"
    "\<And>mid st. keeps R (mod_UpdateState now srv mid st)" "\<And>f :: 'w op. keeps R (callM f)"
  shows "keeps R (Loader_Bootstrap env now srv :: ('w, unit) md)"
proof -
  have "keeps R (bootstrapAll now srv ms)" for ms :: "'w contract_module list"
  proof (induction ms)
    case (Cons m ms)
    have "bootstrapAll now srv (m # ms) = bindS (bootstrapOne now srv m) (\<lambda>_. bootstrapAll now srv ms)" by (rule ext) simp
    then show ?case using Cons o keeps_bootstrapOne [OF o r(1,2,3,4)] by (simp add: keeps_intro)
  qed (use o(1) in \<open>simp add: keeps_def reflp_def\<close>)
  then show ?thesis by (simp add: Loader_Bootstrap_def)
qed

lemma jobless_bootstrap: "keeps jobless (Loader_Bootstrap env now srv)"
  by (intro keeps_bootstrap jobless_order keeps_intro)

section \<open>The invariant\<close>

definition job_ok :: "ModuleJob \<Rightarrow> bool" where
  "job_ok j =
     (case jb_State j of
        JobPending \<Rightarrow> jb_Progress j = 0 \<and> jb_StartedAt j = None \<and> jb_FinishedAt j = None
      | JobRunning \<Rightarrow> jb_Progress j = 10 \<and> jb_StartedAt j \<noteq> None \<and> jb_FinishedAt j = None
      | JobSuccess \<Rightarrow> jb_Progress j = 100 \<and> jb_FinishedAt j \<noteq> None
      | _ \<Rightarrow> jb_Progress j \<in> {0, 10, 100} \<and> jb_FinishedAt j \<noteq> None)"

text \<open>A worker at its start with a living context has a pending job, and a cancellation on its way has killed the context.\<close>

definition waiting :: "'w worker \<Rightarrow> bool" where
  "waiting w = (wk_PC w = AtStart \<and> wk_Ctx w = CtxLive)"

definition jobs_inv :: "ModuleJob list \<Rightarrow> 'w worker list \<Rightarrow> tail list \<Rightarrow> bool" where
  "jobs_inv js ws ts =
     (distinct (map jb_ID js) \<and> distinct (map wk_Job ws) \<and> list_all job_ok js \<and>
      (\<forall>w \<in> set ws. \<forall>j \<in> set js. jb_ID j = wk_Job w \<longrightarrow> jb_Server j = wk_Server w \<and> (waiting w \<longrightarrow> jb_State j = JobPending)) \<and>
      (\<forall>w \<in> set ws. \<forall>srv out. MarkCanceled srv (wk_Job w) out \<in> set ts \<longrightarrow> wk_Ctx w \<noteq> CtxLive))"

abbreviation core_inv :: "'w core \<Rightarrow> bool" where
  "core_inv s \<equiv> jobs_inv (co_jobs s) (co_workers s) (co_tails s)"

text \<open>No job that has ended is taken up again.\<close>

definition ended_stay :: "ModuleJob list \<Rightarrow> ModuleJob list \<Rightarrow> bool" where
  "ended_stay js js' = (\<forall>j \<in> set js. \<forall>j' \<in> set js'. jb_ID j' = jb_ID j \<longrightarrow> finished j \<longrightarrow> finished j')"

abbreviation updateJob :: "int \<Rightarrow> string \<Rightarrow> string \<Rightarrow> job_state \<Rightarrow> string \<Rightarrow> string \<Rightarrow> ModuleJob \<Rightarrow> ModuleJob" where
  "updateJob now srv jid st out err j \<equiv> if sameJob srv jid j then setJob now st out err j else j"

lemma setJob_simps [simp]:
  "jb_ID (setJob now st out err j) = jb_ID j" "jb_Server (setJob now st out err j) = jb_Server j" "jb_State (setJob now st out err j) = st"
  by (cases st; simp add: setJob_def)+

lemma setJob_ok: "job_ok j \<Longrightarrow> st \<noteq> JobPending \<Longrightarrow> st = JobRunning \<longrightarrow> jb_State j = JobPending \<Longrightarrow> job_ok (setJob now st out err j)"
  by (cases st; cases "jb_State j"; simp add: job_ok_def setJob_def)

lemma update_ids: "map jb_ID (map (updateJob now srv jid st out err) js) = map jb_ID js"
  by (simp add: comp_def)

lemma ended_same: "distinct (map jb_ID js) \<Longrightarrow> ended_stay js js"
  unfolding ended_stay_def by (metis distinct_map inj_onD)

lemma ended_update:
  assumes "distinct (map jb_ID js)" "\<forall>j \<in> set js. sameJob srv jid j \<and> st = JobRunning \<longrightarrow> jb_State j = JobPending" "st \<noteq> JobPending"
  shows "ended_stay js (map (updateJob now srv jid st out err) js)"
  unfolding ended_stay_def
proof (intro ballI impI)
  fix j j' assume j: "j \<in> set js" "j' \<in> set (map (updateJob now srv jid st out err) js)" "jb_ID j' = jb_ID j" "finished j"
  then obtain k where k: "k \<in> set js" "j' = updateJob now srv jid st out err k" by auto
  then have "jb_ID k = jb_ID j" using j(3) by (auto split: if_splits)
  then have "k = j" using assms(1) j(1) k(1) by (metis distinct_map inj_onD)
  then show "finished j'" using k j(1,4) assms(2,3) by (cases st) (auto simp: finished_def)
qed

lemma inv_update:
  assumes "jobs_inv js ws ts" "st \<noteq> JobPending" "\<forall>j \<in> set js. sameJob srv jid j \<and> st = JobRunning \<longrightarrow> jb_State j = JobPending"
    "\<forall>w \<in> set ws. wk_Job w = jid \<longrightarrow> \<not> waiting w"
  shows "jobs_inv (map (updateJob now srv jid st out err) js) ws ts"
proof -
  have "list_all job_ok (map (updateJob now srv jid st out err) js)"
    using assms(1-3) setJob_ok by (auto simp: jobs_inv_def list_all_iff)
  moreover have "jb_Server j = wk_Server w \<and> (waiting w \<longrightarrow> jb_State j = JobPending)"
    if "w \<in> set ws" "j \<in> set (map (updateJob now srv jid st out err) js)" "jb_ID j = wk_Job w" for w j
  proof -
    from that(2) obtain k where k: "k \<in> set js" "j = updateJob now srv jid st out err k" by auto
    then have "jb_Server k = wk_Server w \<and> (waiting w \<longrightarrow> jb_State k = JobPending)"
      using assms(1) that(1,3) by (auto simp: jobs_inv_def split: if_splits)
    then show ?thesis using k(2) assms(4) that(1,3) by (auto simp: sameJob_def split: if_splits)
  qed
  ultimately show ?thesis using assms(1) unfolding jobs_inv_def update_ids by blast
qed

lemma inv_start:
  assumes "jobs_inv js ws ts" "jb_ID j \<notin> jb_ID ` set js" "jb_ID j \<notin> wk_Job ` set ws" "\<forall>srv out. MarkCanceled srv (jb_ID j) out \<notin> set ts"
    "job_ok j" "jb_State j = JobPending" "wk_Job w = jb_ID j" "wk_Server w = jb_Server j"
  shows "jobs_inv (js @ [j]) (ws @ [w]) ts"
  using assms unfolding jobs_inv_def by (auto simp: image_iff)

lemma inv_job_only:
  assumes "jobs_inv js ws ts" "jb_ID j \<notin> jb_ID ` set js" "jb_ID j \<notin> wk_Job ` set ws" "job_ok j"
  shows "jobs_inv (js @ [j]) ws ts"
  using assms unfolding jobs_inv_def by (auto simp: image_iff)

lemma inv_workers:
  assumes "jobs_inv js ws ts" "\<And>w. wk_Job (f w) = wk_Job w \<and> wk_Server (f w) = wk_Server w \<and> (waiting (f w) \<longrightarrow> waiting w) \<and> (wk_Ctx (f w) = CtxLive \<longrightarrow> wk_Ctx w = CtxLive)"
  shows "jobs_inv js (map f ws) ts"
proof -
  have ids: "map wk_Job (map f ws) = map wk_Job ws" using assms(2) by simp
  have a: "jb_Server j = wk_Server w \<and> (waiting w \<longrightarrow> jb_State j = JobPending)"
    if "w \<in> set (map f ws)" "j \<in> set js" "jb_ID j = wk_Job w" for w j
  proof -
    from that(1) obtain v where v: "v \<in> set ws" "w = f v" by auto
    then have "jb_Server j = wk_Server v \<and> (waiting v \<longrightarrow> jb_State j = JobPending)"
      using assms(1) that(2,3) assms(2) [of v] by (simp add: jobs_inv_def)
    then show ?thesis using assms(2) [of v] v(2) by simp
  qed
  have b: "wk_Ctx w \<noteq> CtxLive" if "w \<in> set (map f ws)" "MarkCanceled srv (wk_Job w) out \<in> set ts" for w srv out
  proof -
    from that(1) obtain v where v: "v \<in> set ws" "w = f v" by auto
    have "\<forall>srv out. MarkCanceled srv (wk_Job v) out \<in> set ts \<longrightarrow> wk_Ctx v \<noteq> CtxLive" using assms(1) v(1) by (simp add: jobs_inv_def)
    then show ?thesis using assms(2) [of v] v(2) that(2) by auto
  qed
  show ?thesis using assms(1) a b unfolding jobs_inv_def ids by blast
qed

lemma inv_tails: "jobs_inv js ws ts \<Longrightarrow> set us \<subseteq> set ts \<Longrightarrow> jobs_inv js ws us"
  unfolding jobs_inv_def by blast

lemma inv_filter: "jobs_inv js ws ts \<Longrightarrow> jobs_inv (filter P js) (filter Q ws) ts"
  unfolding jobs_inv_def by (auto simp: distinct_map_filter list_all_iff)


section \<open>Every step keeps it\<close>

definition core_good :: "'w core \<Rightarrow> 'w core \<Rightarrow> bool" where
  "core_good s s' = (core_inv s' \<and> ended_stay (co_jobs s) (co_jobs s'))"

lemma good_jobless: "core_inv s \<Longrightarrow> jobless s s' \<Longrightarrow> core_good s s'"
  by (auto simp: core_good_def jobless_def jobs_inv_def intro: ended_same)

lemma good_after: "core_good s s1 \<Longrightarrow> jobless s1 s2 \<Longrightarrow> core_good s s2"
  by (simp add: core_good_def jobless_def)

lemma jobless_before: "jobless s s1 \<Longrightarrow> core_good s1 s2 \<Longrightarrow> core_good s s2"
  by (simp add: core_good_def jobless_def)

lemma UpdateState_cases:
  obtains (failed) fs where "quietly (job_UpdateState now srv jid st out err) s = s\<lparr>co_faults := fs\<rparr>"
  | (set) fs where "quietly (job_UpdateState now srv jid st out err) s = s\<lparr>co_faults := fs, co_jobs := map (updateJob now srv jid st out err) (co_jobs s)\<rparr>"
proof (cases "co_faults s")
  case Nil
  then have "quietly (job_UpdateState now srv jid st out err) s = s\<lparr>co_faults := [], co_jobs := map (updateJob now srv jid st out err) (co_jobs s)\<rparr>"
    by (simp add: quietly_def job_UpdateState_def stmt_def)
  then show thesis by (rule that(2))
next
  case (Cons f fs)
  show thesis
  proof (cases f)
    case True
    have "quietly (job_UpdateState now srv jid st out err) s = s\<lparr>co_faults := fs\<rparr>" using Cons True
      by (simp add: quietly_def job_UpdateState_def stmt_def)
    then show thesis by (rule that(1))
  next
    case False
    have "quietly (job_UpdateState now srv jid st out err) s = s\<lparr>co_faults := fs, co_jobs := map (updateJob now srv jid st out err) (co_jobs s)\<rparr>"
      using Cons False by (simp add: quietly_def job_UpdateState_def stmt_def)
    then show thesis by (rule that(2))
  qed
qed

lemma good_update:
  assumes "core_inv s" "st \<noteq> JobPending" "st \<noteq> JobRunning" "\<forall>w \<in> set (co_workers s). wk_Job w = jid \<longrightarrow> \<not> waiting w"
  shows "core_good s (quietly (job_UpdateState now srv jid st out err) s)"
proof (cases now srv jid st out err s rule: UpdateState_cases)
  case (failed fs)
  then show ?thesis using good_jobless [OF assms(1)] by (simp add: jobless_def)
next
  case (set fs)
  have "jobs_inv (map (updateJob now srv jid st out err) (co_jobs s)) (co_workers s) (co_tails s)"
    by (rule inv_update [OF assms(1,2) _ assms(4)]) (use assms(3) in simp)
  moreover have "ended_stay (co_jobs s) (map (updateJob now srv jid st out err) (co_jobs s))"
    by (rule ended_update) (use assms(1,2,3) in \<open>simp_all add: jobs_inv_def\<close>)
  ultimately show ?thesis using set by (simp add: core_good_def)
qed

lemma update_frame: "co_workers (quietly (job_UpdateState now srv jid st out err) s) = co_workers s"
  "co_tails (quietly (job_UpdateState now srv jid st out err) s) = co_tails s"
  by (auto simp: quietly_def job_UpdateState_def stmt_def split: list.split)

lemma ended_trans:
  assumes "ended_stay a b" "ended_stay b c" "jb_ID ` set c \<subseteq> jb_ID ` set b"
  shows "ended_stay a c"
  unfolding ended_stay_def
proof (intro ballI impI)
  fix j j' assume j: "j \<in> set a" "j' \<in> set c" "jb_ID j' = jb_ID j" "finished j"
  then obtain k where "k \<in> set b" "jb_ID k = jb_ID j'" using assms(3) by (metis imageE image_eqI subsetD)
  then show "finished j'" using assms(1,2) j unfolding ended_stay_def by metis
qed

text \<open>Starting a job.\<close>

lemma good_create:
  assumes inv: "core_inv s" and f: "fresh (jb_ID job) s" and j: "job_ok job" "jb_State job = JobPending"
    and run: "job_Create srv job s = (r, s1)"
  shows "(r = Ok () \<longrightarrow> (\<exists>j. co_jobs s1 = co_jobs s @ [j] \<and> jb_ID j = jb_ID job \<and> jb_Server j = srv \<and> jb_State j = JobPending \<and> job_ok j)) \<and>
    co_workers s1 = co_workers s \<and> co_tails s1 = co_tails s \<and> (\<forall>e. r = Err e \<longrightarrow> co_jobs s1 = co_jobs s)"
  using run j unfolding job_Create_def stmt_def
  by (auto simp: job_ok_def split: list.splits if_splits)

lemma good_worker:
  assumes inv: "core_inv s" and f: "fresh uuid s" and s1: "co_jobs s1 = co_jobs s @ [j]" "jb_ID j = uuid" "jb_State j = JobPending" "job_ok j"
    "co_workers s1 = co_workers s @ [w]" "wk_Job w = uuid" "wk_Server w = jb_Server j" "co_tails s1 = co_tails s"
  shows "core_good s s1"
proof -
  have t: "\<forall>srv out. MarkCanceled srv uuid out \<notin> set (co_tails s)" using f by (auto simp: fresh_def)
  have "core_inv s1" unfolding s1(1,5,8) by (rule inv_start [OF inv]) (use f s1 t in \<open>auto simp: fresh_def\<close>)
  moreover have "ended_stay (co_jobs s) (co_jobs s1)"
    using ended_same inv f unfolding ended_stay_def s1(1) jobs_inv_def fresh_def by (auto simp: s1(2))
  ultimately show ?thesis by (simp add: core_good_def)
qed



definition goodAct :: "string \<Rightarrow> ('w, 'a) md \<Rightarrow> bool" where
  "goodAct uuid act = (\<forall>s. core_inv s \<longrightarrow> fresh uuid s \<longrightarrow> core_good s (snd (act s)))"

lemma fresh_jobless: "jobless s s' \<Longrightarrow> fresh uuid s' = fresh uuid s"
  by (simp add: jobless_def fresh_def)

lemma goodAct_jobless: "keeps jobless act \<Longrightarrow> goodAct uuid act"
  using good_jobless by (auto simp: goodAct_def keeps_def)

lemma goodAct_bind:
  assumes "keeps jobless m" "\<And>v. goodAct uuid (k v)"
  shows "goodAct uuid (bindS m k)"
  unfolding goodAct_def
proof (intro allI impI)
  fix s :: "'a core" assume s: "core_inv s" "fresh uuid s"
  obtain r s1 where m: "m s = (r, s1)" by fastforce
  have j: "jobless s s1" by (rule keepsD [OF assms(1) m])
  then have "core_inv s1" "fresh uuid s1" using s fresh_jobless by (auto simp: jobless_def)
  then have "core_good s1 (snd (k v s1))" for v using assms(2) by (simp add: goodAct_def)
  then have "core_good s (snd (k v s1))" for v by (rule jobless_before [OF j])
  then show "core_good s (snd (bindS m k s))" using m good_jobless [OF s(1) j] by (cases r) (simp_all add: bindS_def)
qed

lemma goodAct_then:
  assumes "goodAct uuid m" "\<And>v s t. core_good t s \<Longrightarrow> core_good t (snd (k v s))"
  shows "goodAct uuid (bindS m k)"
  unfolding goodAct_def
proof (intro allI impI)
  fix s :: "'a core" assume s: "core_inv s" "fresh uuid s"
  obtain r s1 where m: "m s = (r, s1)" by fastforce
  then have "core_good s s1" using assms(1) s by (metis goodAct_def snd_conv)
  then show "core_good s (snd (bindS m k s))" using m assms(2) by (cases r) (auto simp: bindS_def)
qed

lemma good_mark: "core_good t s \<Longrightarrow> core_good t (s\<lparr>co_tails := co_tails s @ [MarkState srv mid st user action]\<rparr>)"
  by (auto simp: core_good_def jobs_inv_def)

lemma goodAct_create:
  assumes job: "jb_ID job = mc_uuid call" "job_ok job" "jb_State job = JobPending" and w: "wk_Job w = mc_uuid call" "wk_Server w = mc_server call"
  shows "goodAct (mc_uuid call) (bindS (wrapS e (job_Create (mc_server call) job)) (\<lambda>_. bindS (effect (\<lambda>s. s\<lparr>co_workers := co_workers s @ [w]\<rparr>)) (\<lambda>_. retS u)) :: ('w, 'a) md)"
    (is "goodAct _ ?act")
  unfolding goodAct_def
proof (intro allI impI)
  fix s :: "'w core" assume s: "core_inv s" "fresh (mc_uuid call) s"
  obtain r s1 where c: "job_Create (mc_server call) job s = (r, s1)" by fastforce
  have f: "fresh (jb_ID job) s" using s(2) job(1) by simp
  note g = good_create [OF s(1) f job(2,3) c]
  show "core_good s (snd (?act s))"
  proof (cases r)
    case (Inl x)
    then have "jobless s s1" using g by (simp add: jobless_def)
    then show ?thesis using good_jobless [OF s(1)] c Inl by (simp add: bindS_def wrapS_def)
  next
    case (Inr v)
    then obtain j where j: "co_jobs s1 = co_jobs s @ [j]" "jb_ID j = mc_uuid call" "jb_Server j = mc_server call" "jb_State j = JobPending" "job_ok j"
      using g job(1) by auto
    have "core_good s (s1\<lparr>co_workers := co_workers s1 @ [w]\<rparr>)"
      by (rule good_worker [OF s, of _ j w]) (use g j w in simp_all)
    then show ?thesis using c Inr by (simp add: bindS_def wrapS_def effect_def)
  qed
qed

lemma wrapS_same: "wrapS (\<lambda>e. e) m = m"
  by (rule ext) (simp add: wrapS_def split: prod.split sum.split)

lemma goodAct_start: "goodAct (mc_uuid call) (startJob env call kind mid work c)" "goodAct (mc_uuid call) (StartTask call name kind payload task)"
proof -
  show "goodAct (mc_uuid call) (startJob env call kind mid work c)"
    unfolding startJob_def by (rule goodAct_create) (simp_all add: job_ok_def)
  show "goodAct (mc_uuid call) (StartTask call name kind payload task)"
    unfolding StartTask_def by (subst wrapS_same [symmetric], rule goodAct_create) (simp_all add: job_ok_def)
qed

lemma inv_cancel:
  assumes "jobs_inv js ws ts" "\<And>w. w \<in> set ws \<Longrightarrow> wk_Job w = jid \<Longrightarrow> wk_Ctx w \<noteq> CtxLive"
  shows "jobs_inv js ws (ts @ [MarkCanceled srv jid out])"
proof -
  have "\<forall>w \<in> set ws. \<forall>srv' out'. MarkCanceled srv' (wk_Job w) out' \<in> set (ts @ [MarkCanceled srv jid out]) \<longrightarrow> wk_Ctx w \<noteq> CtxLive"
    using assms by (simp add: jobs_inv_def)
  then show ?thesis using assms(1) unfolding jobs_inv_def by blast
qed

lemma cancelWorker_simps:
  "wk_Job (cancelWorker jid w) = wk_Job w" "wk_Server (cancelWorker jid w) = wk_Server w" "wk_PC (cancelWorker jid w) = wk_PC w"
  "wk_Ctx (cancelWorker jid w) = (if wk_Job w = jid \<and> wk_Ctx w = CtxLive then CtxCanceled else wk_Ctx w)"
  by (simp_all add: cancelWorker_def)

lemma good_cancel:
  assumes inv: "core_inv s"
  shows "core_good s (s\<lparr>co_workers := map (cancelWorker jid) (co_workers s), co_tails := co_tails s @ [MarkCanceled srv jid out]\<rparr>)"
proof -
  let ?ws = "map (cancelWorker jid) (co_workers s)"
  have "jobs_inv (co_jobs s) ?ws (co_tails s)" by (rule inv_workers [OF inv]) (simp add: cancelWorker_simps waiting_def)
  moreover have "wk_Ctx w \<noteq> CtxLive" if "w \<in> set ?ws" "wk_Job w = jid" for w
  proof -
    from that(1) obtain v where "w = cancelWorker jid v" by auto
    then show ?thesis using that(2) by (simp add: cancelWorker_simps)
  qed
  ultimately have "jobs_inv (co_jobs s) ?ws (co_tails s @ [MarkCanceled srv jid out])" by (rule inv_cancel)
  moreover have "ended_stay (co_jobs s) (co_jobs s)" using inv ended_same by (simp add: jobs_inv_def)
  ultimately show ?thesis by (simp add: core_good_def)
qed

lemma goodAct_cancel: "goodAct uuid (CancelJob call jid)"
proof -
  have "goodAct uuid (\<lambda>s. if \<not> list_ex (\<lambda>w. wk_Job w = jid) (co_workers s) then (Err e, s)
     else bindS (effect (\<lambda>s. s\<lparr>co_workers := map (cancelWorker jid) (co_workers s)\<rparr>)) (\<lambda>_. later (MarkCanceled srv jid out)) (s :: 'a core))" for e srv out
    unfolding goodAct_def
  proof (intro allI impI)
    fix s :: "'a core" assume "core_inv s"
    then show "core_good s (snd (if \<not> list_ex (\<lambda>w. wk_Job w = jid) (co_workers s) then (Err e, s)
     else bindS (effect (\<lambda>s. s\<lparr>co_workers := map (cancelWorker jid) (co_workers s)\<rparr>)) (\<lambda>_. later (MarkCanceled srv jid out)) s))"
      using good_jobless [OF _ jobless_order(3), of s] good_cancel [of s srv jid out] by (simp add: bindS_def effect_def later_def)
  qed
  then show ?thesis unfolding CancelJob_def by (intro goodAct_bind keeps_intro jobless_order)
qed

lemma good_filter:
  assumes inv: "core_inv s"
  shows "core_good s (s\<lparr>co_faults := fs, co_jobs := filter P (co_jobs s)\<rparr>)"
proof -
  have "ended_stay (co_jobs s) (filter P (co_jobs s))" using ended_same [of "co_jobs s"] inv by (auto simp: ended_stay_def jobs_inv_def)
  then show ?thesis using inv_filter [OF inv, of P "\<lambda>_. True"] by (simp add: core_good_def)
qed

lemma goodAct_delete: "goodAct uuid (DeleteJob call jid)"
proof -
  have "goodAct uuid (job_Delete srv jid :: ('a, unit) md)" for srv
    unfolding goodAct_def
  proof (intro allI impI)
    fix s :: "'a core" assume inv: "core_inv s"
    have g: "core_good s (s\<lparr>co_jobs := filter P (co_jobs s)\<rparr>)" for P using good_filter [OF inv, of P "co_faults s"] by simp
    have h: "core_good s (s\<lparr>co_faults := fs\<rparr>)" for fs using good_jobless [OF inv] by (simp add: jobless_def)
    have i: "core_good s s" using good_jobless [OF inv] by simp
    show "core_good s (snd (job_Delete srv jid s))"
      using good_filter [OF inv] g h i by (simp add: job_Delete_def stmt_def split: list.split)
  qed
  then show ?thesis unfolding DeleteJob_def by (intro goodAct_bind keeps_intro)
qed

lemma goodAct_requests:
  "goodAct (mc_uuid call) (mod_Install env call mid)" "goodAct (mc_uuid call) (mod_Uninstall env call mid)" "goodAct (mc_uuid call) (RetryJob env call jid)"
proof -
  have l: "goodAct (mc_uuid call) (bindS (startJob env call kind mid work c :: ('a, string) md) (\<lambda>jid. bindS (later (MarkState srv mid st user action)) (\<lambda>_. retS jid)))"
    for kind mid work c srv st user action
    by (rule goodAct_then [OF goodAct_start(1)]) (auto simp: bindS_def later_def effect_def intro: good_mark)
  show "goodAct (mc_uuid call) (mod_Install env call mid)" "goodAct (mc_uuid call) (mod_Uninstall env call mid)"
    unfolding mod_Install_def mod_Uninstall_def by (intro goodAct_bind keeps_intro jobless_order l)+
  have n: "goodAct (mc_uuid call) (failS e :: ('a, string) md)" for e by (rule goodAct_jobless) (intro keeps_intro jobless_order)
  have "goodAct (mc_uuid call) (if jb_Type job = JobInstall then startJob env call JobInstall mid (cm_Install m) (RetriedInstall mid (cm_Name m))
           else if jb_Type job = JobUninstall then startJob env call JobUninstall mid (cm_Uninstall m) (RetriedUninstall mid)
           else failS (InvalidTask ''task type does not support retry''))" for job mid m
    using goodAct_start(1) n by auto
  then show "goodAct (mc_uuid call) (RetryJob env call jid)" unfolding RetryJob_def
    by (intro goodAct_bind keeps_intro jobless_order) (auto split: option.split intro!: n goodAct_bind keeps_intro)
qed


lemma answer_state: "snd (answer n act s) = snd (act s)"
  by (simp add: answer_def split: prod.split sum.split)

lemma goodAct_answer: "goodAct uuid act \<Longrightarrow> core_inv s \<Longrightarrow> fresh uuid s \<Longrightarrow> core_good s (snd (answer n act s))"
  by (simp add: answer_state goodAct_def)

lemma jobless_answer: "keeps jobless act \<Longrightarrow> core_inv s \<Longrightarrow> fresh uuid s \<Longrightarrow> core_good s (snd (answer n act s))"
  using goodAct_answer [OF goodAct_jobless] by blast

lemma jobless_body: "(\<And>b. keeps jobless (f b)) \<Longrightarrow> keeps jobless (withBody body f)"
  unfolding withBody_def by (intro keeps_intro jobless_order)

lemma handle_good:
  assumes "core_inv s" "fresh (mc_uuid call) s"
  shows "core_good s (snd (handle_module env call req s))"
proof (cases req)
  case (RInstall x) then show ?thesis using goodAct_answer [OF goodAct_requests(1) assms] by (simp add: handle_defs)
next
  case (RUninstall x) then show ?thesis using goodAct_answer [OF goodAct_requests(2) assms] by (simp add: handle_defs)
next
  case (RRetryJob x) then show ?thesis using goodAct_answer [OF goodAct_requests(3) assms] by (simp add: handle_defs)
next
  case (RCancelJob x) then show ?thesis using goodAct_answer [OF goodAct_cancel assms] by (simp add: handle_defs)
next
  case (RDeleteJob x) then show ?thesis using goodAct_answer [OF goodAct_delete assms] by (simp add: handle_defs)
next
  case (RPreview mid p body)
  have "keeps jobless (withBody body (\<lambda>b. bindS (PreviewProtectionPreset env mid p b) (\<lambda>_. retS ())))"
    by (intro jobless_body keeps_intro jobless_order)
  then show ?thesis using RPreview jobless_answer [OF _ assms] by (simp add: handle_defs)
qed (simp_all add: handle_defs jobless_answer [OF _ assms] keeps_intro jobless_body)

text \<open>The tails.\<close>

lemma tail_good:
  assumes inv: "core_inv s" and t: "co_tails s = ts @ t # us"
  shows "core_good s (runTail now t (s\<lparr>co_tails := ts @ us\<rparr>))"
proof -
  let ?s = "s\<lparr>co_tails := ts @ us\<rparr>"
  have i: "core_inv ?s" using inv_tails [OF inv, of "ts @ us"] t by auto
  have e: "core_good s x" if "core_good ?s x" for x using that by (simp add: core_good_def)
  show ?thesis
  proof (cases t)
    case (MarkState srv mid st user action)
    have "jobless ?s (quietly (mod_UpdateState now srv mid st) ?s)" by (rule jobless_quietly [OF jobless_modules(4)])
    then have "jobless ?s (runTail now t ?s)" using jobless_audit transpD [OF jobless_order(2)] by (auto simp: runTail_def MarkState) blast
    then show ?thesis by (rule e [OF good_jobless [OF i]])
  next
    case (MarkCanceled srv jid out)
    have "\<forall>w \<in> set (co_workers ?s). wk_Job w = jid \<longrightarrow> \<not> waiting w"
      using inv t MarkCanceled by (auto simp: jobs_inv_def waiting_def)
    then show ?thesis using e [OF good_update [OF i]] by (simp add: runTail_def MarkCanceled)
  qed
qed

text \<open>The workers.\<close>

lemma setPC_simps:
  "wk_Job (setPC jid pc w) = wk_Job w" "wk_Server (setPC jid pc w) = wk_Server w" "wk_Ctx (setPC jid pc w) = wk_Ctx w"
  "wk_Late (setPC jid pc w) = wk_Late w" "wk_Then (setPC jid pc w) = wk_Then w"
  "wk_PC (setPC jid pc w) = (if wk_Job w = jid then pc else wk_PC w)"
  by (simp_all add: setPC_def)

lemma good_setPC: "core_good s s' \<Longrightarrow> pc \<noteq> AtStart \<Longrightarrow> core_good s (s'\<lparr>co_workers := map (setPC jid pc) (co_workers s')\<rparr>)"
  using inv_workers [of "co_jobs s'" "co_workers s'" "co_tails s'" "setPC jid pc"] by (auto simp: core_good_def setPC_simps waiting_def)

lemma the_worker:
  assumes "core_inv s" "find (\<lambda>w. wk_Job w = jid) (co_workers s) = Some w"
  shows "w \<in> set (co_workers s)" "wk_Job w = jid" "\<And>v. v \<in> set (co_workers s) \<Longrightarrow> wk_Job v = jid \<Longrightarrow> v = w"
proof -
  from assms(2) show w: "w \<in> set (co_workers s)" "wk_Job w = jid" by (auto simp: find_Some_iff)
  show "v = w" if "v \<in> set (co_workers s)" "wk_Job v = jid" for v
    using assms(1) w that unfolding jobs_inv_def by (metis distinct_map inj_onD)
qed

lemma find_worker:
  assumes "core_inv s" "w \<in> set (co_workers s)"
  shows "find (\<lambda>x. wk_Job x = wk_Job w) (co_workers s) = Some w"
proof (cases "find (\<lambda>x. wk_Job x = wk_Job w) (co_workers s)")
  case None
  then show ?thesis using assms(2) by (auto simp: find_None_iff)
next
  case (Some v)
  then show ?thesis using the_worker(3) [OF assms(1) Some assms(2)] by simp
qed

lemma jobless_notify: "jobless s (notify w kind s)"
  by (simp add: notify_def jobless_publish)

lemma start_good:
  assumes inv: "core_inv s" and f: "find (\<lambda>w. wk_Job w = jid) (co_workers s) = Some w" and w: "waiting w"
  shows "core_good s ((quietly (job_UpdateState now (wk_Server w) jid JobRunning [] []) s)\<lparr>co_workers := map (setPC jid AtWork) (co_workers s)\<rparr>)"
proof -
  note the = the_worker [OF inv f]
  let ?ws = "map (setPC jid AtWork) (co_workers s)"
  have i: "jobs_inv (co_jobs s) ?ws (co_tails s)" by (rule inv_workers [OF inv]) (simp add: setPC_simps waiting_def)
  have p: "\<forall>j \<in> set (co_jobs s). sameJob (wk_Server w) jid j \<and> JobRunning = JobRunning \<longrightarrow> jb_State j = JobPending"
    using inv the(1,2) w by (auto simp: jobs_inv_def sameJob_def)
  have n: "\<forall>v \<in> set ?ws. wk_Job v = jid \<longrightarrow> \<not> waiting v" by (auto simp: setPC_simps waiting_def)
  show ?thesis
  proof (cases now "wk_Server w" jid JobRunning "[] :: string" "[] :: string" s rule: UpdateState_cases)
    case (failed fs)
    then show ?thesis using i inv by (simp add: core_good_def ended_same jobs_inv_def)
  next
    case (set fs)
    have "jobs_inv (map (updateJob now (wk_Server w) jid JobRunning [] []) (co_jobs s)) ?ws (co_tails s)"
      by (rule inv_update [OF i _ p n]) simp
    moreover have "ended_stay (co_jobs s) (map (updateJob now (wk_Server w) jid JobRunning [] []) (co_jobs s))"
      by (rule ended_update) (use inv p in \<open>simp_all add: jobs_inv_def\<close>)
    ultimately show ?thesis using set by (simp add: core_good_def)
  qed
qed

lemma step_good:
  assumes inv: "core_inv s" and f: "find (\<lambda>w. wk_Job w = jid) (co_workers s) = Some w" and n: "\<not> waiting w"
    and r: "worker_step env now w s = (pc, s')" and x: "wk_PC w \<noteq> AtExit"
  shows "core_good s s' \<and> pc \<noteq> AtStart"
proof -
  note the = the_worker [OF inv f]
  have calm: "\<forall>v \<in> set (co_workers s). wk_Job v = wk_Job w \<longrightarrow> \<not> waiting v" using the n by metis
  have u: "core_good s (quietly (job_UpdateState now (wk_Server w) (wk_Job w) st out err) s)" if "st \<noteq> JobPending" "st \<noteq> JobRunning" for st out err
    by (rule good_update [OF inv that calm])
  have un: "core_good s (notify w kind (quietly (job_UpdateState now (wk_Server w) (wk_Job w) st out err) s))" if "st \<noteq> JobPending" "st \<noteq> JobRunning" for kind st out err
    by (rule good_after [OF u [OF that] jobless_notify])
  have j: "core_good s t" if "jobless s t" for t by (rule good_jobless [OF inv that])
  show ?thesis
  proof (cases "wk_PC w")
    case AtStart
    then show ?thesis using r n j [OF jobless_order(3)] by (simp add: worker_step_def waiting_def)
  next
    case AtWork
    then show ?thesis using r j by (auto simp: worker_step_def jobless_def split: prod.splits)
  next
    case (AtCheck out q)
    then show ?thesis using r u un j [OF jobless_order(3)] by (cases q) (auto simp: worker_step_def split: if_splits)
  next
    case AtSuccess
    then show ?thesis using r j [OF jobless_askVersion] by (auto simp: worker_step_def split: prod.splits)
  next
    case (AtRecord v)
    then show ?thesis using r j [OF jobless_onSuccess] by (auto simp: worker_step_def)
  next
    case AtDone
    then show ?thesis using r un j [OF jobless_notify] by (auto simp: worker_step_def)
  qed (use x in simp)
qed

lemma advance_good:
  assumes inv: "core_inv s"
  shows "core_good s (advance env now jid s)"
proof (cases "find (\<lambda>w. wk_Job w = jid) (co_workers s)")
  case None
  then show ?thesis using good_jobless [OF inv] by (simp add: advance_def)
next
  case (Some w)
  note the = the_worker [OF inv Some]
  consider (exit) "wk_PC w = AtExit" | (start) "waiting w" | (other) "wk_PC w \<noteq> AtExit" "\<not> waiting w" by (auto simp: waiting_def)
  then show ?thesis
  proof cases
    case exit
    have "jobs_inv (filter (\<lambda>_. True) (co_jobs s)) (filter (\<lambda>w. wk_Job w \<noteq> jid) (co_workers s)) (co_tails s)" by (rule inv_filter [OF inv])
    then show ?thesis using exit Some inv by (simp add: advance_def core_good_def ended_same jobs_inv_def)
  next
    case start
    then show ?thesis using start_good [OF inv Some start, of now] Some the(2)
      by (simp add: advance_def worker_step_def waiting_def update_frame)
  next
    case other
    obtain pc s' where r: "worker_step env now w s = (pc, s')" by fastforce
    from step_good [OF inv Some other(2) r other(1)] good_setPC show ?thesis using Some other(1) r by (auto simp: advance_def)
  qed
qed

text \<open>A restart.\<close>

definition idle_step :: "'w core \<Rightarrow> 'w core \<Rightarrow> bool" where
  "idle_step s s' =
     (core_inv s \<and> co_workers s = [] \<longrightarrow> core_good s s' \<and> co_workers s' = [] \<and> co_tails s' = co_tails s \<and> jb_ID ` set (co_jobs s') = jb_ID ` set (co_jobs s))"

lemma idle_order [intro, simp]: "reflp (idle_step :: 'w core \<Rightarrow> _)" "transp (idle_step :: 'w core \<Rightarrow> _)"
proof -
  show "reflp (idle_step :: 'w core \<Rightarrow> _)" using good_jobless by (auto simp: idle_step_def reflp_def)
  show "transp (idle_step :: 'w core \<Rightarrow> _)"
  proof (rule transpI)
    fix a b c :: "'w core" assume ab: "idle_step a b" and bc: "idle_step b c"
    show "idle_step a c"
      unfolding idle_step_def
    proof
      assume i: "core_inv a \<and> co_workers a = []"
      with ab have b: "core_good a b" "co_workers b = []" "jb_ID ` set (co_jobs b) = jb_ID ` set (co_jobs a)" "co_tails b = co_tails a"
        unfolding idle_step_def by blast+
      then have "core_inv b \<and> co_workers b = []" by (simp add: core_good_def)
      with bc have c: "core_good b c" "co_workers c = []" "jb_ID ` set (co_jobs c) = jb_ID ` set (co_jobs b)" "co_tails c = co_tails b"
        unfolding idle_step_def by blast+
      have "ended_stay (co_jobs a) (co_jobs c)" by (rule ended_trans [of _ "co_jobs b"]) (use b c in \<open>simp_all add: core_good_def\<close>)
      then show "core_good a c \<and> co_workers c = [] \<and> co_tails c = co_tails a \<and> jb_ID ` set (co_jobs c) = jb_ID ` set (co_jobs a)"
        using b c by (simp add: core_good_def)
    qed
  qed
qed

lemma idle_jobless: "keeps jobless m \<Longrightarrow> keeps idle_step m"
  by (erule keeps_mono) (use good_jobless in \<open>auto simp: idle_step_def jobless_def\<close>)

lemma update_id_set: "jb_ID ` set (map (updateJob now srv jid st out err) js) = jb_ID ` set js"
  using arg_cong [OF update_ids, of set] by (simp only: set_map)

lemma idle_update: "st \<noteq> JobPending \<Longrightarrow> st \<noteq> JobRunning \<Longrightarrow> keeps idle_step (job_UpdateState now srv jid st out err)"
proof (rule keepsI)
  fix s :: "'b core" assume st: "st \<noteq> JobPending" "st \<noteq> JobRunning"
  have "jb_ID ` set (co_jobs (quietly (job_UpdateState now srv jid st out err) s)) = jb_ID ` set (co_jobs s)"
    by (cases now srv jid st out err s rule: UpdateState_cases) (simp_all add: update_id_set del: set_map list.set_map)
  then show "idle_step s (snd (job_UpdateState now srv jid st out err s))"
    using good_update [of s st jid now srv out err] st update_frame [of now srv jid st out err s] by (auto simp: idle_step_def quietly_def)
qed

lemma idle_recover: "keeps idle_step (RecoverInterruptedJobs now srv)"
proof -
  have m: "keeps idle_step (markInterrupted now srv js)" for js
  proof (induction js)
    case (Cons j js)
    have "markInterrupted now srv (j # js) = bindS (job_UpdateState now srv (jb_ID j) JobError (jb_Output j) interruptedMessage) (\<lambda>_. markInterrupted now srv js)"
      by (rule ext) simp
    then show ?case using Cons by (simp add: keeps_intro idle_update)
  qed (use idle_order(1) in \<open>simp add: keeps_def reflp_def\<close>)
  have l: "keeps idle_step (job_ListByState srv st)" for st
    unfolding job_ListByState_def by (rule idle_jobless, rule jobless_stmt) (simp add: keeps_def)
  show ?thesis unfolding RecoverInterruptedJobs_def by (intro keeps_intro idle_order m l)
qed

lemma restart_good:
  assumes inv: "core_inv s"
  shows "core_good s (restartCore env now s)"
proof -
  let ?s = "s\<lparr>co_workers := [], co_tails := []\<rparr>"
  have "jobs_inv (co_jobs s) [] []" using inv by (auto simp: jobs_inv_def)
  then have i: "core_inv ?s \<and> co_workers ?s = []" by simp
  have "keeps idle_step (bindS (RecoverInterruptedJobs now LocalID) (\<lambda>_. Loader_Bootstrap env now LocalID))"
    by (intro keeps_intro idle_order idle_recover idle_jobless jobless_bootstrap)
  then have "core_good ?s (restartCore env now s)" using i by (simp add: keeps_def idle_step_def restartCore_def quietly_def)
  then show ?thesis by (simp add: core_good_def)
qed

lemma expire_simps:
  "wk_Job (expire jid w) = wk_Job w" "wk_Server (expire jid w) = wk_Server w" "wk_PC (expire jid w) = wk_PC w"
  "wk_Ctx (expire jid w) = (if wk_Job w = jid \<and> wk_Ctx w = CtxLive then CtxExpired else wk_Ctx w)"
  by (simp_all add: expire_def)

lemma expire_good:
  assumes inv: "core_inv s"
  shows "core_good s (s\<lparr>co_workers := map (expire jid) (co_workers s)\<rparr>)"
proof -
  have "jobs_inv (co_jobs s) (map (expire jid) (co_workers s)) (co_tails s)"
    by (rule inv_workers [OF inv]) (simp add: expire_simps waiting_def)
  moreover have "ended_stay (co_jobs s) (co_jobs s)" using inv ended_same by (simp add: jobs_inv_def)
  ultimately show ?thesis by (simp add: core_good_def)
qed

lemma late_simps:
  "wk_Job (late jid w) = wk_Job w" "wk_Server (late jid w) = wk_Server w" "wk_PC (late jid w) = wk_PC w" "wk_Ctx (late jid w) = wk_Ctx w"
  by (simp_all add: late_def)

lemma late_good:
  assumes inv: "core_inv s"
  shows "core_good s (s\<lparr>co_workers := map (late jid) (co_workers s)\<rparr>)"
proof -
  have "jobs_inv (co_jobs s) (map (late jid) (co_workers s)) (co_tails s)"
    by (rule inv_workers [OF inv]) (simp add: late_simps waiting_def)
  moreover have "ended_stay (co_jobs s) (co_jobs s)" using inv ended_same by (simp add: jobs_inv_def)
  ultimately show ?thesis by (simp add: core_good_def)
qed

lemma core_step_good: "core_step env s s' \<Longrightarrow> core_inv s \<Longrightarrow> core_good s s'"
proof (induction rule: core_step.induct)
  case (Task call s name kind payload work)
  then show ?case using goodAct_start(2) [of call name kind payload work] unfolding goodAct_def by blast
qed (simp_all add: handle_good tail_good advance_good expire_good late_good restart_good good_jobless [OF _ jobless_sync])

lemma reachable_inv: "(core_step env)\<^sup>*\<^sup>* s s' \<Longrightarrow> core_inv s \<Longrightarrow> core_inv s'"
  by (induction rule: rtranclp_induct) (auto dest: core_step_good simp: core_good_def)

lemma start_inv: "core_start s \<Longrightarrow> core_inv s"
  by (simp add: core_start_def jobs_inv_def)


section \<open>The workers end\<close>

fun pc_left :: "worker_pc \<Rightarrow> nat" where
  "pc_left AtStart = 6"
| "pc_left AtWork = 5"
| "pc_left (AtCheck _ _) = 4"
| "pc_left AtSuccess = 3"
| "pc_left (AtRecord _) = 2"
| "pc_left AtDone = 1"
| "pc_left AtExit = 0"

lemma find_setPC: "find (\<lambda>w. wk_Job w = jid) (map (setPC k pc) ws) = map_option (setPC k pc) (find (\<lambda>w. wk_Job w = jid) ws)"
  by (induction ws) (simp_all add: setPC_simps)

lemma stmt_quiet: "co_faults s = [] \<Longrightarrow> stmt act s = act s"
  by (simp add: stmt_def)

lemma update_quiet:
  "co_faults s = [] \<Longrightarrow> quietly (job_UpdateState now srv jid st out err) s = s\<lparr>co_jobs := map (updateJob now srv jid st out err) (co_jobs s)\<rparr>"
  by (simp add: quietly_def job_UpdateState_def stmt_quiet)

lemma modules_quiet:
  "co_faults s = [] \<Longrightarrow> co_faults (quietly (mod_Upsert srv rec) s) = []" "co_faults s = [] \<Longrightarrow> co_faults (quietly (mod_UpdateState now srv mid st) s) = []"
  by (simp_all add: quietly_def mod_Upsert_def mod_UpdateState_def stmt_quiet)

lemma onSuccess_quiet: "co_faults s = [] \<Longrightarrow> co_faults (onSuccess now srv lt c v s) = []"
  by (auto simp: onSuccess_def publishEvent_def modules_quiet split: completion.split)

lemma askVersion_frame: "askVersion env c s = (v, s') \<Longrightarrow> co_faults s' = co_faults s \<and> co_modules s' = co_modules s"
  by (auto simp: askVersion_def detectedVersion_def callM_def split: completion.splits prod.splits option.splits sum.splits)

lemma worker_step_quiet:
  assumes q: "co_faults s = []" and r: "worker_step env now w s = (pc, s')" and x: "wk_PC w \<noteq> AtExit"
  shows "co_faults s' = [] \<and> co_workers s' = co_workers s \<and> pc_left pc < pc_left (wk_PC w) \<and>
    (pc = AtExit \<longrightarrow> \<not> wk_Late w \<longrightarrow> (\<exists>st out err. st \<noteq> JobPending \<and> st \<noteq> JobRunning \<and>
       co_jobs s' = map (updateJob now (wk_Server w) (wk_Job w) st out err) (co_jobs s)))"
proof (cases "wk_PC w")
  case AtStart
  then show ?thesis using r q by (auto simp: worker_step_def update_quiet split: if_splits)
next
  case AtWork
  then show ?thesis using r q by (auto simp: worker_step_def split: prod.splits)
next
  case (AtCheck out res)
  then show ?thesis using r q
    by (cases res) (auto simp: worker_step_def update_quiet notify_def publishEvent_def split: if_splits; blast)+
next
  case AtSuccess
  then show ?thesis using r q jobless_askVersion askVersion_frame by (fastforce simp: worker_step_def jobless_def split: prod.splits)
next
  case (AtRecord v)
  then show ?thesis using r q jobless_onSuccess [of s now "wk_Server w" "wk_Late w" "wk_Then w" v] onSuccess_quiet [OF q]
    by (auto simp: worker_step_def jobless_def)
next
  case AtDone
  then show ?thesis using r q by (auto simp: worker_step_def update_quiet notify_def publishEvent_def split: if_splits; blast)
qed (use x in simp)

lemma worker_ends:
  assumes "core_inv s" "co_faults s = []" "find (\<lambda>w. wk_Job w = jid) (co_workers s) = Some w" "wk_PC w \<noteq> AtExit"
  shows "\<exists>n \<le> pc_left (wk_PC w). (\<not> wk_Late w \<longrightarrow> (\<forall>j \<in> set (co_jobs ((advance env now jid ^^ n) s)). jb_ID j = jid \<longrightarrow> finished j)) \<and>
    (\<exists>v. find (\<lambda>w. wk_Job w = jid) (co_workers ((advance env now jid ^^ n) s)) = Some v \<and> wk_PC v = AtExit)"
  using assms
proof (induction "pc_left (wk_PC w)" arbitrary: s w rule: less_induct)
  case less
  note the = the_worker [OF less.prems(1,3)]
  obtain pc s' where r: "worker_step env now w s = (pc, s')" by fastforce
  note q = worker_step_quiet [OF less.prems(2) r less.prems(4)]
  let ?t = "advance env now jid s"
  have t: "?t = s'\<lparr>co_workers := map (setPC jid pc) (co_workers s')\<rparr>" using less.prems(3,4) r by (simp add: advance_def)
  have f: "find (\<lambda>w. wk_Job w = jid) (co_workers ?t) = Some (setPC jid pc w)" using q less.prems(3) by (simp add: t find_setPC)
  have p: "wk_PC (setPC jid pc w) = pc" using the(2) by (simp add: setPC_simps)
  have inv: "core_inv ?t" using advance_good [OF less.prems(1)] by (simp add: core_good_def)
  have n: "co_faults ?t = []" using q by (simp add: t)
  have step: "(advance env now jid ^^ Suc k) s = (advance env now jid ^^ k) ?t" for k by (simp add: funpow_Suc_right del: funpow.simps)
  show ?case
  proof (cases "pc = AtExit")
    case True
    have "finished j" if l: "\<not> wk_Late w" and j: "j \<in> set (co_jobs ?t)" "jb_ID j = jid" for j
    proof -
      from True l obtain st out err where u: "st \<noteq> JobPending" "st \<noteq> JobRunning" "co_jobs ?t = map (updateJob now (wk_Server w) jid st out err) (co_jobs s)"
        using q the(2) by (auto simp: t)
      from j(1) u(3) obtain k where k: "k \<in> set (co_jobs s)" "j = updateJob now (wk_Server w) jid st out err k" by auto
      have "jb_ID k = jid" using k(2) j(2) by (auto split: if_splits)
      then have "jb_Server k = wk_Server w" using less.prems(1) the(1,2) k(1) by (simp add: jobs_inv_def)
      then show ?thesis using k(2) \<open>jb_ID k = jid\<close> u(1,2) by (cases st) (simp_all add: sameJob_def finished_def)
    qed
    then show ?thesis using f p True step [of 0] less.prems(4) q by (intro exI [of _ "Suc 0"]) (cases "wk_PC w"; simp)
  next
    case False
    from less.hyps [OF _ inv n f] q p False obtain k where k: "k \<le> pc_left pc"
      "\<not> wk_Late (setPC jid pc w) \<longrightarrow> (\<forall>j \<in> set (co_jobs ((advance env now jid ^^ k) ?t)). jb_ID j = jid \<longrightarrow> finished j)"
      "\<exists>v. find (\<lambda>w. wk_Job w = jid) (co_workers ((advance env now jid ^^ k) ?t)) = Some v \<and> wk_PC v = AtExit" by auto
    then show ?thesis using q by (intro exI [of _ "Suc k"]) (simp add: step setPC_simps del: funpow.simps)
  qed
qed

section \<open>Properties\<close>

text \<open>C36. Over any history of requests, tails, worker steps, expiring contexts, detections and restarts, with any
  failing statements, job identifiers stay unique, no two workers share a job, and every row is well formed: a pending job has progress 0
  and no times, a running one progress 10, a start and no end, a successful one progress 100, and every ended one its end.\<close>

theorem job_rows_well_formed:
  assumes "core_start s" "(core_step env)\<^sup>*\<^sup>* s s'"
  shows "distinct (map jb_ID (co_jobs s')) \<and> distinct (map wk_Job (co_workers s')) \<and> list_all job_ok (co_jobs s')"
  using reachable_inv [OF assms(2) start_inv [OF assms(1)]] by (simp add: jobs_inv_def)

text \<open>C34. A job that has ended stays ended: no later step of any kind, a cancellation or a late worker
  included, takes it back to pending or running.\<close>

theorem ended_jobs_stay_ended:
  assumes "core_start s0" "(core_step env)\<^sup>*\<^sup>* s0 s" "core_step env s s'"
    "j \<in> set (co_jobs s)" "finished j" "j' \<in> set (co_jobs s')" "jb_ID j' = jb_ID j"
  shows "finished j'"
  using core_step_good [OF assms(3) reachable_inv [OF assms(2) start_inv [OF assms(1)]]] assms(4-7)
  unfolding core_good_def ended_stay_def by blast

text \<open>C35. A worker left to itself ends: from any reachable state, with a working database and modules whose calls return, at most seven of
  its own steps remove it, whatever the module answers and whatever has happened to the context of the work, and its job has
  ended then, unless the five seconds of the context of its last statements were over.\<close>

theorem every_worker_ends:
  assumes "core_start s0" "(core_step env)\<^sup>*\<^sup>* s0 s" "co_faults s = []" "w \<in> set (co_workers s)" "wk_PC w \<noteq> AtExit"
  shows "\<exists>n \<le> 7. wk_Job w \<notin> wk_Job ` set (co_workers ((advance env now (wk_Job w) ^^ n) s)) \<and>
    (wk_Late w \<or> list_all (\<lambda>j. jb_ID j = wk_Job w \<longrightarrow> finished j) (co_jobs ((advance env now (wk_Job w) ^^ n) s)))"
proof -
  have inv: "core_inv s" by (rule reachable_inv [OF assms(2) start_inv [OF assms(1)]])
  note v = find_worker [OF inv assms(4)]
  from worker_ends [OF inv assms(3) v assms(5), of env now] obtain n u where n: "n \<le> pc_left (wk_PC w)"
    "\<not> wk_Late w \<longrightarrow> (\<forall>j \<in> set (co_jobs ((advance env now (wk_Job w) ^^ n) s)). jb_ID j = wk_Job w \<longrightarrow> finished j)"
    "find (\<lambda>x. wk_Job x = wk_Job w) (co_workers ((advance env now (wk_Job w) ^^ n) s)) = Some u" "wk_PC u = AtExit" by blast
  let ?t = "(advance env now (wk_Job w) ^^ n) s"
  have "advance env now (wk_Job w) ?t = ?t\<lparr>co_workers := filter (\<lambda>x. wk_Job x \<noteq> wk_Job w) (co_workers ?t)\<rparr>" using n(3,4) by (simp add: advance_def)
  moreover have "n \<le> 6" using n(1) by (cases "wk_PC w") simp_all
  ultimately show ?thesis using n(2) by (intro exI [of _ "Suc n"]) (auto simp: list_all_iff)
qed


section \<open>Servers\<close>

definition tailServer :: "tail \<Rightarrow> string" where
  "tailServer t = (case t of MarkState srv _ _ _ _ \<Rightarrow> srv | MarkCanceled srv _ _ \<Rightarrow> srv)"

text \<open>The rows of the other servers are the same, and what is left to be done later, by a tail or by a worker, is for this server.\<close>

definition others_same :: "string \<Rightarrow> 'w core \<Rightarrow> 'w core \<Rightarrow> bool" where
  "others_same srv s s' =
     (filter (\<lambda>j. jb_Server j \<noteq> srv) (co_jobs s') = filter (\<lambda>j. jb_Server j \<noteq> srv) (co_jobs s) \<and>
      filter (\<lambda>r. mr_Server r \<noteq> srv) (co_modules s') = filter (\<lambda>r. mr_Server r \<noteq> srv) (co_modules s) \<and>
      (\<forall>t \<in> set (co_tails s'). t \<in> set (co_tails s) \<or> tailServer t = srv) \<and>
      (\<forall>w \<in> set (co_workers s'). wk_Server w = srv \<or> (\<exists>v \<in> set (co_workers s). wk_Job v = wk_Job w \<and> wk_Server v = wk_Server w)))"

lemma others_refl [intro, simp]: "reflp (others_same srv)" "others_same srv s s"
  by (auto simp: others_same_def reflp_def)

lemma others_trans: "transp (others_same srv)"
proof (rule transpI)
  fix a b c :: "'a core" assume ab: "others_same srv a b" and bc: "others_same srv b c"
  have "t \<in> set (co_tails a) \<or> tailServer t = srv" if "t \<in> set (co_tails c)" for t using ab bc that unfolding others_same_def by blast
  moreover have "wk_Server w = srv \<or> (\<exists>v \<in> set (co_workers a). wk_Job v = wk_Job w \<and> wk_Server v = wk_Server w)" if w: "w \<in> set (co_workers c)" for w
  proof (cases "wk_Server w = srv")
    case False
    then obtain v where v: "v \<in> set (co_workers b)" "wk_Job v = wk_Job w" "wk_Server v = wk_Server w" using bc w unfolding others_same_def by blast
    then show ?thesis using ab False unfolding others_same_def by metis
  qed simp
  ultimately show "others_same srv a c" using ab bc unfolding others_same_def by simp
qed

lemmas others_order [intro, simp] = others_refl(1) others_trans others_refl(2)

lemma others_stmt: "keeps (others_same srv) act \<Longrightarrow> keeps (others_same srv) (stmt act)"
  by (rule keeps_stmt) (auto simp: others_same_def)

lemma filter_others: "(\<And>x. \<not> P x \<Longrightarrow> g x = x) \<Longrightarrow> (\<And>x. P x \<Longrightarrow> P (g x)) \<Longrightarrow> filter (\<lambda>x. \<not> P x) (map g xs) = filter (\<lambda>x. \<not> P x) xs"
  by (induction xs) auto

lemma others_tables [keeps_intro]:
  "keeps (others_same srv) (mod_FindByID srv mid)" "keeps (others_same srv) (mod_ListAll srv)" "keeps (others_same srv) (mod_Upsert srv rec)"
  "keeps (others_same srv) (mod_UpdateState now srv mid st)" "keeps (others_same srv) (job_FindByID srv jid)" "keeps (others_same srv) (job_Create srv job)"
  "keeps (others_same srv) (job_UpdateState now srv jid js out err)" "keeps (others_same srv) (job_ListByState srv js)" "keeps (others_same srv) (job_Delete srv jid)"
  "keeps (others_same srv) (job_List srv f)"
proof -
  have m: "filter (\<lambda>r. mr_Server r \<noteq> srv) (map (\<lambda>r. if sameModule srv mid r then g r else r) rs) = filter (\<lambda>r. mr_Server r \<noteq> srv) rs"
    if "\<And>r. mr_Server r = srv \<Longrightarrow> mr_Server (g r) = srv" for mid g rs
    by (rule filter_others) (auto simp: sameModule_def that)
  have j: "filter (\<lambda>r. jb_Server r \<noteq> srv) (map (\<lambda>r. if sameJob srv jid r then g r else r) rs) = filter (\<lambda>r. jb_Server r \<noteq> srv) rs"
    if "\<And>r. jb_Server r = srv \<Longrightarrow> jb_Server (g r) = srv" for jid g rs
    by (rule filter_others) (auto simp: sameJob_def that)
  show "keeps (others_same srv) (mod_FindByID srv mid)" "keeps (others_same srv) (mod_ListAll srv)" "keeps (others_same srv) (job_FindByID srv jid)"
    "keeps (others_same srv) (job_ListByState srv js)"
    unfolding mod_FindByID_def mod_ListAll_def job_FindByID_def job_ListByState_def
    by (rule others_stmt; rule keepsI; simp split: option.split)+
  show "keeps (others_same srv) (mod_Upsert srv rec)"
    unfolding mod_Upsert_def by (rule others_stmt, rule keepsI) (auto simp: others_same_def m)
  show "keeps (others_same srv) (mod_UpdateState now srv mid st)"
    unfolding mod_UpdateState_def by (rule others_stmt, rule keepsI) (auto simp: others_same_def m)
  show "keeps (others_same srv) (job_UpdateState now srv jid js out err)"
    unfolding job_UpdateState_def by (rule others_stmt, rule keepsI) (auto simp: others_same_def j)
  show "keeps (others_same srv) (job_Create srv job)"
    unfolding job_Create_def by (rule others_stmt, rule keepsI) (auto simp: others_same_def)
  have "filter (\<lambda>r. jb_Server r \<noteq> srv) (filter (\<lambda>j. \<not> (sameJob srv jid j \<and> finished j)) rs) = filter (\<lambda>r. jb_Server r \<noteq> srv) rs" for rs
    by (induction rs) (auto simp: sameJob_def)
  then show "keeps (others_same srv) (job_Delete srv jid)"
    unfolding job_Delete_def by (intro others_stmt keepsI) (auto simp: others_same_def)
  show "keeps (others_same srv) (job_List srv f)"
    unfolding job_List_def by (intro keeps_intro others_order others_stmt) (simp_all add: keeps_def)
qed

lemma others_free: "co_jobs s' = co_jobs s \<Longrightarrow> co_modules s' = co_modules s \<Longrightarrow> co_tails s' = co_tails s \<Longrightarrow> co_workers s' = co_workers s \<Longrightarrow> others_same srv s s'"
  by (auto simp: others_same_def)

lemma others_effects [keeps_intro]:
  "keeps (others_same srv) (callM f)" "keeps (others_same srv) (effect (publishEvent kind v))" "keeps (others_same srv) (effect (mod_recordAudit user action resource ok))"
  by (auto intro!: keepsI others_free simp: callM_def effect_def publishEvent_def mod_recordAudit_def quietly_def stmt_def
      split: prod.split list.split)

lemma others_later [keeps_intro]:
  "tailServer t = srv \<Longrightarrow> keeps (others_same srv) (later t)"
  "wk_Server w = srv \<Longrightarrow> keeps (others_same srv) (effect (\<lambda>s. s\<lparr>co_workers := co_workers s @ [w]\<rparr>))"
  "keeps (others_same srv) (effect (\<lambda>s. s\<lparr>co_workers := map (cancelWorker jid) (co_workers s)\<rparr>))"
  by (rule keepsI; auto simp: later_def effect_def others_same_def cancelWorker_def)+

lemma others_find [keeps_intro]: "keeps (others_same srv) (findModule env mid)" "keeps (others_same srv) (provider env sel mid)"
  "keeps (others_same srv) (plainCall f)" "keeps (others_same srv) (mod_backupCritical env call verb mid)"
  unfolding findModule_def provider_def plainCall_def mod_backupCritical_def by (intro keeps_intro others_order)+

lemma others_bound: "keeps R m \<Longrightarrow> keeps R (\<lambda>s. case m s of (r, s') \<Rightarrow> (g r, s'))"
  by (simp add: keeps_def split_beta)

lemma others_recorded [keeps_intro]: "keeps (others_same srv) (recordedState srv mid)"
  unfolding recordedState_def by (rule others_bound) (rule others_tables)

lemma others_start [keeps_intro]: "srv = mc_server call \<Longrightarrow> keeps (others_same srv) (startJob env call kind mid work c)"
  unfolding startJob_def by (simp, intro keeps_intro others_order) simp

lemma others_audit: "others_same srv s (mod_recordAudit user action resource ok s)"
  by (auto intro!: others_free simp: mod_recordAudit_def quietly_def stmt_def split: list.split)

lemma others_preset [keeps_intro]: "keeps (others_same srv) (auditedPreset call verb mid preset work)"
proof (rule keepsI)
  fix s
  obtain r s1 where p: "plainCall work s = (r, s1)" by fastforce
  have "others_same srv s s1" by (rule keepsD [OF others_find(3) p])
  then have "others_same srv s (mod_recordAudit u a b ok s1)" for u a b ok by (rule transpD [OF others_order(2) _ others_audit])
  then show "others_same srv s (snd (auditedPreset call verb mid preset work s))"
    using p by (cases r) (simp_all add: auditedPreset_def)
qed

lemma others_cancel [keeps_intro]: "keeps (others_same srv) (\<lambda>s. if c s then (Err e, s) else m s)" if "keeps (others_same srv) m"
  using that by (simp add: keeps_def)

lemma others_requests:
  "keeps (others_same (mc_server call)) (mod_Install env call mid)" "keeps (others_same (mc_server call)) (mod_Uninstall env call mid)"
  "keeps (others_same (mc_server call)) (mod_Enable env call mid)" "keeps (others_same (mc_server call)) (mod_Disable env call mid)"
  "keeps (others_same (mc_server call)) (mod_Restart env call mid)" "keeps (others_same (mc_server call)) (mod_ExecuteAction env call mid a)"
  "keeps (others_same (mc_server call)) (mod_List env call)" "keeps (others_same (mc_server call)) (CancelJob call jid)"
  "keeps (others_same (mc_server call)) (DeleteJob call jid)" "keeps (others_same (mc_server call)) (mod_ListJobs call f)"
  unfolding mod_Install_def mod_Uninstall_def mod_Enable_def mod_Disable_def mod_Restart_def mod_ExecuteAction_def mod_List_def mod_switch_def
    CancelJob_def DeleteJob_def mod_ListJobs_def
  by (intro keeps_intro others_order refl; simp add: tailServer_def)+

lemma others_retry: "keeps (others_same (mc_server call)) (RetryJob env call jid)"
proof -
  have "keeps (others_same (mc_server call)) (if jb_Type job = JobInstall then startJob env call JobInstall mid (cm_Install m) (RetriedInstall mid (cm_Name m))
           else if jb_Type job = JobUninstall then startJob env call JobUninstall mid (cm_Uninstall m) (RetriedUninstall mid)
           else failS (InvalidTask ''task type does not support retry''))" for job mid m
    by (simp add: keeps_intro)
  then show ?thesis unfolding RetryJob_def by (intro keeps_intro others_order) (auto intro!: keeps_intro)
qed

lemma others_queries:
  "keeps (others_same (mc_server call)) (mod_Get env call mid)" "keeps (others_same srv) (mod_Status env mid)"
proof -
  show "keeps (others_same (mc_server call)) (mod_Get env call mid)"
    unfolding mod_Get_def by (intro keeps_intro others_order others_bound)
  have "keeps (others_same srv) (\<lambda>s. case callM (cm_HealthCheck m) s of (Inl _, s1) \<Rightarrow> (setHealth ''error'' st, s1) | (Inr None, s1) \<Rightarrow> (Ok st, s1)
      | (Inr (Some health), s1) \<Rightarrow> (setHealth health st, s1))" for m :: "'b contract_module" and st
    using keepsD [OF others_effects(1)] by (auto intro!: keepsI split: prod.split sum.split option.split)
  then show "keeps (others_same srv) (mod_Status env mid)" unfolding mod_Status_def by (intro keeps_intro others_order)
qed

lemma others_dynamic:
  "keeps (others_same srv) (GetDataGridSchema env mid page)" "keeps (others_same srv) (GetDataGridData env mid page)"
  "keeps (others_same srv) (ExecuteDataGridAction env mid page a payload)" "keeps (others_same srv) (SaveModuleSettings env mid settings)"
  "keeps (others_same srv) (ProtectionPresets env mid)" "keeps (others_same srv) (PreviewProtectionPreset env mid preset settings)"
  "keeps (others_same srv) (SaveProtectionPreset env call mid preset settings)" "keeps (others_same srv) (ResetProtectionPreset env call mid preset)"
  "keeps (others_same srv) (SetProtectionPresetEnabled env call mid preset on)" "keeps (others_same srv) (ReadModuleLog env mid l n)"
  "keeps (others_same srv) (ClearModuleLog env mid l)"
  unfolding GetDataGridSchema_def GetDataGridData_def ExecuteDataGridAction_def SaveModuleSettings_def ProtectionPresets_def
    PreviewProtectionPreset_def SaveProtectionPreset_def ResetProtectionPreset_def SetProtectionPresetEnabled_def ReadModuleLog_def ClearModuleLog_def
  by (intro keeps_intro others_order)+

lemma others_body: "(\<And>b. keeps (others_same srv) (f b)) \<Longrightarrow> keeps (others_same srv) (withBody body f)"
  unfolding withBody_def by (intro keeps_intro others_order)

lemma others_answer: "keeps R act \<Longrightarrow> R s (snd (answer n act s))"
  by (simp add: answer_state keeps_def)

lemma others_handle: "others_same (mc_server call) s (snd (handle_module env call req s))"
proof (cases req)
  case (RPreview mid p body)
  have "keeps (others_same (mc_server call)) (withBody body (\<lambda>b. bindS (PreviewProtectionPreset env mid p b) (\<lambda>_. retS ())))"
    by (intro others_body keeps_intro others_order others_dynamic)
  then show ?thesis using RPreview others_answer by (simp add: handle_defs)
qed (simp_all add: handle_defs others_answer others_requests others_retry others_queries others_dynamic others_tables others_body)

lemma others_quietly: "keeps (others_same srv) act \<Longrightarrow> others_same srv s (quietly act s)"
  by (simp add: keeps_def quietly_def)

lemma others_tail: "others_same (tailServer t) s (runTail now t s)"
proof (cases t)
  case (MarkState srv mid st user action)
  then show ?thesis
    using transpD [OF others_trans others_quietly [OF others_tables(4)] others_audit] by (simp add: runTail_def tailServer_def)
qed (simp add: runTail_def tailServer_def others_quietly [OF others_tables(7)])

lemma others_publish: "others_same srv s (publishEvent kind v s)" "others_same srv s (notify w kind s)"
  by (auto intro!: others_free simp: publishEvent_def notify_def)

lemma others_onSuccess: "others_same srv s (onSuccess now srv lt c v s)"
proof -
  have "others_same srv s (publishEvent kind mid u)" if "others_same srv s u" for kind mid u
    by (rule transpD [OF others_trans that others_publish(1)])
  moreover have "others_same srv s (quietly (mod_Upsert srv rec) s)" "others_same srv s (quietly (mod_UpdateState now srv mid st) s)" for rec mid st
    by (rule others_quietly [OF others_tables(3)], rule others_quietly [OF others_tables(4)])
  ultimately show ?thesis by (cases c) (simp_all add: onSuccess_def)
qed

lemma others_askVersion: "askVersion env c s = (v, s') \<Longrightarrow> others_same srv s s'"
  using jobless_askVersion [of env c s v s'] askVersion_frame [of env c s v s'] by (auto intro!: others_free simp: jobless_def)

lemma others_worker:
  assumes "worker_step env now w s = (pc, s')"
  shows "others_same (wk_Server w) s s'"
proof -
  have u: "others_same (wk_Server w) s (quietly (job_UpdateState now (wk_Server w) (wk_Job w) st out err) s)" for st out err
    by (rule others_quietly [OF others_tables(7)])
  have n: "others_same (wk_Server w) s (notify w kind x)" if "others_same (wk_Server w) s x" for kind x
    by (rule transpD [OF others_trans that others_publish(2)])
  show ?thesis
  proof (cases "wk_PC w")
    case (AtCheck out e)
    then show ?thesis using assms u n by (cases e) (auto simp: worker_step_def split: if_splits)
  next
    case AtSuccess
    then show ?thesis using assms others_askVersion by (fastforce simp: worker_step_def split: prod.splits)
  qed (use assms u n others_onSuccess in \<open>auto simp: worker_step_def intro: others_free split: prod.splits\<close>)
qed

text \<open>The rows of a server.\<close>

definition rows_of :: "string \<Rightarrow> 'w core \<Rightarrow> ModuleJob list \<times> ModuleRecord list" where
  "rows_of srv s = (filter (\<lambda>j. jb_Server j = srv) (co_jobs s), filter (\<lambda>r. mr_Server r = srv) (co_modules s))"

lemma others_rows:
  assumes "others_same other s s'" "srv \<noteq> other"
  shows "rows_of srv s' = rows_of srv s"
proof -
  have "filter (\<lambda>j. jb_Server j = srv) (filter (\<lambda>j. jb_Server j \<noteq> other) js) = filter (\<lambda>j. jb_Server j = srv) js" for js
    using assms(2) by (induction js) auto
  moreover have "filter (\<lambda>r. mr_Server r = srv) (filter (\<lambda>r. mr_Server r \<noteq> other) rs) = filter (\<lambda>r. mr_Server r = srv) rs" for rs
    using assms(2) by (induction rs) auto
  ultimately show ?thesis using assms(1) unfolding others_same_def rows_of_def by metis
qed



section \<open>Restarts\<close>

lemma markInterrupted_Cons:
  "markInterrupted now srv (j # js) = bindS (job_UpdateState now srv (jb_ID j) JobError (jb_Output j) interruptedMessage) (\<lambda>_. markInterrupted now srv js)"
  by (rule ext) simp

lemma keeps_mark:
  assumes "reflp R" "transp R" "\<And>j :: ModuleJob. keeps R (job_UpdateState now srv (jb_ID j) JobError (jb_Output j) interruptedMessage)"
  shows "keeps R (markInterrupted now srv js)"
proof (induction js)
  case (Cons j js)
  then show ?case using assms unfolding markInterrupted_Cons by (intro keeps_intro)
qed (use assms(1) in \<open>simp add: keeps_def reflp_def\<close>)

lemma others_restart: "keeps (others_same srv) (bindS (RecoverInterruptedJobs now srv) (\<lambda>_. Loader_Bootstrap env now srv))"
  unfolding RecoverInterruptedJobs_def by (intro keeps_intro others_order keeps_mark keeps_bootstrap)

lemma find_job:
  assumes "distinct (map jb_ID js)" "j \<in> set js"
  shows "find (sameJob (jb_Server j) (jb_ID j)) js = Some j"
proof (cases "find (sameJob (jb_Server j) (jb_ID j)) js")
  case None
  then show ?thesis using assms(2) by (auto simp: find_None_iff sameJob_def)
next
  case (Some k)
  then have "k \<in> set js" "jb_ID k = jb_ID j" by (auto simp: find_Some_iff sameJob_def)
  then show ?thesis using Some assms by (metis distinct_map inj_onD)
qed

text \<open>An unfinished job without a worker can be neither cancelled nor deleted nor retried.\<close>

lemma orphan_refused:
  assumes d: "distinct (map jb_ID (co_jobs t))" and j: "j \<in> set (co_jobs t)" "\<not> finished j" "mc_server call = jb_Server j"
    and w: "\<not> list_ex (\<lambda>w. wk_Job w = jb_ID j) (co_workers t)"
  shows "fst (handle_module env call (RCancelJob (jb_ID j)) t) \<in> {409, 500}" "fst (handle_module env call (RDeleteJob (jb_ID j)) t) \<in> {409, 500}"
    "fst (handle_module env call (RRetryJob (jb_ID j)) t) \<in> {409, 500}"
proof -
  have st: "jb_State j = JobPending \<or> jb_State j = JobRunning" using j(2) by (cases "jb_State j") (auto simp: finished_def)
  have "\<exists>fs. job_FindByID (mc_server call) (jb_ID j) t = (Ok j, t\<lparr>co_faults := fs\<rparr>) \<or> (\<exists>u. job_FindByID (mc_server call) (jb_ID j) t = (Err DatabaseError, u))"
  proof (cases "co_faults t")
    case Nil
    then have "t = t\<lparr>co_faults := []\<rparr>" by simp
    then show ?thesis using find_job [OF d j(1)] j(3) Nil by (intro exI [of _ "[]"]) (simp add: job_FindByID_def stmt_def)
  next
    case (Cons b fs)
    then show ?thesis using find_job [OF d j(1)] j(3) by (intro exI [of _ fs]) (simp add: job_FindByID_def stmt_def)
  qed
  then obtain fs u where f: "job_FindByID (mc_server call) (jb_ID j) t = (Ok j, t\<lparr>co_faults := fs\<rparr>) \<or> job_FindByID (mc_server call) (jb_ID j) t = (Err DatabaseError, u)" by blast
  show "fst (handle_module env call (RCancelJob (jb_ID j)) t) \<in> {409, 500}"
    using f st w by (auto simp: handle_defs answer_def CancelJob_def bindS_def mod_status_def)
  show "fst (handle_module env call (RRetryJob (jb_ID j)) t) \<in> {409, 500}"
    using f st by (auto simp: handle_defs answer_def RetryJob_def bindS_def mod_status_def)
  have n: "\<not> list_ex (\<lambda>k. sameJob (mc_server call) (jb_ID j) k \<and> finished k) (co_jobs t)"
    using d j(1,2) by (auto simp: list_ex_iff sameJob_def) (metis distinct_map inj_onD)
  show "fst (handle_module env call (RDeleteJob (jb_ID j)) t) \<in> {409, 500}"
    using f n by (auto simp: handle_defs answer_def DeleteJob_def bindS_def mod_status_def job_Delete_def stmt_def split: list.split)
qed

text \<open>C39. A restart of the Core takes no notice of the jobs of remote servers: one that was pending or running stays so
  without a worker, and from then on it can be neither cancelled nor deleted nor retried.\<close>

theorem remote_jobs_stuck_after_restart:
  assumes "core_start s0" "(core_step env)\<^sup>*\<^sup>* s0 s" "j \<in> set (co_jobs s)" "jb_Server j \<noteq> LocalID" "\<not> finished j" "mc_server call = jb_Server j"
  shows "j \<in> set (co_jobs (restartCore env now s)) \<and> co_workers (restartCore env now s) = [] \<and>
    fst (handle_module env call (RCancelJob (jb_ID j)) (restartCore env now s)) \<in> {409, 500} \<and>
    fst (handle_module env call (RDeleteJob (jb_ID j)) (restartCore env now s)) \<in> {409, 500} \<and>
    fst (handle_module env call (RRetryJob (jb_ID j)) (restartCore env now s)) \<in> {409, 500}"
proof -
  let ?s = "s\<lparr>co_workers := [], co_tails := []\<rparr>" and ?t = "restartCore env now s"
  have inv: "core_inv s" by (rule reachable_inv [OF assms(2) start_inv [OF assms(1)]])
  have d: "distinct (map jb_ID (co_jobs ?t))" using restart_good [OF inv] by (simp add: core_good_def jobs_inv_def)
  have "others_same LocalID ?s ?t" using others_restart [of LocalID now env] by (simp add: keeps_def restartCore_def quietly_def)
  then have "filter (\<lambda>j. jb_Server j \<noteq> LocalID) (co_jobs ?t) = filter (\<lambda>j. jb_Server j \<noteq> LocalID) (co_jobs s)" by (simp add: others_same_def)
  moreover have "j \<in> set (filter (\<lambda>j. jb_Server j \<noteq> LocalID) (co_jobs s))" using assms(3,4) by simp
  ultimately have "j \<in> set (filter (\<lambda>j. jb_Server j \<noteq> LocalID) (co_jobs ?t))" by simp
  then have j: "j \<in> set (co_jobs ?t)" by simp
  have "core_inv ?s \<and> co_workers ?s = []" using inv by (auto simp: jobs_inv_def)
  moreover have "keeps idle_step (bindS (RecoverInterruptedJobs now LocalID) (\<lambda>_. Loader_Bootstrap env now LocalID))"
    by (intro keeps_intro idle_order idle_recover idle_jobless jobless_bootstrap)
  ultimately have w: "co_workers ?t = []" by (simp add: restartCore_def quietly_def keeps_def idle_step_def)
  then show ?thesis using orphan_refused [OF d j assms(5,6), of env] j by simp
qed


lemma late_worker_steps:
  assumes inv: "core_inv s" and w: "w \<in> set (co_workers s)" "wk_PC w = AtRecord v" "wk_Late w"
  shows "co_modules ((advance env now (wk_Job w) ^^ 3) s) = co_modules s \<and> co_jobs ((advance env now (wk_Job w) ^^ 3) s) = co_jobs s \<and>
    wk_Job w \<notin> wk_Job ` set (co_workers ((advance env now (wk_Job w) ^^ 3) s))"
proof -
  let ?u = "onSuccess now (wk_Server w) True (wk_Then w) v s" and ?jid = "wk_Job w"
  have u: "co_modules ?u = co_modules s" "co_jobs ?u = co_jobs s" "co_workers ?u = co_workers s"
    using jobless_onSuccess [of s now "wk_Server w" True "wk_Then w" v]
    by (auto simp: jobless_def onSuccess_def publishEvent_def split: completion.split)
  note f = find_worker [OF inv w(1)]
  let ?s1 = "advance env now ?jid s" and ?s2 = "advance env now ?jid (advance env now ?jid s)"
  have s1: "?s1 = ?u\<lparr>co_workers := map (setPC ?jid AtDone) (co_workers s)\<rparr>" using f w(2,3) u(3) by (simp add: advance_def worker_step_def)
  have f1: "find (\<lambda>x. wk_Job x = ?jid) (co_workers ?s1) = Some (setPC ?jid AtDone w)" using f by (simp add: s1 find_setPC)
  have s2: "co_modules ?s2 = co_modules s \<and> co_jobs ?s2 = co_jobs s \<and> co_workers ?s2 = map (setPC ?jid AtExit) (co_workers ?s1)"
    using f1 w(3) u unfolding s1 by (auto simp: advance_def worker_step_def setPC_simps notify_def publishEvent_def)
  then have f2: "find (\<lambda>x. wk_Job x = ?jid) (co_workers ?s2) = Some (setPC ?jid AtExit (setPC ?jid AtDone w))" using f1 by (simp add: find_setPC)
  have "advance env now ?jid ?s2 = ?s2\<lparr>co_workers := filter (\<lambda>x. wk_Job x \<noteq> ?jid) (co_workers ?s2)\<rparr>"
    using f2 by (simp add: advance_def [of env now ?jid ?s2] setPC_simps)
  then show ?thesis using s2 by (auto simp: numeral_3_eq_3)
qed

text \<open>C40. The context of the last statements of a worker ends after five seconds, and the question for the version of the
  new software counts against it. A worker that comes too late leaves both tables as they were and disappears: its
  module is not recorded, and its job, unfinished, can be neither cancelled nor deleted nor retried.\<close>

theorem late_worker_strands_job:
  assumes "core_start s0" "(core_step env)\<^sup>*\<^sup>* s0 s" "w \<in> set (co_workers s)" "wk_PC w = AtRecord v" "wk_Late w"
    "j \<in> set (co_jobs s)" "jb_ID j = wk_Job w" "\<not> finished j" "mc_server call = jb_Server j"
  shows "co_modules ((advance env now (wk_Job w) ^^ 3) s) = co_modules s \<and> co_jobs ((advance env now (wk_Job w) ^^ 3) s) = co_jobs s \<and>
    wk_Job w \<notin> wk_Job ` set (co_workers ((advance env now (wk_Job w) ^^ 3) s)) \<and>
    fst (handle_module env call (RCancelJob (jb_ID j)) ((advance env now (wk_Job w) ^^ 3) s)) \<in> {409, 500} \<and>
    fst (handle_module env call (RDeleteJob (jb_ID j)) ((advance env now (wk_Job w) ^^ 3) s)) \<in> {409, 500} \<and>
    fst (handle_module env call (RRetryJob (jb_ID j)) ((advance env now (wk_Job w) ^^ 3) s)) \<in> {409, 500}"
proof -
  let ?t = "(advance env now (wk_Job w) ^^ 3) s"
  have inv: "core_inv s" by (rule reachable_inv [OF assms(2) start_inv [OF assms(1)]])
  have t: "co_modules ?t = co_modules s" "co_jobs ?t = co_jobs s" "wk_Job w \<notin> wk_Job ` set (co_workers ?t)"
    using late_worker_steps [OF inv assms(3-5), of env now] by auto
  have d: "distinct (map jb_ID (co_jobs ?t))" using inv t(2) by (simp add: jobs_inv_def)
  have n: "\<not> list_ex (\<lambda>x. wk_Job x = jb_ID j) (co_workers ?t)" using t(3) assms(7) unfolding list_ex_iff by (metis imageI)
  show ?thesis using t orphan_refused [OF d _ assms(8,9) n, of env] assms(6) by simp
qed

section \<open>Recovery\<close>

definition interrupted :: "int \<Rightarrow> ModuleJob \<Rightarrow> ModuleJob" where
  "interrupted now j = setJob now JobError (jb_Output j) interruptedMessage j"

lemma interrupted_simps [simp]: "jb_ID (interrupted now j) = jb_ID j" "jb_State (interrupted now j) = JobError" "jb_Server (interrupted now j) = jb_Server j"
  by (simp_all add: interrupted_def)

lemma mark_jobs:
  assumes "co_faults s = []" "distinct (map jb_ID (co_jobs s))" "set js \<subseteq> set (co_jobs s)" "distinct js" "\<forall>j \<in> set js. jb_Server j = srv"
  shows "markInterrupted now srv js s = (Ok (), s\<lparr>co_jobs := map (\<lambda>j. if j \<in> set js then interrupted now j else j) (co_jobs s)\<rparr>)"
  using assms
proof (induction js arbitrary: s)
  case (Cons j js)
  let ?f = "updateJob now srv (jb_ID j) JobError (jb_Output j) interruptedMessage"
  have id: "x = y" if "x \<in> set (co_jobs s)" "y \<in> set (co_jobs s)" "jb_ID x = jb_ID y" for x y
    using Cons.prems(2) that by (metis distinct_map inj_onD)
  have f: "?f x = (if x = j then interrupted now j else x)" if "x \<in> set (co_jobs s)" for x
    using id [OF that, of j] Cons.prems(3,5) by (auto simp: sameJob_def interrupted_def)
  let ?s1 = "s\<lparr>co_jobs := map ?f (co_jobs s)\<rparr>"
  have keep: "k \<in> set (co_jobs ?s1)" if "k \<in> set js" for k
  proof -
    have k: "k \<in> set (co_jobs s)" "k \<noteq> j" using that Cons.prems(3,4) by auto
    have e: "?f k = k" using f [OF k(1)] k(2) by simp
    have "?f k \<in> set (map ?f (co_jobs s))" unfolding set_map by (rule imageI [OF k(1)])
    then show ?thesis unfolding e by simp
  qed
  have "distinct (map jb_ID (map ?f (co_jobs s)))" unfolding update_ids by (rule Cons.prems(2))
  then have d: "distinct (map jb_ID (co_jobs ?s1))" by simp
  have ih: "markInterrupted now srv js ?s1 = (Ok (), ?s1\<lparr>co_jobs := map (\<lambda>j. if j \<in> set js then interrupted now j else j) (co_jobs ?s1)\<rparr>)"
    by (rule Cons.IH) (use Cons.prems d keep in auto)
  have "map (\<lambda>j. if j \<in> set js then interrupted now j else j) (map ?f (co_jobs s)) = map (\<lambda>x. if x \<in> set (j # js) then interrupted now x else x) (co_jobs s)"
    unfolding map_map
  proof (rule map_cong [OF refl])
    fix x assume x: "x \<in> set (co_jobs s)"
    have "interrupted now j \<notin> set js"
    proof
      assume a: "interrupted now j \<in> set js"
      then have "interrupted now j = j" using id [of "interrupted now j" j] Cons.prems(3) by auto
      then show False using a Cons.prems(4) by simp
    qed
    then show "((\<lambda>j. if j \<in> set js then interrupted now j else j) \<circ> ?f) x = (if x \<in> set (j # js) then interrupted now x else x)"
      using f [OF x] Cons.prems(4) by auto
  qed
  then show ?case using ih Cons.prems(1) by (simp add: bindS_def job_UpdateState_def stmt_def)
qed simp

lemma set_newest: "set (newestFirst js) = set js" "distinct (newestFirst js) = distinct js"
  by (simp_all add: newestFirst_def)

text \<open>The jobs of one state that RecoverInterruptedJobs looks at.\<close>

definition listed :: "string \<Rightarrow> job_state \<Rightarrow> ModuleJob list \<Rightarrow> ModuleJob list" where
  "listed srv st js = take 100 (newestFirst (filter (\<lambda>j. jb_State j = st \<and> jb_Server j = srv) js))"

lemma listed_mem: "j \<in> set (listed srv st js) \<Longrightarrow> j \<in> set js \<and> jb_State j = st \<and> jb_Server j = srv"
  unfolding listed_def by (auto dest!: in_set_takeD simp: set_newest)

lemma listed_distinct: "distinct (map jb_ID js) \<Longrightarrow> distinct (listed srv st js)"
  unfolding listed_def by (auto simp: set_newest distinct_map)

text \<open>C38. With a working database the recovery at the start of the Core marks as failed exactly the hundred newest pending and the
  hundred newest running jobs of the server and leaves every other row as it is; older interrupted jobs
  stay pending or running. Of rows with the same creation time the ones stored first count as newer.\<close>

theorem recovery_marks_newest:
  assumes "co_faults s = []" "distinct (map jb_ID (co_jobs s))"
  shows "RecoverInterruptedJobs now srv s = (Ok (), s\<lparr>co_jobs :=
    map (\<lambda>j. if j \<in> set (listed srv JobPending (co_jobs s)) \<union> set (listed srv JobRunning (co_jobs s))
             then setJob now JobError (jb_Output j) interruptedMessage j else j) (co_jobs s)\<rparr>)"
proof -
  let ?p = "listed srv JobPending (co_jobs s)" and ?r = "listed srv JobRunning (co_jobs s)"
  let ?f = "\<lambda>j. if j \<in> set ?p then interrupted now j else j"
  let ?s1 = "s\<lparr>co_jobs := map ?f (co_jobs s)\<rparr>"
  have m1: "markInterrupted now srv ?p s = (Ok (), ?s1)"
    by (rule mark_jobs) (use assms listed_mem listed_distinct in auto)
  have d1: "distinct (map jb_ID (co_jobs ?s1))" using assms(2) by (simp add: comp_def if_distrib cong: if_cong)
  have "filter (\<lambda>j. jb_State j = JobRunning \<and> jb_Server j = srv) (map ?f js) = filter (\<lambda>j. jb_State j = JobRunning \<and> jb_Server j = srv) js" for js
  proof (induction js)
    case (Cons j js)
    then show ?case using listed_mem [of j srv JobPending "co_jobs s"] by auto
  qed simp
  then have l: "listed srv JobRunning (co_jobs ?s1) = ?r" by (simp add: listed_def)
  have m2: "markInterrupted now srv ?r ?s1 = (Ok (), ?s1\<lparr>co_jobs := map (\<lambda>j. if j \<in> set ?r then interrupted now j else j) (co_jobs ?s1)\<rparr>)"
    by (rule mark_jobs) (use assms(1) d1 l listed_mem [of _ srv JobRunning "co_jobs ?s1"] listed_distinct [OF d1, of srv JobRunning] in auto)
  have "(\<lambda>j. if j \<in> set ?r then interrupted now j else j) \<circ> ?f = (\<lambda>j. if j \<in> set ?p \<union> set ?r then interrupted now j else j)"
  proof
    fix j
    have "interrupted now j \<notin> set ?r" using listed_mem [of "interrupted now j" srv JobRunning "co_jobs s"] by auto
    moreover have "j \<notin> set ?p \<or> j \<notin> set ?r" using listed_mem [of j srv _ "co_jobs s"] by (metis job_state.distinct(1))
    ultimately show "((\<lambda>j. if j \<in> set ?r then interrupted now j else j) \<circ> ?f) j = (if j \<in> set ?p \<union> set ?r then interrupted now j else j)" by auto
  qed
  then have j: "map (\<lambda>j. if j \<in> set ?r then interrupted now j else j) (co_jobs ?s1) = map (\<lambda>j. if j \<in> set ?p \<union> set ?r then interrupted now j else j) (co_jobs s)" by simp
  have q1: "job_ListByState srv JobPending s = (Ok ?p, s)" using assms(1) by (simp add: job_ListByState_def stmt_def listed_def)
  have q2: "job_ListByState srv JobRunning ?s1 = (Ok ?r, ?s1)" using assms(1) l by (simp add: job_ListByState_def stmt_def listed_def)
  show ?thesis using q1 q2 m1 m2 unfolding j by (simp add: RecoverInterruptedJobs_def bindS_def interrupted_def)
qed


section \<open>A module on a quick server\<close>

text \<open>The world of the example says whether the software is installed.\<close>

definition demoModule :: "bool contract_module" where
  "demoModule = \<lparr>cm_ID = ''web'', cm_Name = ''Web server'', cm_SupportsService = True, cm_Bootstrap = (\<lambda>w. (Ok (), w)),
     cm_Install = (\<lambda>_ _. (Ok (), True)), cm_Uninstall = (\<lambda>_ _. (Ok (), False)), cm_Enable = (\<lambda>w. (Ok (), w)), cm_Disable = (\<lambda>w. (Ok (), w)),
     cm_Restart = (\<lambda>w. (Ok (), w)), cm_Status = (\<lambda>w. (Ok None, w)), cm_HealthCheck = (\<lambda>w. (Ok None, w)), cm_ExecuteAction = (\<lambda>_ w. (Ok (), w)),
     cm_DataGrid = None, cm_SaveSettings = None, cm_Presets = None, cm_LogProvider = None\<rparr>"

definition demoEnv :: "bool mod_env" where
  "demoEnv = \<lparr>me_registry = [demoModule], me_backup = None, me_payload = (\<lambda>m. m), me_moduleOf = Some\<rparr>"

definition demoCall :: "string \<Rightarrow> string \<Rightarrow> mod_call" where
  "demoCall uuid srv = \<lparr>mc_now = 1, mc_stamp = ''1'', mc_uuid = uuid, mc_server = srv, mc_user = ''admin'', mc_ip = ''::1''\<rparr>"

definition demo0 :: "bool core" where
  "demo0 = \<lparr>co_modules = [\<lparr>mr_ID = ''web'', mr_Server = LocalID, mr_Name = ''Web server'', mr_State = StateAvailable, mr_Version = None, mr_Config = ''{}'',
       mr_InstalledAt = None, mr_UpdatedAt = 0\<rparr>], co_jobs = [], co_audit = [], co_events = [], co_faults = [], co_workers = [], co_tails = [], co_world = False\<rparr>"

definition demoAsked :: "string \<Rightarrow> bool core" where
  "demoAsked srv = snd (handle_module demoEnv (demoCall ''j'' srv) (RInstall ''web'') demo0)"

definition demoWorked :: "string \<Rightarrow> nat \<Rightarrow> bool core" where
  "demoWorked srv n = (advance demoEnv 2 ''j'' ^^ n) (demoAsked srv)"

definition demoLate :: "bool core" where
  "demoLate = runTail 3 (hd (co_tails (demoWorked LocalID 7))) ((demoWorked LocalID 7)\<lparr>co_tails := []\<rparr>)"

lemma demo_start: "core_start demo0" "fresh (mc_uuid (demoCall ''j'' srv)) demo0"
  by (simp_all add: core_start_def demo0_def fresh_def)

lemma demo_worked: "(core_step demoEnv)\<^sup>*\<^sup>* demo0 (demoWorked srv n)"
proof (induction n)
  case 0
  have "core_step demoEnv demo0 (demoAsked srv)" unfolding demoAsked_def by (rule core_step.Request [OF demo_start(2)])
  then show ?case by (simp add: demoWorked_def)
next
  case (Suc n)
  have "core_step demoEnv (demoWorked srv n) (demoWorked srv (Suc n))" using core_step.Work [of demoEnv "demoWorked srv n" 2 "''j''"] by (simp add: demoWorked_def)
  then show ?case using Suc by (rule rtranclp.rtrancl_into_rtrancl [rotated])
qed

definition demoView :: "bool core \<Rightarrow> bool \<times> job_state list \<times> nat \<times> tail list \<times> mod_state list \<times> (mod_error, string) result" where
  "demoView s = (co_world s, map jb_State (co_jobs s), length (co_workers s), co_tails s, map mr_State (co_modules s),
     fst (mod_Install demoEnv (demoCall ''k'' LocalID) ''web'' s))"

definition demoJob :: "bool core \<Rightarrow> nat \<times> bool \<times> string" where
  "demoJob s = (length (co_jobs s), finished (hd (co_jobs s)), jb_ID (hd (co_jobs s)))"

text \<open>An example of what the order of the statements of Install allows. Install marks the module as installing only after it has
  started the worker. A worker that is quicker has its result overwritten: the job has succeeded and the software is there, but the
  module is installing, no worker is left that could change this, and a further Install is refused as busy.\<close>

lemma quick_install_example:
  "(core_step demoEnv)\<^sup>*\<^sup>* demo0 demoLate \<and> co_world demoLate \<and> map jb_State (co_jobs demoLate) = [JobSuccess] \<and>
   length (co_workers demoLate) = 0 \<and> co_tails demoLate = [] \<and> map mr_State (co_modules demoLate) = [StateInstalling] \<and>
   fst (mod_Install demoEnv (demoCall ''k'' LocalID) ''web'' demoLate) = Err ModuleBusy"
proof -
  have "length (co_tails (demoWorked LocalID 7)) = 1" by code_simp
  then have "co_tails (demoWorked LocalID 7) = [] @ hd (co_tails (demoWorked LocalID 7)) # []" by (cases "co_tails (demoWorked LocalID 7)") auto
  from core_step.Tail [OF this, of demoEnv 3] have "core_step demoEnv (demoWorked LocalID 7) demoLate" by (simp add: demoLate_def)
  then have "(core_step demoEnv)\<^sup>*\<^sup>* demo0 demoLate" using demo_worked [of LocalID 7] by (rule rtranclp.rtrancl_into_rtrancl [rotated])
  moreover have "demoView demoLate = (True, [JobSuccess], 0, [], [StateInstalling], Err ModuleBusy)" by code_simp
  ultimately show ?thesis unfolding demoView_def prod.inject by (intro conjI) simp_all
qed

theorem job_rows_well_formed_witness:
  "distinct (map jb_ID (co_jobs (demoWorked LocalID 3))) \<and> list_all job_ok (co_jobs (demoWorked LocalID 3)) \<and> length (co_jobs (demoWorked LocalID 3)) = 1"
proof -
  have "length (co_jobs (demoWorked LocalID 3)) = 1" by code_simp
  then show ?thesis using job_rows_well_formed [OF demo_start(1) demo_worked [of LocalID 3]] by blast
qed

theorem ended_jobs_stay_ended_witness:
  "\<exists>j j'. j \<in> set (co_jobs (demoWorked LocalID 6)) \<and> finished j \<and> j' \<in> set (co_jobs (demoWorked LocalID 7)) \<and> jb_ID j' = jb_ID j \<and> finished j'"
proof -
  let ?j = "hd (co_jobs (demoWorked LocalID 6))" and ?j' = "hd (co_jobs (demoWorked LocalID 7))"
  have s: "core_step demoEnv (demoWorked LocalID 6) (demoWorked LocalID 7)"
    using core_step.Work [of demoEnv "demoWorked LocalID 6" 2 "''j''"] by (simp add: demoWorked_def eval_nat_numeral)
  have "demoJob (demoWorked LocalID 6) = (1, True, ''j'')" by code_simp
  moreover have "demoJob (demoWorked LocalID 7) = (1, True, ''j'')" by code_simp
  ultimately have f: "?j \<in> set (co_jobs (demoWorked LocalID 6))" "?j' \<in> set (co_jobs (demoWorked LocalID 7))" "finished ?j" "jb_ID ?j' = jb_ID ?j"
    unfolding demoJob_def prod.inject by (metis hd_in_set length_0_conv zero_neq_one)+
  from ended_jobs_stay_ended [OF demo_start(1) demo_worked s f(1,3,2,4)] f show ?thesis by blast
qed

theorem every_worker_ends_witness:
  "\<exists>w n. w \<in> set (co_workers (demoWorked LocalID 1)) \<and> wk_Job w \<notin> wk_Job ` set (co_workers ((advance demoEnv 9 (wk_Job w) ^^ n) (demoWorked LocalID 1)))"
proof -
  let ?w = "hd (co_workers (demoWorked LocalID 1))"
  have "co_faults (demoWorked LocalID 1) = []" "length (co_workers (demoWorked LocalID 1)) = 1" "wk_PC ?w = AtWork" by code_simp+
  then have f: "co_faults (demoWorked LocalID 1) = []" "?w \<in> set (co_workers (demoWorked LocalID 1))" "wk_PC ?w \<noteq> AtExit"
    by (auto intro: hd_in_set)
  from every_worker_ends [OF demo_start(1) demo_worked f, of 9] f(2) show ?thesis by blast
qed

theorem late_worker_strands_job_witness:
  "\<exists>s w j. (core_step demoEnv)\<^sup>*\<^sup>* demo0 s \<and> w \<in> set (co_workers s) \<and> j \<in> set (co_jobs ((advance demoEnv 9 (wk_Job w) ^^ 3) s)) \<and>
     jb_State j = JobRunning \<and> wk_Job w \<notin> wk_Job ` set (co_workers ((advance demoEnv 9 (wk_Job w) ^^ 3) s))"
proof -
  let ?s = "(demoWorked LocalID 4)\<lparr>co_workers := map (late ''j'') (co_workers (demoWorked LocalID 4))\<rparr>"
  let ?w = "hd (co_workers ?s)" and ?j = "hd (co_jobs ?s)" and ?c = "demoCall ''k'' LocalID"
  have "core_step demoEnv (demoWorked LocalID 4) ?s" by (rule core_step.Late)
  then have r: "(core_step demoEnv)\<^sup>*\<^sup>* demo0 ?s" using demo_worked [of LocalID 4] by (rule rtranclp.rtrancl_into_rtrancl [rotated])
  have e: "length (co_workers ?s) = 1" "length (co_jobs ?s) = 1" "wk_PC ?w = AtRecord None" "wk_Late ?w" "jb_ID ?j = wk_Job ?w"
    "jb_State ?j = JobRunning" "mc_server ?c = jb_Server ?j" by code_simp+
  then have m: "?w \<in> set (co_workers ?s)" "?j \<in> set (co_jobs ?s)" by (metis hd_in_set length_0_conv zero_neq_one)+
  have "\<not> finished ?j" using e(6) by (simp add: finished_def)
  from late_worker_strands_job [OF demo_start(1) r m(1) e(3,4) m(2) e(5) this e(7), of 9] r m e(6) show ?thesis by metis
qed


theorem remote_jobs_stuck_after_restart_witness:
  "\<exists>j. j \<in> set (co_jobs (restartCore demoEnv 5 (demoWorked ''remote'' 1))) \<and> jb_State j = JobRunning \<and>
    fst (handle_module demoEnv (demoCall ''k'' ''remote'') (RCancelJob (jb_ID j)) (restartCore demoEnv 5 (demoWorked ''remote'' 1))) \<in> {409, 500}"
proof -
  let ?j = "hd (co_jobs (demoWorked ''remote'' 1))"
  have "length (co_jobs (demoWorked ''remote'' 1)) = 1" "jb_State ?j = JobRunning" "jb_Server ?j = ''remote''" by code_simp+
  then have f: "?j \<in> set (co_jobs (demoWorked ''remote'' 1))" "jb_Server ?j \<noteq> LocalID" "\<not> finished ?j"
      "mc_server (demoCall ''k'' ''remote'') = jb_Server ?j" "jb_State ?j = JobRunning"
    by (auto intro: hd_in_set simp: finished_def demoCall_def LocalID_def)
  from remote_jobs_stuck_after_restart [OF demo_start(1) demo_worked f(1-4), of 5] f(5) show ?thesis by blast
qed

theorem recovery_marks_newest_witness:
  "map jb_State (co_jobs (snd (RecoverInterruptedJobs 5 LocalID (demoWorked LocalID 1)))) = [JobError] \<and> map jb_State (co_jobs (demoWorked LocalID 1)) = [JobRunning]"
proof -
  have "co_faults (demoWorked LocalID 1) = []" "distinct (map jb_ID (co_jobs (demoWorked LocalID 1)))" by code_simp+
  note recovery_marks_newest [OF this, of 5 LocalID]
  moreover have "map jb_State (map (\<lambda>j. if j \<in> set (listed LocalID JobPending (co_jobs (demoWorked LocalID 1))) \<union> set (listed LocalID JobRunning (co_jobs (demoWorked LocalID 1)))
      then setJob 5 JobError (jb_Output j) interruptedMessage j else j) (co_jobs (demoWorked LocalID 1))) = [JobError]" by code_simp
  moreover have "map jb_State (co_jobs (demoWorked LocalID 1)) = [JobRunning]" by code_simp
  ultimately show ?thesis by simp
qed

end
