(* ===== verification/Spec2Isabelle.thy ===== *)
theory Spec2Isabelle
  imports Nginx_Site Agent_System Core_Updater Core_Auth Backup_Restore Core_Jobs
begin

text \<open>
  OpenDeploy manages Linux servers. Three programs share the work: the unprivileged Core (\<open>cmd/core\<close>,
  \<open>internal/core\<close>) with its HTTP interface and its SQLite database; the privileged Agent (\<open>cmd/agent\<close>,
  \<open>internal/agent\<close>), a gRPC server that runs commands and changes files, packages, services, sites, the firewall and
  the cron tables for it; and the root worker (\<open>cmd/cli update --apply\<close>, \<open>internal/update\<close>) that serves the
  request which the Core has left in a file through the Agent, and installs signed releases.

  \<^bold>\<open>Go and the operating system.\<close> \<open>Go_Prelude\<close> has results, actions with state and error (\<open>bindS\<close>, \<open>guardS\<close>,
  \<open>wrapS\<close>) and the functions of \<open>strings\<close>, \<open>strconv\<close> and \<open>bufio\<close> the code uses; \<open>Go_Path\<close> the functions of
  \<open>path/filepath\<close>; \<open>Go_Regexp\<close> and \<open>Go_Replace\<close> the regular expressions of the code as character classes with
  repetitions; \<open>Go_OS\<close> a file system of directories, files and symbolic links addressed by paths, where any call
  may fail, as a list of faults says; \<open>Go_Links\<close> the calls on paths that run through symbolic links, and on paths without any;
  \<open>Go_Float\<close> the rounding of \<open>float64\<close> arithmetic to nearest, ties to even. \<open>File_Store\<close> has the interface of a managed file store as a locale: what a read
  returns after a write, what a failing write leaves.

  \<^bold>\<open>The Agent.\<close>
  \<^item> \<open>Agent_Executor\<close> (\<open>executor/shell.go\<close>): the allowlist, the argument validators, bounded output, line streaming.
  \<^item> \<open>Agent_Filesystem\<close> (\<open>filesystem/manager.go\<close>, \<open>path_resolver.go\<close>): resolved paths below the managed roots,
    atomic writes, modes. It interprets the locale of \<open>File_Store\<close>.
  \<^item> \<open>Agent_Services\<close> (\<open>systemd\<close>, \<open>packages\<close>), \<open>Agent_Firewall\<close> (\<open>firewall/ufw.go\<close>), \<open>Agent_Stats\<close> (\<open>stats\<close>),
    \<open>Agent_Archive\<close> (\<open>archive/manager.go\<close>), \<open>Agent_Cron\<close> (\<open>cron\<close> and the cron handlers of the server),
    \<open>Nginx_Site\<close> (\<open>nginxsite\<close>, \<open>siteruntime\<close>).
  \<^item> \<open>Agent_Server\<close> (\<open>server/server.go\<close>): every request handler over these managers, with the panics of the source.
  \<^item> \<open>Agent_System\<close>: the whole gRPC service, the handlers of \<open>server.go\<close> and of \<open>cron.go\<close>, in any sequence.

  \<^bold>\<open>Updates.\<close> \<open>Update_Manifest\<close> (\<open>manifest.go\<close>, \<open>github.go\<close>, \<open>verify.go\<close>) validates manifests, requests and asset URLs;
  \<open>Update_Engine\<close> (\<open>engine.go\<close>, \<open>lock_unix.go\<close>) is Apply, Rollback and History over the file system model, step by
  step; \<open>Update_Version\<close> the comparison of versions; \<open>Core_Updater\<close> (\<open>core/updater/service.go\<close> and the worker of
  \<open>cmd/cli/main.go\<close>) the queue of one request between Core and worker, whose calls are interleaved at their accesses to the request
  file, with the locale \<open>request_slot\<close> for what
  they need of the Agent's file calls, interpreted on the files of \<open>Agent_Filesystem\<close>.

  \<^bold>\<open>Users.\<close> \<open>Core_Auth\<close> (\<open>core/auth\<close>, \<open>core/server/middleware/auth.go\<close>, \<open>core/servercontext\<close>, \<open>core/audit\<close>) has the
  tables of users and sessions with the constraints of the schema, the service over them, and the routes with their
  middleware.

  \<^bold>\<open>System backup.\<close> \<open>Backup_Engine\<close> (\<open>internal/backup\<close>) is Create, Verify, Restore and History over the file
  system model; \<open>Backup_Restore\<close> shows what Restore leaves. Its locale \<open>undo_log\<close> says what a rollback over copies
  that each replace one file does, and is interpreted on the copies of the engine.

  \<^bold>\<open>Modules.\<close> \<open>Core_Modules\<close> (\<open>core/module\<close>, the interfaces of \<open>pkg/contract/module.go\<close>, \<open>bootstrapModules\<close> of
  \<open>core/app/fx.go\<close>) has the tables of modules and jobs, the service with its handlers, and the workers that run jobs;
  \<open>Core_Jobs\<close> makes them a transition system in which requests, the statements they leave for later, steps of workers,
  expiring contexts and restarts follow each other in any order.

  \<^bold>\<open>What the lemmas show.\<close> Confinement: commands outside the allowlist are not started, paths outside the roots are not
  touched, extraction stays in its directory, protected processes and locked jobs stay. Transactions: writes, site
  changes, cron changes and updates either take effect or leave (or restore) what was there, for every position of a
  failing call; where the code does not achieve this, the theorem of kind error shows the history. Refinement: the
  site manager implements the all-or-nothing update, the request file a queue of one place as long as the Core makes one call at a time (and
  not when calls overlap), the version comparison the precedence of Semantic Versioning on the pre-releases that it
  allows, apart from numbers of 2^63 or more and texts of a hyphen and digits. Invariants over arbitrary sequences of requests: of the Agent, the cron store,
  the database of users, and the tables of modules and jobs. Termination: every worker of a job ends, whatever its module
  returns, and ends its job unless the time for its last statements is over, which is shown to strand the job. Bounds: captured output, archive
  limits, CPU usage with wrap-around and rounding. Theorems of kind error are general statements of behaviour that the code
  should not have; two lemmas named as examples are single runs.

  \<^bold>\<open>Bounds and fuel.\<close> Resolution of a path follows at most the links the source or the kernel allows (255 and 40), and
  both give an error beyond; the scanner has the buffer limit of \<open>bufio\<close> (64 KiB); loops over input have the length
  of the input as fuel, and the lemmas on them show that it is enough; a worker takes at most seven steps; the recovery of jobs
  reads at most the hundred rows of the query's \<open>LIMIT\<close>. A list of faults may have any length, and is
  consumed from the front, one entry per system call or SQL statement; the empty list is a host that works.

  \<^bold>\<open>Parameters.\<close> Code of other packages is an argument: JSON and gRPC decoding, HTTP exchanges, SHA-256, bcrypt, tokens,
  gzip and tar decoding, external programs, random values and the clock. Theorems that need something of it name it as
  a hypothesis, and their witnesses instantiate it.

  \<^bold>\<open>Not modelled.\<close> Generated gRPC code, start-up and dependency injection, logging, and the goroutines of the streams
  (their results are sequences; only the workers of jobs are interleaved). Of the Core, the site service, remote servers
  with their control plane, the settings and the dashboard, and of the server modules the texts they generate, are not
  part of the development. Modules reach it as records of functions, so that its theorems hold for all of them.
\<close>

end
